(* ===== verification/Byte_Buffer.thy ===== *)
theory Byte_Buffer
  imports Prelude
begin

text \<open>
  \<open>ByteBuffer\<close> of \<open>src/server/shared/Packets\<close>: a byte vector with a read and a write position.
  Every operation that may throw or assert returns a sum, \<open>Inl\<close> the exception. Positions and
  sizes (\<open>size_t\<close>) are natural numbers: a buffer stays far below \<open>2\<^sup>6\<^sup>4\<close> bytes (\<open>append\<close> asserts
  fewer than ten million). The UTF-8 check of \<open>ReadCString\<close> is the third-party function
  \<open>utf8::is_valid\<close>, a parameter of the model. Capacity reservations have no observable effect.
\<close>

section \<open>State, exceptions, operations\<close>

record ByteBuffer =
  rpos :: nat
  wpos :: nat
  storage :: bytes

datatype buffer_exn =
    ByteBufferPositionException bool nat nat nat
  | ByteBufferInvalidValueException string string
  | ByteBufferException
  | AssertionFailed

text \<open>The message a position exception carries; the parameters are \<open>add\<close>, \<open>pos\<close>, \<open>size\<close>, \<open>valueSize\<close>.\<close>

definition position_message :: "bool \<Rightarrow> nat \<Rightarrow> nat \<Rightarrow> nat \<Rightarrow> string" where
  "position_message add pos sz valueSize =
     ''Attempted to '' @ (if add then ''put'' else ''get'') @ '' value with size: ''
     @ show_nat valueSize @ '' in ByteBuffer (pos: '' @ show_nat pos @ '' size: '' @ show_nat sz @ '')''"

definition new_buffer :: ByteBuffer where
  "new_buffer = \<lparr>rpos = 0, wpos = 0, storage = []\<rparr>"

definition bb_size :: "ByteBuffer \<Rightarrow> nat" where
  "bb_size b = length (storage b)"

definition bb_empty :: "ByteBuffer \<Rightarrow> bool" where
  "bb_empty b = (storage b = [])"

definition bb_clear :: "ByteBuffer \<Rightarrow> ByteBuffer" where
  "bb_clear b = b\<lparr>rpos := 0, wpos := 0, storage := []\<rparr>"

definition set_rpos :: "nat \<Rightarrow> ByteBuffer \<Rightarrow> ByteBuffer" where
  "set_rpos p b = b\<lparr>rpos := p\<rparr>"

definition set_wpos :: "nat \<Rightarrow> ByteBuffer \<Rightarrow> ByteBuffer" where
  "set_wpos p b = b\<lparr>wpos := p\<rparr>"

definition rfinish :: "ByteBuffer \<Rightarrow> ByteBuffer" where
  "rfinish b = b\<lparr>rpos := wpos b\<rparr>"

definition contents :: "ByteBuffer \<Rightarrow> buffer_exn + bytes" where
  "contents b = (if storage b = [] then Inl ByteBufferException else Inr (storage b))"

definition bb_index :: "ByteBuffer \<Rightarrow> nat \<Rightarrow> buffer_exn + u8" where
  "bb_index b pos =
     (if bb_size b \<le> pos then Inl (ByteBufferPositionException False pos 1 (bb_size b))
      else Inr (storage b ! pos))"

definition bb_resize :: "nat \<Rightarrow> ByteBuffer \<Rightarrow> ByteBuffer" where
  "bb_resize n b =
     b\<lparr>storage := take n (storage b) @ replicate (n - bb_size b) 0, rpos := 0, wpos := n\<rparr>"

definition append :: "bytes \<Rightarrow> ByteBuffer \<Rightarrow> buffer_exn + ByteBuffer" where
  "append src b =
     (if src = [] then Inl AssertionFailed
      else if \<not> bb_size b < 10000000 then Inl AssertionFailed
      else let newSize = wpos b + length src;
               st = (if bb_size b < newSize then storage b @ replicate (newSize - bb_size b) 0
                     else storage b)
           in Inr (b\<lparr>storage := take (wpos b) st @ src @ drop newSize st, wpos := newSize\<rparr>))"

definition put :: "nat \<Rightarrow> bytes \<Rightarrow> ByteBuffer \<Rightarrow> buffer_exn + ByteBuffer" where
  "put pos src b =
     (if \<not> pos + length src \<le> bb_size b then Inl AssertionFailed
      else if src = [] then Inl AssertionFailed
      else Inr (b\<lparr>storage := take pos (storage b) @ src @ drop (pos + length src) (storage b)\<rparr>))"

definition append_buffer :: "ByteBuffer \<Rightarrow> ByteBuffer \<Rightarrow> buffer_exn + ByteBuffer" where
  "append_buffer other b =
     (if wpos other \<noteq> 0 then
        (case contents other of Inl e \<Rightarrow> Inl e | Inr c \<Rightarrow> append (take (wpos other) c) b)
      else Inr b)"

text \<open>\<open>append<T>\<close> and the stream operators that write.\<close>

definition append_int :: "nat \<Rightarrow> 'a::len word \<Rightarrow> ByteBuffer \<Rightarrow> buffer_exn + ByteBuffer" where
  "append_int n w b = append (le_bytes n w) b"

definition write_u8 :: "u8 \<Rightarrow> ByteBuffer \<Rightarrow> buffer_exn + ByteBuffer" where
  "write_u8 = append_int 1"

definition write_u16 :: "u16 \<Rightarrow> ByteBuffer \<Rightarrow> buffer_exn + ByteBuffer" where
  "write_u16 = append_int 2"

definition write_u32 :: "u32 \<Rightarrow> ByteBuffer \<Rightarrow> buffer_exn + ByteBuffer" where
  "write_u32 = append_int 4"

definition write_u64 :: "u64 \<Rightarrow> ByteBuffer \<Rightarrow> buffer_exn + ByteBuffer" where
  "write_u64 = append_int 8"

definition write_bool :: "bool \<Rightarrow> ByteBuffer \<Rightarrow> buffer_exn + ByteBuffer" where
  "write_bool v = write_u8 (if v then 1 else 0)"

definition write_string :: "string \<Rightarrow> ByteBuffer \<Rightarrow> buffer_exn + ByteBuffer" where
  "write_string s b =
     (case (if s = [] then Inr b else append (map byte_of_char s) b) of
        Inl e \<Rightarrow> Inl e
      | Inr b' \<Rightarrow> write_u8 0 b')"

text \<open>\<open>read<T>\<close> and the stream operators that read.\<close>

definition read_at :: "nat \<Rightarrow> ByteBuffer \<Rightarrow> nat \<Rightarrow> buffer_exn + 'a::len word" where
  "read_at n b pos =
     (if pos + n > bb_size b then Inl (ByteBufferPositionException False pos n (bb_size b))
      else Inr (le_word (take n (drop pos (storage b)))))"

definition read_int :: "nat \<Rightarrow> ByteBuffer \<Rightarrow> buffer_exn + 'a::len word \<times> ByteBuffer" where
  "read_int n b =
     (case read_at n b (rpos b) of
        Inl e \<Rightarrow> Inl e
      | Inr r \<Rightarrow> Inr (r, b\<lparr>rpos := rpos b + n\<rparr>))"

definition read_u8 :: "ByteBuffer \<Rightarrow> buffer_exn + u8 \<times> ByteBuffer" where
  "read_u8 = read_int 1"

definition read_u16 :: "ByteBuffer \<Rightarrow> buffer_exn + u16 \<times> ByteBuffer" where
  "read_u16 = read_int 2"

definition read_u32 :: "ByteBuffer \<Rightarrow> buffer_exn + u32 \<times> ByteBuffer" where
  "read_u32 = read_int 4"

definition read_u64 :: "ByteBuffer \<Rightarrow> buffer_exn + u64 \<times> ByteBuffer" where
  "read_u64 = read_int 8"

text \<open>\<open>read<char>() > 0\<close>: \<open>char\<close> is signed, so the bytes from 128 on read as \<open>false\<close>.\<close>

definition read_bool :: "ByteBuffer \<Rightarrow> buffer_exn + bool \<times> ByteBuffer" where
  "read_bool b = (case read_u8 b of Inl e \<Rightarrow> Inl e | Inr (c, b') \<Rightarrow> Inr (0 < sint c, b'))"

definition read_skip :: "nat \<Rightarrow> ByteBuffer \<Rightarrow> buffer_exn + ByteBuffer" where
  "read_skip skip b =
     (if rpos b + skip > bb_size b then Inl (ByteBufferPositionException False (rpos b) skip (bb_size b))
      else Inr (b\<lparr>rpos := rpos b + skip\<rparr>))"

definition read_bytes :: "nat \<Rightarrow> ByteBuffer \<Rightarrow> buffer_exn + bytes \<times> ByteBuffer" where
  "read_bytes len b =
     (if rpos b + len > bb_size b then Inl (ByteBufferPositionException False (rpos b) len (bb_size b))
      else Inr (take len (drop (rpos b) (storage b)), b\<lparr>rpos := rpos b + len\<rparr>))"

lemma read_u8_advances:
  "read_u8 b = Inr (c, b') \<Longrightarrow> storage b' = storage b \<and> rpos b' = rpos b + 1 \<and> wpos b' = wpos b"
  by (auto simp: read_u8_def read_int_def split: sum.splits)

function cstring_loop :: "ByteBuffer \<Rightarrow> string \<Rightarrow> buffer_exn + string \<times> ByteBuffer" where
  "cstring_loop b value =
     (if rpos b < bb_size b then
        (case read_u8 b of
           Inl e \<Rightarrow> Inl e
         | Inr (c, b') \<Rightarrow>
             if c = 0 then Inr (value, b')
             else cstring_loop b' (value @ [char_of_byte c]))
      else Inr (value, b))"
  by pat_completeness auto
termination
  by (relation "measure (\<lambda>(b, value). bb_size b - rpos b)")
     (auto simp: bb_size_def dest: read_u8_advances)

declare cstring_loop.simps [simp del]

definition ReadCString :: "(string \<Rightarrow> bool) \<Rightarrow> bool \<Rightarrow> ByteBuffer \<Rightarrow> buffer_exn + string \<times> ByteBuffer" where
  "ReadCString utf8_valid requireValidUtf8 b =
     (case cstring_loop b [] of
        Inl e \<Rightarrow> Inl e
      | Inr (value, b') \<Rightarrow>
          if requireValidUtf8 \<and> \<not> utf8_valid value
          then Inl (ByteBufferInvalidValueException ''string'' value)
          else Inr (value, b'))"

definition read_string :: "(string \<Rightarrow> bool) \<Rightarrow> ByteBuffer \<Rightarrow> buffer_exn + string \<times> ByteBuffer" where
  "read_string utf8_valid = ReadCString utf8_valid True"

text \<open>Packed GUIDs: a mark byte that says which of the eight bytes follow.\<close>

lemma drop_byte_less: "(g :: u64) \<noteq> 0 \<Longrightarrow> unat (drop_bit 8 g) < unat g"
proof -
  assume "g \<noteq> 0"
  then have "0 < unat g" by (simp add: unat_gt_0)
  moreover have "unat (drop_bit 8 g) = unat g div 256"
    by (simp only: unat_drop_bit_eq) (simp add: drop_bit_eq_div)
  ultimately show ?thesis by simp
qed

function pack_loop :: "nat \<Rightarrow> u64 \<Rightarrow> u8 \<Rightarrow> bytes \<Rightarrow> u8 \<times> bytes" where
  "pack_loop i guid mark out =
     (if guid = 0 then (mark, out)
      else if guid AND 0xFF \<noteq> 0
        then pack_loop (Suc i) (drop_bit 8 guid) (mark OR push_bit i 1) (out @ [ucast (guid AND 0xFF)])
      else pack_loop (Suc i) (drop_bit 8 guid) mark out)"
  by pat_completeness auto
termination
  by (relation "measure (\<lambda>(i, guid, mark, out). unat guid)") (auto simp: drop_byte_less)

declare pack_loop.simps [simp del]

definition appendPackGUID :: "u64 \<Rightarrow> ByteBuffer \<Rightarrow> buffer_exn + ByteBuffer" where
  "appendPackGUID guid b = (case pack_loop 0 guid 0 [] of (mark, out) \<Rightarrow> append (mark # out) b)"

fun unpack_loop :: "nat list \<Rightarrow> u8 \<Rightarrow> u64 \<Rightarrow> ByteBuffer \<Rightarrow> buffer_exn + u64 \<times> ByteBuffer" where
  "unpack_loop [] guidmark guid b = Inr (guid, b)"
| "unpack_loop (i # is) guidmark guid b =
     (if guidmark AND push_bit i 1 \<noteq> 0 then
        (if rpos b + 1 > bb_size b then Inl (ByteBufferPositionException False (rpos b) 1 (bb_size b))
         else case read_u8 b of
                Inl e \<Rightarrow> Inl e
              | Inr (bt, b') \<Rightarrow> unpack_loop is guidmark (guid OR push_bit (i * 8) (ucast bt)) b')
      else unpack_loop is guidmark guid b)"

definition readPackGUID :: "ByteBuffer \<Rightarrow> buffer_exn + u64 \<times> ByteBuffer" where
  "readPackGUID b =
     (if rpos b + 1 > bb_size b then Inl (ByteBufferPositionException False (rpos b) 1 (bb_size b))
      else case read_u8 b of
             Inl e \<Rightarrow> Inl e
           | Inr (guidmark, b') \<Rightarrow> unpack_loop [0..<8] guidmark 0 b')"

section \<open>What a value looks like on the wire\<close>

definition at_end :: "ByteBuffer \<Rightarrow> bool" where
  "at_end b \<longleftrightarrow> wpos b = bb_size b"

definition bb_extend :: "ByteBuffer \<Rightarrow> bytes \<Rightarrow> ByteBuffer" where
  "bb_extend b bs = b\<lparr>storage := storage b @ bs, wpos := wpos b + length bs\<rparr>"

lemma bb_extend_simps [simp]:
  "storage (bb_extend b bs) = storage b @ bs" "rpos (bb_extend b bs) = rpos b"
  "wpos (bb_extend b bs) = wpos b + length bs" "bb_extend (bb_extend b xs) ys = bb_extend b (xs @ ys)"
  "bb_extend b [] = b"
  by (simp_all add: bb_extend_def)

lemma at_end_extend [simp]: "at_end (bb_extend b bs) = at_end b"
  by (simp add: at_end_def bb_size_def)

lemma new_buffer_simps [simp]:
  "at_end new_buffer" "bb_size new_buffer = 0" "storage new_buffer = []" "rpos new_buffer = 0"
  "wpos new_buffer = 0"
  by (simp_all add: at_end_def bb_size_def new_buffer_def)

lemma bb_size_extend [simp]: "bb_size (bb_extend b bs) = bb_size b + length bs"
  by (simp add: bb_size_def)

lemma append_at_end:
  "at_end b \<Longrightarrow> src \<noteq> [] \<Longrightarrow> bb_size b < 10000000 \<Longrightarrow> append src b = Inr (bb_extend b src)"
  by (simp add: append_def at_end_def bb_size_def bb_extend_def Let_def)

text \<open>
  The contract of one wire format: what a write leaves behind is the encoding of the value, and
  a read positioned at the encoding returns the value and steps over it.
\<close>

locale wire_format =
  fixes wr :: "'v \<Rightarrow> ByteBuffer \<Rightarrow> buffer_exn + ByteBuffer"
    and rd :: "ByteBuffer \<Rightarrow> buffer_exn + 'v \<times> ByteBuffer"
    and enc :: "'v \<Rightarrow> bytes"
    and ok :: "'v \<Rightarrow> bool"
  assumes wr_enc: "ok v \<Longrightarrow> at_end b \<Longrightarrow> bb_size b + length (enc v) < 10000000 \<Longrightarrow>
      wr v b = Inr (bb_extend b (enc v))"
    and rd_enc: "ok v \<Longrightarrow> storage b = pre @ enc v @ post \<Longrightarrow> rpos b = length pre \<Longrightarrow>
      rd b = Inr (v, b\<lparr>rpos := rpos b + length (enc v)\<rparr>)"
begin

lemma write_read:
  assumes "ok v" "at_end b" "bb_size b + length (enc v) < 10000000" "rpos b = bb_size b"
  shows "\<exists>b'. wr v b = Inr b' \<and> rd b' = Inr (v, b'\<lparr>rpos := bb_size b'\<rparr>)"
  using assms wr_enc [OF assms(1-3)] rd_enc [OF assms(1), of "bb_extend b (enc v)" "storage b" "[]"]
  by (simp add: bb_size_def)

end

lemma read_int_enc:
  assumes "LENGTH('a) \<le> 8 * n" and "storage b = pre @ le_bytes n (w :: 'a::len word) @ post"
    and "rpos b = length pre"
  shows "read_int n b = Inr (w, b\<lparr>rpos := rpos b + n\<rparr>)"
  using assms by (simp add: read_int_def read_at_def bb_size_def le_word_le_bytes)

lemma int_format:
  assumes "LENGTH('a::len) \<le> 8 * n" "0 < n"
  shows "wire_format (append_int n :: 'a word \<Rightarrow> _) (read_int n) (le_bytes n) (\<lambda>_. True)"
proof
  fix v :: "'a word" and b
  assume "at_end b" "bb_size b + length (le_bytes n v) < 10000000"
  moreover have "le_bytes n v \<noteq> []"
    using assms(2) by (metis length_0_conv length_le_bytes less_irrefl)
  ultimately show "append_int n v b = Inr (bb_extend b (le_bytes n v))"
    by (simp add: append_int_def append_at_end)
qed (use assms in \<open>simp add: read_int_enc\<close>)

interpretation u8: wire_format write_u8 read_u8 "le_bytes 1" "\<lambda>_. True"
  unfolding write_u8_def read_u8_def by (rule int_format) simp_all

interpretation u16: wire_format write_u16 read_u16 "le_bytes 2" "\<lambda>_. True"
  unfolding write_u16_def read_u16_def by (rule int_format) simp_all

interpretation u32: wire_format write_u32 read_u32 "le_bytes 4" "\<lambda>_. True"
  unfolding write_u32_def read_u32_def by (rule int_format) simp_all

interpretation u64: wire_format write_u64 read_u64 "le_bytes 8" "\<lambda>_. True"
  unfolding write_u64_def read_u64_def by (rule int_format) simp_all

definition bool_bytes :: "bool \<Rightarrow> bytes" where
  "bool_bytes v = le_bytes 1 (if v then 1 else 0 :: u8)"

interpretation bool: wire_format write_bool read_bool bool_bytes "\<lambda>_. True"
proof
  fix v and b :: ByteBuffer
  assume "at_end b" "bb_size b + length (bool_bytes v) < 10000000"
  then show "write_bool v b = Inr (bb_extend b (bool_bytes v))"
    by (simp add: write_bool_def bool_bytes_def u8.wr_enc)
next
  fix v and b :: ByteBuffer and pre post
  assume "storage b = pre @ bool_bytes v @ post" "rpos b = length pre"
  then show "read_bool b = Inr (v, b\<lparr>rpos := rpos b + length (bool_bytes v)\<rparr>)"
    unfolding bool_bytes_def by (simp add: read_bool_def u8.rd_enc [OF TrueI])
qed

definition cstring_bytes :: "string \<Rightarrow> bytes" where
  "cstring_bytes s = map byte_of_char s @ [0]"

lemma byte_of_char_eq_0 [simp]: "byte_of_char c = 0 \<longleftrightarrow> c = CHR 0x00"
proof -
  have "byte_of_char (CHR 0x00) = 0" by code_simp
  then show ?thesis by (metis char_of_byte_of_char)
qed

lemma le_bytes_1 [simp]: "le_bytes 1 (w :: u8) = [w]"
  by (simp add: le_bytes_def)

lemma le_bytes_Suc_0 [simp]: "le_bytes (Suc 0) (w :: u8) = [w]"
  by (simp add: le_bytes_def)

lemma read_u8_next:
  "storage b = pre @ c # post \<Longrightarrow> rpos b = length pre \<Longrightarrow> read_u8 b = Inr (c, b\<lparr>rpos := rpos b + 1\<rparr>)"
  using u8.rd_enc [OF TrueI, of b pre c post] by simp

lemma cstring_loop_enc:
  "storage b = pre @ cstring_bytes s @ post \<Longrightarrow> rpos b = length pre \<Longrightarrow> CHR 0x00 \<notin> set s \<Longrightarrow>
   cstring_loop b acc = Inr (acc @ s, b\<lparr>rpos := rpos b + Suc (length s)\<rparr>)"
proof (induction s arbitrary: b pre acc)
  case Nil
  then show ?case
    using read_u8_next [of b pre 0 post]
    by (simp add: cstring_loop.simps [of b] cstring_bytes_def bb_size_def)
next
  case (Cons c s)
  let ?b = "b\<lparr>rpos := rpos b + 1\<rparr>"
  have r: "read_u8 b = Inr (byte_of_char c, ?b)"
    using Cons.prems by (intro read_u8_next) (auto simp: cstring_bytes_def)
  have "cstring_loop ?b (acc @ [c]) = Inr ((acc @ [c]) @ s, ?b\<lparr>rpos := rpos ?b + Suc (length s)\<rparr>)"
    using Cons.prems by (intro Cons.IH [of _ "pre @ [byte_of_char c]"]) (auto simp: cstring_bytes_def)
  with r Cons.prems show ?case
    by (auto simp: cstring_loop.simps [of b] bb_size_def cstring_bytes_def)
qed

interpretation cstring: wire_format write_string "read_string utf8_valid" cstring_bytes
  "\<lambda>s. utf8_valid s \<and> CHR 0x00 \<notin> set s" for utf8_valid
proof
  fix s and b :: ByteBuffer
  assume s: "utf8_valid s \<and> CHR 0x00 \<notin> set s" and b: "at_end b"
    and size: "bb_size b + length (cstring_bytes s) < 10000000"
  then have "(if s = [] then Inr b else append (map byte_of_char s) b)
      = Inr (bb_extend b (map byte_of_char s))"
    by (simp add: append_at_end cstring_bytes_def)
  moreover have "write_u8 0 (bb_extend b (map byte_of_char s))
      = Inr (bb_extend (bb_extend b (map byte_of_char s)) [0])"
    using u8.wr_enc [OF TrueI, of "bb_extend b (map byte_of_char s)" 0] b size
    by (simp add: bb_size_def cstring_bytes_def)
  ultimately show "write_string s b = Inr (bb_extend b (cstring_bytes s))"
    by (simp add: write_string_def cstring_bytes_def split del: if_split)
next
  fix s and b :: ByteBuffer and pre post
  assume "utf8_valid s \<and> CHR 0x00 \<notin> set s" "storage b = pre @ cstring_bytes s @ post"
    "rpos b = length pre"
  then show "read_string utf8_valid b = Inr (s, b\<lparr>rpos := rpos b + length (cstring_bytes s)\<rparr>)"
    by (simp add: read_string_def ReadCString_def cstring_loop_enc) (simp add: cstring_bytes_def)
qed

section \<open>Packed GUIDs\<close>

fun mark_from :: "nat \<Rightarrow> bytes \<Rightarrow> u8" where
  "mark_from i [] = 0"
| "mark_from i (b # bs) = (if b \<noteq> 0 then push_bit i 1 else 0) OR mark_from (Suc i) bs"

definition pack_bytes :: "u64 \<Rightarrow> bytes" where
  "pack_bytes g = mark_from 0 (le_bytes 8 g) # filter (\<lambda>b. b \<noteq> 0) (le_bytes 8 g)"

lemma le_bytes_zero: "le_bytes n (0 :: 'a::len word) = replicate n 0"
  by (induction n) (simp_all add: le_bytes_Suc)

lemma mark_from_replicate_0 [simp]: "mark_from i (replicate n 0) = 0"
  by (induction n arbitrary: i) auto

lemma ucast_ucast_byte [simp]: "(ucast (ucast (b :: u8) :: u64) :: u8) = b"
  by (rule bit_eqI) (auto simp: bit_simps)

lemma and_ff_ucast: "(g :: u64) AND 0xFF = ucast (ucast g :: u8)"
proof -
  have "(0xFF :: u64) = mask 8" by (simp add: mask_eq_exp_minus_1)
  moreover have "g AND mask 8 = ucast (ucast g :: u8)"
    by (rule bit_eqI) (auto simp: bit_simps)
  ultimately show ?thesis by simp
qed

lemma ucast_byte_eq_0 [simp]: "(ucast (b :: u8) :: u64) = 0 \<longleftrightarrow> b = 0"
  by (metis ucast_ucast_byte ucast_0)

lemma pack_loop_bytes:
  "take_bit (8 * n) guid = guid \<Longrightarrow>
   pack_loop i guid mark out
     = (mark OR mark_from i (le_bytes n guid), out @ filter (\<lambda>b. b \<noteq> 0) (le_bytes n guid))"
proof (induction n arbitrary: i guid mark out)
  case 0
  then show ?case by (simp add: pack_loop.simps)
next
  case (Suc n)
  show ?case
  proof (cases "guid = 0")
    case True
    then show ?thesis by (simp add: pack_loop.simps le_bytes_zero del: replicate_Suc)
  next
    case False
    have "take_bit (8 * n) (drop_bit 8 guid) = drop_bit 8 guid"
      using Suc.prems by (metis drop_bit_take_bit mult_Suc_right add_diff_cancel_left')
    note IH = Suc.IH [OF this]
    show ?thesis
      using False
      by (subst pack_loop.simps) (simp add: IH and_ff_ucast le_bytes_Suc or.assoc)
  qed
qed

lemma pack_loop_eq: "pack_loop 0 g 0 [] = (mark_from 0 (le_bytes 8 g), filter (\<lambda>b. b \<noteq> 0) (le_bytes 8 g))"
  using pack_loop_bytes [of 8 g 0 0 "[]"] by (simp add: take_bit_word_eq_self)

lemma bit_mark_from:
  "bit (mark_from i bs) j \<longleftrightarrow> j < 8 \<and> i \<le> j \<and> j < i + length bs \<and> bs ! (j - i) \<noteq> 0"
proof (induction bs arbitrary: i)
  case Nil
  then show ?case by simp
next
  case (Cons b bs)
  then show ?case
    by (cases "j = i") (auto simp: bit_simps Suc_diff_Suc nth_Cons' Suc_le_eq)
qed

lemma mark_test: "m AND 2 ^ i = 0 \<longleftrightarrow> \<not> bit (m :: u8) i"
proof
  assume m: "m AND 2 ^ i = 0"
  show "\<not> bit m i"
  proof
    assume "bit m i"
    then have "bit (m AND 2 ^ i) i"
      by (auto simp: bit_simps dest: bit_imp_le_length)
    with m show False by simp
  qed
next
  assume "\<not> bit m i"
  then show "m AND 2 ^ i = 0"
    by (intro bit_eqI) (auto simp: bit_simps)
qed

lemma unpack_loop_bytes:
  assumes "i + length bs = 8" and "\<And>j. i \<le> j \<Longrightarrow> j < 8 \<Longrightarrow> bit m j \<longleftrightarrow> bs ! (j - i) \<noteq> 0"
    and "storage b = pre @ filter (\<lambda>b. b \<noteq> 0) bs @ post" and "rpos b = length pre"
  shows "unpack_loop [i..<8] m g b
    = Inr (g OR push_bit (8 * i) (le_word bs), b\<lparr>rpos := rpos b + length (filter (\<lambda>b. b \<noteq> 0) bs)\<rparr>)"
  using assms
proof (induction bs arbitrary: i g b pre)
  case Nil
  then show ?case by simp
next
  case (Cons x bs)
  have i: "[i..<8] = i # [Suc i..<8]" using Cons.prems(1) by (simp add: upt_conv_Cons)
  have rest: "\<And>j. Suc i \<le> j \<Longrightarrow> j < 8 \<Longrightarrow> bit m j \<longleftrightarrow> bs ! (j - Suc i) \<noteq> 0"
    using Cons.prems(2) by (auto simp: Suc_diff_Suc [symmetric] less_eq_Suc_le)
  have mi: "bit m i \<longleftrightarrow> x \<noteq> 0" using Cons.prems(1,2) by force
  show ?case
  proof (cases "x = 0")
    case True
    with Cons.prems rest mi show ?thesis
      by (simp add: i mark_test Cons.IH [of "Suc i" b pre] push_bit_push_bit algebra_simps)
  next
    case False
    let ?b = "b\<lparr>rpos := rpos b + 1\<rparr>"
    have r: "read_u8 b = Inr (x, ?b)"
      using Cons.prems False by (intro read_u8_next) auto
    have "unpack_loop [Suc i..<8] m (g OR push_bit (i * 8) (ucast x)) ?b
        = Inr ((g OR push_bit (i * 8) (ucast x)) OR push_bit (8 * Suc i) (le_word bs),
               ?b\<lparr>rpos := rpos ?b + length (filter (\<lambda>b. b \<noteq> 0) bs)\<rparr>)"
      by (rule Cons.IH [where pre = "pre @ [x]"]) (use Cons.prems False rest in auto)
    with Cons.prems False mi r show ?thesis
      by (simp add: i mark_test bb_size_def or.assoc push_bit_or push_bit_push_bit algebra_simps)
  qed
qed

interpretation packed: wire_format appendPackGUID readPackGUID pack_bytes "\<lambda>_. True"
proof
  fix g and b :: ByteBuffer
  assume "at_end b" "bb_size b + length (pack_bytes g) < 10000000"
  then show "appendPackGUID g b = Inr (bb_extend b (pack_bytes g))"
    by (simp add: appendPackGUID_def pack_loop_eq pack_bytes_def append_at_end)
next
  fix g :: u64 and b :: ByteBuffer and pre post
  let ?bs = "le_bytes 8 g"
  let ?b = "b\<lparr>rpos := rpos b + 1\<rparr>"
  assume st: "storage b = pre @ pack_bytes g @ post" "rpos b = length pre"
  then have r: "read_u8 b = Inr (mark_from 0 ?bs, ?b)"
    by (intro read_u8_next) (auto simp: pack_bytes_def)
  have "unpack_loop [0..<8] (mark_from 0 ?bs) 0 ?b
      = Inr (0 OR push_bit (8 * 0) (le_word ?bs), ?b\<lparr>rpos := rpos ?b + length (filter (\<lambda>b. b \<noteq> 0) ?bs)\<rparr>)"
    by (rule unpack_loop_bytes [where pre = "pre @ [mark_from 0 ?bs]"])
       (use st in \<open>auto simp: bit_mark_from pack_bytes_def\<close>)
  with r st show "readPackGUID b = Inr (g, b\<lparr>rpos := rpos b + length (pack_bytes g)\<rparr>)"
    by (simp add: readPackGUID_def bb_size_def pack_bytes_def le_word_le_bytes)
qed

section \<open>Typed sequences of values\<close>

text \<open>
  A packet is written by a chain of \<open>operator<<\<close> and read back by the matching chain of
  \<open>operator>>\<close>. A chain is a list of typed values.
\<close>

datatype wire_value = VBool bool | VU8 u8 | VU16 u16 | VU32 u32 | VU64 u64 | VStr string | VPacked u64

datatype wire_type = TBool | TU8 | TU16 | TU32 | TU64 | TStr | TPacked

fun type_of :: "wire_value \<Rightarrow> wire_type" where
  "type_of (VBool _) = TBool" | "type_of (VU8 _) = TU8" | "type_of (VU16 _) = TU16"
| "type_of (VU32 _) = TU32" | "type_of (VU64 _) = TU64" | "type_of (VStr _) = TStr"
| "type_of (VPacked _) = TPacked"

fun write_value :: "wire_value \<Rightarrow> ByteBuffer \<Rightarrow> buffer_exn + ByteBuffer" where
  "write_value (VBool v) b = write_bool v b"
| "write_value (VU8 v) b = write_u8 v b"
| "write_value (VU16 v) b = write_u16 v b"
| "write_value (VU32 v) b = write_u32 v b"
| "write_value (VU64 v) b = write_u64 v b"
| "write_value (VStr v) b = write_string v b"
| "write_value (VPacked v) b = appendPackGUID v b"

definition map_read :: "('a \<Rightarrow> 'b) \<Rightarrow> buffer_exn + 'a \<times> ByteBuffer \<Rightarrow> buffer_exn + 'b \<times> ByteBuffer" where
  "map_read f r = (case r of Inl e \<Rightarrow> Inl e | Inr (v, b) \<Rightarrow> Inr (f v, b))"

fun read_value :: "(string \<Rightarrow> bool) \<Rightarrow> wire_type \<Rightarrow> ByteBuffer \<Rightarrow> buffer_exn + wire_value \<times> ByteBuffer" where
  "read_value uv TBool b = map_read VBool (read_bool b)"
| "read_value uv TU8 b = map_read VU8 (read_u8 b)"
| "read_value uv TU16 b = map_read VU16 (read_u16 b)"
| "read_value uv TU32 b = map_read VU32 (read_u32 b)"
| "read_value uv TU64 b = map_read VU64 (read_u64 b)"
| "read_value uv TStr b = map_read VStr (read_string uv b)"
| "read_value uv TPacked b = map_read VPacked (readPackGUID b)"

fun write_values :: "wire_value list \<Rightarrow> ByteBuffer \<Rightarrow> buffer_exn + ByteBuffer" where
  "write_values [] b = Inr b"
| "write_values (v # vs) b = (case write_value v b of Inl e \<Rightarrow> Inl e | Inr b' \<Rightarrow> write_values vs b')"

fun read_values :: "(string \<Rightarrow> bool) \<Rightarrow> wire_type list \<Rightarrow> ByteBuffer \<Rightarrow> buffer_exn + wire_value list \<times> ByteBuffer" where
  "read_values uv [] b = Inr ([], b)"
| "read_values uv (t # ts) b =
     (case read_value uv t b of
        Inl e \<Rightarrow> Inl e
      | Inr (v, b') \<Rightarrow> map_read (\<lambda>vs. v # vs) (read_values uv ts b'))"

fun value_bytes :: "wire_value \<Rightarrow> bytes" where
  "value_bytes (VBool v) = bool_bytes v"
| "value_bytes (VU8 v) = le_bytes 1 v"
| "value_bytes (VU16 v) = le_bytes 2 v"
| "value_bytes (VU32 v) = le_bytes 4 v"
| "value_bytes (VU64 v) = le_bytes 8 v"
| "value_bytes (VStr v) = cstring_bytes v"
| "value_bytes (VPacked v) = pack_bytes v"

text \<open>A string survives the wire when it is valid UTF-8 and holds no null character.\<close>

fun value_ok :: "(string \<Rightarrow> bool) \<Rightarrow> wire_value \<Rightarrow> bool" where
  "value_ok uv (VStr s) = (uv s \<and> CHR 0x00 \<notin> set s)"
| "value_ok uv _ = True"

lemma write_value_bytes:
  assumes "value_ok uv v" "at_end b" "bb_size b + length (value_bytes v) < 10000000"
  shows "write_value v b = Inr (bb_extend b (value_bytes v))"
  using assms by (cases v) (simp_all add: bool.wr_enc u8.wr_enc u16.wr_enc u32.wr_enc u64.wr_enc
      cstring.wr_enc packed.wr_enc del: le_bytes_1 le_bytes_Suc_0 One_nat_def)

lemma read_value_bytes:
  assumes "value_ok uv v" "storage b = pre @ value_bytes v @ post" "rpos b = length pre"
  shows "read_value uv (type_of v) b = Inr (v, b\<lparr>rpos := rpos b + length (value_bytes v)\<rparr>)"
proof (cases v)
  case (VStr s)
  with assms show ?thesis by (simp add: map_read_def cstring.rd_enc)
qed (use assms in \<open>simp_all add: map_read_def bool.rd_enc [OF TrueI] u8.rd_enc [OF TrueI]
      u16.rd_enc [OF TrueI] u32.rd_enc [OF TrueI] u64.rd_enc [OF TrueI] packed.rd_enc [OF TrueI]
      del: le_bytes_1 le_bytes_Suc_0 One_nat_def\<close>)

lemma write_values_bytes:
  "list_all (value_ok uv) vs \<Longrightarrow> at_end b \<Longrightarrow>
   bb_size b + length (concat (map value_bytes vs)) < 10000000 \<Longrightarrow>
   write_values vs b = Inr (bb_extend b (concat (map value_bytes vs)))"
proof (induction vs arbitrary: b)
  case Nil
  then show ?case by simp
next
  case (Cons v vs)
  then have "write_value v b = Inr (bb_extend b (value_bytes v))"
    by (intro write_value_bytes [of uv]) auto
  with Cons show ?case by simp
qed

lemma read_values_bytes:
  "list_all (value_ok uv) vs \<Longrightarrow> storage b = pre @ concat (map value_bytes vs) @ post \<Longrightarrow>
   rpos b = length pre \<Longrightarrow>
   read_values uv (map type_of vs) b
     = Inr (vs, b\<lparr>rpos := rpos b + length (concat (map value_bytes vs))\<rparr>)"
proof (induction vs arbitrary: b pre)
  case Nil
  then show ?case by simp
next
  case (Cons v vs)
  let ?b = "b\<lparr>rpos := rpos b + length (value_bytes v)\<rparr>"
  have "read_value uv (type_of v) b = Inr (v, ?b)"
    using Cons.prems by (intro read_value_bytes) auto
  moreover have "read_values uv (map type_of vs) ?b
      = Inr (vs, ?b\<lparr>rpos := rpos ?b + length (concat (map value_bytes vs))\<rparr>)"
    by (rule Cons.IH [where pre = "pre @ value_bytes v"]) (use Cons.prems in auto)
  ultimately show ?case by (simp add: map_read_def add.assoc)
qed



text \<open>A packed GUID takes one mark byte and one byte per non-zero byte of the GUID,
  and reading it back gives the GUID.\<close>

theorem packed_guid_roundtrip:
  "\<exists>b. appendPackGUID g new_buffer = Inr b
     \<and> readPackGUID b = Inr (g, b\<lparr>rpos := bb_size b\<rparr>)
     \<and> bb_size b = 1 + length (filter (\<lambda>x. x \<noteq> 0) (le_bytes 8 g)) \<and> bb_size b \<le> 9"
proof -
  have len: "length (filter (\<lambda>x. x \<noteq> 0) (le_bytes 8 g)) \<le> 8"
    using length_filter_le [of _ "le_bytes 8 g"] by simp
  then have "appendPackGUID g new_buffer = Inr (bb_extend new_buffer (pack_bytes g))"
    by (intro packed.wr_enc) (auto simp: pack_bytes_def)
  moreover have "readPackGUID (bb_extend new_buffer (pack_bytes g))
      = Inr (g, (bb_extend new_buffer (pack_bytes g))\<lparr>rpos := 0 + length (pack_bytes g)\<rparr>)"
    using packed.rd_enc [OF TrueI, of "bb_extend new_buffer (pack_bytes g)" "[]" g "[]"]
    by simp
  ultimately show ?thesis
    using len by (simp add: pack_bytes_def)
qed

section \<open>Reads stay inside the buffer\<close>

definition read_frame :: "ByteBuffer \<Rightarrow> ByteBuffer \<Rightarrow> bool" where
  "read_frame b b' \<longleftrightarrow> storage b' = storage b \<and> wpos b' = wpos b \<and> rpos b \<le> rpos b' \<and> rpos b' \<le> bb_size b"

lemma read_frame_refl [simp]: "rpos b \<le> bb_size b \<Longrightarrow> read_frame b b"
  by (simp add: read_frame_def)

lemma read_frame_trans: "read_frame b c \<Longrightarrow> read_frame c d \<Longrightarrow> read_frame b d"
  by (auto simp: read_frame_def bb_size_def)

lemma read_int_frame: "read_int n b = Inr (v, b') \<Longrightarrow> read_frame b b'"
  by (auto simp: read_int_def read_at_def read_frame_def split: sum.splits if_splits)

lemma read_u8_frame: "read_u8 b = Inr (v, b') \<Longrightarrow> read_frame b b'"
  unfolding read_u8_def by (rule read_int_frame)

lemma cstring_loop_frame:
  "rpos b \<le> bb_size b \<Longrightarrow> cstring_loop b acc = Inr (s, b') \<Longrightarrow> read_frame b b'"
proof (induction b acc rule: cstring_loop.induct)
  case (1 b acc)
  show ?case
  proof (cases "rpos b < bb_size b")
    case False
    with 1 show ?thesis by (simp add: cstring_loop.simps [of b acc])
  next
    case True
    with "1.prems"(2) obtain c b1 where c: "read_u8 b = Inr (c, b1)"
      by (auto simp: cstring_loop.simps [of b acc] split: sum.splits)
    from c have f: "read_frame b b1" by (rule read_u8_frame)
    then have "rpos b1 \<le> bb_size b1" by (auto simp: read_frame_def bb_size_def)
    with "1.prems"(2) "1.IH" [OF True c refl] True c f show ?thesis
      by (auto simp: cstring_loop.simps [of b acc] split: if_splits intro: read_frame_trans)
  qed
qed

lemma unpack_loop_frame:
  "rpos b \<le> bb_size b \<Longrightarrow> unpack_loop is m g b = Inr (r, b') \<Longrightarrow> read_frame b b'"
proof (induction "is" arbitrary: g b)
  case Nil
  then show ?case by simp
next
  case (Cons i "is")
  then show ?case
    by (auto split: if_splits sum.splits dest!: read_u8_frame Cons.IH [rotated]
        intro: read_frame_trans simp: read_frame_def bb_size_def)
qed

lemma readPackGUID_frame:
  "rpos b \<le> bb_size b \<Longrightarrow> readPackGUID b = Inr (g, b') \<Longrightarrow> read_frame b b'"
  by (auto simp: readPackGUID_def read_frame_def bb_size_def split: if_splits sum.splits
      dest!: read_u8_frame unpack_loop_frame [rotated])

lemma read_value_frame:
  "rpos b \<le> bb_size b \<Longrightarrow> read_value uv t b = Inr (v, b') \<Longrightarrow> read_frame b b'"
  by (cases t)
     (auto simp: map_read_def read_bool_def read_u8_def read_u16_def read_u32_def read_u64_def
        read_string_def ReadCString_def split: sum.splits if_splits prod.splits
        dest: read_int_frame readPackGUID_frame cstring_loop_frame)

text \<open>Claim C36: reading any sequence of values from a packet, whatever its bytes, either throws or
  leaves the contents unchanged and the read position inside the packet.\<close>

theorem reads_in_bounds:
  assumes "rpos b \<le> bb_size b" and "read_values utf8_valid ts b = Inr (vs, b')"
  shows "storage b' = storage b \<and> rpos b \<le> rpos b' \<and> rpos b' \<le> bb_size b' \<and> length vs = length ts"
proof -
  have "read_frame b b' \<and> length vs = length ts"
    using assms
  proof (induction ts arbitrary: b vs)
    case Nil
    then show ?case by simp
  next
    case (Cons t ts)
    then obtain v b1 ws where v: "read_value utf8_valid t b = Inr (v, b1)"
      and ws: "read_values utf8_valid ts b1 = Inr (ws, b')" "vs = v # ws"
      by (auto simp: map_read_def split: sum.splits)
    from read_value_frame [OF Cons.prems(1) v] have f: "read_frame b b1" .
    then have "rpos b1 \<le> bb_size b1" by (auto simp: read_frame_def bb_size_def)
    from Cons.IH [OF this ws(1)] f ws(2) show ?case
      by (auto intro: read_frame_trans)
  qed
  then show ?thesis by (auto simp: read_frame_def bb_size_def)
qed

theorem reads_in_bounds_witness:
  "rpos (\<lparr>rpos = 0, wpos = 3, storage = [1, 2, 3]\<rparr>) \<le> bb_size (\<lparr>rpos = 0, wpos = 3, storage = [1, 2, 3]\<rparr>)
   \<and> (\<exists>b'. read_values (\<lambda>_. True) [TU8, TBool] \<lparr>rpos = 0, wpos = 3, storage = [1, 2, 3]\<rparr> = Inr ([VU8 1, VBool True], b')
        \<and> rpos b' \<le> bb_size b')"
proof -
  let ?b = "\<lparr>rpos = 0, wpos = 3, storage = [1, 2, 3]\<rparr>"
  have b: "rpos ?b \<le> bb_size ?b" by simp
  have r: "read_values (\<lambda>_. True) [TU8, TBool] ?b = Inr ([VU8 1, VBool True], ?b\<lparr>rpos := 2\<rparr>)"
    by (simp add: read_u8_def read_bool_def read_int_def read_at_def bb_size_def map_read_def)
  show ?thesis using reads_in_bounds [OF b r] b r by auto
qed

end
