(* ===== verification/Object_Guid.thy ===== *)
theory Object_Guid
  imports Byte_Buffer
begin

text \<open>
  \<open>ObjectGuid\<close> of \<open>src/server/game/Entities/Object\<close>: a 64-bit identifier holding a high type, an
  entry for the types that have one, and a counter; its textual forms; and \<open>PackedGuid\<close>, the
  pre-packed form kept beside every object. \<open>HighGuid\<close> is read from the bits of a raw value, so it
  is any 16-bit value, not only an enumerator: it is a word and the enumerators are constants.
\<close>

section \<open>High types\<close>

type_synonym HighGuid = u16
type_synonym ObjectGuid = u64

abbreviation (input) HighGuid_Item :: HighGuid where "HighGuid_Item \<equiv> 0x4000"
abbreviation (input) HighGuid_Player :: HighGuid where "HighGuid_Player \<equiv> 0x0000"
abbreviation (input) HighGuid_GameObject :: HighGuid where "HighGuid_GameObject \<equiv> 0xF110"
abbreviation (input) HighGuid_Transport :: HighGuid where "HighGuid_Transport \<equiv> 0xF120"
abbreviation (input) HighGuid_Unit :: HighGuid where "HighGuid_Unit \<equiv> 0xF130"
abbreviation (input) HighGuid_Pet :: HighGuid where "HighGuid_Pet \<equiv> 0xF140"
abbreviation (input) HighGuid_Vehicle :: HighGuid where "HighGuid_Vehicle \<equiv> 0xF150"
abbreviation (input) HighGuid_DynamicObject :: HighGuid where "HighGuid_DynamicObject \<equiv> 0xF100"
abbreviation (input) HighGuid_Corpse :: HighGuid where "HighGuid_Corpse \<equiv> 0xF101"
abbreviation (input) HighGuid_AreaTrigger :: HighGuid where "HighGuid_AreaTrigger \<equiv> 0xF102"
abbreviation (input) HighGuid_Mo_Transport :: HighGuid where "HighGuid_Mo_Transport \<equiv> 0x1FC0"
abbreviation (input) HighGuid_Instance :: HighGuid where "HighGuid_Instance \<equiv> 0x1F40"
abbreviation (input) HighGuid_Group :: HighGuid where "HighGuid_Group \<equiv> 0x1F50"

datatype TypeID = TYPEID_OBJECT | TYPEID_ITEM | TYPEID_CONTAINER | TYPEID_UNIT | TYPEID_PLAYER
  | TYPEID_GAMEOBJECT | TYPEID_DYNAMICOBJECT | TYPEID_CORPSE | TYPEID_AREATRIGGER

datatype FormatType = OnlyCounter | CounterAndEntry

datatype SequenceSource = Seq_None | Seq_Global | Seq_Map

text \<open>The traits of every high type; the primary template is \<open>None\<close>, \<open>OnlyCounter\<close>.\<close>

definition ObjectGuidTraits :: "HighGuid \<Rightarrow> SequenceSource \<times> FormatType" where
  "ObjectGuidTraits high =
     (if high = HighGuid_Item then (Seq_Global, OnlyCounter)
      else if high = HighGuid_Player then (Seq_Global, OnlyCounter)
      else if high = HighGuid_GameObject then (Seq_Map, CounterAndEntry)
      else if high = HighGuid_Transport then (Seq_Map, OnlyCounter)
      else if high = HighGuid_Unit then (Seq_Map, CounterAndEntry)
      else if high = HighGuid_Pet then (Seq_Map, CounterAndEntry)
      else if high = HighGuid_Vehicle then (Seq_Map, CounterAndEntry)
      else if high = HighGuid_DynamicObject then (Seq_Map, OnlyCounter)
      else if high = HighGuid_Corpse then (Seq_Map, OnlyCounter)
      else if high = HighGuid_AreaTrigger then (Seq_Map, OnlyCounter)
      else if high = HighGuid_Mo_Transport then (Seq_Global, OnlyCounter)
      else if high = HighGuid_Instance then (Seq_Global, OnlyCounter)
      else if high = HighGuid_Group then (Seq_Global, OnlyCounter)
      else (Seq_None, OnlyCounter))"

definition HasEntry :: "HighGuid \<Rightarrow> bool" where
  "HasEntry high =
     (high \<notin> {HighGuid_Item, HighGuid_Player, HighGuid_DynamicObject, HighGuid_AreaTrigger,
               HighGuid_Corpse, HighGuid_Mo_Transport, HighGuid_Instance, HighGuid_Group})"

section \<open>Parts of a GUID\<close>

definition GetHigh :: "ObjectGuid \<Rightarrow> HighGuid" where
  "GetHigh g = ucast (drop_bit 48 g AND 0x0000FFFF)"

definition GetEntry :: "ObjectGuid \<Rightarrow> u32" where
  "GetEntry g = (if HasEntry (GetHigh g) then ucast (drop_bit 24 g AND 0x0000000000FFFFFF) else 0)"

definition GetCounter :: "ObjectGuid \<Rightarrow> u32" where
  "GetCounter g =
     (if HasEntry (GetHigh g) then ucast (g AND 0x0000000000FFFFFF)
      else ucast (g AND 0x00000000FFFFFFFF))"

definition GetMaxCounter :: "HighGuid \<Rightarrow> u32" where
  "GetMaxCounter high = (if HasEntry high then 0x00FFFFFF else 0xFFFFFFFF)"

definition Create_counter :: "HighGuid \<Rightarrow> u32 \<Rightarrow> ObjectGuid" where
  "Create_counter type counter =
     (if counter \<noteq> 0 then ucast counter OR push_bit 48 (ucast type) else 0)"

definition Create_entry :: "HighGuid \<Rightarrow> u32 \<Rightarrow> u32 \<Rightarrow> ObjectGuid" where
  "Create_entry type entry counter =
     (if counter \<noteq> 0 then ucast counter OR push_bit 24 (ucast entry) OR push_bit 48 (ucast type) else 0)"

definition IsEmpty :: "ObjectGuid \<Rightarrow> bool" where
  "IsEmpty g = (g = 0)"

definition IsCreature :: "ObjectGuid \<Rightarrow> bool" where
  "IsCreature g = (GetHigh g = HighGuid_Unit)"

definition IsPet :: "ObjectGuid \<Rightarrow> bool" where
  "IsPet g = (GetHigh g = HighGuid_Pet)"

definition IsVehicle :: "ObjectGuid \<Rightarrow> bool" where
  "IsVehicle g = (GetHigh g = HighGuid_Vehicle)"

definition IsAnyTypeCreature :: "ObjectGuid \<Rightarrow> bool" where
  "IsAnyTypeCreature g = (IsCreature g \<or> IsPet g \<or> IsVehicle g)"

definition IsPlayer :: "ObjectGuid \<Rightarrow> bool" where
  "IsPlayer g = (\<not> IsEmpty g \<and> GetHigh g = HighGuid_Player)"

definition IsUnit :: "ObjectGuid \<Rightarrow> bool" where
  "IsUnit g = (IsAnyTypeCreature g \<or> IsPlayer g)"

definition IsAnyTypeGameObject :: "ObjectGuid \<Rightarrow> bool" where
  "IsAnyTypeGameObject g =
     (GetHigh g = HighGuid_GameObject \<or> GetHigh g = HighGuid_Transport \<or> GetHigh g = HighGuid_Mo_Transport)"

definition GetTypeId :: "HighGuid \<Rightarrow> TypeID" where
  "GetTypeId high =
     (if high = HighGuid_Item then TYPEID_ITEM
      else if high = HighGuid_Unit then TYPEID_UNIT
      else if high = HighGuid_Pet then TYPEID_UNIT
      else if high = HighGuid_Player then TYPEID_PLAYER
      else if high = HighGuid_GameObject then TYPEID_GAMEOBJECT
      else if high = HighGuid_DynamicObject then TYPEID_DYNAMICOBJECT
      else if high = HighGuid_AreaTrigger then TYPEID_AREATRIGGER
      else if high = HighGuid_Corpse then TYPEID_CORPSE
      else if high = HighGuid_Mo_Transport then TYPEID_GAMEOBJECT
      else if high = HighGuid_Vehicle then TYPEID_UNIT
      else TYPEID_OBJECT)"

section \<open>Text\<close>

definition GetTypeName :: "HighGuid \<Rightarrow> string" where
  "GetTypeName high =
     (if high = HighGuid_Item then ''Item''
      else if high = HighGuid_Player then ''Player''
      else if high = HighGuid_GameObject then ''Gameobject''
      else if high = HighGuid_Transport then ''Transport''
      else if high = HighGuid_Unit then ''Creature''
      else if high = HighGuid_Pet then ''Pet''
      else if high = HighGuid_Vehicle then ''Vehicle''
      else if high = HighGuid_DynamicObject then ''DynObject''
      else if high = HighGuid_AreaTrigger then ''AreaTrigger''
      else if high = HighGuid_Corpse then ''Corpse''
      else if high = HighGuid_Mo_Transport then ''MoTransport''
      else if high = HighGuid_Instance then ''InstanceID''
      else if high = HighGuid_Group then ''Group''
      else ''<unknown>'')"

definition guid_type_name :: "ObjectGuid \<Rightarrow> string" where
  "guid_type_name g = (if \<not> IsEmpty g then GetTypeName (GetHigh g) else ''None'')"

text \<open>\<open>AppendComponent\<close>: digits in the base, zero-padded to a width, upper case in base 16.\<close>

definition AppendComponent :: "nat \<Rightarrow> nat \<Rightarrow> nat \<Rightarrow> string" where
  "AppendComponent width base component = pad_left width (digits_of base component)"

definition guid_ToString :: "ObjectGuid \<Rightarrow> string" where
  "guid_ToString g =
     ''GUID Full: 0x'' @ AppendComponent 16 16 (unat g) @ '' Type: '' @ guid_type_name g
     @ (if GetEntry g \<noteq> 0
        then (if IsPet g then '' Pet number: '' else '' Entry: '') @ AppendComponent 0 10 (unat (GetEntry g))
        else [])
     @ '' Low: '' @ AppendComponent 0 10 (unat (GetCounter g))"

definition guid_ToHexString :: "ObjectGuid \<Rightarrow> string" where
  "guid_ToHexString g = ''0x'' @ pad_left 16 (digits_of 16 (unat g))"

section \<open>On the wire\<close>

definition write_guid :: "ObjectGuid \<Rightarrow> ByteBuffer \<Rightarrow> buffer_exn + ByteBuffer" where
  "write_guid g b = write_u64 g b"

definition read_guid :: "ByteBuffer \<Rightarrow> buffer_exn + ObjectGuid \<times> ByteBuffer" where
  "read_guid b = read_u64 b"

record PackedGuid =
  packedSize :: nat
  packedGuid :: bytes

definition new_PackedGuid :: PackedGuid where
  "new_PackedGuid = \<lparr>packedSize = 1, packedGuid = replicate 9 0\<rparr>"

text \<open>One turn of the loop of \<open>PackedGuid::Set\<close>; the mark byte is only ever or-ed into.\<close>

definition set_byte :: "u64 \<Rightarrow> PackedGuid \<Rightarrow> nat \<Rightarrow> PackedGuid" where
  "set_byte raw p i =
     (let byte = ucast (drop_bit (i * 8) raw AND 0xFF) :: u8;
          arr = (packedGuid p)[packedSize p := byte]
      in if byte \<noteq> 0 then \<lparr>packedSize = packedSize p + 1, packedGuid = arr[0 := arr ! 0 OR push_bit i 1]\<rparr>
         else p\<lparr>packedGuid := arr\<rparr>)"

definition PackedGuid_Set :: "ObjectGuid \<Rightarrow> PackedGuid \<Rightarrow> PackedGuid" where
  "PackedGuid_Set guid p = foldl (set_byte guid) (p\<lparr>packedSize := 1\<rparr>) [0..<8]"

definition write_PackedGuid :: "PackedGuid \<Rightarrow> ByteBuffer \<Rightarrow> buffer_exn + ByteBuffer" where
  "write_PackedGuid p b = append (take (packedSize p) (packedGuid p)) b"

section \<open>A GUID keeps its parts\<close>

lemma mask_numerals:
  "(0xFFFF :: u64) = mask 16" "(0xFFFFFF :: u64) = mask 24" "(0xFFFFFFFF :: u64) = mask 32"
  by (simp_all add: mask_eq_exp_minus_1)

lemma le_24_bits:
  assumes "(w :: u32) \<le> 0xFFFFFF"
  shows "take_bit 24 w = w"
proof -
  have "unat w < 2 ^ 24" using assms by unat_arith
  then have "unat (take_bit 24 w) = unat w"
    by (simp only: unsigned_take_bit_eq take_bit_nat_eq_self)
  then show ?thesis by (simp only: word_unat_eq_iff)
qed

lemma bit_below: "take_bit n (w :: 'a::len word) = w \<Longrightarrow> bit w k \<Longrightarrow> k < n"
  by (metis bit_take_bit_iff)

lemma not_bit_above: "take_bit n (w :: 'a::len word) = w \<Longrightarrow> n \<le> k \<Longrightarrow> \<not> bit w k"
  using bit_below by fastforce

lemma parts_of_entry_guid:
  assumes e: "take_bit 24 e = e" and c: "take_bit 24 c = c" "c \<noteq> 0"
  shows "GetHigh (Create_entry h e c) = h"
    and "ucast (drop_bit 24 (Create_entry h e c) AND 0xFFFFFF) = e"
    and "ucast (Create_entry h e c AND 0xFFFFFF) = c"
proof -
  have g: "Create_entry h e c = ucast c OR push_bit 24 (ucast e) OR push_bit 48 (ucast h)"
    using c(2) by (simp add: Create_entry_def)
  note above = not_bit_above [OF e] not_bit_above [OF c(1)]
  show "GetHigh (Create_entry h e c) = h"
    unfolding GetHigh_def g mask_numerals by (rule bit_eqI) (auto simp: bit_simps above)
  show "ucast (drop_bit 24 (Create_entry h e c) AND 0xFFFFFF) = e"
    unfolding g mask_numerals
    by (rule bit_eqI) (auto simp: bit_simps above dest: bit_below [OF e])
  show "ucast (Create_entry h e c AND 0xFFFFFF) = c"
    unfolding g mask_numerals
    by (rule bit_eqI) (auto simp: bit_simps above dest: bit_below [OF c(1)])
qed

lemma parts_of_counter_guid:
  assumes c: "c \<noteq> 0"
  shows "GetHigh (Create_counter h c) = h"
    and "ucast (Create_counter h c AND 0xFFFFFFFF) = c"
    and "take_bit 24 c = c \<Longrightarrow> ucast (Create_counter h c AND 0xFFFFFF) = c"
    and "take_bit 24 c = c \<Longrightarrow> (ucast (drop_bit 24 (Create_counter h c) AND 0xFFFFFF) :: u32) = 0"
proof -
  have g: "Create_counter h c = ucast c OR push_bit 48 (ucast h)"
    using c by (simp add: Create_counter_def)
  have above: "\<not> bit c (48 + n)" for n
    by (auto dest: bit_imp_le_length)
  show "GetHigh (Create_counter h c) = h"
    unfolding GetHigh_def g mask_numerals by (rule bit_eqI) (auto simp: bit_simps above)
  show "ucast (Create_counter h c AND 0xFFFFFFFF) = c"
    unfolding g mask_numerals by (rule bit_eqI) (auto simp: bit_simps)
  assume c24: "take_bit 24 c = c"
  show "ucast (Create_counter h c AND 0xFFFFFF) = c"
    unfolding g mask_numerals
    by (rule bit_eqI) (auto simp: bit_simps dest: bit_below [OF c24])
  show "(ucast (drop_bit 24 (Create_counter h c) AND 0xFFFFFF) :: u32) = 0"
    unfolding g mask_numerals
    by (rule bit_eqI) (auto simp: bit_simps not_bit_above [OF c24])
qed

text \<open>A GUID made from a type that has an entry, an entry of at most 24 bits and a counter
  within the maximum of the type gives all three back.\<close>

theorem guid_entry_parts:
  assumes "HasEntry h" and "c \<noteq> 0" and "c \<le> GetMaxCounter h" and "e \<le> 0xFFFFFF"
  shows "GetHigh (Create_entry h e c) = h \<and> GetEntry (Create_entry h e c) = e
    \<and> GetCounter (Create_entry h e c) = c"
proof -
  from assms have "take_bit 24 e = e" "take_bit 24 c = c"
    by (simp_all add: GetMaxCounter_def le_24_bits)
  from parts_of_entry_guid [OF this assms(2), of h] assms(1) show ?thesis
    by (simp add: GetEntry_def GetCounter_def)
qed

theorem guid_entry_parts_witness:
  "HasEntry HighGuid_Unit \<and> GetHigh (Create_entry HighGuid_Unit 36855 1203) = HighGuid_Unit
   \<and> GetEntry (Create_entry HighGuid_Unit 36855 1203) = 36855
   \<and> GetCounter (Create_entry HighGuid_Unit 36855 1203) = 1203"
proof -
  have h: "HasEntry HighGuid_Unit" by (simp add: HasEntry_def)
  have "(1203 :: u32) \<le> GetMaxCounter HighGuid_Unit" using h by (simp add: GetMaxCounter_def)
  from guid_entry_parts [OF h _ this, of 36855] h show ?thesis by simp
qed

text \<open>A GUID made from a type that only has a counter, with a counter within the maximum
  of the type, gives the type and the counter back and has no entry. This covers transports, whose
  GUIDs are read as if they had an entry.\<close>

theorem guid_counter_parts:
  assumes "snd (ObjectGuidTraits h) = OnlyCounter" and "c \<noteq> 0" and "c \<le> GetMaxCounter h"
  shows "GetHigh (Create_counter h c) = h \<and> GetCounter (Create_counter h c) = c
    \<and> GetEntry (Create_counter h c) = 0"
proof (cases "HasEntry h")
  case True
  with assms(3) have "take_bit 24 c = c" by (simp add: GetMaxCounter_def le_24_bits)
  with parts_of_counter_guid [OF assms(2), of h] True show ?thesis
    by (simp add: GetEntry_def GetCounter_def)
next
  case False
  with parts_of_counter_guid [OF assms(2), of h] show ?thesis
    by (simp add: GetEntry_def GetCounter_def)
qed

theorem guid_counter_parts_witness:
  "snd (ObjectGuidTraits HighGuid_Transport) = OnlyCounter
   \<and> GetHigh (Create_counter HighGuid_Transport 77) = HighGuid_Transport
   \<and> GetCounter (Create_counter HighGuid_Transport 77) = 77
   \<and> GetEntry (Create_counter HighGuid_Transport 77) = 0"
proof -
  have t: "snd (ObjectGuidTraits HighGuid_Transport) = OnlyCounter"
    by (simp add: ObjectGuidTraits_def)
  have "(77 :: u32) \<le> GetMaxCounter HighGuid_Transport"
    by (simp add: GetMaxCounter_def HasEntry_def)
  from guid_counter_parts [OF t _ this] t show ?thesis by simp
qed

section \<open>The pre-packed form\<close>

lemma mark_from_snoc:
  "mark_from i (xs @ [x]) = mark_from i xs OR (if x \<noteq> 0 then push_bit (i + length xs) 1 else 0)"
  by (induction xs arbitrary: i) (simp_all add: or.assoc)

lemma le_bytes_snoc: "le_bytes (Suc n) w = le_bytes n w @ [ucast (drop_bit (8 * n) w)]"
  by (simp add: le_bytes_def)

lemma set_byte_ucast: "ucast (drop_bit (i * 8) raw AND 0xFF) = (ucast (drop_bit (8 * i) (raw :: u64)) :: u8)"
  by (simp add: and_ff_ucast mult.commute)

lemma set_byte_at:
  assumes "x = ucast (drop_bit (8 * n) g)"
  shows "set_byte g \<lparr>packedSize = Suc (length f), packedGuid = m # f @ y # ys\<rparr> n
    = (if x \<noteq> 0 then \<lparr>packedSize = Suc (Suc (length f)), packedGuid = (m OR push_bit n 1) # f @ x # ys\<rparr>
       else \<lparr>packedSize = Suc (length f), packedGuid = m # f @ x # ys\<rparr>)"
  using assms by (simp add: set_byte_def Let_def set_byte_ucast)

lemma packed_set_prefix:
  assumes "length arr = 9" "n \<le> 8"
  shows "\<exists>arr'. foldl (set_byte g) \<lparr>packedSize = 1, packedGuid = arr\<rparr> [0..<n]
      = \<lparr>packedSize = 1 + length (filter (\<lambda>x. x \<noteq> 0) (le_bytes n g)), packedGuid = arr'\<rparr>
    \<and> length arr' = 9
    \<and> take (1 + length (filter (\<lambda>x. x \<noteq> 0) (le_bytes n g))) arr'
      = (arr ! 0 OR mark_from 0 (le_bytes n g)) # filter (\<lambda>x. x \<noteq> 0) (le_bytes n g)"
  using assms(2)
proof (induction n)
  case 0
  from assms(1) show ?case by (cases arr) auto
next
  case (Suc n)
  let ?f = "filter (\<lambda>x. x \<noteq> 0) (le_bytes n g)"
  let ?x = "ucast (drop_bit (8 * n) g) :: u8"
  from Suc obtain arr' where
    fold: "foldl (set_byte g) \<lparr>packedSize = 1, packedGuid = arr\<rparr> [0..<n]
      = \<lparr>packedSize = 1 + length ?f, packedGuid = arr'\<rparr>" and len: "length arr' = 9"
    and pre: "take (1 + length ?f) arr' = (arr ! 0 OR mark_from 0 (le_bytes n g)) # ?f"
    by auto
  have f: "length ?f \<le> n" using length_filter_le [of _ "le_bytes n g"] by simp
  from pre len obtain rest where rest: "arr' = (arr ! 0 OR mark_from 0 (le_bytes n g)) # ?f @ rest"
    by (metis append_take_drop_id append_Cons)
  with len f Suc.prems obtain y ys where y: "rest = y # ys"
    by (cases rest) auto
  have "foldl (set_byte g) \<lparr>packedSize = 1, packedGuid = arr\<rparr> [0..<Suc n]
      = set_byte g \<lparr>packedSize = Suc (length ?f), packedGuid = (arr ! 0 OR mark_from 0 (le_bytes n g)) # ?f @ y # ys\<rparr> n"
    using fold rest y by simp
  then show ?case
    using len rest y by (simp add: set_byte_at [OF refl] le_bytes_snoc mark_from_snoc or.assoc)
qed

lemma packed_set_bytes:
  assumes "length (packedGuid p) = 9"
  shows "take (packedSize (PackedGuid_Set g p)) (packedGuid (PackedGuid_Set g p))
    = (packedGuid p ! 0 OR mark_from 0 (le_bytes 8 g)) # filter (\<lambda>x. x \<noteq> 0) (le_bytes 8 g)"
proof (cases p)
  case (fields n arr)
  with packed_set_prefix [of arr 8 g] assms show ?thesis
    by (auto simp: PackedGuid_Set_def)
qed

text \<open>Setting a pre-packed GUID whose mark byte is zero writes the same bytes as packing
  the GUID when it is sent.\<close>

theorem packed_guid_fresh:
  assumes "length (packedGuid p) = 9" and "packedGuid p ! 0 = 0"
  shows "write_PackedGuid (PackedGuid_Set g p) b = appendPackGUID g b"
  using packed_set_bytes [OF assms(1), of g] assms(2)
  by (simp add: write_PackedGuid_def appendPackGUID_def pack_loop_eq)

theorem packed_guid_fresh_witness:
  "packedGuid new_PackedGuid ! 0 = 0
   \<and> write_PackedGuid (PackedGuid_Set 0xF130008FF70004B3 new_PackedGuid) new_buffer
     = appendPackGUID 0xF130008FF70004B3 new_buffer"
  using packed_guid_fresh [of new_PackedGuid "0xF130008FF70004B3" new_buffer]
  by (simp add: new_PackedGuid_def)

text \<open>Setting a pre-packed GUID a second time keeps the bits of the first mark byte, so
  that what is written cannot be read back.\<close>

theorem packed_guid_stale:
  "\<exists>b. write_PackedGuid (PackedGuid_Set 0x1 (PackedGuid_Set 0x100 new_PackedGuid)) new_buffer = Inr b
     \<and> storage b = [3, 1] \<and> readPackGUID b = Inl (ByteBufferPositionException False 2 1 2)"
proof -
  have "PackedGuid_Set 0x1 (PackedGuid_Set 0x100 new_PackedGuid)
      = \<lparr>packedSize = 2, packedGuid = [3, 1, 0, 0, 0, 0, 0, 0, 0]\<rparr>"
    by code_simp
  then show ?thesis
    by (simp add: write_PackedGuid_def append_at_end readPackGUID_def bb_size_def read_u8_def
        read_int_def read_at_def upt_rec)
qed

end
