(* ===== verification/Companion.thy ===== *)
theory Companion
  imports Object_Guid
begin

text \<open>
  Recruited companions, \<open>src/server/game/AI/Companion\<close>: \<open>CompanionMgr\<close> keeps for every player the
  list of creatures that follow him, and \<open>CompanionAI\<close> keeps in every companion the GUID of its
  owner; the two call each other. The state below joins both. Calls into the rest of the engine
  (motion, factions, gossip) are recorded in order in \<open>effects\<close>, and what the code asks of the
  engine (is the creature alive, can the player be found on the map) comes from the \<open>engine\<close> record,
  which may differ at every call.
\<close>

section \<open>State\<close>

datatype ReactStates = REACT_PASSIVE | REACT_DEFENSIVE | REACT_AGGRESSIVE

datatype effect =
    SetReactState ObjectGuid ReactStates
  | SetFaction ObjectGuid u32
  | RestoreFaction ObjectGuid
  | MoveFollow ObjectGuid ObjectGuid nat
  | MotionClear ObjectGuid
  | MoveTargetedHome ObjectGuid
  | BaseJustAppeared ObjectGuid
  | UpdateVictim ObjectGuid
  | NearTeleportTo ObjectGuid ObjectGuid
  | SetHomePosition ObjectGuid ObjectGuid
  | BaseReset ObjectGuid
  | EngageWithTarget ObjectGuid ObjectGuid
  | AddGossipItem ObjectGuid string
  | SendGossipMenu ObjectGuid ObjectGuid
  | CloseGossipMenu ObjectGuid

record companion_state =
  companionTemplates :: "u32 list"
  activeCompanions :: "ObjectGuid \<rightharpoonup> ObjectGuid list"
  ownerGuid :: "ObjectGuid \<Rightarrow> ObjectGuid"
  checkTimer :: "ObjectGuid \<Rightarrow> u32"
  reactState :: "ObjectGuid \<Rightarrow> ReactStates"
  effects :: "effect list"

record engine =
  isAlive :: "ObjectGuid \<Rightarrow> bool"
  getEntry :: "ObjectGuid \<Rightarrow> u32"
  hasCompanionAI :: "ObjectGuid \<Rightarrow> bool"
  findPlayer :: "ObjectGuid \<Rightarrow> ObjectGuid \<Rightarrow> bool"
  findCreature :: "ObjectGuid \<Rightarrow> ObjectGuid \<Rightarrow> bool"
  isEngaged :: "ObjectGuid \<Rightarrow> bool"
  isFollowing :: "ObjectGuid \<Rightarrow> bool"
  isWithinDist :: "ObjectGuid \<Rightarrow> ObjectGuid \<Rightarrow> bool"
  canAttack :: "ObjectGuid \<Rightarrow> ObjectGuid \<Rightarrow> bool"
  enterEvade :: "ObjectGuid \<Rightarrow> bool"
  getFaction :: "ObjectGuid \<Rightarrow> u32"

definition MAX_COMPANIONS :: nat where "MAX_COMPANIONS = 4"

definition COMPANION_CHECK_INTERVAL :: u32 where "COMPANION_CHECK_INTERVAL = 1000"

definition emit :: "effect list \<Rightarrow> companion_state \<Rightarrow> companion_state" where
  "emit es s = s\<lparr>effects := effects s @ es\<rparr>"

section \<open>CompanionMgr, called back by the AI\<close>

definition IsCompanion :: "companion_state \<Rightarrow> u32 \<Rightarrow> bool" where
  "IsCompanion s creatureEntry = (creatureEntry \<in> set (companionTemplates s))"

text \<open>The templates are a set: the rows of the query, each once.\<close>

definition LoadTemplates :: "u32 list option \<Rightarrow> companion_state \<Rightarrow> companion_state" where
  "LoadTemplates result s =
     (case result of
        None \<Rightarrow> s\<lparr>companionTemplates := []\<rparr>
      | Some rows \<Rightarrow> s\<lparr>companionTemplates := remdups rows\<rparr>)"

definition OnCompanionDismissed :: "ObjectGuid \<Rightarrow> ObjectGuid \<Rightarrow> companion_state \<Rightarrow> companion_state" where
  "OnCompanionDismissed playerGuid companionGuid s =
     (case activeCompanions s playerGuid of
        None \<Rightarrow> s
      | Some companions \<Rightarrow>
          let companions' = filter (\<lambda>g. g \<noteq> companionGuid) companions
          in if companions' = [] then s\<lparr>activeCompanions := (activeCompanions s)(playerGuid := None)\<rparr>
             else s\<lparr>activeCompanions := (activeCompanions s)(playerGuid \<mapsto> companions')\<rparr>)"

definition GetCompanions :: "companion_state \<Rightarrow> ObjectGuid \<Rightarrow> ObjectGuid list" where
  "GetCompanions s playerGuid =
     (case activeCompanions s playerGuid of None \<Rightarrow> [] | Some companions \<Rightarrow> companions)"

section \<open>CompanionAI\<close>

definition IsRecruited :: "companion_state \<Rightarrow> ObjectGuid \<Rightarrow> bool" where
  "IsRecruited s me = (\<not> IsEmpty (ownerGuid s me))"

definition new_CompanionAI :: "ObjectGuid \<Rightarrow> companion_state \<Rightarrow> companion_state" where
  "new_CompanionAI me s =
     emit [SetReactState me REACT_DEFENSIVE]
       (s\<lparr>ownerGuid := (ownerGuid s)(me := 0), checkTimer := (checkTimer s)(me := 0),
          reactState := (reactState s)(me := REACT_DEFENSIVE)\<rparr>)"

definition NotifyDismissed :: "ObjectGuid \<Rightarrow> companion_state \<Rightarrow> companion_state" where
  "NotifyDismissed me s =
     (if IsEmpty (ownerGuid s me) then s
      else let s = OnCompanionDismissed (ownerGuid s me) me s;
               s = s\<lparr>ownerGuid := (ownerGuid s)(me := 0)\<rparr>
           in emit [RestoreFaction me] s)"

definition JustAppeared :: "ObjectGuid \<Rightarrow> companion_state \<Rightarrow> companion_state" where
  "JustAppeared me s = NotifyDismissed me (emit [BaseJustAppeared me] s)"

definition JustDied :: "ObjectGuid \<Rightarrow> companion_state \<Rightarrow> companion_state" where
  "JustDied me s = NotifyDismissed me s"

text \<open>The follow angle is a quarter turn plus an eighth turn times the counter modulo four.\<close>

definition StartFollowing :: "engine \<Rightarrow> ObjectGuid \<Rightarrow> ObjectGuid \<Rightarrow> companion_state \<Rightarrow> companion_state" where
  "StartFollowing e player me s =
     emit [SetFaction me (getFaction e player), MoveFollow me player (unat (GetCounter me) mod 4)]
       (s\<lparr>ownerGuid := (ownerGuid s)(me := player)\<rparr>)"

definition StopFollowing :: "ObjectGuid \<Rightarrow> companion_state \<Rightarrow> companion_state" where
  "StopFollowing me s =
     (let s = emit [SetReactState me REACT_DEFENSIVE] (s\<lparr>reactState := (reactState s)(me := REACT_DEFENSIVE)\<rparr>);
          s = NotifyDismissed me s
      in emit [MotionClear me, MoveTargetedHome me] s)"

definition UpdateAI :: "engine \<Rightarrow> u32 \<Rightarrow> ObjectGuid \<Rightarrow> companion_state \<Rightarrow> companion_state" where
  "UpdateAI e diff me s =
     (if \<not> IsRecruited s me \<or> \<not> isAlive e me then s
      else let s = (if isEngaged e me then emit [UpdateVictim me] s else s) in
        if checkTimer s me > diff then s\<lparr>checkTimer := (checkTimer s)(me := checkTimer s me - diff)\<rparr>
        else let s = s\<lparr>checkTimer := (checkTimer s)(me := COMPANION_CHECK_INTERVAL)\<rparr>;
                 owner = ownerGuid s me in
          if \<not> findPlayer e me owner then StopFollowing me s
          else let s = (if \<not> isWithinDist e me owner then emit [NearTeleportTo me owner] s else s);
                   s = emit [SetHomePosition me owner] s
               in if \<not> isEngaged e me \<and> \<not> isFollowing e me then StartFollowing e owner me s else s)"

definition EnterEvadeMode :: "engine \<Rightarrow> ObjectGuid \<Rightarrow> companion_state \<Rightarrow> companion_state" where
  "EnterEvadeMode e me s =
     (if \<not> enterEvade e me then s
      else let s = (if findPlayer e me (ownerGuid s me) then StartFollowing e (ownerGuid s me) me s
                    else emit [MoveTargetedHome me] s)
           in emit [BaseReset me] s)"

definition AssistAgainst :: "engine \<Rightarrow> ObjectGuid \<Rightarrow> ObjectGuid \<Rightarrow> companion_state \<Rightarrow> companion_state" where
  "AssistAgainst e target me s =
     (if \<not> IsRecruited s me \<or> \<not> isAlive e me \<or> reactState s me = REACT_PASSIVE then s
      else if canAttack e me target then emit [EngageWithTarget me target] s else s)"

section \<open>CompanionMgr, calling the AI\<close>

definition Recruit :: "engine \<Rightarrow> ObjectGuid \<Rightarrow> ObjectGuid \<Rightarrow> companion_state \<Rightarrow> bool \<times> companion_state" where
  "Recruit e player creature s =
     (if \<not> IsCompanion s (getEntry e creature) \<or> \<not> isAlive e creature then (False, s)
      else if \<not> hasCompanionAI e creature \<or> IsRecruited s creature then (False, s)
      else let companions = GetCompanions s player;
               s = s\<lparr>activeCompanions := (activeCompanions s)(player \<mapsto> companions)\<rparr>
           in if length companions \<ge> MAX_COMPANIONS then (False, s)
              else let s = s\<lparr>activeCompanions := (activeCompanions s)(player \<mapsto> companions @ [creature])\<rparr>
                   in (True, StartFollowing e player creature s))"

fun dismiss_each :: "engine \<Rightarrow> ObjectGuid \<Rightarrow> ObjectGuid list \<Rightarrow> companion_state \<Rightarrow> companion_state" where
  "dismiss_each e player [] s = s"
| "dismiss_each e player (guid # guids) s =
     dismiss_each e player guids
       (if findCreature e player guid \<and> hasCompanionAI e guid then StopFollowing guid s else s)"

definition DismissAll :: "engine \<Rightarrow> ObjectGuid \<Rightarrow> companion_state \<Rightarrow> companion_state" where
  "DismissAll e player s =
     (case activeCompanions s player of
        None \<Rightarrow> s
      | Some companions \<Rightarrow>
          let s = dismiss_each e player companions s
          in s\<lparr>activeCompanions := (activeCompanions s)(player := None)\<rparr>)"

fun assist_each :: "engine \<Rightarrow> ObjectGuid \<Rightarrow> ObjectGuid \<Rightarrow> ObjectGuid list \<Rightarrow> companion_state \<Rightarrow> companion_state" where
  "assist_each e owner target [] s = s"
| "assist_each e owner target (guid # guids) s =
     assist_each e owner target guids
       (if findCreature e owner guid \<and> hasCompanionAI e guid then AssistAgainst e target guid s else s)"

text \<open>A null \<open>owner\<close> or \<open>target\<close> is \<open>None\<close>.\<close>

definition AssistOwner :: "engine \<Rightarrow> ObjectGuid option \<Rightarrow> ObjectGuid option \<Rightarrow> companion_state \<Rightarrow> companion_state" where
  "AssistOwner e owner target s =
     (case (owner, target) of
        (Some ow, Some tg) \<Rightarrow>
          (case activeCompanions s ow of None \<Rightarrow> s | Some companions \<Rightarrow> assist_each e ow tg companions s)
      | _ \<Rightarrow> s)"

definition OnGossipHello :: "engine \<Rightarrow> ObjectGuid \<Rightarrow> ObjectGuid \<Rightarrow> companion_state \<Rightarrow> bool \<times> companion_state" where
  "OnGossipHello e player me s =
     (if \<not> IsCompanion s (getEntry e me) then (False, s)
      else let s = (if ownerGuid s me = player then emit [AddGossipItem player ''You can leave now.''] s
                    else if \<not> IsRecruited s me then emit [AddGossipItem player ''Follow me.''] s
                    else s)
           in (True, emit [SendGossipMenu player me] s))"

definition OnGossipSelect :: "engine \<Rightarrow> ObjectGuid \<Rightarrow> u32 \<Rightarrow> ObjectGuid \<Rightarrow> companion_state \<Rightarrow> bool \<times> companion_state" where
  "OnGossipSelect e player gossipListId me s =
     (if gossipListId \<noteq> 0 then (False, s)
      else let s = emit [CloseGossipMenu player] s;
               s = (if ownerGuid s me = player then StopFollowing me s
                    else if \<not> IsRecruited s me then snd (Recruit e player me s)
                    else s)
           in (True, s))"

section \<open>Steps of the server\<close>

text \<open>
  One rule for every call the server makes. The engine may answer differently at every step. A
  player is never the empty GUID, and an AI is constructed for a creature that no list names.
\<close>

inductive companion_step :: "companion_state \<Rightarrow> companion_state \<Rightarrow> bool" where
  step_load: "companion_step s (LoadTemplates rows s)"
| step_create: "(\<And>p. me \<notin> set (GetCompanions s p)) \<Longrightarrow> companion_step s (new_CompanionAI me s)"
| step_appear: "companion_step s (JustAppeared me s)"
| step_die: "companion_step s (JustDied me s)"
| step_update: "companion_step s (UpdateAI e diff me s)"
| step_evade: "companion_step s (EnterEvadeMode e me s)"
| step_assist: "companion_step s (AssistOwner e ow tg s)"
| step_recruit: "player \<noteq> 0 \<Longrightarrow> companion_step s (snd (Recruit e player me s))"
| step_dismiss: "companion_step s (DismissAll e player s)"
| step_hello: "companion_step s (snd (OnGossipHello e player me s))"
| step_select: "player \<noteq> 0 \<Longrightarrow> companion_step s (snd (OnGossipSelect e player item me s))"

definition companion_init :: "companion_state \<Rightarrow> bool" where
  "companion_init s = (activeCompanions s = Map.empty)"

definition list_ok :: "(ObjectGuid \<Rightarrow> ObjectGuid) \<Rightarrow> ObjectGuid \<Rightarrow> ObjectGuid list \<Rightarrow> bool" where
  "list_ok owner p cs =
     (p \<noteq> 0 \<and> cs \<noteq> [] \<and> distinct cs \<and> length cs \<le> MAX_COMPANIONS \<and> (\<forall>c \<in> set cs. owner c = p))"

definition companion_inv :: "companion_state \<Rightarrow> bool" where
  "companion_inv s = (\<forall>p cs. activeCompanions s p = Some cs \<longrightarrow> list_ok (ownerGuid s) p cs)"

lemma list_ok_upd [simp]: "me \<notin> set cs \<Longrightarrow> list_ok (f(me := x)) p cs = list_ok f p cs"
  by (auto simp: list_ok_def)

lemma list_ok_filter:
  assumes "list_ok f p cs" "filter P cs \<noteq> []"
  shows "list_ok f p (filter P cs)"
  using assms le_trans [OF length_filter_le [of P cs]] by (auto simp: list_ok_def)

lemma list_ok_owner: "list_ok f p cs \<Longrightarrow> c \<in> set cs \<Longrightarrow> f c = p \<and> p \<noteq> 0"
  by (simp add: list_ok_def)

lemma list_ok_snoc:
  assumes "p \<noteq> 0" "c \<notin> set cs" "length cs < MAX_COMPANIONS" "cs = [] \<or> list_ok f p cs"
  shows "list_ok (f(c := p)) p (cs @ [c])"
  using assms by (auto simp: list_ok_def)

section \<open>What an operation leaves alone\<close>

lemma emit_sel [simp]:
  "activeCompanions (emit es s) = activeCompanions s"
  "ownerGuid (emit es s) = ownerGuid s"
  "companionTemplates (emit es s) = companionTemplates s"
  "reactState (emit es s) = reactState s"
  "checkTimer (emit es s) = checkTimer s"
  "effects (emit es s) = effects s @ es"
  by (simp_all add: emit_def)

lemma AssistAgainst_sel [simp]:
  "activeCompanions (AssistAgainst e tg me s) = activeCompanions s"
  "ownerGuid (AssistAgainst e tg me s) = ownerGuid s"
  by (simp_all add: AssistAgainst_def)

lemma assist_each_sel [simp]:
  "activeCompanions (assist_each e ow tg cs s) = activeCompanions s"
  "ownerGuid (assist_each e ow tg cs s) = ownerGuid s"
  by (induction cs arbitrary: s) simp_all

lemma StartFollowing_owner: "ownerGuid (StartFollowing e p me s) = (ownerGuid s)(me := p)"
  and StartFollowing_active [simp]: "activeCompanions (StartFollowing e p me s) = activeCompanions s"
  by (simp_all add: StartFollowing_def)

lemma OnCompanionDismissed_owner [simp]: "ownerGuid (OnCompanionDismissed p c s) = ownerGuid s"
  by (simp add: OnCompanionDismissed_def Let_def split: option.split)

lemma OnCompanionDismissed_members:
  "GetCompanions (OnCompanionDismissed p c s) q
     = (if q = p then filter (\<lambda>g. g \<noteq> c) (GetCompanions s q) else GetCompanions s q)"
  by (auto simp: OnCompanionDismissed_def GetCompanions_def Let_def split: option.splits)

lemma GetCompanions_cong: "activeCompanions s = activeCompanions t \<Longrightarrow> GetCompanions s = GetCompanions t"
  by (auto simp: GetCompanions_def fun_eq_iff)

lemma NotifyDismissed_members:
  "GetCompanions (NotifyDismissed me s) q
     = (if q = ownerGuid s me \<and> \<not> IsEmpty q then filter (\<lambda>g. g \<noteq> me) (GetCompanions s q) else GetCompanions s q)"
proof -
  have "GetCompanions (emit es (t\<lparr>ownerGuid := f\<rparr>)) q = GetCompanions t q" for es t f
    by (simp add: GetCompanions_def)
  then show ?thesis
    by (auto simp: NotifyDismissed_def Let_def OnCompanionDismissed_members)
qed

lemma NotifyDismissed_owner: "ownerGuid (NotifyDismissed me s) = (ownerGuid s)(me := 0)"
  by (auto simp: NotifyDismissed_def Let_def IsEmpty_def)

lemma StopFollowing_owner: "ownerGuid (StopFollowing me s) = (ownerGuid s)(me := 0)"
  by (simp add: StopFollowing_def Let_def NotifyDismissed_owner)

section \<open>The invariant\<close>

lemma companion_inv_cong:
  "activeCompanions s = activeCompanions t \<Longrightarrow> ownerGuid s = ownerGuid t \<Longrightarrow> companion_inv s = companion_inv t"
  by (simp add: companion_inv_def)

lemma inv_emit [simp]: "companion_inv (emit es s) = companion_inv s"
  by (rule companion_inv_cong) simp_all

lemma inv_owner:
  assumes "companion_inv s" "activeCompanions s p = Some cs" "c \<in> set cs"
  shows "ownerGuid s c = p \<and> p \<noteq> 0"
  using assms by (metis companion_inv_def list_ok_owner)

lemma inv_NotifyDismissed:
  assumes "companion_inv s"
  shows "companion_inv (NotifyDismissed me s)"
proof (cases "IsEmpty (ownerGuid s me)")
  case False
  let ?o = "ownerGuid s me"
  have ok: "list_ok (ownerGuid s) p cs" if "activeCompanions s p = Some cs" for p cs
    using assms that by (simp add: companion_inv_def)
  have other: "me \<notin> set cs" if "activeCompanions s p = Some cs" "p \<noteq> ?o" for p cs
    using inv_owner [OF assms that(1)] that(2) by auto
  show ?thesis
  proof (cases "activeCompanions s ?o")
    case None
    have "list_ok ((ownerGuid s)(me := 0)) p cs" if "activeCompanions s p = Some cs" for p cs
      using ok [OF that] other [OF that] that None by (cases "p = ?o") auto
    then show ?thesis
      using False None by (simp add: NotifyDismissed_def Let_def OnCompanionDismissed_def companion_inv_def)
  next
    case (Some cs)
    let ?cs = "filter (\<lambda>g. g \<noteq> me) cs"
    have "list_ok ((ownerGuid s)(me := 0)) ?o ?cs" if "?cs \<noteq> []"
      using list_ok_filter [OF ok [OF Some] that] by simp
    then show ?thesis
      using False Some ok other
      by (auto simp: NotifyDismissed_def Let_def OnCompanionDismissed_def companion_inv_def)
  qed
qed (simp add: NotifyDismissed_def assms)

lemma inv_StopFollowing: "companion_inv s \<Longrightarrow> companion_inv (StopFollowing me s)"
  unfolding StopFollowing_def Let_def inv_emit
  by (rule inv_NotifyDismissed) (simp add: companion_inv_def)

lemma inv_refollow: "companion_inv s \<Longrightarrow> companion_inv (StartFollowing e (ownerGuid s me) me s)"
  by (simp add: companion_inv_def StartFollowing_def)

lemma inv_UpdateAI:
  assumes "companion_inv s"
  shows "companion_inv (UpdateAI e diff me s)"
proof -
  have timer: "companion_inv (t\<lparr>checkTimer := f\<rparr>) = companion_inv t" for t f
    by (rule companion_inv_cong) simp_all
  have follow: "companion_inv (StartFollowing e (ownerGuid s me) me t)"
    if "companion_inv t" "ownerGuid t me = ownerGuid s me" for t
    using inv_refollow [OF that(1), of e me] that(2) by simp
  show ?thesis
    unfolding UpdateAI_def Let_def
    by (auto simp: timer assms intro!: inv_StopFollowing follow)
qed

lemma inv_EnterEvadeMode: "companion_inv s \<Longrightarrow> companion_inv (EnterEvadeMode e me s)"
  by (simp add: EnterEvadeMode_def Let_def inv_refollow)

lemma inv_fresh:
  assumes "companion_inv s" "\<not> IsRecruited s me" "activeCompanions s p = Some cs"
  shows "me \<notin> set cs"
  using inv_owner [OF assms(1,3)] assms(2) by (auto simp: IsRecruited_def IsEmpty_def)

lemma inv_enlist:
  assumes "companion_inv s" "player \<noteq> 0" "\<not> IsRecruited s me" "length (GetCompanions s player) < MAX_COMPANIONS"
  shows "companion_inv (s\<lparr>activeCompanions := (activeCompanions s)(player \<mapsto> GetCompanions s player @ [me]),
                          ownerGuid := (ownerGuid s)(me := player)\<rparr>)"
proof -
  let ?cs = "GetCompanions s player"
  have "?cs = [] \<or> list_ok (ownerGuid s) player ?cs" "me \<notin> set ?cs"
    using assms(1) inv_fresh [OF assms(1,3), of player]
    by (auto simp: GetCompanions_def companion_inv_def split: option.split)
  then have "list_ok ((ownerGuid s)(me := player)) player (?cs @ [me])"
    using assms list_ok_snoc by blast
  then show ?thesis
    using assms(1) inv_fresh [OF assms(1,3)] by (simp add: companion_inv_def)
qed

lemma inv_Recruit:
  assumes "companion_inv s" "player \<noteq> 0"
  shows "companion_inv (snd (Recruit e player me s))"
proof -
  have keep: "companion_inv (s\<lparr>activeCompanions := (activeCompanions s)(player \<mapsto> GetCompanions s player)\<rparr>)"
    if "MAX_COMPANIONS \<le> length (GetCompanions s player)"
    using assms(1) that
    by (auto simp: GetCompanions_def MAX_COMPANIONS_def companion_inv_def split: option.splits)
  show ?thesis
    using assms keep inv_enlist [OF assms, of me]
    by (simp add: Recruit_def Let_def StartFollowing_def)
qed

lemma inv_dismiss_each: "companion_inv s \<Longrightarrow> companion_inv (dismiss_each e player cs s)"
  by (induction cs arbitrary: s) (auto intro: inv_StopFollowing)

lemma inv_DismissAll: "companion_inv s \<Longrightarrow> companion_inv (DismissAll e player s)"
  using inv_dismiss_each [of s e player]
  by (auto simp: DismissAll_def Let_def companion_inv_def split: option.split)

lemma inv_OnGossipSelect:
  assumes "companion_inv s" "player \<noteq> 0"
  shows "companion_inv (snd (OnGossipSelect e player item me s))"
  using assms inv_Recruit [of "emit [CloseGossipMenu player] s" player e me]
  by (simp add: OnGossipSelect_def Let_def inv_StopFollowing)

lemma inv_new_CompanionAI:
  assumes "companion_inv s" "\<And>p. me \<notin> set (GetCompanions s p)"
  shows "companion_inv (new_CompanionAI me s)"
proof -
  have "me \<notin> set cs" if "activeCompanions s p = Some cs" for p cs
    using assms(2) [of p] that by (simp add: GetCompanions_def)
  then show ?thesis using assms(1) by (auto simp: new_CompanionAI_def companion_inv_def)
qed

lemma inv_companion_step:
  assumes "companion_inv s" "companion_step s t"
  shows "companion_inv t"
  using assms(2,1)
proof cases
  case step_load
  then show ?thesis using assms(1) by (auto simp: LoadTemplates_def companion_inv_def split: option.split)
next
  case step_assist
  then show ?thesis using assms(1)
    by (auto simp: AssistOwner_def companion_inv_def split: option.split)
next
  case step_hello
  then show ?thesis using assms(1) by (simp add: OnGossipHello_def Let_def)
qed (simp_all add: assms(1) JustAppeared_def JustDied_def inv_new_CompanionAI inv_NotifyDismissed inv_UpdateAI
       inv_EnterEvadeMode inv_Recruit inv_DismissAll inv_OnGossipSelect)

interpretation companions: invariant_system companion_init companion_step companion_inv
  by unfold_locales (simp add: companion_init_def companion_inv_def, rule inv_companion_step)

section \<open>Properties\<close>

lemma reachable_list:
  assumes "companion_inv t"
  shows "length (GetCompanions t p) \<le> MAX_COMPANIONS" "distinct (GetCompanions t p)"
    and "c \<in> set (GetCompanions t p) \<Longrightarrow> ownerGuid t c = p \<and> IsRecruited t c"
proof -
  have "GetCompanions t p = [] \<or> list_ok (ownerGuid t) p (GetCompanions t p)"
    using assms by (auto simp: GetCompanions_def companion_inv_def split: option.split)
  then show "length (GetCompanions t p) \<le> MAX_COMPANIONS" "distinct (GetCompanions t p)"
    "c \<in> set (GetCompanions t p) \<Longrightarrow> ownerGuid t c = p \<and> IsRecruited t c"
    by (auto simp: list_ok_def IsRecruited_def IsEmpty_def)
qed


definition demo_engine :: engine where
  "demo_engine = \<lparr>isAlive = (\<lambda>_. True), getEntry = (\<lambda>_. 7), hasCompanionAI = (\<lambda>_. True),
     findPlayer = (\<lambda>_ p. p \<noteq> 0), findCreature = (\<lambda>_ _. True), isEngaged = (\<lambda>_. False), isFollowing = (\<lambda>_. False),
     isWithinDist = (\<lambda>_ _. True), canAttack = (\<lambda>_ _. True), enterEvade = (\<lambda>_. True), getFaction = (\<lambda>_. 1)\<rparr>"

definition demo_state :: companion_state where
  "demo_state = \<lparr>companionTemplates = [7], activeCompanions = Map.empty, ownerGuid = (\<lambda>_. 0),
     checkTimer = (\<lambda>_. 0), reactState = (\<lambda>_. REACT_DEFENSIVE), effects = []\<rparr>"

definition demo_recruited :: companion_state where
  "demo_recruited = snd (Recruit demo_engine 5 9 demo_state)"

lemma demo_recruited_members: "GetCompanions demo_recruited 5 = [9]"
  by (simp add: demo_recruited_def demo_state_def demo_engine_def Recruit_def IsCompanion_def IsRecruited_def
      IsEmpty_def GetCompanions_def MAX_COMPANIONS_def Let_def StartFollowing_def)


definition can_recruit :: "engine \<Rightarrow> ObjectGuid \<Rightarrow> ObjectGuid \<Rightarrow> companion_state \<Rightarrow> bool" where
  "can_recruit e player c s =
     (IsCompanion s (getEntry e c) \<and> isAlive e c \<and> hasCompanionAI e c \<and> \<not> IsRecruited s c
      \<and> length (GetCompanions s player) < MAX_COMPANIONS)"

text \<open>Recruiting succeeds exactly when the creature is a living companion of the template table with a
  companion AI, nobody recruited it and the player has a free place; it then becomes the last of the
  player's companions, has him as its owner and is told to follow him. Otherwise no list and no owner
  changes.\<close>

theorem Recruit_spec:
  "case Recruit e player c s of (ok, t) \<Rightarrow>
     ok = can_recruit e player c s
     \<and> GetCompanions t = (if ok then (GetCompanions s)(player := GetCompanions s player @ [c]) else GetCompanions s)
     \<and> ownerGuid t = (if ok then (ownerGuid s)(c := player) else ownerGuid s)
     \<and> effects t = effects s @ (if ok then [SetFaction c (getFaction e player),
                                             MoveFollow c player (unat (GetCounter c) mod 4)] else [])"
  by (auto simp: Recruit_def can_recruit_def Let_def StartFollowing_def GetCompanions_def fun_eq_iff
      split: option.split)

lemma dismiss_each_owner:
  "ownerGuid (dismiss_each e player cs s)
     = (\<lambda>c. if c \<in> set cs \<and> findCreature e player c \<and> hasCompanionAI e c then 0 else ownerGuid s c)"
  by (induction cs arbitrary: s) (auto simp: StopFollowing_owner fun_eq_iff)

lemma NotifyDismissed_effects: "set (effects s) \<subseteq> set (effects (NotifyDismissed me s))"
  by (auto simp: NotifyDismissed_def OnCompanionDismissed_def Let_def split: option.splits)

lemma StopFollowing_effects:
  "set (effects s) \<subseteq> set (effects (StopFollowing me s))" "MoveTargetedHome me \<in> set (effects (StopFollowing me s))"
  using NotifyDismissed_effects [of "emit [SetReactState me REACT_DEFENSIVE] (s\<lparr>reactState := (reactState s)(me := REACT_DEFENSIVE)\<rparr>)" me]
  by (auto simp: StopFollowing_def Let_def)

lemma dismiss_each_effects:
  "set (effects s) \<subseteq> set (effects (dismiss_each e player cs s))"
  "c \<in> set cs \<Longrightarrow> findCreature e player c \<Longrightarrow> hasCompanionAI e c \<Longrightarrow>
     MoveTargetedHome c \<in> set (effects (dismiss_each e player cs s))"
proof (induction cs arbitrary: s)
  case (Cons d cs)
  { case 1 then show ?case using Cons.IH(1) StopFollowing_effects(1) [of s d]
      by (auto split: if_splits dest: subsetD) }
  { case 2 then show ?case using Cons.IH StopFollowing_effects(2) [of c s] by (auto dest: subsetD) }
qed simp_all

text \<open>Dismissing all companions empties the player's list, and every listed companion that is on the
  map loses its owner and is sent home, although each of them edits the list while it is walked.\<close>

theorem DismissAll_spec:
  assumes "c \<in> set (GetCompanions s player)" "findCreature e player c" "hasCompanionAI e c"
  shows "GetCompanions (DismissAll e player s) player = []
    \<and> \<not> IsRecruited (DismissAll e player s) c
    \<and> MoveTargetedHome c \<in> set (effects (DismissAll e player s))"
proof (cases "activeCompanions s player")
  case (Some cs)
  then have "c \<in> set cs" using assms(1) by (simp add: GetCompanions_def)
  then show ?thesis
    using Some assms(2,3) dismiss_each_effects(2) [of c cs e player s]
    by (simp add: DismissAll_def GetCompanions_def Let_def IsRecruited_def IsEmpty_def dismiss_each_owner)
qed (use assms(1) in \<open>simp add: GetCompanions_def\<close>)

theorem DismissAll_spec_witness: "GetCompanions (DismissAll demo_engine 5 demo_recruited) 5 = []"
  using DismissAll_spec [of 9 demo_recruited 5 demo_engine] demo_recruited_members
  by (simp add: demo_engine_def)

end
