(* ===== verification/Base_Encoding.thy ===== *)
theory Base_Encoding
  imports Prelude
begin

text \<open>
  The base-\<open>2\<^sup>k\<close> text encodings of \<open>src/common/Encoding\<close>: \<open>GenericBaseEncoding\<close> with its two
  instances \<open>Base64\<close> and \<open>Base32\<close>. The generic encoder and decoder are bit-serial loops over a
  byte cursor and a count of the bits left in the current byte; \<open>None\<close> stands for a failed
  \<open>ASSERT\<close> or a loop that does not end in \<open>Encode\<close>, and for the empty \<open>Optional\<close> in \<open>Decode\<close>.
\<close>

section \<open>The encoding parameter and the generic loops\<close>

record base_encoding =
  bits_per_char :: nat
  padding :: char
  encode_char :: "u8 \<Rightarrow> char option"
  decode_char :: "u8 \<Rightarrow> u8"
  decode_error :: u8

definition pad_to :: "base_encoding \<Rightarrow> nat" where
  "pad_to E = lcm 8 (bits_per_char E)"

definition EncodedSize :: "base_encoding \<Rightarrow> nat \<Rightarrow> nat" where
  "EncodedSize E n =
     (let sz = n * 8;
          sz = (if sz mod pad_to E \<noteq> 0 then sz + (pad_to E - sz mod pad_to E) else sz)
      in sz div bits_per_char E)"

definition DecodedSize :: "base_encoding \<Rightarrow> nat \<Rightarrow> nat" where
  "DecodedSize E n =
     (let sz = n * bits_per_char E;
          sz = (if sz mod pad_to E \<noteq> 0 then sz + (pad_to E - sz mod pad_to E) else sz)
      in sz div 8)"

definition append_char :: "base_encoding \<Rightarrow> u8 \<Rightarrow> string \<Rightarrow> string option" where
  "append_char E v s = map_option (\<lambda>c. s @ [c]) (encode_char E v)"

function enc_loop :: "base_encoding \<Rightarrow> bytes \<Rightarrow> nat \<Rightarrow> string \<Rightarrow> (string \<times> nat) option" where
  "enc_loop E [] bitsLeft s = Some (s, bitsLeft)"
| "enc_loop E (b # it) bitsLeft s =
     (let k = bits_per_char E in
      if k = 0 then None \<comment> \<open>the loop would not advance\<close>
      else if k \<le> bitsLeft then
        let bitsLeft' = bitsLeft - k;
            thisC = drop_bit bitsLeft' b AND (2 ^ k - 1)
        in (case append_char E thisC s of
              None \<Rightarrow> None
            | Some s' \<Rightarrow> if bitsLeft' = 0 then enc_loop E it 8 s'
                         else enc_loop E (b # it) bitsLeft' s')
      else
        let thisC = push_bit (k - bitsLeft) (b AND (2 ^ bitsLeft - 1));
            bitsLeft' = bitsLeft + (8 - k);
            thisC' = (case it of [] \<Rightarrow> thisC | b' # _ \<Rightarrow> thisC OR drop_bit bitsLeft' b')
        in (case append_char E thisC' s of
              None \<Rightarrow> None
            | Some s' \<Rightarrow> enc_loop E it bitsLeft' s'))"
  by pat_completeness auto
termination
  by (relation "measure (\<lambda>(E, it, bitsLeft, s). 8 * length it + bitsLeft)") auto

definition next_pad :: "nat \<Rightarrow> nat \<Rightarrow> nat" where
  "next_pad k bitsLeft = (if bitsLeft > k then bitsLeft - k else bitsLeft + (8 - k))"

partial_function (option) pad_loop :: "base_encoding \<Rightarrow> nat \<Rightarrow> string \<Rightarrow> string option" where
  "pad_loop E bitsLeft s =
     (if bitsLeft = 8 then Some s
      else pad_loop E (next_pad (bits_per_char E) bitsLeft) (s @ [padding E]))"

definition Encode :: "base_encoding \<Rightarrow> bytes \<Rightarrow> string option" where
  "Encode E data =
     (if data = [] then Some []
      else case enc_loop E data 8 [] of
             None \<Rightarrow> None
           | Some (s, bitsLeft) \<Rightarrow> pad_loop E bitsLeft s)"

fun dec_loop :: "base_encoding \<Rightarrow> string \<Rightarrow> u8 \<Rightarrow> nat \<Rightarrow> bytes \<Rightarrow> (string \<times> u8 \<times> nat \<times> bytes) option" where
  "dec_loop E [] currentByte bitsLeft v = Some ([], currentByte, bitsLeft, v)"
| "dec_loop E (c # it) currentByte bitsLeft v =
     (if c = padding E then Some (c # it, currentByte, bitsLeft, v)
      else let k = bits_per_char E; cur = decode_char E (byte_of_char c) in
        if cur = decode_error E then None
        else if bitsLeft > k then
          dec_loop E it (currentByte OR push_bit (bitsLeft - k) cur) (bitsLeft - k) v
        else
          let r = k - bitsLeft;
              v' = v @ [currentByte OR drop_bit r cur];
              rest = cur AND (2 ^ r - 1)
          in dec_loop E it (push_bit (8 - r) rest) (8 - r) v')"

fun skip_pad :: "base_encoding \<Rightarrow> string \<Rightarrow> nat \<Rightarrow> string" where
  "skip_pad E [] bitsLeft = []"
| "skip_pad E (c # it) bitsLeft =
     (if c = padding E \<and> bitsLeft \<noteq> 8
      then skip_pad E it (next_pad (bits_per_char E) bitsLeft) else c # it)"

definition Decode :: "base_encoding \<Rightarrow> string \<Rightarrow> bytes option" where
  "Decode E data =
     (if data = [] then Some []
      else case dec_loop E data 0 8 [] of
             None \<Rightarrow> None
           | Some (it, currentByte, bitsLeft, v) \<Rightarrow>
               if currentByte \<noteq> 0 then None
               else if skip_pad E it bitsLeft = [] then Some v else None)"

declare enc_loop.simps [simp del] pad_loop.simps [simp del] dec_loop.simps [simp del]

section \<open>The two alphabets\<close>

definition b64_encode :: "u8 \<Rightarrow> char option" where
  "b64_encode v =
     (if \<not> v < 0x40 then None \<comment> \<open>ASSERT\<close>
      else if v < 26 then Some (char_of_byte (byte_of_char (CHR ''A'') + v))
      else if v < 52 then Some (char_of_byte (byte_of_char (CHR ''a'') + (v - 26)))
      else if v < 62 then Some (char_of_byte (byte_of_char (CHR ''0'') + (v - 52)))
      else if v = 62 then Some (CHR ''+'')
      else Some (CHR ''/''))"

definition b64_decode :: "u8 \<Rightarrow> u8" where
  "b64_decode v =
     (if byte_of_char (CHR ''A'') \<le> v \<and> v \<le> byte_of_char (CHR ''Z'') then v - byte_of_char (CHR ''A'')
      else if byte_of_char (CHR ''a'') \<le> v \<and> v \<le> byte_of_char (CHR ''z'')
        then (v - byte_of_char (CHR ''a'')) + 26
      else if byte_of_char (CHR ''0'') \<le> v \<and> v \<le> byte_of_char (CHR ''9'')
        then (v - byte_of_char (CHR ''0'')) + 52
      else if v = byte_of_char (CHR ''+'') then 62
      else if v = byte_of_char (CHR ''/'') then 63
      else 0xff)"

definition B64Impl :: base_encoding where
  "B64Impl = \<lparr>bits_per_char = 6, padding = CHR ''='', encode_char = b64_encode,
              decode_char = b64_decode, decode_error = 0xff\<rparr>"

definition b32_encode :: "u8 \<Rightarrow> char option" where
  "b32_encode v =
     (if \<not> v < 0x20 then None \<comment> \<open>ASSERT\<close>
      else if v < 26 then Some (char_of_byte (byte_of_char (CHR ''A'') + v))
      else Some (char_of_byte (byte_of_char (CHR ''2'') + (v - 26))))"

definition b32_decode_letter :: "u8 \<Rightarrow> u8" where
  "b32_decode_letter v =
     (if byte_of_char (CHR ''A'') \<le> v \<and> v \<le> byte_of_char (CHR ''Z'') then v - byte_of_char (CHR ''A'')
      else if byte_of_char (CHR ''a'') \<le> v \<and> v \<le> byte_of_char (CHR ''z'')
        then v - byte_of_char (CHR ''a'')
      else if byte_of_char (CHR ''2'') \<le> v \<and> v \<le> byte_of_char (CHR ''7'')
        then (v - byte_of_char (CHR ''2'')) + 26
      else 0xff)"

text \<open>The three look-alike digits are decoded as letters, by one recursive call each.\<close>

definition b32_decode :: "u8 \<Rightarrow> u8" where
  "b32_decode v =
     (if v = byte_of_char (CHR ''0'') then b32_decode_letter (byte_of_char (CHR ''O''))
      else if v = byte_of_char (CHR ''1'') then b32_decode_letter (byte_of_char (CHR ''l''))
      else if v = byte_of_char (CHR ''8'') then b32_decode_letter (byte_of_char (CHR ''B''))
      else b32_decode_letter v)"

definition B32Impl :: base_encoding where
  "B32Impl = \<lparr>bits_per_char = 5, padding = CHR ''='', encode_char = b32_encode,
              decode_char = b32_decode, decode_error = 0xff\<rparr>"

definition Base64_Encode :: "bytes \<Rightarrow> string option" where
  "Base64_Encode data = Encode B64Impl data"

definition Base64_Decode :: "string \<Rightarrow> bytes option" where
  "Base64_Decode data = Decode B64Impl data"

definition Base32_Encode :: "bytes \<Rightarrow> string option" where
  "Base32_Encode data = Encode B32Impl data"

definition Base32_Decode :: "string \<Rightarrow> bytes option" where
  "Base32_Decode data = Decode B32Impl data"

section \<open>Bits of a byte moving between the two cursors\<close>

text \<open>
  The decoder's accumulator holds the bits of the current byte the encoder has already sent:
  those above the \<open>bitsLeft\<close> low ones.
\<close>

definition top_bits :: "nat \<Rightarrow> bytes \<Rightarrow> u8" where
  "top_bits bl it = (case it of [] \<Rightarrow> 0 | b # _ \<Rightarrow> push_bit bl (drop_bit bl b))"

lemma top_bits_8 [simp]: "top_bits 8 it = 0"
  by (auto simp: top_bits_def bit_simps intro!: bit_eqI split: list.splits)

lemma mask_conv: "(2 ^ n - 1 :: u8) = mask n"
  by (simp add: mask_eq_exp_minus_1)

lemma u8_less_exp:
  assumes c: "take_bit k (c :: u8) = c" and k: "k < 8"
  shows "c < 2 ^ k"
proof -
  have "uint c = take_bit k (uint c)"
    using c by (metis unsigned_take_bit_eq)
  then have "uint c < 2 ^ k"
    by (metis take_bit_int_less_exp)
  then show ?thesis
    using k by (simp add: word_2p_lem word_size)
qed

lemma split_low:
  fixes b :: u8
  assumes "bl \<le> 8" "k < bl"
  shows "push_bit bl (drop_bit bl b) OR push_bit (bl - k) (drop_bit (bl - k) b AND mask k)
       = push_bit (bl - k) (drop_bit (bl - k) b)"
proof (rule bit_eqI)
  fix n
  show "bit (push_bit bl (drop_bit bl b) OR push_bit (bl - k) (drop_bit (bl - k) b AND mask k)) n
      = bit (push_bit (bl - k) (drop_bit (bl - k) b)) n"
    using assms by (cases "n < bl") (auto simp: bit_simps not_less)
qed

lemma split_whole:
  fixes b :: u8
  shows "push_bit k (drop_bit k b) OR (b AND mask k) = b"
  by (intro bit_eqI) (auto simp: bit_simps not_less)

lemma split_across:
  fixes b x c :: u8 and bl r :: nat
  assumes bl: "bl + r < 8" and x: "take_bit r x = x"
    and c: "c = push_bit r (b AND mask bl) OR x"
  shows "push_bit bl (drop_bit bl b) OR drop_bit r c = b"
    and "c AND mask r = x"
    and "take_bit (bl + r) c = c"
proof -
  have bit_x: "n < r" if "bit x n" for n
    using x that by (metis bit_take_bit_iff)
  show "push_bit bl (drop_bit bl b) OR drop_bit r c = b"
  proof (rule bit_eqI)
    fix n
    assume "possible_bit TYPE(u8) n"
    then show "bit (push_bit bl (drop_bit bl b) OR drop_bit r c) n = bit b n"
      using bl by (cases "n < bl") (auto simp: c bit_simps not_less dest: bit_x)
  qed
  show "c AND mask r = x"
    using bl by (intro bit_eqI) (auto simp: c bit_simps dest: bit_x)
  show "take_bit (bl + r) c = c"
    using bl by (intro bit_eqI) (auto simp: c bit_simps dest: bit_x)
qed

section \<open>The contract of an alphabet and the round trip it gives\<close>

text \<open>
  What the generic loops rely on: every value of \<open>k\<close> bits has a character, which is not the
  padding and decodes to the value, and the padding loop ends from the bit counts an encoding
  can stop at.
\<close>

locale char_code =
  fixes E :: base_encoding
  assumes bits_pos: "0 < bits_per_char E"
    and bits_less: "bits_per_char E < 8"
    and enc_dec: "v < 2 ^ bits_per_char E \<Longrightarrow>
      \<exists>c. encode_char E v = Some c \<and> c \<noteq> padding E \<and> decode_char E (byte_of_char c) = v
        \<and> v \<noteq> decode_error E"
    and pad_ends: "0 < bl \<Longrightarrow> bl \<le> 8 \<Longrightarrow> gcd 8 (bits_per_char E) dvd bl \<Longrightarrow>
      \<exists>n. pad_loop E bl s = Some (s @ replicate n (padding E))
        \<and> skip_pad E (replicate n (padding E)) bl = []"
begin

lemma send_value:
  assumes "take_bit (bits_per_char E) v = v"
  obtains c where "append_char E v s = Some (s @ [c])" and "c \<noteq> padding E"
    and "decode_char E (byte_of_char c) = v" and "v \<noteq> decode_error E"
proof -
  have "v < 2 ^ bits_per_char E"
    using assms bits_less by (rule u8_less_exp)
  from enc_dec [OF this] that show ?thesis
    by (auto simp: append_char_def)
qed

lemma dec_loop_stop: "rest = [] \<or> hd rest = padding E \<Longrightarrow>
  dec_loop E rest cur bl v = Some (rest, cur, bl, v)"
  by (cases rest) (auto simp: dec_loop.simps)

text \<open>
  The two loops run in lock step: their bit counts agree after every character, and the decoder
  has rebuilt every byte the encoder has left.
\<close>

definition in_step :: "bytes \<Rightarrow> nat \<Rightarrow> string \<Rightarrow> bool" where
  "in_step it bl s \<longleftrightarrow> (\<exists>cs bl'. enc_loop E it bl s = Some (s @ cs, bl')
     \<and> 0 < bl' \<and> bl' \<le> 8 \<and> gcd 8 (bits_per_char E) dvd bl' \<and> padding E \<notin> set cs
     \<and> (it \<noteq> [] \<longrightarrow> cs \<noteq> [] \<and> 8 < bl' + bits_per_char E)
     \<and> length cs * bits_per_char E + bl' = 8 * length it + bl
     \<and> (\<forall>rest v. (rest = [] \<or> hd rest = padding E) \<longrightarrow>
          dec_loop E (cs @ rest) (top_bits bl it) bl v = Some (rest, 0, bl', v @ it)))"

lemma in_step_prepend:
  assumes enc: "enc_loop E it bl s = enc_loop E it2 bl2 (s @ [c])"
    and c: "c \<noteq> padding E"
    and dec: "\<And>cs v. dec_loop E (c # cs) (top_bits bl it) bl v
                 = dec_loop E cs (top_bits bl2 it2) bl2 (v @ done)"
    and it: "it = done @ it2" and step: "in_step it2 bl2 (s @ [c])"
    and count: "bits_per_char E + 8 * length it2 + bl2 = 8 * length it + bl"
    and bl2: "it2 = [] \<Longrightarrow> 8 < bl2 + bits_per_char E"
  shows "in_step it bl s"
proof -
  from step obtain cs bl' where cs: "enc_loop E it2 bl2 (s @ [c]) = Some ((s @ [c]) @ cs, bl')"
    and bl': "0 < bl'" "bl' \<le> 8" "gcd 8 (bits_per_char E) dvd bl'" "padding E \<notin> set cs"
    and len: "length cs * bits_per_char E + bl' = 8 * length it2 + bl2"
    and ne: "it2 \<noteq> [] \<longrightarrow> 8 < bl' + bits_per_char E"
    and d: "\<And>rest v. rest = [] \<or> hd rest = padding E \<Longrightarrow>
          dec_loop E (cs @ rest) (top_bits bl2 it2) bl2 v = Some (rest, 0, bl', v @ it2)"
    unfolding in_step_def by blast
  have big: "8 < bl' + bits_per_char E"
  proof (cases "it2 = []")
    case True
    with cs have "bl' = bl2" by (simp add: enc_loop.simps)
    with bl2 True show ?thesis by simp
  qed (use ne in auto)
  show ?thesis
    unfolding in_step_def
    by (rule exI [of _ "c # cs"], rule exI [of _ bl']) (use cs bl' c d enc dec it len count big in auto)
qed

lemma step_within:
  assumes "bits_per_char E < bl" "bl \<le> 8"
    and "\<And>s. in_step (b # it) (bl - bits_per_char E) s"
  shows "in_step (b # it) bl s"
proof -
  let ?k = "bits_per_char E"
  let ?v = "drop_bit (bl - ?k) b AND mask ?k"
  have "take_bit ?k ?v = ?v"
    by (rule bit_eqI) (auto simp: bit_simps)
  from send_value [OF this] obtain c where c: "append_char E ?v s = Some (s @ [c])"
    "c \<noteq> padding E" "decode_char E (byte_of_char c) = ?v" "?v \<noteq> decode_error E" .
  show ?thesis
  proof (rule in_step_prepend [where ?done = "[]" and c = c])
    show "enc_loop E (b # it) bl s = enc_loop E (b # it) (bl - ?k) (s @ [c])"
      using assms(1) bits_pos c(1) by (simp add: enc_loop.simps(2) [of E b it bl s] Let_def mask_conv)
    show "dec_loop E (c # cs) (top_bits bl (b # it)) bl v
        = dec_loop E cs (top_bits (bl - ?k) (b # it)) (bl - ?k) (v @ [])" for cs v
      using assms(1,2) c by (simp add: dec_loop.simps Let_def top_bits_def split_low del: push_bit_and)
  qed (use c assms bits_pos in auto)
qed

lemma step_exact:
  assumes "\<And>s. in_step it 8 s"
  shows "in_step (b # it) (bits_per_char E) s"
proof -
  let ?k = "bits_per_char E"
  let ?v = "b AND mask ?k"
  have "take_bit ?k ?v = ?v"
    by (rule bit_eqI) (auto simp: bit_simps)
  from send_value [OF this] obtain c where c: "append_char E ?v s = Some (s @ [c])"
    "c \<noteq> padding E" "decode_char E (byte_of_char c) = ?v" "?v \<noteq> decode_error E" .
  show ?thesis
  proof (rule in_step_prepend [where ?done = "[b]" and c = c])
    show "enc_loop E (b # it) ?k s = enc_loop E it 8 (s @ [c])"
      using bits_pos c(1) by (simp add: enc_loop.simps(2) [of E b it ?k s] Let_def mask_conv)
    show "dec_loop E (c # cs) (top_bits ?k (b # it)) ?k v
        = dec_loop E cs (top_bits 8 it) 8 (v @ [b])" for cs v
      using c by (simp add: dec_loop.simps Let_def split_whole) (simp add: top_bits_def split_whole)
  qed (use c assms bits_pos in auto)
qed

lemma step_across:
  assumes "0 < bl" "bl < bits_per_char E"
    and "\<And>s. in_step it (bl + (8 - bits_per_char E)) s"
  shows "in_step (b # it) bl s"
proof -
  let ?k = "bits_per_char E" and ?r = "bits_per_char E - bl"
  let ?bl = "bl + (8 - ?k)"
  define x where "x = (case it of [] \<Rightarrow> 0 | b' # _ \<Rightarrow> drop_bit ?bl b')"
  let ?v = "push_bit ?r (b AND mask bl) OR x"
  have r: "bl + ?r < 8" "bl + ?r = ?k" "8 - ?r = ?bl"
    using assms(2) bits_less by auto
  have "n < ?r" if "bit (drop_bit ?bl b') n" for b' :: u8 and n
    using that bit_imp_le_length [of b' "?bl + n"] assms(2) bits_less by (simp add: bit_simps)
  then have x: "take_bit ?r x = x"
    by (auto simp: x_def bit_take_bit_iff intro!: bit_eqI split: list.splits)
  note v = split_across [OF r(1) x refl, of b, unfolded r(2)]
  from send_value [OF v(3)] obtain c where c: "append_char E ?v s = Some (s @ [c])"
    "c \<noteq> padding E" "decode_char E (byte_of_char c) = ?v" "?v \<noteq> decode_error E" .
  have top: "push_bit ?bl x = top_bits ?bl it"
    by (simp add: x_def top_bits_def split: list.splits)
  have thisC: "(case it of [] \<Rightarrow> push_bit ?r (b AND mask bl)
      | b' # _ \<Rightarrow> push_bit ?r (b AND mask bl) OR drop_bit ?bl b') = ?v"
    by (simp add: x_def split: list.splits)
  show ?thesis
  proof (rule in_step_prepend [where ?done = "[b]" and c = c])
    show "enc_loop E (b # it) bl s = enc_loop E it ?bl (s @ [c])"
      using assms(2) c(1) by (simp add: enc_loop.simps(2) [of E b it bl s] Let_def mask_conv thisC del: push_bit_and)
    show "dec_loop E (c # cs) (top_bits bl (b # it)) bl w
        = dec_loop E cs (top_bits ?bl it) ?bl (w @ [b])" for cs w
      using assms(2) c v(1,2) r(3) top
      by (simp add: dec_loop.simps Let_def mask_conv top_bits_def [of bl] del: push_bit_and)
  qed (use c assms bits_less in auto)
qed

lemma lock_step:
  "0 < bl \<Longrightarrow> bl \<le> 8 \<Longrightarrow> gcd 8 (bits_per_char E) dvd bl \<Longrightarrow> in_step it bl s"
proof (induction "8 * length it + bl" arbitrary: it bl s rule: less_induct)
  case less
  let ?k = "bits_per_char E"
  show ?case
  proof (cases it)
    case Nil
    with less.prems show ?thesis
      by (auto simp: in_step_def enc_loop.simps dec_loop_stop top_bits_def)
  next
    case (Cons b it')
    have dvd: "gcd 8 ?k dvd bl - ?k" "gcd 8 ?k dvd bl + (8 - ?k)"
      using less.prems(3) by (auto intro: dvd_diff_nat)
    consider "?k < bl" | "?k = bl" | "bl < ?k" by linarith
    then show ?thesis
    proof cases
      case 1
      have "in_step (b # it') (bl - ?k) s" for s
        by (rule less.hyps) (use Cons 1 less.prems bits_pos dvd in auto)
      with 1 less.prems(2) show ?thesis unfolding Cons by (rule step_within)
    next
      case 2
      have "in_step it' 8 s" for s
        by (rule less.hyps) (use Cons less.prems in auto)
      then show ?thesis unfolding Cons 2 [symmetric] by (rule step_exact)
    next
      case 3
      have "in_step it' (bl + (8 - ?k)) s" for s
        by (rule less.hyps) (use Cons 3 less.prems bits_pos dvd in auto)
      with less.prems(1) 3 show ?thesis unfolding Cons by (rule step_across)
    qed
  qed
qed

lemma encode_shape:
  assumes "data \<noteq> []"
  obtains cs bl where "enc_loop E data 8 [] = Some (cs, bl)" and "0 < bl" "bl \<le> 8"
    "gcd 8 (bits_per_char E) dvd bl" and "cs \<noteq> []" and "8 < bl + bits_per_char E"
    and "length cs * bits_per_char E + bl = 8 * length data + 8"
    and "\<forall>rest v. (rest = [] \<or> hd rest = padding E) \<longrightarrow>
          dec_loop E (cs @ rest) 0 8 v = Some (rest, 0, bl, v @ data)"
proof -
  have "in_step data 8 []" by (rule lock_step) auto
  then show ?thesis
    unfolding in_step_def top_bits_8 append_Nil
    by (elim exE conjE) (rule that, use assms in auto)
qed

lemma roundtrip: "\<exists>s. Encode E data = Some s \<and> Decode E s = Some data"
proof (cases "data = []")
  case True
  then show ?thesis by (simp add: Encode_def Decode_def)
next
  case False
  then obtain cs bl where
    enc: "enc_loop E data 8 [] = Some (cs, bl)" and bl: "0 < bl" "bl \<le> 8"
    "gcd 8 (bits_per_char E) dvd bl" and cs: "cs \<noteq> []" and "8 < bl + bits_per_char E"
    and "length cs * bits_per_char E + bl = 8 * length data + 8"
    and dec: "\<forall>rest v. (rest = [] \<or> hd rest = padding E) \<longrightarrow>
          dec_loop E (cs @ rest) 0 8 v = Some (rest, 0, bl, v @ data)"
    by (rule encode_shape)
  from pad_ends [OF bl, of cs] obtain n where
    pad: "pad_loop E bl cs = Some (cs @ replicate n (padding E))"
    and skip: "skip_pad E (replicate n (padding E)) bl = []" by blast
  have "replicate n (padding E) = [] \<or> hd (replicate n (padding E)) = padding E"
    by (cases n) auto
  from dec [rule_format, OF this, of "[]"]
  have "dec_loop E (cs @ replicate n (padding E)) 0 8 [] = Some (replicate n (padding E), 0, bl, data)"
    by simp
  with skip cs
  have "Decode E (cs @ replicate n (padding E)) = Some data"
    by (simp add: Decode_def)
  with False enc pad show ?thesis
    by (simp add: Encode_def)
qed

end

section \<open>Base64 and Base32 meet the contract\<close>

lemma u8_cases_less:
  fixes v :: u8
  assumes "v < of_nat n" and "n < 256" and "\<And>i. i < n \<Longrightarrow> P (of_nat i)"
  shows "P v"
proof -
  from assms(1,2) have "unat v < n"
    by (simp add: word_less_nat_alt unat_of_nat take_bit_nat_eq_self)
  from assms(3) [OF this] show ?thesis by simp
qed

lemma b64_alphabet:
  "list_all (\<lambda>v. case b64_encode v of None \<Rightarrow> False
      | Some c \<Rightarrow> c \<noteq> CHR ''='' \<and> b64_decode (byte_of_char c) = v \<and> v \<noteq> 0xff)
    (map of_nat [0..<64])"
  by code_simp

lemma b32_alphabet:
  "list_all (\<lambda>v. case b32_encode v of None \<Rightarrow> False
      | Some c \<Rightarrow> c \<noteq> CHR ''='' \<and> b32_decode (byte_of_char c) = v \<and> v \<noteq> 0xff)
    (map of_nat [0..<32])"
  by code_simp

lemma pad_loop_replicate:
  assumes "(next_pad (bits_per_char E) ^^ n) bl = 8"
    and "\<forall>i < n. (next_pad (bits_per_char E) ^^ i) bl \<noteq> 8"
  shows "pad_loop E bl s = Some (s @ replicate n (padding E))"
    and "skip_pad E (replicate n (padding E)) bl = []"
proof -
  have "pad_loop E bl s = Some (s @ replicate n (padding E))
      \<and> skip_pad E (replicate n (padding E)) bl = []"
    using assms
  proof (induction n arbitrary: bl s)
    case 0
    then show ?case by (simp add: pad_loop.simps)
  next
    case (Suc n)
    have "bl \<noteq> 8" using Suc.prems(2) by force
    moreover have "\<forall>i < n. (next_pad (bits_per_char E) ^^ i) (next_pad (bits_per_char E) bl) \<noteq> 8"
      using Suc.prems(2) by (auto simp: funpow_Suc_right simp del: funpow.simps dest: spec [of _ "Suc _"])
    ultimately show ?case
      using Suc.IH [of "next_pad (bits_per_char E) bl" "s @ [padding E]"] Suc.prems(1)
      by (simp add: pad_loop.simps [of E bl] funpow_Suc_right del: funpow.simps)
  qed
  then show "pad_loop E bl s = Some (s @ replicate n (padding E))"
    and "skip_pad E (replicate n (padding E)) bl = []" by auto
qed

lemma pad_ends_if:
  assumes "(next_pad (bits_per_char E) ^^ n) bl = 8"
    and "\<forall>i < n. (next_pad (bits_per_char E) ^^ i) bl \<noteq> 8"
  shows "\<exists>n. pad_loop E bl s = Some (s @ replicate n (padding E))
        \<and> skip_pad E (replicate n (padding E)) bl = []"
  using pad_loop_replicate [OF assms] by blast

lemma le_8_cases:
  fixes bl :: nat
  assumes "0 < bl" "bl \<le> 8"
  obtains "bl = 1" | "bl = 2" | "bl = 3" | "bl = 4" | "bl = 5" | "bl = 6" | "bl = 7" | "bl = 8"
  using assms by linarith

interpretation b64: char_code B64Impl
proof unfold_locales
  fix v :: u8
  assume "v < 2 ^ bits_per_char B64Impl"
  then have "v < of_nat 64" by (simp add: B64Impl_def)
  then show "\<exists>c. encode_char B64Impl v = Some c \<and> c \<noteq> padding B64Impl
      \<and> decode_char B64Impl (byte_of_char c) = v \<and> v \<noteq> decode_error B64Impl"
  proof (rule u8_cases_less)
    fix i :: nat
    assume "i < 64"
    then have "(of_nat i :: u8) \<in> set (map of_nat [0..<64])" by auto
    with b64_alphabet show "\<exists>c. encode_char B64Impl (of_nat i) = Some c \<and> c \<noteq> padding B64Impl
      \<and> decode_char B64Impl (byte_of_char c) = of_nat i \<and> of_nat i \<noteq> decode_error B64Impl"
      unfolding list_all_iff by (force simp: B64Impl_def split: option.splits)
  qed simp
next
  fix bl s
  assume bl: "0 < bl" "bl \<le> 8" and dvd: "gcd 8 (bits_per_char B64Impl) dvd bl"
  have "gcd 8 (6::nat) = 2" by code_simp
  with dvd have "even bl" by (simp add: B64Impl_def)
  from bl show "\<exists>n. pad_loop B64Impl bl s = Some (s @ replicate n (padding B64Impl))
        \<and> skip_pad B64Impl (replicate n (padding B64Impl)) bl = []"
  proof (cases rule: le_8_cases)
    case 2
    then show ?thesis
      by (intro pad_ends_if [where n = 3]) (auto simp: B64Impl_def next_pad_def eval_nat_numeral less_Suc_eq)
  next
    case 4
    then show ?thesis
      by (intro pad_ends_if [where n = 2]) (auto simp: B64Impl_def next_pad_def eval_nat_numeral less_Suc_eq)
  next
    case 6
    then show ?thesis
      by (intro pad_ends_if [where n = 1]) (auto simp: B64Impl_def next_pad_def)
  next
    case 8
    then show ?thesis
      by (intro pad_ends_if [where n = 0]) auto
  qed (use \<open>even bl\<close> in auto)
qed (simp_all add: B64Impl_def)

interpretation b32: char_code B32Impl
proof unfold_locales
  fix v :: u8
  assume "v < 2 ^ bits_per_char B32Impl"
  then have "v < of_nat 32" by (simp add: B32Impl_def)
  then show "\<exists>c. encode_char B32Impl v = Some c \<and> c \<noteq> padding B32Impl
      \<and> decode_char B32Impl (byte_of_char c) = v \<and> v \<noteq> decode_error B32Impl"
  proof (rule u8_cases_less)
    fix i :: nat
    assume "i < 32"
    then have "(of_nat i :: u8) \<in> set (map of_nat [0..<32])" by auto
    with b32_alphabet show "\<exists>c. encode_char B32Impl (of_nat i) = Some c \<and> c \<noteq> padding B32Impl
      \<and> decode_char B32Impl (byte_of_char c) = of_nat i \<and> of_nat i \<noteq> decode_error B32Impl"
      unfolding list_all_iff by (force simp: B32Impl_def split: option.splits)
  qed simp
next
  fix bl :: nat and s
  assume bl: "0 < bl" "bl \<le> 8"
  then show "\<exists>n. pad_loop B32Impl bl s = Some (s @ replicate n (padding B32Impl))
        \<and> skip_pad B32Impl (replicate n (padding B32Impl)) bl = []"
  proof (cases rule: le_8_cases)
    case 1
    then show ?thesis
      by (intro pad_ends_if [where n = 5]) (auto simp: B32Impl_def next_pad_def eval_nat_numeral less_Suc_eq)
  next
    case 2
    then show ?thesis
      by (intro pad_ends_if [where n = 2]) (auto simp: B32Impl_def next_pad_def eval_nat_numeral less_Suc_eq)
  next
    case 3
    then show ?thesis
      by (intro pad_ends_if [where n = 7]) (auto simp: B32Impl_def next_pad_def eval_nat_numeral less_Suc_eq)
  next
    case 4
    then show ?thesis
      by (intro pad_ends_if [where n = 4]) (auto simp: B32Impl_def next_pad_def eval_nat_numeral less_Suc_eq)
  next
    case 5
    then show ?thesis
      by (intro pad_ends_if [where n = 1]) (auto simp: B32Impl_def next_pad_def eval_nat_numeral less_Suc_eq)
  next
    case 6
    then show ?thesis
      by (intro pad_ends_if [where n = 6]) (auto simp: B32Impl_def next_pad_def eval_nat_numeral less_Suc_eq)
  next
    case 7
    then show ?thesis
      by (intro pad_ends_if [where n = 3]) (auto simp: B32Impl_def next_pad_def eval_nat_numeral less_Suc_eq)
  next
    case 8
    then show ?thesis
      by (intro pad_ends_if [where n = 0]) (auto simp: B32Impl_def next_pad_def eval_nat_numeral less_Suc_eq)
  qed
qed (simp_all add: B32Impl_def)

section \<open>Properties\<close>

lemma even_cases_64:
  fixes bl :: nat
  assumes "bl \<le> 8" "2 < bl" "even bl"
  obtains "bl = 4" "(next_pad 6 ^^ 2) bl = 8" "\<forall>i < 2. (next_pad 6 ^^ i) bl \<noteq> 8"
    | "bl = 6" "(next_pad 6 ^^ 1) bl = 8" "\<forall>i < 1. (next_pad 6 ^^ i) bl \<noteq> 8"
    | "bl = 8" "(next_pad 6 ^^ 0) bl = 8" "\<forall>i < 0. (next_pad 6 ^^ i) bl \<noteq> 8"
proof -
  from assms have "bl = 4 \<or> bl = 6 \<or> bl = 8" by presburger
  then show ?thesis
    using that by (elim disjE) (auto simp: next_pad_def numeral_2_eq_2 less_Suc_eq)
qed

lemma base64_shape:
  assumes "data \<noteq> []"
  obtains cs p where "Base64_Encode data = Some (cs @ replicate p (padding B64Impl))"
    and "3 * (length cs + p) = 4 * length data \<or> 3 * (length cs + p) = 4 * length data + 4
      \<or> 3 * (length cs + p) = 4 * length data + 8"
proof -
  have g: "gcd 8 (6::nat) = 2" by code_simp
  from assms obtain cs bl where enc: "enc_loop B64Impl data 8 [] = Some (cs, bl)"
    and bl: "bl \<le> 8" "2 < bl" "even bl" and len: "length cs * 6 + bl = 8 * length data + 8"
    by (rule b64.encode_shape) (auto simp: B64Impl_def g)
  have *: "Base64_Encode data = Some (cs @ replicate p (padding B64Impl))"
    if "(next_pad 6 ^^ p) bl = 8" "\<forall>i < p. (next_pad 6 ^^ i) bl \<noteq> 8" for p
  proof -
    have "pad_loop B64Impl bl cs = Some (cs @ replicate p (padding B64Impl))"
      by (rule pad_loop_replicate) (use that in \<open>simp_all add: B64Impl_def\<close>)
    with assms enc show ?thesis
      by (simp add: Base64_Encode_def Encode_def)
  qed
  from bl show ?thesis
  proof (cases rule: even_cases_64)
    case 1
    with len show ?thesis by (intro that [OF * [OF 1(2,3)]]) auto
  next
    case 2
    with len show ?thesis by (intro that [OF * [OF 2(2,3)]]) auto
  next
    case 3
    with len show ?thesis by (intro that [OF * [OF 3(2,3)]]) auto
  qed
qed

lemma length_64_aux:
  fixes l n j :: nat
  assumes "3 * l = 4 * (n + j)" "j \<le> 2"
  shows "l = 4 * ((n + 2) div 3)"
proof -
  have "3 dvd 4 * (n + j)" using assms(1) by (metis dvd_triv_left)
  moreover have "coprime 3 (4::nat)" by code_simp
  ultimately have "3 dvd n + j" using coprime_dvd_mult_right_iff by blast
  then obtain m where m: "n + j = 3 * m" by (rule dvdE)
  with assms have "l = 4 * m" by simp
  moreover have "n + 2 = 3 * m + (2 - j)" "2 - j < 3" using m assms(2) by auto
  then have "(n + 2) div 3 = m" by simp
  ultimately show ?thesis by simp
qed

lemma length_64:
  fixes l n :: nat
  assumes "3 * l = 4 * n \<or> 3 * l = 4 * n + 4 \<or> 3 * l = 4 * n + 8"
  shows "l = 4 * ((n + 2) div 3)"
  using assms length_64_aux [of l n 0] length_64_aux [of l n 1] length_64_aux [of l n 2] by auto

lemma EncodedSize_64: "EncodedSize B64Impl n = 4 * ((n + 2) div 3)"
proof -
  have lcm: "lcm 8 (6::nat) = 24" by code_simp
  define q where "q = n div 3"
  have "n = 3 * q \<or> n = 3 * q + 1 \<or> n = 3 * q + 2"
    unfolding q_def by presburger
  then show ?thesis
    by (elim disjE) (simp_all add: EncodedSize_def pad_to_def B64Impl_def lcm Let_def
        add_mult_distrib2 mult.assoc [symmetric] mult.commute [of _ 8] mod_mult_self1_is_0)
qed

text \<open>Everything a client of Base64 uses, in one place.\<close>

lemma base64_codec:
  "\<exists>s. Base64_Encode data = Some s \<and> Base64_Decode s = Some data
     \<and> length s = 4 * ((length data + 2) div 3)"
proof (cases "data = []")
  case True
  then show ?thesis
    by (simp add: Base64_Encode_def Base64_Decode_def Encode_def Decode_def)
next
  case False
  then obtain cs p where s: "Base64_Encode data = Some (cs @ replicate p (padding B64Impl))"
    and l: "3 * (length cs + p) = 4 * length data \<or> 3 * (length cs + p) = 4 * length data + 4
      \<or> 3 * (length cs + p) = 4 * length data + 8"
    by (rule base64_shape)
  from l have "length cs + p = 4 * ((length data + 2) div 3)"
    by (rule length_64)
  with s b64.roundtrip [of data] show ?thesis
    by (auto simp: Base64_Encode_def Base64_Decode_def)
qed

text \<open>The length of a Base64 text is the size \<open>EncodedSize\<close> computes for it,
  four characters for every started group of three bytes.\<close>

theorem base64_length:
  "\<exists>s. Base64_Encode data = Some s \<and> length s = EncodedSize B64Impl (length data)
     \<and> length s = 4 * ((length data + 2) div 3)"
  using base64_codec [of data] by (auto simp: EncodedSize_64)

text \<open>Claim C29: Base64 encoding always returns, and decoding its result gives the bytes back.\<close>

theorem base64_roundtrip: "\<exists>s. Base64_Encode data = Some s \<and> Base64_Decode s = Some data"
  unfolding Base64_Encode_def Base64_Decode_def by (rule b64.roundtrip)

text \<open>Base32 encoding always returns, and decoding its result gives the bytes back.\<close>

theorem base32_roundtrip: "\<exists>s. Base32_Encode data = Some s \<and> Base32_Decode s = Some data"
  unfolding Base32_Encode_def Base32_Decode_def by (rule b32.roundtrip)

end
