(* ===== verification/Isc_Protocol.thy ===== *)
theory Isc_Protocol
  imports Base_Encoding Object_Guid
begin

text \<open>
  The ISC protocol of \<open>src/server/game/Server/Protocol\<close>: packets of the addon channel are cut into
  Base64 frames that fit an addon message (\<open>EncodeFrames\<close>), and frames received in order are put
  together again (\<open>Reassembler\<close>). \<open>None\<close> is a failed \<open>ASSERT\<close> of \<open>EncodeFrames\<close>.
\<close>

section \<open>Opcodes\<close>

abbreviation (input) ISC_NULL_OPCODE :: u16 where "ISC_NULL_OPCODE \<equiv> 0x000"
abbreviation (input) ISC_SMSG_CONVERSATION :: u16 where "ISC_SMSG_CONVERSATION \<equiv> 0x001"
abbreviation (input) ISC_CMSG_DEVTOOLS_SYNC :: u16 where "ISC_CMSG_DEVTOOLS_SYNC \<equiv> 0x002"
abbreviation (input) ISC_CMSG_DEVTOOLS_DELETE_CREATURE :: u16 where "ISC_CMSG_DEVTOOLS_DELETE_CREATURE \<equiv> 0x003"
abbreviation (input) ISC_CMSG_DEVTOOLS_UNDO :: u16 where "ISC_CMSG_DEVTOOLS_UNDO \<equiv> 0x004"
abbreviation (input) ISC_CMSG_DEVTOOLS_COMMIT :: u16 where "ISC_CMSG_DEVTOOLS_COMMIT \<equiv> 0x005"
abbreviation (input) ISC_SMSG_DEVTOOLS_CHANGES :: u16 where "ISC_SMSG_DEVTOOLS_CHANGES \<equiv> 0x006"
abbreviation (input) ISC_SMSG_DEVTOOLS_RESULT :: u16 where "ISC_SMSG_DEVTOOLS_RESULT \<equiv> 0x007"
abbreviation (input) ISC_CMSG_DEVTOOLS_SPAWN_CREATURE :: u16 where "ISC_CMSG_DEVTOOLS_SPAWN_CREATURE \<equiv> 0x008"
abbreviation (input) NUM_ISC_OPCODES :: u16 where "NUM_ISC_OPCODES \<equiv> 0x009"

datatype isc_handler = HandleIscDevToolsSync | HandleIscDevToolsDeleteCreature
  | HandleIscDevToolsUndo | HandleIscDevToolsCommit | HandleIscDevToolsSpawnCreature

record IscOpcodeHandler =
  hName :: "string option"
  hHandler :: "isc_handler option"

definition IscOpcodeTable :: "IscOpcodeHandler list" where
  "IscOpcodeTable =
    [\<lparr>hName = None, hHandler = None\<rparr>,
     \<lparr>hName = Some ''ISC_SMSG_CONVERSATION'', hHandler = None\<rparr>,
     \<lparr>hName = Some ''ISC_CMSG_DEVTOOLS_SYNC'', hHandler = Some HandleIscDevToolsSync\<rparr>,
     \<lparr>hName = Some ''ISC_CMSG_DEVTOOLS_DELETE_CREATURE'', hHandler = Some HandleIscDevToolsDeleteCreature\<rparr>,
     \<lparr>hName = Some ''ISC_CMSG_DEVTOOLS_UNDO'', hHandler = Some HandleIscDevToolsUndo\<rparr>,
     \<lparr>hName = Some ''ISC_CMSG_DEVTOOLS_COMMIT'', hHandler = Some HandleIscDevToolsCommit\<rparr>,
     \<lparr>hName = Some ''ISC_SMSG_DEVTOOLS_CHANGES'', hHandler = None\<rparr>,
     \<lparr>hName = Some ''ISC_SMSG_DEVTOOLS_RESULT'', hHandler = None\<rparr>,
     \<lparr>hName = Some ''ISC_CMSG_DEVTOOLS_SPAWN_CREATURE'', hHandler = Some HandleIscDevToolsSpawnCreature\<rparr>]"

definition GetIscOpcodeHandler :: "u16 \<Rightarrow> IscOpcodeHandler option" where
  "GetIscOpcodeHandler opcode =
     (if opcode \<ge> NUM_ISC_OPCODES \<or> hName (IscOpcodeTable ! unat opcode) = None then None
      else Some (IscOpcodeTable ! unat opcode))"

definition GetIscOpcodeNameForLogging :: "u16 \<Rightarrow> string" where
  "GetIscOpcodeNameForLogging opcode =
     ''['' @ (case GetIscOpcodeHandler opcode of
                Some h \<Rightarrow> (case hName h of Some n \<Rightarrow> n | None \<Rightarrow> [])
              | None \<Rightarrow> ''UNKNOWN ISC OPCODE'')
     @ '' 0x'' @ pad_left 4 (digits_of 16 (unat opcode)) @ '' ('' @ show_nat (unat opcode) @ '')]''"

section \<open>Packets and frames\<close>

record IscPacket =
  pktOpcode :: u16
  pktBuffer :: ByteBuffer

definition new_IscPacket :: "u16 \<Rightarrow> IscPacket" where
  "new_IscPacket op = \<lparr>pktOpcode = op, pktBuffer = new_buffer\<rparr>"

definition CLIENT_PREFIX :: string where "CLIENT_PREFIX = ''CISC''"

definition SERVER_PREFIX :: string where "SERVER_PREFIX = ''SISC''"

definition MAX_ADDON_MESSAGE_LENGTH :: nat where "MAX_ADDON_MESSAGE_LENGTH = 255"

definition MAX_FRAME_LENGTH :: nat where
  "MAX_FRAME_LENGTH = (MAX_ADDON_MESSAGE_LENGTH - length CLIENT_PREFIX - 1) div 4 * 4"

definition FRAME_HEADER_SIZE :: nat where "FRAME_HEADER_SIZE = 6"

definition MAX_FRAME_DATA :: nat where
  "MAX_FRAME_DATA = MAX_FRAME_LENGTH div 4 * 3 - FRAME_HEADER_SIZE"

definition MESSAGE_HEADER_SIZE :: nat where "MESSAGE_HEADER_SIZE = 2"

definition MAX_CLIENT_MESSAGE_SIZE :: nat where "MAX_CLIENT_MESSAGE_SIZE = 16 * 1024"

definition WriteUInt16 :: "bytes \<Rightarrow> u16 \<Rightarrow> bytes" where
  "WriteUInt16 buffer v = buffer @ [ucast (v AND 0xFF)] @ [ucast (drop_bit 8 v)]"

definition ReadUInt16 :: "bytes \<Rightarrow> nat \<Rightarrow> u16" where
  "ReadUInt16 buffer offset = ucast (buffer ! offset) OR push_bit 8 (ucast (buffer ! (offset + 1)))"

definition packet_message :: "IscPacket \<Rightarrow> bytes" where
  "packet_message packet =
     WriteUInt16 [] (pktOpcode packet)
     @ (if bb_empty (pktBuffer packet) then [] else storage (pktBuffer packet))"

definition frame_bytes :: "u16 \<Rightarrow> bytes \<Rightarrow> nat \<Rightarrow> nat \<Rightarrow> bytes" where
  "frame_bytes messageId message cnt index =
     (let offset = index * MAX_FRAME_DATA;
          len = min MAX_FRAME_DATA (length message - offset)
      in WriteUInt16 (WriteUInt16 (WriteUInt16 [] messageId) (of_nat index)) (of_nat cnt)
         @ take len (drop offset message))"

definition EncodeFrames :: "u16 \<Rightarrow> IscPacket \<Rightarrow> string list option" where
  "EncodeFrames messageId packet =
     (let message = packet_message packet;
          count = (length message + MAX_FRAME_DATA - 1) div MAX_FRAME_DATA
      in if \<not> count \<le> 65535 then None
         else those (map (\<lambda>index. Base64_Encode (frame_bytes messageId message count index)) [0..<count]))"

section \<open>Reassembly\<close>

record Reassembler =
  maxMessageSize :: nat
  rData :: bytes
  rMessageId :: u16
  rNextIndex :: u16
  rCount :: u16

definition new_Reassembler :: "nat \<Rightarrow> Reassembler" where
  "new_Reassembler m = \<lparr>maxMessageSize = m, rData = [], rMessageId = 0, rNextIndex = 0, rCount = 0\<rparr>"

definition Reset :: "Reassembler \<Rightarrow> Reassembler" where
  "Reset r = r\<lparr>rData := [], rMessageId := 0, rNextIndex := 0, rCount := 0\<rparr>"

text \<open>The packet built from a complete message; \<open>append\<close> cannot assert here, the buffer is new and
  the payload is not empty.\<close>

definition message_packet :: "bytes \<Rightarrow> IscPacket" where
  "message_packet msg =
     (let payloadSize = length msg - MESSAGE_HEADER_SIZE;
          packet = new_IscPacket (ReadUInt16 msg 0)
      in if payloadSize \<noteq> 0
         then case append (take payloadSize (drop MESSAGE_HEADER_SIZE msg)) (pktBuffer packet) of
                Inl _ \<Rightarrow> packet
              | Inr b \<Rightarrow> packet\<lparr>pktBuffer := b\<rparr>
         else packet)"

definition accept_data :: "bytes \<Rightarrow> u16 \<Rightarrow> Reassembler \<Rightarrow> IscPacket option \<times> Reassembler" where
  "accept_data decoded index r =
     (if length (rData r) + length decoded - FRAME_HEADER_SIZE > maxMessageSize r then (None, Reset r)
      else let r = r\<lparr>rData := rData r @ drop FRAME_HEADER_SIZE decoded, rNextIndex := index + 1\<rparr>
           in if rNextIndex r < rCount r then (None, r)
              else if length (rData r) < MESSAGE_HEADER_SIZE then (None, Reset r)
              else (Some (message_packet (rData r)), Reset r))"

definition Feed :: "string \<Rightarrow> Reassembler \<Rightarrow> IscPacket option \<times> Reassembler" where
  "Feed frame r =
     (if length frame > MAX_FRAME_LENGTH then (None, Reset r)
      else case Base64_Decode frame of
        None \<Rightarrow> (None, Reset r)
      | Some decoded \<Rightarrow>
          if length decoded < FRAME_HEADER_SIZE then (None, Reset r)
          else
            let messageId = ReadUInt16 decoded 0;
                index = ReadUInt16 decoded 2;
                count = ReadUInt16 decoded 4
            in if index = 0 then
                 (let r = Reset r
                  in if count = 0 then (None, r)
                     else accept_data decoded index (r\<lparr>rMessageId := messageId, rCount := count\<rparr>))
               else if rCount r = 0 \<or> messageId \<noteq> rMessageId r \<or> index \<noteq> rNextIndex r \<or> count \<noteq> rCount r
                 then (None, Reset r)
               else accept_data decoded index r)"

fun feed_all :: "string list \<Rightarrow> Reassembler \<Rightarrow> IscPacket list \<times> Reassembler" where
  "feed_all [] r = ([], r)"
| "feed_all (f # fs) r =
     (case Feed f r of (p, r') \<Rightarrow>
        case feed_all fs r' of (ps, r'') \<Rightarrow> ((case p of None \<Rightarrow> ps | Some q \<Rightarrow> q # ps), r''))"

lemma frame_constants [simp]:
  "MAX_FRAME_LENGTH = 248" "MAX_FRAME_DATA = 180" "FRAME_HEADER_SIZE = 6" "MESSAGE_HEADER_SIZE = 2"
  by (simp_all add: MAX_FRAME_LENGTH_def MAX_FRAME_DATA_def FRAME_HEADER_SIZE_def
      MESSAGE_HEADER_SIZE_def MAX_ADDON_MESSAGE_LENGTH_def CLIENT_PREFIX_def)

section \<open>Headers survive the wire\<close>

lemma ReadUInt16_at:
  assumes "length xs = n"
  shows "ReadUInt16 (xs @ ucast (v AND 0xFF) # ucast (drop_bit 8 v) # ys) n = v"
proof -
  have ff: "(0xFF :: u16) = mask 8" by (simp add: mask_eq_exp_minus_1)
  have "ucast (ucast (v AND mask 8) :: u8) OR push_bit 8 (ucast (ucast (drop_bit 8 v) :: u8)) = (v :: u16)"
  proof (rule bit_eqI)
    fix i
    show "bit (ucast (ucast (v AND mask 8) :: u8) OR push_bit 8 (ucast (ucast (drop_bit 8 v) :: u8)) :: u16) i = bit v i"
      by (cases "i < 8") (auto simp: bit_simps not_less dest: bit_imp_le_length)
  qed
  with assms show ?thesis
    by (simp add: ReadUInt16_def nth_append ff)
qed

definition chunk :: "bytes \<Rightarrow> nat \<Rightarrow> bytes" where
  "chunk msg i = take 180 (drop (i * 180) msg)"

lemma frame_bytes_eq:
  "frame_bytes mid msg cnt i =
     ucast (mid AND 0xFF) # ucast (drop_bit 8 mid)
     # ucast ((of_nat i :: u16) AND 0xFF) # ucast (drop_bit 8 (of_nat i :: u16))
     # ucast ((of_nat cnt :: u16) AND 0xFF) # ucast (drop_bit 8 (of_nat cnt :: u16)) # chunk msg i"
  by (simp add: frame_bytes_def WriteUInt16_def chunk_def Let_def min_def)

lemma frame_header:
  "ReadUInt16 (frame_bytes mid msg cnt i) 0 = mid"
  "ReadUInt16 (frame_bytes mid msg cnt i) 2 = of_nat i"
  "ReadUInt16 (frame_bytes mid msg cnt i) 4 = of_nat cnt"
  "drop 6 (frame_bytes mid msg cnt i) = chunk msg i"
  "length (frame_bytes mid msg cnt i) = 6 + length (chunk msg i)"
  using ReadUInt16_at [of "[]" 0 mid] ReadUInt16_at [of "[a, b]" 2 "of_nat i" for a b]
    ReadUInt16_at [of "[a, b, c, d]" 4 "of_nat cnt" for a b c d]
  by (simp_all add: frame_bytes_eq)

lemma length_chunk: "length (chunk msg i) \<le> 180"
  by (simp add: chunk_def)

lemma take_chunk: "take (i * 180) msg @ chunk msg i = take (Suc i * 180) msg"
  by (simp add: chunk_def take_add [symmetric] add.commute)

lemma frame_text:
  obtains s where "Base64_Encode (frame_bytes mid msg cnt i) = Some s"
    and "Base64_Decode s = Some (frame_bytes mid msg cnt i)" and "length s \<le> 248"
proof -
  have "length (frame_bytes mid msg cnt i) \<le> 186"
    using length_chunk [of msg i] by (simp add: frame_header)
  then have "4 * ((length (frame_bytes mid msg cnt i) + 2) div 3) \<le> 4 * (188 div 3)"
    by (intro mult_le_mono2 div_le_mono) simp
  with base64_codec [of "frame_bytes mid msg cnt i"] that show ?thesis by auto
qed

section \<open>Feeding the frames of one message\<close>

definition frame_count :: "bytes \<Rightarrow> nat" where
  "frame_count msg = (length msg + 179) div 180"

definition midway :: "Reassembler \<Rightarrow> u16 \<Rightarrow> bytes \<Rightarrow> nat \<Rightarrow> Reassembler" where
  "midway r mid msg k =
     r\<lparr>rData := take (k * 180) msg, rMessageId := mid, rNextIndex := of_nat k,
       rCount := of_nat (frame_count msg)\<rparr>"

lemma of_nat_u16_less: "j < 65536 \<Longrightarrow> k < 65536 \<Longrightarrow> (of_nat j :: u16) < of_nat k \<longleftrightarrow> j < k"
  by (simp add: word_less_nat_alt unat_of_nat take_bit_nat_eq_self)

lemma of_nat_u16_eq_0: "k < 65536 \<Longrightarrow> (of_nat k :: u16) = 0 \<longleftrightarrow> k = 0"
  using of_nat_u16_less [of 0 k] by (auto simp: word_neq_0_conv)

lemma frame_count_covers: "length msg \<le> frame_count msg * 180"
  by (simp add: frame_count_def)

lemma accept_frame:
  assumes k: "k < frame_count msg" and n: "frame_count msg \<le> 65535" and len: "2 \<le> length msg"
    and m: "length msg \<le> maxMessageSize r"
    and r': "rData r' = take (k * 180) msg" "rCount r' = of_nat (frame_count msg)"
      "rMessageId r' = mid" "maxMessageSize r' = maxMessageSize r" "Reset r' = Reset r"
      "\<And>d i. r'\<lparr>rData := d, rNextIndex := i\<rparr> = r\<lparr>rData := d, rMessageId := mid, rNextIndex := i,
                 rCount := of_nat (frame_count msg)\<rparr>"
  shows "accept_data (frame_bytes mid msg (frame_count msg) k) (of_nat k) r'
    = (if Suc k < frame_count msg then (None, midway r mid msg (Suc k))
       else (Some (message_packet msg), Reset r))"
proof -
  let ?n = "frame_count msg"
  have "length (rData r') + length (chunk msg k) = length (take (Suc k * 180) msg)"
    by (simp only: r'(1) take_chunk [symmetric] length_append)
  then have fits: "\<not> length (rData r') + length (frame_bytes mid msg ?n k) - 6 > maxMessageSize r'"
    using m by (simp add: frame_header r')
  have data: "rData r' @ drop 6 (frame_bytes mid msg ?n k) = take (Suc k * 180) msg"
    by (simp add: r'(1) frame_header take_chunk)
  have idx: "(of_nat k :: u16) + 1 = of_nat (Suc k)" by simp
  show ?thesis
  proof (cases "Suc k < ?n")
    case True
    then have "(of_nat (Suc k) :: u16) < of_nat ?n"
      using n by (subst of_nat_u16_less) auto
    with True fits show ?thesis
      by (simp add: accept_data_def Let_def data idx r'(2,6) midway_def del: of_nat_Suc)
  next
    case False
    with k have sk: "Suc k = ?n" by simp
    then have "take (Suc k * 180) msg = msg"
      using frame_count_covers [of msg] by simp
    with False fits len sk show ?thesis
      by (simp add: accept_data_def Let_def data idx r'(2,6) del: of_nat_Suc)
         (simp add: Reset_def)
  qed
qed

lemma feed_frame:
  assumes s: "Base64_Decode s = Some (frame_bytes mid msg (frame_count msg) k)" "length s \<le> 248"
    and k: "k < frame_count msg" and n: "frame_count msg \<le> 65535" and len: "2 \<le> length msg"
    and m: "length msg \<le> maxMessageSize r"
    and r': "k = 0 \<and> r' = r \<or> 0 < k \<and> r' = midway r mid msg k"
  shows "Feed s r' = (if Suc k < frame_count msg then (None, midway r mid msg (Suc k))
       else (Some (message_packet msg), Reset r))"
proof (cases "k = 0")
  case True
  let ?r = "(Reset r)\<lparr>rMessageId := mid, rCount := of_nat (frame_count msg)\<rparr>"
  have "accept_data (frame_bytes mid msg (frame_count msg) k) (of_nat k) ?r
      = (if Suc k < frame_count msg then (None, midway r mid msg (Suc k))
         else (Some (message_packet msg), Reset r))"
    by (rule accept_frame [OF k n len m]) (use True in \<open>simp_all add: Reset_def\<close>)
  moreover have "(of_nat (frame_count msg) :: u16) \<noteq> 0"
    using k n by (subst of_nat_u16_eq_0) auto
  ultimately show ?thesis
    using s True r' by (simp add: Feed_def Let_def frame_header)
next
  case False
  with r' have r'': "r' = midway r mid msg k" by simp
  have "accept_data (frame_bytes mid msg (frame_count msg) k) (of_nat k) r'
      = (if Suc k < frame_count msg then (None, midway r mid msg (Suc k))
         else (Some (message_packet msg), Reset r))"
    by (rule accept_frame [OF k n len m]) (simp_all add: r'' midway_def Reset_def)
  moreover have "(of_nat (frame_count msg) :: u16) \<noteq> 0" "(of_nat k :: u16) \<noteq> 0"
    using k n False by (subst of_nat_u16_eq_0; auto)+
  ultimately show ?thesis
    using s by (simp add: Feed_def Let_def frame_header r'' midway_def)
qed

lemma feed_frames_from:
  assumes n: "frame_count msg \<le> 65535" and len: "2 \<le> length msg"
    and m: "length msg \<le> maxMessageSize r"
    and s: "\<And>i. i < frame_count msg \<Longrightarrow> Base64_Decode (s i) = Some (frame_bytes mid msg (frame_count msg) i)"
      "\<And>i. i < frame_count msg \<Longrightarrow> length (s i) \<le> 248"
    and k: "k < frame_count msg" and r': "k = 0 \<and> r' = r \<or> 0 < k \<and> r' = midway r mid msg k"
  shows "feed_all (map s [k..<frame_count msg]) r' = ([message_packet msg], Reset r)"
  using k r'
proof (induction "frame_count msg - k" arbitrary: k r')
  case 0
  then show ?case by simp
next
  case (Suc d)
  have list: "[k..<frame_count msg] = k # [Suc k..<frame_count msg]"
    using Suc.prems(1) by (simp add: upt_conv_Cons)
  note f = feed_frame [OF s(1) [OF Suc.prems(1)] s(2) [OF Suc.prems(1)] Suc.prems(1) n len m Suc.prems(2)]
  show ?case
  proof (cases "Suc k < frame_count msg")
    case True
    have "feed_all (map s [Suc k..<frame_count msg]) (midway r mid msg (Suc k)) = ([message_packet msg], Reset r)"
      by (rule Suc.hyps(1)) (use Suc.hyps(2) True in auto)
    with True f show ?thesis by (simp add: list)
  next
    case False
    with f show ?thesis by (simp add: list)
  qed
qed

lemma those_map_Some: "those (map (\<lambda>x. Some (f x)) xs) = Some (map f xs)"
  by (induction xs) auto

lemma encode_frames_text:
  assumes "frame_count (packet_message p) \<le> 65535"
  obtains s where "EncodeFrames mid p = Some (map s [0..<frame_count (packet_message p)])"
    and "\<forall>i. Base64_Decode (s i) = Some (frame_bytes mid (packet_message p) (frame_count (packet_message p)) i)
           \<and> length (s i) \<le> 248"
proof -
  let ?m = "packet_message p" and ?n = "frame_count (packet_message p)"
  have "\<forall>i. \<exists>s. Base64_Encode (frame_bytes mid ?m ?n i) = Some s
      \<and> Base64_Decode s = Some (frame_bytes mid ?m ?n i) \<and> length s \<le> 248"
    by (meson frame_text)
  then obtain s where s: "\<forall>i. Base64_Encode (frame_bytes mid ?m ?n i) = Some (s i)
      \<and> Base64_Decode (s i) = Some (frame_bytes mid ?m ?n i) \<and> length (s i) \<le> 248"
    by metis
  have n: "(length ?m + MAX_FRAME_DATA - 1) div MAX_FRAME_DATA = ?n"
    by (simp add: frame_count_def add.commute)
  from s have "EncodeFrames mid p = Some (map s [0..<?n])"
    using assms unfolding EncodeFrames_def Let_def n by (simp add: those_map_Some)
  with s that show ?thesis by blast
qed

lemma message_packet_of:
  "message_packet (packet_message p)
     = \<lparr>pktOpcode = pktOpcode p, pktBuffer = bb_extend new_buffer (storage (pktBuffer p))\<rparr>"
proof -
  have op: "ReadUInt16 (packet_message p) 0 = pktOpcode p"
    using ReadUInt16_at [of "[]" 0 "pktOpcode p"] by (simp add: packet_message_def WriteUInt16_def)
  have len: "length (packet_message p) = 2 + length (storage (pktBuffer p))"
    "drop 2 (packet_message p) = storage (pktBuffer p)"
    by (auto simp: packet_message_def WriteUInt16_def bb_empty_def)
  show ?thesis
    unfolding message_packet_def Let_def op
    by (cases "storage (pktBuffer p) = []") (simp_all add: len new_IscPacket_def append_at_end)
qed

lemma frames_delivered:
  assumes "length (packet_message p) \<le> maxMessageSize r"
    and "frame_count (packet_message p) \<le> 65535"
  shows "\<exists>fs. EncodeFrames mid p = Some fs
     \<and> feed_all fs r = ([\<lparr>pktOpcode = pktOpcode p,
           pktBuffer = \<lparr>rpos = 0, wpos = bb_size (pktBuffer p), storage = storage (pktBuffer p)\<rparr>\<rparr>], Reset r)"
proof -
  let ?m = "packet_message p"
  obtain s where enc: "EncodeFrames mid p = Some (map s [0..<frame_count ?m])"
    and s: "\<forall>i. Base64_Decode (s i) = Some (frame_bytes mid ?m (frame_count ?m) i) \<and> length (s i) \<le> 248"
    using encode_frames_text [OF assms(2)] .
  have len: "2 \<le> length ?m" by (simp add: packet_message_def WriteUInt16_def)
  then have "0 < frame_count ?m" by (simp add: frame_count_def)
  with feed_frames_from [OF assms(2) len assms(1), of s mid 0 r] s
  have "feed_all (map s [0..<frame_count ?m]) r = ([message_packet ?m], Reset r)"
    by simp
  with enc show ?thesis
    by (simp add: message_packet_of bb_extend_def new_buffer_def bb_size_def)
qed

text \<open>Claim C1: whatever state the receiver is in, feeding it the frames of a packet in order gives
  exactly that packet, with its last frame, and leaves the receiver ready for the next message.\<close>

theorem isc_roundtrip:
  assumes "length (packet_message p) \<le> maxMessageSize r"
    and "frame_count (packet_message p) \<le> 65535"
  shows "\<exists>fs. EncodeFrames mid p = Some fs
     \<and> feed_all fs r = ([\<lparr>pktOpcode = pktOpcode p,
           pktBuffer = \<lparr>rpos = 0, wpos = bb_size (pktBuffer p), storage = storage (pktBuffer p)\<rparr>\<rparr>], Reset r)"
  using assms by (rule frames_delivered)

theorem isc_roundtrip_witness:
  "\<exists>fs. EncodeFrames 7 \<lparr>pktOpcode = ISC_CMSG_DEVTOOLS_UNDO, pktBuffer = \<lparr>rpos = 0, wpos = 400, storage = replicate 400 9\<rparr>\<rparr> = Some fs
     \<and> fst (feed_all fs (new_Reassembler MAX_CLIENT_MESSAGE_SIZE))
        = [\<lparr>pktOpcode = ISC_CMSG_DEVTOOLS_UNDO, pktBuffer = \<lparr>rpos = 0, wpos = 400, storage = replicate 400 9\<rparr>\<rparr>]"
proof -
  let ?p = "\<lparr>pktOpcode = ISC_CMSG_DEVTOOLS_UNDO, pktBuffer = \<lparr>rpos = 0, wpos = 400, storage = replicate 400 9\<rparr>\<rparr>"
  have len: "length (packet_message ?p) = 402"
    by (simp add: packet_message_def WriteUInt16_def bb_empty_def)
  then have "length (packet_message ?p) \<le> maxMessageSize (new_Reassembler MAX_CLIENT_MESSAGE_SIZE)"
    "frame_count (packet_message ?p) \<le> 65535"
    by (simp_all add: new_Reassembler_def MAX_CLIENT_MESSAGE_SIZE_def frame_count_def)
  from isc_roundtrip [OF this, of 7] show ?thesis
    by (auto simp: bb_size_def)
qed

section \<open>What the receiver keeps, whatever it is sent\<close>

definition reassembler_inv :: "Reassembler \<Rightarrow> bool" where
  "reassembler_inv r \<longleftrightarrow> length (rData r) \<le> maxMessageSize r
     \<and> (if rCount r = 0 then rData r = [] \<and> rMessageId r = 0 \<and> rNextIndex r = 0
        else rNextIndex r < rCount r)"

definition feed_step :: "Reassembler \<Rightarrow> Reassembler \<Rightarrow> bool" where
  "feed_step r r' \<longleftrightarrow> (\<exists>frame. r' = snd (Feed frame r))"

lemma reassembler_inv_Reset [simp]: "reassembler_inv (Reset r)"
  by (simp add: reassembler_inv_def Reset_def)

lemma accept_data_inv:
  "6 \<le> length decoded \<Longrightarrow> rCount r \<noteq> 0 \<Longrightarrow> reassembler_inv (snd (accept_data decoded i r))"
  by (auto simp: accept_data_def Let_def reassembler_inv_def Reset_def)

lemma Feed_inv: "reassembler_inv r \<Longrightarrow> reassembler_inv (snd (Feed frame r))"
  by (auto simp: Feed_def Let_def intro!: accept_data_inv split: option.splits)

lemma maxMessageSize_Feed [simp]: "maxMessageSize (snd (Feed frame r)) = maxMessageSize r"
  by (auto simp: Feed_def accept_data_def Let_def Reset_def split: option.splits)

lemma reassembler_inv_new: "reassembler_inv (new_Reassembler m) \<and> maxMessageSize (new_Reassembler m) = m"
  by (simp add: new_Reassembler_def reassembler_inv_def)

interpretation reassembly: invariant_system
  "\<lambda>r. r = new_Reassembler m" feed_step "\<lambda>r. reassembler_inv r \<and> maxMessageSize r = m" for m
  by unfold_locales (auto simp: feed_step_def reassembler_inv_new intro: Feed_inv)

text \<open>Claim C33: whatever frames a client sends, the receiver never buffers more than the maximum
  message size, and between messages it holds nothing.\<close>

theorem reassembler_bounded:
  assumes "feed_step\<^sup>*\<^sup>* (new_Reassembler m) r"
  shows "length (rData r) \<le> m \<and> (rCount r = 0 \<longrightarrow> rData r = [])
    \<and> (rCount r \<noteq> 0 \<longrightarrow> rNextIndex r < rCount r)"
  using reassembly.invar_reachable [OF refl assms] by (auto simp: reassembler_inv_def split: if_splits)

theorem reassembler_bounded_witness:
  "feed_step\<^sup>*\<^sup>* (new_Reassembler 10) (snd (Feed ''AAAA'' (new_Reassembler 10)))
   \<and> length (rData (snd (Feed ''AAAA'' (new_Reassembler 10)))) \<le> 10"
proof -
  have "feed_step\<^sup>*\<^sup>* (new_Reassembler 10) (snd (Feed ''AAAA'' (new_Reassembler 10)))"
    by (rule r_into_rtranclp) (auto simp: feed_step_def)
  with reassembler_bounded [OF this] show ?thesis by simp
qed

text \<open>
  The frame a text stands for, if any, and the frames that carry a prefix of a message: the first
  ones of it, in order, with the same identifier and count.
\<close>

definition parse_frame :: "string \<Rightarrow> (u16 \<times> u16 \<times> u16 \<times> bytes) option" where
  "parse_frame f =
     (if length f > 248 then None
      else case Base64_Decode f of
        None \<Rightarrow> None
      | Some d \<Rightarrow> if length d < 6 then None
                  else Some (ReadUInt16 d 0, ReadUInt16 d 2, ReadUInt16 d 4, drop 6 d))"

definition carries :: "string list \<Rightarrow> u16 \<Rightarrow> u16 \<Rightarrow> bytes \<Rightarrow> bool" where
  "carries fs mid cnt d \<longleftrightarrow> (\<exists>ds. length ds = length fs \<and> d = concat ds
     \<and> (\<forall>i < length fs. parse_frame (fs ! i) = Some (mid, of_nat i, cnt, ds ! i)))"

lemma carries_Nil [simp]: "carries [] mid cnt d \<longleftrightarrow> d = []"
  by (auto simp: carries_def)

lemma carries_snoc:
  assumes "carries fs mid cnt d" "parse_frame f = Some (mid, of_nat (length fs), cnt, e)"
  shows "carries (fs @ [f]) mid cnt (d @ e)"
proof -
  from assms(1) obtain ds where ds: "length ds = length fs" "d = concat ds"
    "\<forall>i < length fs. parse_frame (fs ! i) = Some (mid, of_nat i, cnt, ds ! i)"
    by (auto simp: carries_def)
  show ?thesis
    unfolding carries_def
    by (rule exI [of _ "ds @ [e]"]) (use ds assms(2) in \<open>auto simp: nth_append less_Suc_eq\<close>)
qed

definition in_progress :: "string list \<Rightarrow> Reassembler \<Rightarrow> bool" where
  "in_progress hs r \<longleftrightarrow> rCount r = 0
     \<or> (\<exists>pre fs. hs = pre @ fs \<and> carries fs (rMessageId r) (rCount r) (rData r)
          \<and> rNextIndex r = of_nat (length fs) \<and> length fs < unat (rCount r))"

definition whole_message :: "string list \<Rightarrow> nat \<Rightarrow> IscPacket \<Rightarrow> bool" where
  "whole_message hs m pkt \<longleftrightarrow> (\<exists>pre fs mid d. hs = pre @ fs \<and> fs \<noteq> [] \<and> length fs < 65536
     \<and> carries fs mid (of_nat (length fs)) d \<and> 2 \<le> length d \<and> length d \<le> m \<and> pkt = message_packet d)"

lemma accept_data_progress:
  assumes pre: "hs = pre @ fs" and c: "carries fs (rMessageId r) (rCount r) (rData r)"
    and n: "length fs < unat (rCount r)" and len: "6 \<le> length d"
    and f: "parse_frame f = Some (rMessageId r, of_nat (length fs), rCount r, drop 6 d)"
    and acc: "accept_data d (of_nat (length fs)) r = (po, r')"
  shows "in_progress (hs @ [f]) r' \<and> (\<forall>pkt. po = Some pkt \<longrightarrow> whole_message (hs @ [f]) (maxMessageSize r) pkt)"
proof -
  let ?fs = "fs @ [f]" and ?d = "rData r @ drop 6 d"
  have c': "carries ?fs (rMessageId r) (rCount r) ?d" using c f by (rule carries_snoc)
  have hs: "hs @ [f] = pre @ ?fs" using pre by simp
  have small: "unat (rCount r) < 65536" using unsigned_less [of "rCount r", where ?'a = nat] by simp
  have next_idx: "(of_nat (length fs) :: u16) + 1 = of_nat (length ?fs)" by simp
  consider (big) "length ?d > maxMessageSize r" | (more) "length ?d \<le> maxMessageSize r" "length ?fs < unat (rCount r)"
    | (last) "length ?d \<le> maxMessageSize r" "length ?fs = unat (rCount r)"
    using n by fastforce
  then show ?thesis
  proof cases
    case big
    with acc len show ?thesis
      by (auto simp: accept_data_def in_progress_def Reset_def)
  next
    case more
    then have "(of_nat (length ?fs) :: u16) < of_nat (unat (rCount r))"
      using small by (subst of_nat_u16_less) auto
    then have "(of_nat (length ?fs) :: u16) < rCount r" by simp
    with more acc len have "po = None" "r' = r\<lparr>rData := ?d, rNextIndex := of_nat (length ?fs)\<rparr>"
      by (auto simp: accept_data_def Let_def next_idx)
    moreover from this have "in_progress (hs @ [f]) r'"
      unfolding in_progress_def hs using c' more
      by (intro disjI2 exI [of _ pre] exI [of _ ?fs]) simp
    ultimately show ?thesis by simp
  next
    case last
    then have cnt: "rCount r = of_nat (length ?fs)" by (metis of_nat_unat ucast_id)
    with last acc len have "in_progress (hs @ [f]) r'"
      "\<And>pkt. po = Some pkt \<Longrightarrow> pkt = message_packet ?d \<and> 2 \<le> length ?d"
      by (auto simp: accept_data_def Let_def next_idx in_progress_def Reset_def split: if_splits)
    moreover have "whole_message (hs @ [f]) (maxMessageSize r) (message_packet ?d)" if "2 \<le> length ?d"
      unfolding whole_message_def hs
      by (rule exI [of _ pre], rule exI [of _ ?fs], rule exI [of _ "rMessageId r"], rule exI [of _ ?d])
         (use c' cnt small last that in auto)
    ultimately show ?thesis by blast
  qed
qed

lemma Feed_progress:
  assumes "in_progress hs r" "Feed f r = (po, r')"
  shows "in_progress (hs @ [f]) r' \<and> (\<forall>pkt. po = Some pkt \<longrightarrow> whole_message (hs @ [f]) (maxMessageSize r) pkt)"
proof (cases "parse_frame f")
  case None
  with assms(2) show ?thesis
    by (auto simp: parse_frame_def Feed_def in_progress_def Reset_def split: option.splits if_splits)
next
  case (Some fr)
  then obtain d where d: "length f \<le> 248" "Base64_Decode f = Some d" "6 \<le> length d"
    and fr: "fr = (ReadUInt16 d 0, ReadUInt16 d 2, ReadUInt16 d 4, drop 6 d)"
    by (auto simp: parse_frame_def split: option.splits if_splits)
  consider (first) "ReadUInt16 d 2 = 0" "ReadUInt16 d 4 \<noteq> 0"
    | (follow) "ReadUInt16 d 2 \<noteq> 0" "rCount r \<noteq> 0" "ReadUInt16 d 0 = rMessageId r"
        "ReadUInt16 d 2 = rNextIndex r" "ReadUInt16 d 4 = rCount r"
    | (none) "Feed f r = (None, Reset r)"
  proof -
    have "Feed f r = (None, Reset r)"
      if "\<not> (ReadUInt16 d 2 = 0 \<and> ReadUInt16 d 4 \<noteq> 0)"
        "\<not> (ReadUInt16 d 2 \<noteq> 0 \<and> rCount r \<noteq> 0 \<and> ReadUInt16 d 0 = rMessageId r
            \<and> ReadUInt16 d 2 = rNextIndex r \<and> ReadUInt16 d 4 = rCount r)"
      using that d by (auto simp: Feed_def Let_def)
    then show thesis using that by blast
  qed
  then show ?thesis
  proof cases
    case first
    let ?r = "(Reset r)\<lparr>rMessageId := ReadUInt16 d 0, rCount := ReadUInt16 d 4\<rparr>"
    have "accept_data d (of_nat (length [])) ?r = (po, r')"
      using assms(2) d first by (simp add: Feed_def Let_def)
    from accept_data_progress [of hs hs "[]", OF _ _ _ d(3) _ this, of f] first Some fr
    show ?thesis by (simp add: Reset_def unat_gt_0)
  next
    case follow
    with assms(1) obtain pre fs where h: "hs = pre @ fs" "carries fs (rMessageId r) (rCount r) (rData r)"
      "rNextIndex r = of_nat (length fs)" "length fs < unat (rCount r)"
      by (auto simp: in_progress_def)
    have "accept_data d (of_nat (length fs)) r = (po, r')"
      using assms(2) d follow h(3) by (simp add: Feed_def Let_def)
    from accept_data_progress [OF h(1,2,4) d(3) _ this, of f] follow Some fr h(3)
    show ?thesis by simp
  next
    case none
    with assms(2) show ?thesis by (auto simp: in_progress_def Reset_def)
  qed
qed

lemma feed_all_progress:
  "in_progress hs r \<Longrightarrow> in_progress (hs @ fs) (snd (feed_all fs r)) \<and> maxMessageSize (snd (feed_all fs r)) = maxMessageSize r"
proof (induction fs arbitrary: hs r)
  case Nil
  then show ?case by simp
next
  case (Cons f fs)
  obtain po r' where f: "Feed f r = (po, r')" by fastforce
  have "in_progress (hs @ [f]) r'" using Feed_progress [OF Cons.prems f] by blast
  from Cons.IH [OF this] f maxMessageSize_Feed [of f r] show ?case
    by (auto split: prod.splits)
qed

text \<open>Claim C30: a packet is delivered only by the last frame of a message whose frames, all of
  them and no other, were the latest ones received, in order; the packet is the message they carry.\<close>

theorem isc_delivers_whole_messages:
  assumes "Feed f (snd (feed_all hs (new_Reassembler m))) = (Some pkt, r')"
  shows "\<exists>pre fs mid d. hs @ [f] = pre @ fs \<and> fs \<noteq> [] \<and> length fs < 65536
     \<and> carries fs mid (of_nat (length fs)) d \<and> 2 \<le> length d \<and> length d \<le> m \<and> pkt = message_packet d"
proof -
  have "in_progress [] (new_Reassembler m)" by (simp add: in_progress_def new_Reassembler_def)
  from feed_all_progress [OF this, of hs]
  have h: "in_progress hs (snd (feed_all hs (new_Reassembler m)))"
    "maxMessageSize (snd (feed_all hs (new_Reassembler m))) = m"
    by (auto simp: new_Reassembler_def)
  from Feed_progress [OF h(1) assms] h(2) show ?thesis
    by (auto simp: whole_message_def)
qed

theorem isc_delivers_whole_messages_witness:
  "\<exists>pkt r' pre fs mid d. Feed ''AQAAAAEABQA='' (snd (feed_all [] (new_Reassembler 100))) = (Some pkt, r')
     \<and> [''AQAAAAEABQA=''] = pre @ fs \<and> carries fs mid (of_nat (length fs)) d \<and> pkt = message_packet d
     \<and> pktOpcode pkt = ISC_CMSG_DEVTOOLS_COMMIT"
proof -
  have dec: "Base64_Decode ''AQAAAAEABQA='' = Some [1, 0, 0, 0, 1, 0, 5, 0]"
    by code_simp
  have op: "pktOpcode (message_packet [5, 0]) = ISC_CMSG_DEVTOOLS_COMMIT"
    by (simp add: message_packet_def new_IscPacket_def ReadUInt16_def)
  have fd: "Feed ''AQAAAAEABQA='' (snd (feed_all [] (new_Reassembler 100)))
      = (Some (message_packet [5, 0]), new_Reassembler 100)"
    by (simp add: Feed_def dec Let_def ReadUInt16_def accept_data_def Reset_def new_Reassembler_def)
  from isc_delivers_whole_messages [OF fd] fd op show ?thesis by fastforce
qed

text \<open>Every frame of a packet, with its prefix and separator, fits an addon message.\<close>

theorem isc_frames_fit:
  assumes "EncodeFrames mid p = Some fs" and "f \<in> set fs"
  shows "length (SERVER_PREFIX @ [CHR 0x09] @ f) \<le> MAX_ADDON_MESSAGE_LENGTH"
proof -
  have n: "frame_count (packet_message p) \<le> 65535"
    using assms(1) by (auto simp: EncodeFrames_def Let_def frame_count_def add.commute split: if_splits)
  obtain s where "EncodeFrames mid p = Some (map s [0..<frame_count (packet_message p)])"
    "\<forall>i. length (s i) \<le> 248"
    using encode_frames_text [OF n] by metis
  with assms have "length f \<le> 248" by auto
  then show ?thesis by (simp add: SERVER_PREFIX_def MAX_ADDON_MESSAGE_LENGTH_def)
qed

theorem isc_frames_fit_witness:
  "\<exists>fs f. EncodeFrames 1 (new_IscPacket ISC_SMSG_DEVTOOLS_RESULT) = Some fs \<and> f \<in> set fs
     \<and> length (SERVER_PREFIX @ [CHR 0x09] @ f) \<le> MAX_ADDON_MESSAGE_LENGTH"
proof -
  let ?p = "new_IscPacket ISC_SMSG_DEVTOOLS_RESULT"
  have n: "frame_count (packet_message ?p) = 1"
    by (simp add: frame_count_def packet_message_def WriteUInt16_def new_IscPacket_def bb_empty_def)
  then obtain s where "EncodeFrames 1 ?p = Some (map s [0..<frame_count (packet_message ?p)])"
    using encode_frames_text [of ?p 1] by auto
  with n have e: "EncodeFrames 1 ?p = Some [s 0]" by simp
  from isc_frames_fit [OF e, of "s 0"] e show ?thesis by auto
qed

end
