(* ===== verification/Text_Util.thy ===== *)
theory Text_Util
  imports Prelude
begin

text \<open>
  The text helpers of \<open>src/common/Utilities\<close>: integers from text and back (\<open>StringConvert.h\<close>),
  \<open>Tokenize\<close>, the time and money notations, hexadecimal strings and the comparisons that ignore case
  (\<open>Util.cpp\<close>). The unsigned instances of \<open>StringTo\<close> are modelled, at any width. The C library's
  \<open>isdigit\<close>, \<open>tolower\<close> and \<open>from_chars\<close> are written out for the C locale.
\<close>

section \<open>Integers and text\<close>

definition digit_value :: "char \<Rightarrow> nat option" where
  "digit_value c =
     (let n = of_char c in
      if 48 \<le> n \<and> n \<le> 57 then Some (n - 48)
      else if 65 \<le> n \<and> n \<le> 90 then Some (n - 55)
      else if 97 \<le> n \<and> n \<le> 122 then Some (n - 87)
      else None)"

definition is_digit_of :: "nat \<Rightarrow> char \<Rightarrow> bool" where
  "is_digit_of base c = (case digit_value c of None \<Rightarrow> False | Some d \<Rightarrow> d < base)"

fun chars_value :: "nat \<Rightarrow> nat \<Rightarrow> string \<Rightarrow> nat" where
  "chars_value base acc [] = acc"
| "chars_value base acc (c # cs) =
     chars_value base (acc * base + (case digit_value c of None \<Rightarrow> 0 | Some d \<Rightarrow> d)) cs"

text \<open>\<open>std::from_chars\<close> on an unsigned type of \<open>w\<close> bits: the text after the digits, and the value
  unless there is no digit or the value is out of range.\<close>

definition from_chars :: "nat \<Rightarrow> nat \<Rightarrow> string \<Rightarrow> string \<times> nat option" where
  "from_chars w base str =
     (let ds = takeWhile (is_digit_of base) str; v = chars_value base 0 ds
      in (dropWhile (is_digit_of base) str, if ds = [] \<or> v \<ge> 2 ^ w then None else Some v))"

definition lower_char :: "char \<Rightarrow> char" where
  "lower_char c = (let n = of_char c :: nat in if 65 \<le> n \<and> n \<le> 90 then char_of (n + 32) else c)"

definition StringEqualI :: "string \<Rightarrow> string \<Rightarrow> bool" where
  "StringEqualI a b = (map lower_char a = map lower_char b)"

definition FromString_digits :: "nat \<Rightarrow> string \<Rightarrow> 'a::len word option" where
  "FromString_digits base str =
     (case from_chars LENGTH('a) base str of
        (rest, Some v) \<Rightarrow> if rest = [] then Some (of_nat v) else None
      | (rest, None) \<Rightarrow> None)"

definition FromString :: "nat \<Rightarrow> string \<Rightarrow> 'a::len word option" where
  "FromString base str =
     (if base = 0 then
        let (base, str) = (if StringEqualI (take 2 str) ''0x'' then (16, drop 2 str)
                           else if StringEqualI (take 2 str) ''0b'' then (2, drop 2 str)
                           else (10, str))
        in if str = [] then None else FromString_digits base str
      else FromString_digits base str)"

definition ToString :: "'a::len word \<Rightarrow> string" where
  "ToString val = show_nat (unat val)"

section \<open>Tokenize\<close>

text \<open>The argument \<open>rest\<close> is the part of the text from \<open>start\<close> on.\<close>

function Tokenize :: "string \<Rightarrow> char \<Rightarrow> bool \<Rightarrow> string list" where
  "Tokenize rest sep keepEmpty =
     (let tok = takeWhile (\<lambda>c. c \<noteq> sep) rest in
      if length tok < length rest
      then (if keepEmpty \<or> tok \<noteq> [] then [tok] else [])
           @ Tokenize (drop (Suc (length tok)) rest) sep keepEmpty
      else if keepEmpty \<or> rest \<noteq> [] then [rest] else [])"
  by pat_completeness auto
termination by (relation "measure (\<lambda>(rest, _). length rest)") auto

declare Tokenize.simps [simp del]

section \<open>Time and money\<close>

datatype TimeFormat = FullText | ShortText | Numeric

definition MINUTE :: nat where "MINUTE = 60"
definition HOUR :: nat where "HOUR = 60 * MINUTE"
definition DAY :: nat where "DAY = 24 * HOUR"

definition two_digits :: "nat \<Rightarrow> string" where
  "two_digits n = pad_left 2 (show_nat n)"

definition time_unit :: "TimeFormat \<Rightarrow> string \<Rightarrow> string \<Rightarrow> string \<Rightarrow> bool \<Rightarrow> string" where
  "time_unit timeFormat short one many singular =
     (if timeFormat = ShortText then short else if singular then one else many)"

definition secsToTimeString :: "u64 \<Rightarrow> TimeFormat \<Rightarrow> bool \<Rightarrow> string" where
  "secsToTimeString timeInSecs timeFormat hoursOnly =
     (let t = unat timeInSecs;
          secs = t mod MINUTE;
          minutes = t mod HOUR div MINUTE;
          hours = t mod DAY div HOUR;
          days = t div DAY
      in if timeFormat = Numeric then
           if days \<noteq> 0 then show_nat days @ '':'' @ two_digits hours @ '':'' @ two_digits minutes @ '':'' @ two_digits secs
           else if hours \<noteq> 0 then show_nat hours @ '':'' @ two_digits minutes @ '':'' @ two_digits secs
           else if minutes \<noteq> 0 then show_nat minutes @ '':'' @ two_digits secs
           else ''0:'' @ two_digits secs
         else
           (if days \<noteq> 0 then show_nat days @ time_unit timeFormat ''d'' '' Day '' '' Days '' (days = 1) else [])
           @ (if hours \<noteq> 0 \<or> hoursOnly
              then show_nat hours @ time_unit timeFormat ''h'' '' Hour '' '' Hours '' (hours \<le> 1) else [])
           @ (if hoursOnly then []
              else (if minutes \<noteq> 0
                    then show_nat minutes @ time_unit timeFormat ''m'' '' Minute '' '' Minutes '' (minutes = 1) else [])
                   @ (if secs \<noteq> 0 \<or> (days = 0 \<and> hours = 0 \<and> minutes = 0)
                      then show_nat secs @ time_unit timeFormat ''s'' '' Second.'' '' Seconds.'' (secs \<le> 1) else [])))"

text \<open>The loop of \<open>TimeStringToSecs\<close>, over \<open>uint32\<close>; \<open>None\<close> is its early \<open>return 0\<close>.\<close>

definition time_multiplier :: "char \<Rightarrow> u32 option" where
  "time_multiplier c =
     (if c = CHR ''d'' then Some (of_nat DAY) else if c = CHR ''h'' then Some (of_nat HOUR)
      else if c = CHR ''m'' then Some (of_nat MINUTE) else if c = CHR ''s'' then Some 1 else None)"

definition isdigit :: "char \<Rightarrow> bool" where
  "isdigit c = (let n = of_char c :: nat in 48 \<le> n \<and> n \<le> 57)"

fun time_loop :: "string \<Rightarrow> u32 \<Rightarrow> u32 \<Rightarrow> u32 option" where
  "time_loop [] buffer secs = Some secs"
| "time_loop (c # cs) buffer secs =
     (if isdigit c then time_loop cs (buffer * 10 + (of_nat (of_char c) - 48)) secs
      else case time_multiplier c of
             None \<Rightarrow> None
           | Some multiplier \<Rightarrow> time_loop cs 0 (secs + buffer * multiplier))"

definition TimeStringToSecs :: "string \<Rightarrow> u32" where
  "TimeStringToSecs timestring = (case time_loop timestring 0 0 of None \<Rightarrow> 0 | Some secs \<Rightarrow> secs)"

text \<open>\<open>int32\<close> money: \<open>money += unit * *amount\<close> computes in \<open>uint32\<close> and converts back.\<close>

record money_state =
  money :: "32 word"
  hadG :: bool
  hadS :: bool
  hadC :: bool

definition money_token :: "string \<Rightarrow> money_state \<Rightarrow> money_state option" where
  "money_token token m =
     (let amount = FromString 10 (butlast token) :: u32 option;
          add = (\<lambda>unit. map_option (\<lambda>a. m\<lparr>money := money m + unit * a\<rparr>) amount)
      in if last token = CHR ''g'' then if hadG m then None else map_option (hadG_update (\<lambda>_. True)) (add (100 * 100))
         else if last token = CHR ''s'' then if hadS m then None else map_option (hadS_update (\<lambda>_. True)) (add 100)
         else if last token = CHR ''c'' then if hadC m then None else map_option (hadC_update (\<lambda>_. True)) (add 1)
         else None)"

fun money_loop :: "string list \<Rightarrow> money_state \<Rightarrow> money_state option" where
  "money_loop [] m = Some m"
| "money_loop (token # tokens) m =
     (case money_token token m of None \<Rightarrow> None | Some m' \<Rightarrow> money_loop tokens m')"

definition MoneyStringToMoney :: "string \<Rightarrow> int option" where
  "MoneyStringToMoney moneyString =
     map_option (\<lambda>m. sint (money m))
       (money_loop (Tokenize moneyString (CHR '' '') False) \<lparr>money = 0, hadG = False, hadS = False, hadC = False\<rparr>)"

section \<open>Hexadecimal strings\<close>

definition hex_byte :: "u8 \<Rightarrow> string" where
  "hex_byte b = pad_left 2 (digits_of 16 (unat b))"

definition ByteArrayToHexStr :: "bytes \<Rightarrow> bool \<Rightarrow> string" where
  "ByteArrayToHexStr bs reverse =
     concat (map (\<lambda>i. hex_byte (bs ! i)) (if reverse then rev [0..<length bs] else [0..<length bs]))"

text \<open>\<open>None\<close> is the failed assertion on the sizes.\<close>

definition HexStrToByteArray :: "string \<Rightarrow> nat \<Rightarrow> bool \<Rightarrow> bytes option" where
  "HexStrToByteArray str outlen reverse =
     (if length str \<noteq> 2 * outlen then None
      else Some (map (\<lambda>j. case FromString 16 (take 2 (drop (2 * j) str)) of None \<Rightarrow> 0 | Some v \<Rightarrow> v)
                  (if reverse then rev [0..<outlen] else [0..<outlen])))"

definition HexStrToByteVector :: "string \<Rightarrow> bool \<Rightarrow> bytes option" where
  "HexStrToByteVector str reverse = HexStrToByteArray str (length str div 2) reverse"

section \<open>Comparisons that ignore case, line ends\<close>

definition StringStartsWith :: "string \<Rightarrow> string \<Rightarrow> bool" where
  "StringStartsWith haystack needle = (take (length needle) haystack = needle)"

definition StringStartsWithI :: "string \<Rightarrow> string \<Rightarrow> bool" where
  "StringStartsWithI haystack needle = StringEqualI (take (length needle) haystack) needle"

fun StringContainsStringI :: "string \<Rightarrow> string \<Rightarrow> bool" where
  "StringContainsStringI [] needle = (needle = [])"
| "StringContainsStringI (c # cs) needle =
     (needle = [] \<or> StringStartsWithI (c # cs) needle \<or> StringContainsStringI cs needle)"

definition char_rank :: "char \<Rightarrow> int" where
  "char_rank c = (let n = of_char (lower_char c) :: nat in if n < 128 then int n else int n - 256)"

fun StringCompareLessI :: "string \<Rightarrow> string \<Rightarrow> bool" where
  "StringCompareLessI [] [] = False"
| "StringCompareLessI [] (d # ds) = True"
| "StringCompareLessI (c # cs) [] = False"
| "StringCompareLessI (c # cs) (d # ds) =
     (if char_rank c < char_rank d then True else if char_rank d < char_rank c then False
      else StringCompareLessI cs ds)"

definition is_line_end :: "char \<Rightarrow> bool" where
  "is_line_end c = (c = char_of (13::nat) \<or> c = char_of (10::nat))"

definition RemoveCRLF :: "string \<Rightarrow> nat option \<times> string" where
  "RemoveCRLF str =
     (let n = length (takeWhile (\<lambda>c. \<not> is_line_end c) str)
      in if n = length str then (None, str) else (Some n, take n str))"

section \<open>Digits\<close>

lemma digit_value_digit_char [simp]: "d < 36 \<Longrightarrow> digit_value (digit_char d) = Some d"
  by (simp add: digit_value_def digit_char_def Let_def)

lemma is_digit_of_digit_char [simp]: "d < b \<Longrightarrow> b \<le> 36 \<Longrightarrow> is_digit_of b (digit_char d)"
  by (simp add: is_digit_of_def)

lemma isdigit_digit_char [simp]: "d < 10 \<Longrightarrow> isdigit (digit_char d)"
  by (simp add: isdigit_def digit_char_def Let_def)

lemma digits_of_digits:
  assumes "2 \<le> b" "b \<le> 36"
  shows "\<forall>c \<in> set (digits_of b n). is_digit_of b c"
  using assms
proof (induction b n rule: digits_of.induct)
  case (1 b n)
  then show ?case by (subst digits_of.simps) (auto simp: Let_def)
qed

lemma digits_of_not_Nil [simp]: "digits_of b n \<noteq> []"
  by (subst digits_of.simps) simp

lemma chars_value_append: "chars_value b acc (xs @ ys) = chars_value b (chars_value b acc xs) ys"
  by (induction xs arbitrary: acc) simp_all

lemma chars_value_digits_of:
  assumes "2 \<le> b" "b \<le> 36"
  shows "chars_value b 0 (digits_of b n) = n"
  using assms
proof (induction b n rule: digits_of.induct)
  case (1 b n)
  have "n mod b < 36" using 1(2,3) mod_less_divisor [of b n] by linarith
  then show ?case
    using 1 by (subst digits_of.simps) (simp add: chars_value_append)
qed

lemma digit_char_0: "CHR ''0'' = digit_char 0"
  by code_simp

lemma chars_value_zeros: "chars_value b 0 (replicate k (CHR ''0'') @ s) = chars_value b 0 s"
  by (induction k) (simp_all add: digit_char_0)

lemma pad_left_digits:
  assumes "2 \<le> b" "b \<le> 36"
  shows "\<forall>c \<in> set (pad_left k (digits_of b n)). is_digit_of b c"
    and "pad_left k (digits_of b n) \<noteq> []"
    and "chars_value b 0 (pad_left k (digits_of b n)) = n"
proof -
  show "\<forall>c \<in> set (pad_left k (digits_of b n)). is_digit_of b c" "pad_left k (digits_of b n) \<noteq> []"
    using assms digits_of_digits [OF assms, of n] by (auto simp: pad_left_def digit_char_0)
  show "chars_value b 0 (pad_left k (digits_of b n)) = n"
    by (simp add: pad_left_def chars_value_zeros chars_value_digits_of [OF assms])
qed

lemma FromString_digits_all:
  assumes "\<forall>c \<in> set s. is_digit_of b c" "s \<noteq> []" "chars_value b 0 s < 2 ^ LENGTH('a)"
  shows "FromString_digits b s = Some (of_nat (chars_value b 0 s) :: 'a::len word)"
proof -
  have "takeWhile (is_digit_of b) s = s" "dropWhile (is_digit_of b) s = []" using assms(1) by (simp_all add: takeWhile_eq_all_conv)
  note whole = this
  show ?thesis
    using assms(2,3) by (simp add: FromString_digits_def from_chars_def Let_def whole)
qed

lemma FromString_pad_left:
  assumes "2 \<le> b" "b \<le> 36" "n < 2 ^ LENGTH('a)"
  shows "FromString b (pad_left k (digits_of b n)) = Some (of_nat n :: 'a::len word)"
  using FromString_digits_all [OF pad_left_digits(1,2) [OF assms(1,2)], where ?'a='a] assms
  by (simp add: FromString_def pad_left_digits(3))

lemma pad_left_0 [simp]: "pad_left 0 s = s"
  by (simp add: pad_left_def)

lemma FromString_show_nat:
  "n < 2 ^ LENGTH('a) \<Longrightarrow> FromString 10 (show_nat n) = Some (of_nat n :: 'a::len word)"
  using FromString_pad_left [of 10 n 0, where ?'a='a] by (simp add: show_nat_def)

section \<open>Properties\<close>

text \<open>The text of an unsigned integer of any width converts back to that integer.\<close>

theorem StringTo_ToString: "FromString 10 (ToString v) = Some (v :: 'a::len word)"
  using FromString_show_nat [of "unat v", where ?'a='a] unsigned_less [of v, where ?'a=nat]
  by (simp add: ToString_def)

subsection \<open>Tokenize\<close>

fun join_tokens :: "char \<Rightarrow> string list \<Rightarrow> string" where
  "join_tokens sep [] = []"
| "join_tokens sep [t] = t"
| "join_tokens sep (t # u # ts) = t @ sep # join_tokens sep (u # ts)"

lemma takeWhile_shorter:
  assumes "length (takeWhile P xs) < length xs"
  shows "\<exists>y ys. xs = takeWhile P xs @ y # ys \<and> \<not> P y \<and> drop (Suc (length (takeWhile P xs))) xs = ys"
proof (cases "dropWhile P xs")
  case Nil
  then have "length (takeWhile P xs) = length xs" using takeWhile_dropWhile_id [of P xs] by (metis append_Nil2)
  then show ?thesis using assms by linarith
next
  case (Cons y ys)
  then show ?thesis
    using takeWhile_dropWhile_id [of P xs] hd_dropWhile [of P xs]
    by (metis append_eq_conv_conj drop_Suc list.distinct(1) list.sel(1) list.sel(3) tl_drop)
qed

lemma takeWhile_full: "\<not> length (takeWhile P xs) < length xs \<Longrightarrow> takeWhile P xs = xs"
  using takeWhile_dropWhile_id [of P xs] length_takeWhile_le [of P xs]
  by (metis append_eq_conv_conj not_less take_all)

lemma Tokenize_keep_Nil [simp]: "Tokenize s sep True \<noteq> []"
  by (subst Tokenize.simps) (simp add: Let_def)

lemma Tokenize_join: "join_tokens sep (Tokenize s sep True) = s"
proof (induction s sep True rule: Tokenize.induct)
  case (1 s sep)
  let ?t = "takeWhile (\<lambda>c. c \<noteq> sep) s"
  show ?case
  proof (cases "length ?t < length s")
    case True
    obtain ys where ys: "s = ?t @ sep # ys" "drop (Suc (length ?t)) s = ys"
      using takeWhile_shorter [OF True] by auto
    obtain u us where us: "Tokenize ys sep True = u # us"
      by (meson Tokenize_keep_Nil neq_Nil_conv)
    have "Tokenize s sep True = ?t # u # us"
      by (subst Tokenize.simps) (simp add: Let_def True ys(2) us)
    then show ?thesis
      using 1 [OF refl True] ys us by simp
  next
    case False
    then show ?thesis by (subst Tokenize.simps) (simp add: Let_def)
  qed
qed

lemma Tokenize_no_sep: "t \<in> set (Tokenize s sep k) \<Longrightarrow> sep \<notin> set t"
proof (induction s sep k arbitrary: t rule: Tokenize.induct)
  case (1 s sep k)
  let ?t = "takeWhile (\<lambda>c. c \<noteq> sep) s"
  have tok: "sep \<notin> set ?t" by (auto dest: set_takeWhileD)
  show ?case
  proof (cases "length ?t < length s")
    case True
    have "Tokenize s sep k = (if k \<or> ?t \<noteq> [] then [?t] else []) @ Tokenize (drop (Suc (length ?t)) s) sep k"
      by (subst Tokenize.simps) (simp add: Let_def True)
    then show ?thesis
      using 1(1) [OF refl True] 1(2) tok by (auto split: if_splits)
  next
    case False
    have "Tokenize s sep k = (if k \<or> s \<noteq> [] then [s] else [])"
      by (subst Tokenize.simps) (simp add: Let_def False)
    then show ?thesis
      using 1(2) tok takeWhile_full [OF False] by (auto split: if_splits)
  qed
qed

lemma Tokenize_drop_empty: "Tokenize s sep False = filter (\<lambda>t. t \<noteq> []) (Tokenize s sep True)"
proof (induction s sep True rule: Tokenize.induct)
  case (1 s sep)
  let ?t = "takeWhile (\<lambda>c. c \<noteq> sep) s"
  show ?case
  proof (cases "length ?t < length s")
    case True
    then show ?thesis
      using 1 [OF refl True] Tokenize.simps [of s sep True] Tokenize.simps [of s sep False] by (simp add: Let_def)
  next
    case False
    then show ?thesis
      using Tokenize.simps [of s sep True] Tokenize.simps [of s sep False] by (simp add: Let_def)
  qed
qed

text \<open>Splitting at a separator loses nothing: the tokens, none of which holds the separator, joined
  with it give the text, and leaving out the empty ones is the only effect of \<open>keepEmpty\<close>.\<close>

theorem Tokenize_spec:
  "join_tokens sep (Tokenize s sep True) = s
   \<and> list_all (\<lambda>t. sep \<notin> set t) (Tokenize s sep True)
   \<and> Tokenize s sep False = filter (\<lambda>t. t \<noteq> []) (Tokenize s sep True)"
  using Tokenize_join Tokenize_no_sep Tokenize_drop_empty by (auto simp: list_all_iff)

subsection \<open>Time strings\<close>

lemma digit_char_word: "d < 10 \<Longrightarrow> (word_of_nat (of_char (digit_char d)) - 48 :: u32) = of_nat d"
  by (simp add: digit_char_def)

lemma time_loop_digits:
  "time_loop (digits_of 10 n @ cs) 0 secs = time_loop cs (of_nat n) secs"
proof (induction "10::nat" n arbitrary: cs rule: digits_of.induct)
  case (1 n)
  show ?case
  proof (cases "n < 10")
    case True
    then show ?thesis by (subst digits_of.simps) (simp add: digit_char_word)
  next
    case False
    have "(of_nat (n div 10) * 10 + of_nat (n mod 10) :: u32) = of_nat (n div 10 * 10 + n mod 10)"
      by (simp only: of_nat_add of_nat_mult of_nat_numeral)
    then have "(of_nat (n div 10) * 10 + of_nat (n mod 10) :: u32) = of_nat n"
      by (simp only: div_mult_mod_eq)
    then show ?thesis
      using False 1 by (subst digits_of.simps) (simp add: digit_char_word)
  qed
qed

lemma time_loop_unit:
  "time_multiplier c = Some m \<Longrightarrow> \<not> isdigit c \<Longrightarrow>
   time_loop (show_nat n @ c # cs) 0 secs = time_loop cs 0 (secs + of_nat n * m)"
  by (simp add: show_nat_def time_loop_digits)

lemma time_units:
  "time_multiplier (CHR ''d'') = Some (of_nat DAY)" "\<not> isdigit (CHR ''d'')"
  "time_multiplier (CHR ''h'') = Some (of_nat HOUR)" "\<not> isdigit (CHR ''h'')"
  "time_multiplier (CHR ''m'') = Some (of_nat MINUTE)" "\<not> isdigit (CHR ''m'')"
  "time_multiplier (CHR ''s'') = Some 1" "\<not> isdigit (CHR ''s'')"
  by (simp_all add: time_multiplier_def isdigit_def)

lemma time_split: "t div DAY * DAY + t mod DAY div HOUR * HOUR + t mod HOUR div MINUTE * MINUTE + t mod MINUTE = t"
proof -
  have "t mod DAY mod HOUR = t mod HOUR" "t mod HOUR mod MINUTE = t mod MINUTE"
    by (simp_all add: DAY_def HOUR_def MINUTE_def mod_mod_cancel)
  then show ?thesis
    by (metis add.assoc div_mult_mod_eq)
qed

lemma time_loop_short:
  "time_loop (secsToTimeString t ShortText False) 0 0 = Some (of_nat (unat t) :: u32)"
proof -
  let ?n = "unat t"
  let ?d = "?n div DAY" and ?h = "?n mod DAY div HOUR" and ?m = "?n mod HOUR div MINUTE" and ?s = "?n mod MINUTE"
  have "(of_nat ?d * of_nat DAY + of_nat ?h * of_nat HOUR + of_nat ?m * of_nat MINUTE + of_nat ?s :: u32)
      = of_nat (?d * DAY + ?h * HOUR + ?m * MINUTE + ?s)" by simp
  then have total: "(of_nat ?d * of_nat DAY + of_nat ?h * of_nat HOUR + of_nat ?m * of_nat MINUTE + of_nat ?s :: u32) = of_nat ?n"
    by (simp only: time_split)
  show ?thesis
    unfolding total [symmetric]
    by (auto simp: secsToTimeString_def Let_def time_unit_def time_loop_unit time_units)
qed

text \<open>Reading back the short text of a duration gives the duration, modulo \<open>2^32\<close> since the
  reader computes in 32 bits.\<close>

theorem time_string_roundtrip: "TimeStringToSecs (secsToTimeString t ShortText False) = ucast t"
  by (simp add: TimeStringToSecs_def time_loop_short unsigned_ucast_eq)

subsection \<open>Money\<close>

lemma Tokenize_hd:
  assumes "sep \<notin> set t"
  shows "Tokenize (t @ sep # rest) sep k = (if k \<or> t \<noteq> [] then [t] else []) @ Tokenize rest sep k"
proof -
  have "takeWhile (\<lambda>c. c \<noteq> sep) (t @ sep # rest) = t" using assms by (auto simp: takeWhile_append)
  then show ?thesis by (subst Tokenize.simps) (simp add: Let_def)
qed

lemma Tokenize_last: "sep \<notin> set t \<Longrightarrow> t \<noteq> [] \<Longrightarrow> Tokenize t sep k = [t]"
proof -
  assume "sep \<notin> set t" "t \<noteq> []"
  moreover have "length (takeWhile (\<lambda>c. c \<noteq> sep) t) = length t" if "sep \<notin> set t"
    using that by (induction t) auto
  ultimately show ?thesis by (subst Tokenize.simps) (simp add: Let_def)
qed

lemma show_nat_digits: "\<forall>c \<in> set (show_nat n). is_digit_of 10 c"
  unfolding show_nat_def by (rule digits_of_digits) simp_all

lemma show_nat_no_space: "CHR '' '' \<notin> set (show_nat n)"
proof
  assume "CHR '' '' \<in> set (show_nat n)"
  then have "is_digit_of 10 (CHR '' '')" using show_nat_digits by blast
  then show False by (simp add: is_digit_of_def digit_value_def)
qed

text \<open>An amount of gold, silver and copper whose total fits an \<open>int32\<close> is read exactly.\<close>

theorem money_exact:
  assumes "10000 * g + 100 * s + c < 2 ^ 31"
  shows "MoneyStringToMoney (show_nat g @ ''g '' @ show_nat s @ ''s '' @ show_nat c @ ''c'')
      = Some (int (10000 * g + 100 * s + c))"
proof -
  let ?tok = "\<lambda>n u. show_nat n @ [u]"
  have tokens: "Tokenize (show_nat g @ ''g '' @ show_nat s @ ''s '' @ show_nat c @ ''c'') (CHR '' '') False
      = [?tok g (CHR ''g''), ?tok s (CHR ''s''), ?tok c (CHR ''c'')]"
    using Tokenize_hd [of "CHR '' ''" "?tok g (CHR ''g'')" "show_nat s @ ''s '' @ show_nat c @ ''c''" False]
      Tokenize_hd [of "CHR '' ''" "?tok s (CHR ''s'')" "show_nat c @ ''c''" False]
      Tokenize_last [of "CHR '' ''" "?tok c (CHR ''c'')" False] show_nat_no_space
    by simp
  have parse: "FromString 10 (show_nat n) = Some (of_nat n :: u32)" if "n < 2 ^ 32" for n
    using FromString_show_nat [of n, where ?'a=32] that by simp
  have sum: "(10000 * of_nat g + 100 * of_nat s + of_nat c :: u32) = of_nat (10000 * g + 100 * s + c)" by simp
  have sint: "sint (of_nat n :: u32) = int n" if "n < 2 ^ 31" for n
    using that by (simp add: signed_of_nat signed_take_bit_int_eq_self)
  have "MoneyStringToMoney (show_nat g @ ''g '' @ show_nat s @ ''s '' @ show_nat c @ ''c'')
      = Some (sint (10000 * of_nat g + 100 * of_nat s + of_nat c :: u32))"
    unfolding MoneyStringToMoney_def tokens
    using assms by (simp add: money_token_def Let_def parse)
  then show ?thesis using sint [OF assms] by (simp only: sum)
qed

theorem money_exact_witness: "MoneyStringToMoney (show_nat 3 @ ''g '' @ show_nat 20 @ ''s '' @ show_nat 7 @ ''c'') = Some 32007"
  using money_exact [of 3 20 7] by simp

text \<open>An amount above the range of \<open>int32\<close> is accepted and read as a negative amount.\<close>

theorem money_overflow: "MoneyStringToMoney ''300000g'' = Some (- 1294967296)"
proof -
  have "Tokenize ''300000g'' (CHR '' '') False = [''300000g'']" by (rule Tokenize_last) simp_all
  then show ?thesis
    by (simp add: MoneyStringToMoney_def money_token_def Let_def FromString_def FromString_digits_def from_chars_def
        is_digit_of_def digit_value_def)
qed

subsection \<open>Hexadecimal\<close>

lemma length_pad_left: "length (pad_left k s) = max k (length s)"
  by (simp add: pad_left_def)

lemma digits_of_16_length: "n < 256 \<Longrightarrow> length (digits_of 16 n) \<le> 2"
  by (subst digits_of.simps) (auto simp: digits_of.simps [of 16 "n div 16"])

lemma unat_byte: "unat (b :: u8) < 256"
  using unsigned_less [of b, where ?'a=nat] by simp

lemma length_hex_byte [simp]: "length (hex_byte b) = 2"
  using digits_of_16_length [OF unat_byte [of b]] by (simp add: hex_byte_def length_pad_left)

lemma FromString_hex_byte [simp]: "FromString 16 (hex_byte b) = Some b"
  using FromString_pad_left [of 16 "unat b" 2, where ?'a=8] unat_byte [of b] by (simp add: hex_byte_def)

lemma concat_pair:
  assumes "\<forall>s \<in> set ss. length s = 2" "j < length ss"
  shows "take 2 (drop (2 * j) (concat ss)) = ss ! j"
  using assms
proof (induction ss arbitrary: j)
  case (Cons s ss)
  then show ?case
    by (cases j) (auto simp: drop_append)
qed simp

lemma length_concat_pairs: "\<forall>s \<in> set ss. length s = 2 \<Longrightarrow> length (concat ss) = 2 * length ss"
  by (induction ss) auto

lemma ByteArrayToHexStr_alt: "ByteArrayToHexStr bs r = concat (map hex_byte (if r then rev bs else bs))"
proof -
  have "map (\<lambda>i. hex_byte (bs ! i)) [0..<length bs] = map hex_byte bs"
    by (rule nth_equalityI) simp_all
  then show ?thesis
    by (simp add: ByteArrayToHexStr_def flip: rev_map)
qed

text \<open>Bytes written in hexadecimal, forwards or backwards, are read back by the reader called with
  the same direction, and the text has two characters per byte.\<close>

theorem hex_roundtrip:
  "HexStrToByteArray (ByteArrayToHexStr bs r) (length bs) r = Some bs
   \<and> length (ByteArrayToHexStr bs r) = 2 * length bs"
proof -
  let ?cs = "if r then rev bs else bs"
  let ?ss = "map hex_byte ?cs"
  have len: "length (concat ?ss) = 2 * length bs" by (subst length_concat_pairs) auto
  have pair: "take 2 (drop (2 * j) (concat ?ss)) = hex_byte (?cs ! j)" if "j < length bs" for j
    using concat_pair [of ?ss j] that by auto
  have read: "map (\<lambda>j. case FromString 16 (take 2 (drop (2 * j) (concat ?ss))) of None \<Rightarrow> 0 | Some v \<Rightarrow> v) [0..<length bs] = ?cs"
    by (rule nth_equalityI) (simp_all add: pair)
  then have "map (\<lambda>j. case FromString 16 (take 2 (drop (2 * j) (concat ?ss))) of None \<Rightarrow> 0 | Some v \<Rightarrow> v)
      (if r then rev [0..<length bs] else [0..<length bs]) = bs"
    by (cases r) (simp_all flip: rev_map)
  then show ?thesis
    by (simp add: HexStrToByteArray_def ByteArrayToHexStr_alt len del: if_split)
qed

subsection \<open>Comparisons\<close>

lemma signed_char_inject:
  "m < 256 \<Longrightarrow> n < 256 \<Longrightarrow> (if m < 128 then int m else int m - 256) = (if n < 128 then int n else int n - 256) \<longleftrightarrow> m = n"
  by auto

lemma char_rank_eq: "char_rank c = char_rank d \<longleftrightarrow> lower_char c = lower_char d"
  using signed_char_inject [of "of_char (lower_char c)" "of_char (lower_char d)"]
  by (simp only: char_rank_def Let_def) simp

lemma StringEqualI_rank: "StringEqualI a b \<longleftrightarrow> map char_rank a = map char_rank b"
  unfolding StringEqualI_def
  by (induction a b rule: list_induct2') (auto simp: char_rank_eq)

lemma StringCompareLessI_rank: "StringCompareLessI a b \<longleftrightarrow> ord_class.lexordp (map char_rank a) (map char_rank b)"
  by (induction a b rule: StringCompareLessI.induct) auto

text \<open>The comparison used to order the keys of case-insensitive maps is a strict weak order whose
  equivalent keys are the texts that are equal when case is ignored.\<close>

theorem StringCompareLessI_order:
  "\<not> StringCompareLessI a a
   \<and> (StringCompareLessI a b \<longrightarrow> StringCompareLessI b c \<longrightarrow> StringCompareLessI a c)
   \<and> (StringEqualI a b \<longleftrightarrow> \<not> StringCompareLessI a b \<and> \<not> StringCompareLessI b a)"
proof (intro conjI impI)
  show "\<not> StringCompareLessI a a" by (simp add: StringCompareLessI_rank lexordp_irreflexive')
  show "StringCompareLessI a c" if "StringCompareLessI a b" "StringCompareLessI b c"
    using that lexordp_trans [of "map char_rank a" "map char_rank b" "map char_rank c"]
    by (simp add: StringCompareLessI_rank)
  show "StringEqualI a b \<longleftrightarrow> \<not> StringCompareLessI a b \<and> \<not> StringCompareLessI b a"
    using lexordp_linear [of "map char_rank a" "map char_rank b"] lexordp_irreflexive' [of "map char_rank b"]
    by (auto simp: StringCompareLessI_rank StringEqualI_rank)
qed

theorem StringCompareLessI_order_witness:
  "StringCompareLessI ''Aa'' ''aB'' \<and> StringCompareLessI ''aB'' ''b'' \<and> StringCompareLessI ''Aa'' ''b''"
proof -
  have "StringCompareLessI ''Aa'' ''aB''" "StringCompareLessI ''aB'' ''b''"
    by (simp_all add: char_rank_def lower_char_def)
  then show ?thesis using StringCompareLessI_order [of "''Aa''" "''aB''" "''b''"] by blast
qed

end
