(* ===== verification/Dev_Tools.thy ===== *)
theory Dev_Tools
  imports Text_Util
begin

text \<open>
  The change list of the in-game developer tools, \<open>src/server/game/DevTools/DevToolsMgr.cpp\<close>. The
  state joins the manager with the part of \<open>ObjectMgr\<close> it edits (the creature data by spawn, the
  spawn counter). Database row counts, the maps, the player who spawns and the file system are
  parameters; calls into the maps and grids are recorded in \<open>devEffects\<close>. Coordinates are \<open>float\<close> bit
  patterns, and the two formats used for them are parameters.
\<close>

section \<open>Data\<close>

datatype DevToolsChangeType = DeleteCreature | SpawnCreatureChange

record DevToolsChange =
  ChangeId :: u32
  ChangeType :: DevToolsChangeType
  SpawnId :: u32
  Label :: string
  Details :: string
  Sql :: string

record CreatureData =
  cd_spawnId :: u32
  cd_id :: u32
  cd_mapId :: u32
  cd_posX :: u32
  cd_posY :: u32
  cd_posZ :: u32
  cd_orientation :: u32
  cd_phaseMask :: u32
  cd_spawntimesecs :: "32 word"
  cd_spawnMask :: u8
  cd_displayid :: u32
  cd_equipmentId :: "8 word"
  cd_wander_distance :: u32
  cd_currentwaypoint :: u32
  cd_curhealth :: u32
  cd_curmana :: u32
  cd_movementType :: u8
  cd_npcflag :: u32
  cd_unit_flags :: u32
  cd_dynamicflags :: u32

definition new_CreatureData :: CreatureData where
  "new_CreatureData = \<lparr>cd_spawnId = 0, cd_id = 0, cd_mapId = 0xFFFFFFFF, cd_posX = 0, cd_posY = 0, cd_posZ = 0,
     cd_orientation = 0, cd_phaseMask = 0, cd_spawntimesecs = 0, cd_spawnMask = 0, cd_displayid = 0, cd_equipmentId = 0,
     cd_wander_distance = 0, cd_currentwaypoint = 0, cd_curhealth = 0, cd_curmana = 0, cd_movementType = 0,
     cd_npcflag = 0, cd_unit_flags = 0, cd_dynamicflags = 0\<rparr>"

datatype dev_effect =
    DespawnAll nat u32
  | RemoveRespawnTime nat u32
  | CreateCreatureFromDB nat u32
  | AddCreatureToGrid u32
  | RemoveCreatureFromGrid u32
  | OnDeleteSpawnData u32
  | StopNow

record dev_state =
  changes :: "DevToolsChange list"
  nextChangeId :: u32
  hiddenCreatureSpawns :: "u32 set"
  creatureDataStore :: "u32 \<rightharpoonup> CreatureData"
  creatureSpawnId :: u32
  devEffects :: "dev_effect list"

text \<open>A loaded map: its number, difficulty, and for a spawn whether its grid is loaded and whether the
  map would spawn it on loading.\<close>

record dev_map =
  mapIndex :: nat
  spawnMode :: nat
  gridLoaded :: "u32 \<Rightarrow> bool"
  shouldSpawn :: "u32 \<Rightarrow> bool"

record dev_world =
  countRows :: "string \<Rightarrow> string \<Rightarrow> u64"
  addonPath :: "u32 \<Rightarrow> u32 option"
  isPooled :: "u32 \<Rightarrow> bool"
  mapsWithId :: "u32 \<Rightarrow> dev_map list"
  fmt2 :: "u32 \<Rightarrow> string"
  fmtFloat :: "u32 \<Rightarrow> string"

record creature_ref =
  cr_spawnId :: u32
  cr_name :: string

section \<open>Helpers\<close>

abbreviation NL :: char where "NL \<equiv> CHR 0x0A"

definition ToSingleLine :: "string \<Rightarrow> string" where
  "ToSingleLine text = map (\<lambda>c. if c = CHR 0x0D \<or> c = NL then CHR '' '' else c) text"

definition str :: "'a::len word \<Rightarrow> string" where
  "str w = show_nat (unat w)"

text \<open>A signed word as \<open>{}\<close> prints it.\<close>

definition str_int :: "'a::len word \<Rightarrow> string" where
  "str_int w = (if sint w < 0 then CHR ''-'' # show_nat (nat (- sint w)) else show_nat (nat (sint w)))"

definition dev_emit :: "dev_effect list \<Rightarrow> dev_state \<Rightarrow> dev_state" where
  "dev_emit es s = s\<lparr>devEffects := devEffects s @ es\<rparr>"

definition IsCreatureSpawnHidden :: "dev_state \<Rightarrow> u32 \<Rightarrow> bool" where
  "IsCreatureSpawnHidden s spawnId = (spawnId \<in> hiddenCreatureSpawns s)"

definition DeleteCreatureData :: "u32 \<Rightarrow> dev_state \<Rightarrow> dev_state" where
  "DeleteCreatureData guid s =
     (let s = (case creatureDataStore s guid of None \<Rightarrow> s
               | Some _ \<Rightarrow> dev_emit [RemoveCreatureFromGrid guid, OnDeleteSpawnData guid] s)
      in s\<lparr>creatureDataStore := (creatureDataStore s)(guid := None)\<rparr>)"

definition GenerateCreatureSpawnId :: "dev_state \<Rightarrow> u32 \<times> dev_state" where
  "GenerateCreatureSpawnId s =
     (let s = (if creatureSpawnId s \<ge> 0xFFFFFF then dev_emit [StopNow] s else s)
      in (creatureSpawnId s, s\<lparr>creatureSpawnId := creatureSpawnId s + 1\<rparr>))"

section \<open>Undo\<close>

definition respawn_effects :: "CreatureData \<Rightarrow> u32 \<Rightarrow> dev_map list \<Rightarrow> dev_effect list" where
  "respawn_effects data spawnId maps =
     map (\<lambda>m. CreateCreatureFromDB (mapIndex m) spawnId)
       (filter (\<lambda>m. ucast (cd_spawnMask data) AND push_bit (spawnMode m) (1::u32) \<noteq> 0
                    \<and> gridLoaded m spawnId \<and> shouldSpawn m spawnId) maps)"

fun find_change :: "u32 \<Rightarrow> DevToolsChange list \<Rightarrow> DevToolsChange option" where
  "find_change changeId [] = None"
| "find_change changeId (c # cs) = (if ChangeId c = changeId then Some c else find_change changeId cs)"

fun erase_change :: "u32 \<Rightarrow> DevToolsChange list \<Rightarrow> DevToolsChange list" where
  "erase_change changeId [] = []"
| "erase_change changeId (c # cs) = (if ChangeId c = changeId then cs else c # erase_change changeId cs)"

text \<open>The result, and the error text, which a successful undo leaves as it was.\<close>

definition Undo :: "dev_world \<Rightarrow> u32 \<Rightarrow> string \<Rightarrow> dev_state \<Rightarrow> bool \<times> string \<times> dev_state" where
  "Undo w changeId error s =
     (case find_change changeId (changes s) of
        None \<Rightarrow> (False, ''Change '' @ str changeId @ '' does not exist or is already committed.'', s)
      | Some change \<Rightarrow>
          let spawnId = SpawnId change;
              s = s\<lparr>changes := erase_change changeId (changes s)\<rparr>
          in if ChangeType change = SpawnCreatureChange then
               (case creatureDataStore s spawnId of
                  None \<Rightarrow> (True, error, s)
                | Some data \<Rightarrow>
                    let s = dev_emit (concat (map (\<lambda>m. [DespawnAll (mapIndex m) spawnId, RemoveRespawnTime (mapIndex m) spawnId])
                                               (mapsWithId w (cd_mapId data)))) s
                    in (True, error, DeleteCreatureData spawnId s))
             else
               let s = s\<lparr>hiddenCreatureSpawns := hiddenCreatureSpawns s - {spawnId}\<rparr>
               in (case creatureDataStore s spawnId of
                     None \<Rightarrow> (True, error, s)
                   | Some data \<Rightarrow>
                       if isPooled w spawnId then (True, error, s)
                       else (True, error, dev_emit (respawn_effects data spawnId (mapsWithId w (cd_mapId data))) s)))"

section \<open>DeleteCreatureSpawn\<close>

definition position_text :: "dev_world \<Rightarrow> CreatureData \<Rightarrow> string" where
  "position_text w data = ''('' @ fmt2 w (cd_posX data) @ '', '' @ fmt2 w (cd_posY data) @ '', '' @ fmt2 w (cd_posZ data) @ '')''"

definition linkedRows :: "u32 \<Rightarrow> (string \<times> string) list" where
  "linkedRows spawnId =
     [(''creature_addon'', ''`guid` = '' @ str spawnId),
      (''creature_movement_override'', ''`SpawnId` = '' @ str spawnId),
      (''spawn_group'', ''`spawnType` = 0 AND `spawnId` = '' @ str spawnId),
      (''pool_members'', ''`type` = 0 AND `spawnId` = '' @ str spawnId),
      (''linked_respawn'', ''(`guid` = '' @ str spawnId @ '' AND `linkType` IN (0, 1)) OR (`linkedGuid` = '' @ str spawnId
                           @ '' AND `linkType` IN (0, 3))''),
      (''game_event_creature'', ''`guid` = '' @ str spawnId),
      (''game_event_model_equip'', ''`guid` = '' @ str spawnId),
      (''creature_formations'', ''`leaderGUID` = '' @ str spawnId @ '' OR `memberGUID` = '' @ str spawnId),
      (''smart_scripts'', ''`entryorguid` = -'' @ str spawnId @ '' AND `source_type` = 0''),
      (''conditions'', ''`SourceTypeOrReferenceId` = 22 AND `SourceEntry` = -'' @ str spawnId @ '' AND `SourceId` = 0'')]"

text \<open>The SQL and the details one loop over the linked tables adds.\<close>

fun linked_sql :: "dev_world \<Rightarrow> (string \<times> string) list \<Rightarrow> string" where
  "linked_sql w [] = []"
| "linked_sql w ((table, cond) # rows) =
     (if countRows w table cond \<noteq> 0 then ''DELETE FROM `'' @ table @ ''` WHERE '' @ cond @ '';'' @ [NL] else [])
     @ linked_sql w rows"

fun linked_details :: "dev_world \<Rightarrow> (string \<times> string) list \<Rightarrow> string" where
  "linked_details w [] = []"
| "linked_details w ((table, cond) # rows) =
     (if countRows w table cond \<noteq> 0 then table @ '': '' @ str (countRows w table cond) @ '' row(s)'' @ [NL] else [])
     @ linked_details w rows"

definition path_users :: "dev_world \<Rightarrow> u32 \<Rightarrow> u32 \<Rightarrow> u64" where
  "path_users w path spawnId =
     countRows w ''creature_addon'' (''`path_id` = '' @ str path @ '' AND `guid` <> '' @ str spawnId)
     + countRows w ''creature_template_addon'' (''`path_id` = '' @ str path)"

definition path_sql :: "dev_world \<Rightarrow> u32 \<Rightarrow> string" where
  "path_sql w spawnId =
     (case addonPath w spawnId of
        None \<Rightarrow> []
      | Some path \<Rightarrow>
          if path = 0 \<or> path_users w path spawnId \<noteq> 0 then []
          else ''DELETE FROM `waypoint_data` WHERE `id` = '' @ str path @ '';'' @ [NL])"

definition path_details :: "dev_world \<Rightarrow> u32 \<Rightarrow> string" where
  "path_details w spawnId =
     (case addonPath w spawnId of
        None \<Rightarrow> []
      | Some path \<Rightarrow>
          if path = 0 then []
          else if path_users w path spawnId \<noteq> 0
          then ''waypoint_data: path '' @ str path @ '' kept, used by other creatures'' @ [NL]
          else ''waypoint_data: path '' @ str path @ '', '' @ str (countRows w ''waypoint_data'' (''`id` = '' @ str path))
               @ '' point(s)'' @ [NL])"

definition target_warning :: "dev_world \<Rightarrow> u32 \<Rightarrow> string" where
  "target_warning w spawnId =
     (let n = countRows w ''smart_scripts''
                (''`target_type` = 10 AND `target_param1` = '' @ str spawnId @ '' AND NOT (`entryorguid` = -''
                 @ str spawnId @ '' AND `source_type` = 0)'')
      in if n = 0 then [] else ''WARNING: '' @ str n @ '' row(s) of other smart_scripts target this spawn'' @ [NL])"

definition delete_change :: "dev_world \<Rightarrow> u32 \<Rightarrow> creature_ref \<Rightarrow> CreatureData \<Rightarrow> DevToolsChange" where
  "delete_change w changeId creature data =
     (let spawnId = cr_spawnId creature; name = ToSingleLine (cr_name creature) in
      \<lparr>ChangeId = changeId, ChangeType = DeleteCreature, SpawnId = spawnId,
       Label = ''Delete '' @ name @ '' (entry '' @ str (cd_id data) @ '', spawn '' @ str spawnId @ '')'',
       Details = linked_details w (linkedRows spawnId) @ path_details w spawnId @ target_warning w spawnId,
       Sql = ''-- Delete creature spawn '' @ str spawnId @ '' ('' @ name @ '', entry '' @ str (cd_id data) @ '') on map ''
             @ str (cd_mapId data) @ '' at '' @ position_text w data @ [NL]
             @ ''DELETE FROM `creature` WHERE `guid` = '' @ str spawnId @ '';'' @ [NL]
             @ linked_sql w (linkedRows spawnId) @ path_sql w spawnId
             @ (if target_warning w spawnId = [] then [] else ''-- '' @ target_warning w spawnId)\<rparr>)"

fun find_pending_spawn :: "u32 \<Rightarrow> DevToolsChange list \<Rightarrow> DevToolsChange option" where
  "find_pending_spawn spawnId [] = None"
| "find_pending_spawn spawnId (c # cs) =
     (if ChangeType c = SpawnCreatureChange \<and> SpawnId c = spawnId then Some c else find_pending_spawn spawnId cs)"

definition DeleteCreatureSpawn :: "dev_world \<Rightarrow> creature_ref \<Rightarrow> dev_state \<Rightarrow> bool \<times> string \<times> dev_state" where
  "DeleteCreatureSpawn w creature s =
     (let spawnId = cr_spawnId creature in
      case (if spawnId \<noteq> 0 then creatureDataStore s spawnId else None) of
        None \<Rightarrow> (False, ''This creature is not a spawn of the world database.'', s)
      | Some data \<Rightarrow>
          if IsCreatureSpawnHidden s spawnId then (False, ''Spawn '' @ str spawnId @ '' is already deleted.'', s)
          else (case find_pending_spawn spawnId (changes s) of
                  Some pending \<Rightarrow> Undo w (ChangeId pending) (''Cancelled: '' @ Label pending) s
                | None \<Rightarrow>
                    let change = delete_change w (nextChangeId s) creature data;
                        s = s\<lparr>changes := changes s @ [change], nextChangeId := nextChangeId s + 1,
                              hiddenCreatureSpawns := insert spawnId (hiddenCreatureSpawns s)\<rparr>
                    in (True, Label change, dev_emit (map (\<lambda>m. DespawnAll (mapIndex m) spawnId) (mapsWithId w (cd_mapId data))) s)))"

section \<open>SpawnCreature\<close>

text \<open>What the temporary creature and the player give the new spawn. \<open>tmp_created\<close> is false when the
  temporary creature cannot be made, \<open>fromDB\<close> says whether the spawn could be created on the map.\<close>

record spawn_request =
  sr_templateName :: "string option"
  sr_onTransport :: bool
  sr_tmpCreated :: bool
  sr_mapId :: u32
  sr_mapIndex :: nat
  sr_spawnMode :: nat
  sr_phaseMask :: u32
  sr_posX :: u32
  sr_posY :: u32
  sr_posZ :: u32
  sr_orientation :: u32
  sr_respawnDelay :: u32
  sr_equipmentId :: u8
  sr_health :: u32
  sr_mana :: u32
  sr_fromDB :: bool

definition spawn_data :: "spawn_request \<Rightarrow> u32 \<Rightarrow> u32 \<Rightarrow> CreatureData option \<Rightarrow> CreatureData" where
  "spawn_data q entry spawnId old =
     (case old of None \<Rightarrow> new_CreatureData | Some d \<Rightarrow> d)
       \<lparr>cd_spawnId := spawnId, cd_id := entry, cd_mapId := sr_mapId q, cd_posX := sr_posX q, cd_posY := sr_posY q,
        cd_posZ := sr_posZ q, cd_orientation := sr_orientation q, cd_phaseMask := sr_phaseMask q,
        cd_spawnMask := ucast (push_bit (sr_spawnMode q) (1::u32)), cd_spawntimesecs := sr_respawnDelay q,
        cd_equipmentId := sr_equipmentId q, cd_curhealth := sr_health q, cd_curmana := sr_mana q, cd_movementType := 0\<rparr>"

fun comma_join :: "string list \<Rightarrow> string" where
  "comma_join [] = []"
| "comma_join [x] = x"
| "comma_join (x # y # xs) = x @ '', '' @ comma_join (y # xs)"

definition insert_values :: "dev_world \<Rightarrow> u32 \<Rightarrow> CreatureData \<Rightarrow> string" where
  "insert_values w spawnId d =
     ''('' @ comma_join [str spawnId, str (cd_id d), str (cd_mapId d), str (cd_spawnMask d), str (cd_phaseMask d), str (cd_displayid d),
       str_int (cd_equipmentId d), fmtFloat w (cd_posX d), fmtFloat w (cd_posY d), fmtFloat w (cd_posZ d),
       fmtFloat w (cd_orientation d), str_int (cd_spawntimesecs d), fmtFloat w (cd_wander_distance d), str (cd_currentwaypoint d),
       str (cd_curhealth d), str (cd_curmana d), str (cd_movementType d), str (cd_npcflag d), str (cd_unit_flags d),
       str (cd_dynamicflags d)] @ '');'' @ [NL]"

definition insert_columns :: string where
  "insert_columns = ''INSERT INTO `creature` (`guid`, `id`, `map`, `spawnMask`, `phaseMask`, `modelid`, `equipment_id`, `position_x`, `position_y`, `position_z`, `orientation`, `spawntimesecs`, `wander_distance`, `currentwaypoint`, `curhealth`, `curmana`, `MovementType`, `npcflag`, `unit_flags`, `dynamicflags`) VALUES'' @ [NL]"

definition spawn_change :: "dev_world \<Rightarrow> u32 \<Rightarrow> u32 \<Rightarrow> u32 \<Rightarrow> string \<Rightarrow> CreatureData \<Rightarrow> DevToolsChange" where
  "spawn_change w changeId spawnId entry templateName data =
     (let name = ToSingleLine templateName in
      \<lparr>ChangeId = changeId, ChangeType = SpawnCreatureChange, SpawnId = spawnId,
       Label = ''Spawn '' @ name @ '' (entry '' @ str entry @ '', spawn '' @ str spawnId @ '')'',
       Details = ''map '' @ str (cd_mapId data) @ '' at '' @ position_text w data @ [NL],
       Sql = ''-- Spawn creature '' @ str spawnId @ '' ('' @ name @ '', entry '' @ str entry @ '') on map '' @ str (cd_mapId data)
             @ '' at '' @ position_text w data @ [NL]
             @ ''DELETE FROM `creature` WHERE `guid` = '' @ str spawnId @ '';'' @ [NL]
             @ insert_columns @ insert_values w spawnId data\<rparr>)"

definition SpawnCreature :: "dev_world \<Rightarrow> spawn_request \<Rightarrow> u32 \<Rightarrow> dev_state \<Rightarrow> bool \<times> string \<times> dev_state" where
  "SpawnCreature w q entry s =
     (case sr_templateName q of
        None \<Rightarrow> (False, ''Creature entry '' @ str entry @ '' does not exist.'', s)
      | Some templateName \<Rightarrow>
          if sr_onTransport q then (False, ''Spawning on a transport is not supported.'', s)
          else if \<not> sr_tmpCreated q then (False, ''Could not create creature entry '' @ str entry @ ''.'', s)
          else let (spawnId, s) = GenerateCreatureSpawnId s;
                   data = spawn_data q entry spawnId (creatureDataStore s spawnId);
                   s = s\<lparr>creatureDataStore := (creatureDataStore s)(spawnId \<mapsto> data)\<rparr>;
                   s = dev_emit [CreateCreatureFromDB (sr_mapIndex q) spawnId] s
               in if \<not> sr_fromDB q
                  then (False, ''Could not spawn creature entry '' @ str entry @ ''.'', DeleteCreatureData spawnId s)
                  else let s = dev_emit [AddCreatureToGrid spawnId] s;
                           change = spawn_change w (nextChangeId s) spawnId entry templateName data;
                           s = s\<lparr>changes := changes s @ [change], nextChangeId := nextChangeId s + 1\<rparr>
                       in (True, Label change, s))"

section \<open>Commit\<close>

record commit_env =
  ce_directory :: string
  ce_isDirectory :: bool
  ce_listing :: "string list"
  ce_year :: nat
  ce_month :: nat
  ce_day :: nat
  ce_writeOk :: bool

definition day_prefix :: "commit_env \<Rightarrow> string" where
  "day_prefix env = pad_left 4 (show_nat (ce_year env)) @ ''_'' @ pad_left 2 (show_nat (ce_month env)) @ ''_''
     @ pad_left 2 (show_nat (ce_day env)) @ ''_''"

definition file_index :: "string \<Rightarrow> string \<Rightarrow> u32 option" where
  "file_index day name =
     (if take (length day) name = day
      then FromString 10 (takeWhile (\<lambda>c. c \<noteq> CHR ''_'') (drop (length day) name))
      else None)"

fun next_index :: "string \<Rightarrow> string list \<Rightarrow> u32 \<Rightarrow> u32" where
  "next_index day [] acc = acc"
| "next_index day (name # names) acc =
     next_index day names (case file_index day name of None \<Rightarrow> acc | Some i \<Rightarrow> max acc (i + 1))"

definition update_file_name :: "commit_env \<Rightarrow> string" where
  "update_file_name env =
     day_prefix env @ pad_left 2 (show_nat (unat (next_index (day_prefix env) (ce_listing env) 0))) @ ''_world.sql''"

definition file_content :: "string \<Rightarrow> DevToolsChange list \<Rightarrow> string" where
  "file_content description cs =
     ''-- '' @ (if description = [] then ''ISC DevTools changes'' else ToSingleLine description) @ [NL]
     @ concat (map (\<lambda>c. NL # Sql c) cs)"

text \<open>\<open>Inl\<close> is the error, \<open>Inr\<close> the name and the content of the file that was written.\<close>

definition Commit :: "commit_env \<Rightarrow> string \<Rightarrow> dev_state \<Rightarrow> (string + string \<times> string) \<times> dev_state" where
  "Commit env description s =
     (if changes s = [] then (Inl ''There is no change to commit.'', s)
      else if \<not> ce_isDirectory env
      then (Inl (''Directory '' @ ce_directory env @ '' not found, check SourceDirectory in worldserver.conf.''), s)
      else let fileName = update_file_name env in
           if \<not> ce_writeOk env then (Inl (''Could not write '' @ ce_directory env @ ''/'' @ fileName @ ''.''), s)
           else (Inr (fileName, file_content description (changes s)), s\<lparr>changes := []\<rparr>))"

section \<open>Steps\<close>

text \<open>The formats of coordinates print no line end.\<close>

definition fmt_ok :: "dev_world \<Rightarrow> bool" where
  "fmt_ok w = (\<forall>x. NL \<notin> set (fmt2 w x) \<and> NL \<notin> set (fmtFloat w x))"

text \<open>One rule per request. The counter of changes must not have run out, and a spawn id is only generated
  below the limit where the server stops itself.\<close>

inductive dev_step :: "dev_state \<Rightarrow> dev_state \<Rightarrow> bool" where
  step_delete: "fmt_ok w \<Longrightarrow> nextChangeId s < 0xFFFFFFFF \<Longrightarrow> dev_step s (snd (snd (DeleteCreatureSpawn w c s)))"
| step_spawn: "fmt_ok w \<Longrightarrow> nextChangeId s < 0xFFFFFFFF \<Longrightarrow> creatureSpawnId s < 0xFFFFFF \<Longrightarrow>
     dev_step s (snd (snd (SpawnCreature w q entry s)))"
| step_undo: "dev_step s (snd (snd (Undo w changeId error s)))"
| step_commit: "dev_step s (snd (Commit env description s))"

text \<open>The manager starts empty, with all spawn ids of the database below the counter.\<close>

definition dev_init :: "dev_state \<Rightarrow> bool" where
  "dev_init s = (changes s = [] \<and> hiddenCreatureSpawns s = {} \<and> (\<forall>g d. creatureDataStore s g = Some d \<longrightarrow> g < creatureSpawnId s))"

section \<open>Lines of SQL\<close>

definition sql_line :: "string \<Rightarrow> bool" where
  "sql_line l = (l = [] \<or> StringStartsWith l ''-- '' \<or> StringStartsWith l ''DELETE FROM `''
     \<or> StringStartsWith l ''INSERT INTO `creature`'' \<or> StringStartsWith l ''('')"

definition sql_block :: "string \<Rightarrow> bool" where
  "sql_block t = (\<exists>ls. t = concat (map (\<lambda>l. l @ [NL]) ls) \<and> list_all (\<lambda>l. NL \<notin> set l \<and> sql_line l) ls)"

lemma sql_block_Nil [simp]: "sql_block []"
  unfolding sql_block_def by (rule exI [of _ "[]"]) simp

lemma sql_block_line: "NL \<notin> set l \<Longrightarrow> sql_line l \<Longrightarrow> sql_block (l @ [NL])"
  unfolding sql_block_def by (rule exI [of _ "[l]"]) simp

lemma sql_block_append: "sql_block a \<Longrightarrow> sql_block b \<Longrightarrow> sql_block (a @ b)"
proof -
  let ?c = "\<lambda>ls. concat (map (\<lambda>l. l @ [NL]) ls)"
  assume "sql_block a" "sql_block b"
  then obtain ls ms where "a = ?c ls" "b = ?c ms" "list_all (\<lambda>l. NL \<notin> set l \<and> sql_line l) (ls @ ms)"
    unfolding sql_block_def by (auto simp: list_all_iff)
  then show ?thesis
    unfolding sql_block_def by (intro exI [of _ "ls @ ms"]) simp
qed

lemma sql_block_concat: "(\<And>x. x \<in> set xs \<Longrightarrow> sql_block (f x)) \<Longrightarrow> sql_block (concat (map f xs))"
  by (induction xs) (auto intro: sql_block_append)

lemma Tokenize_block:
  "list_all (\<lambda>l. NL \<notin> set l) ls \<Longrightarrow> Tokenize (concat (map (\<lambda>l. l @ [NL]) ls)) NL True = ls @ [[]]"
proof (induction ls)
  case Nil
  then show ?case by (subst Tokenize.simps) simp
next
  case (Cons l ls)
  then show ?case using Tokenize_hd [of NL l "concat (map (\<lambda>l. l @ [NL]) ls)" True] by simp
qed

lemma sql_block_lines: "sql_block t \<Longrightarrow> list_all sql_line (Tokenize t NL True)"
  unfolding sql_block_def
  by (auto simp: Tokenize_block list_all_iff sql_line_def)

lemma NL_show_nat [simp]: "NL \<notin> set (show_nat n)"
proof
  assume "NL \<in> set (show_nat n)"
  then have "is_digit_of 10 NL" using show_nat_digits by blast
  then show False by (simp add: is_digit_of_def digit_value_def)
qed

lemma NL_str [simp]: "NL \<notin> set (str w)" "NL \<notin> set (str_int w)"
  by (auto simp: str_def str_int_def)

lemma NL_single_line [simp]: "NL \<notin> set (ToSingleLine t)"
  by (auto simp: ToSingleLine_def)

lemma NL_comma_join: "list_all (\<lambda>x. NL \<notin> set x) xs \<Longrightarrow> NL \<notin> set (comma_join xs)"
  by (induction xs rule: comma_join.induct) auto

lemma NL_position: "fmt_ok w \<Longrightarrow> NL \<notin> set (position_text w d)"
  by (simp add: fmt_ok_def position_text_def)

lemma sql_line_intros:
  "sql_line (''-- '' @ t)" "sql_line (''DELETE FROM `'' @ t)" "sql_line (''INSERT INTO `creature`'' @ t)" "sql_line (''('' @ t)"
  by (simp_all add: sql_line_def StringStartsWith_def)

lemma block_comment: "NL \<notin> set t \<Longrightarrow> sql_block (''-- '' @ t @ [NL])"
  using sql_block_line [OF _ sql_line_intros(1), of t] by simp

lemma block_delete: "NL \<notin> set t \<Longrightarrow> sql_block (''DELETE FROM `'' @ t @ [NL])"
  using sql_block_line [OF _ sql_line_intros(2), of t] by simp

lemma linked_sql_block: "list_all (\<lambda>(t, c). NL \<notin> set t \<and> NL \<notin> set c) rows \<Longrightarrow> sql_block (linked_sql w rows)"
proof (induction rows)
  case (Cons row rows)
  obtain t c where row: "row = (t, c)" by (cases row)
  have "sql_block (''DELETE FROM `'' @ (t @ ''` WHERE '' @ c @ '';'') @ [NL])"
    using Cons.prems row by (intro block_delete) simp
  moreover have "sql_block (linked_sql w rows)" using Cons by simp
  ultimately show ?case using sql_block_append row by fastforce
qed simp

lemma linkedRows_ok: "list_all (\<lambda>(t, c). NL \<notin> set t \<and> NL \<notin> set c) (linkedRows spawnId)"
  by (simp add: linkedRows_def)

lemma path_sql_block: "sql_block (path_sql w spawnId)"
proof -
  have "sql_block (''DELETE FROM `'' @ (''waypoint_data` WHERE `id` = '' @ str p @ '';'') @ [NL])" for p :: u32
    by (rule block_delete) simp
  then show ?thesis by (simp add: path_sql_def split: option.split)
qed

lemma warning_block: "target_warning w spawnId \<noteq> [] \<Longrightarrow> sql_block (''-- '' @ target_warning w spawnId)"
proof -
  have "sql_block (''-- '' @ (''WARNING: '' @ str n @ '' row(s) of other smart_scripts target this spawn'') @ [NL])" for n :: u64
    by (rule block_comment) simp
  then show "target_warning w spawnId \<noteq> [] \<Longrightarrow> ?thesis" by (auto simp: target_warning_def Let_def split: if_splits)
qed

lemma delete_creature_block: "sql_block (''DELETE FROM `creature` WHERE `guid` = '' @ str (g :: u32) @ '';'' @ [NL])"
  using block_delete [of "''creature` WHERE `guid` = '' @ str g @ '';''"] by simp

lemma delete_change_block:
  assumes "fmt_ok w"
  shows "sql_block (Sql (delete_change w i c d))"
proof -
  let ?n = "ToSingleLine (cr_name c)"
  have head: "sql_block (''-- '' @ (''Delete creature spawn '' @ str (cr_spawnId c) @ '' ('' @ ?n @ '', entry '' @ str (cd_id d)
      @ '') on map '' @ str (cd_mapId d) @ '' at '' @ position_text w d) @ [NL])"
    by (rule block_comment) (simp add: NL_position [OF assms])
  show ?thesis
    using sql_block_append [OF head sql_block_append [OF delete_creature_block [of "cr_spawnId c"]
        sql_block_append [OF linked_sql_block [OF linkedRows_ok [of "cr_spawnId c"], of w]
          sql_block_append [OF path_sql_block [of w "cr_spawnId c"],
            of "if target_warning w (cr_spawnId c) = [] then [] else ''-- '' @ target_warning w (cr_spawnId c)"]]]]
      warning_block [of w "cr_spawnId c"]
    by (simp add: delete_change_def Let_def split: if_splits)
qed

lemma spawn_change_block:
  assumes "fmt_ok w"
  shows "sql_block (Sql (spawn_change w i g entry name d))"
proof -
  let ?n = "ToSingleLine name"
  have head: "sql_block (''-- '' @ (''Spawn creature '' @ str g @ '' ('' @ ?n @ '', entry '' @ str entry
      @ '') on map '' @ str (cd_mapId d) @ '' at '' @ position_text w d) @ [NL])"
    by (rule block_comment) (simp add: NL_position [OF assms])
  have cols: "sql_block insert_columns"
    unfolding insert_columns_def by (rule sql_block_line) (simp_all add: sql_line_def StringStartsWith_def)
  have vals: "sql_block (insert_values w g d)"
  proof -
    have "sql_block ((''('' @ comma_join xs @ '');'') @ [NL])" if "list_all (\<lambda>x. NL \<notin> set x) xs" for xs
      using NL_comma_join [OF that] by (intro sql_block_line) (simp_all add: sql_line_def StringStartsWith_def)
    then show ?thesis
      unfolding insert_values_def using assms by (simp add: fmt_ok_def del: comma_join.simps)
  qed
  show ?thesis
    using sql_block_append [OF head sql_block_append [OF delete_creature_block [of g] sql_block_append [OF cols vals]]]
    by (simp add: spawn_change_def Let_def)
qed

section \<open>The invariant\<close>

lemma dev_emit_sel [simp]:
  "changes (dev_emit es s) = changes s" "nextChangeId (dev_emit es s) = nextChangeId s"
  "hiddenCreatureSpawns (dev_emit es s) = hiddenCreatureSpawns s" "creatureDataStore (dev_emit es s) = creatureDataStore s"
  "creatureSpawnId (dev_emit es s) = creatureSpawnId s"
  by (simp_all add: dev_emit_def)

lemma DeleteCreatureData_sel [simp]:
  "changes (DeleteCreatureData g s) = changes s" "nextChangeId (DeleteCreatureData g s) = nextChangeId s"
  "hiddenCreatureSpawns (DeleteCreatureData g s) = hiddenCreatureSpawns s"
  "creatureDataStore (DeleteCreatureData g s) = (creatureDataStore s)(g := None)"
  "creatureSpawnId (DeleteCreatureData g s) = creatureSpawnId s"
  by (simp_all add: DeleteCreatureData_def Let_def split: option.split)

lemma GenerateCreatureSpawnId_eq:
  "creatureSpawnId s < 0xFFFFFF \<Longrightarrow>
   GenerateCreatureSpawnId s = (creatureSpawnId s, s\<lparr>creatureSpawnId := creatureSpawnId s + 1\<rparr>)"
  by (simp add: GenerateCreatureSpawnId_def Let_def not_le)

text \<open>A pending change: a deletion hides its spawn; a spawn has its data and is not hidden.\<close>

definition change_ok :: "dev_state \<Rightarrow> DevToolsChange \<Rightarrow> bool" where
  "change_ok s c =
     (ChangeId c < nextChangeId s \<and> SpawnId c < creatureSpawnId s \<and> sql_block (Sql c)
      \<and> (if ChangeType c = DeleteCreature then SpawnId c \<in> hiddenCreatureSpawns s
         else SpawnId c \<notin> hiddenCreatureSpawns s \<and> creatureDataStore s (SpawnId c) \<noteq> None))"

definition dev_inv :: "dev_state \<Rightarrow> bool" where
  "dev_inv s =
     (distinct (map ChangeId (changes s)) \<and> distinct (map SpawnId (changes s)) \<and> (\<forall>c \<in> set (changes s). change_ok s c)
      \<and> (\<forall>g. creatureDataStore s g \<noteq> None \<or> g \<in> hiddenCreatureSpawns s \<longrightarrow> g < creatureSpawnId s))"

lemma find_change_Some: "find_change i cs = Some c \<Longrightarrow> c \<in> set cs \<and> ChangeId c = i"
  by (induction cs) (auto split: if_splits)

lemma find_change_iff: "find_change i cs = None \<longleftrightarrow> i \<notin> ChangeId ` set cs"
  by (induction cs) auto

lemma find_pending_Some:
  "find_pending_spawn g cs = Some c \<Longrightarrow> c \<in> set cs \<and> ChangeType c = SpawnCreatureChange \<and> SpawnId c = g"
  by (induction cs) (auto split: if_splits)

lemma find_pending_None: "find_pending_spawn g cs = None \<Longrightarrow> c \<in> set cs \<Longrightarrow> SpawnId c = g \<Longrightarrow> ChangeType c = DeleteCreature"
  by (induction cs) (auto split: if_splits intro: DevToolsChangeType.exhaust)

lemma erase_change_filter: "distinct (map ChangeId cs) \<Longrightarrow> erase_change i cs = filter (\<lambda>c. ChangeId c \<noteq> i) cs"
proof (induction cs)
  case (Cons c cs)
  have "filter (\<lambda>d. ChangeId d \<noteq> ChangeId c) cs = cs" using Cons.prems by (intro filter_True) (auto simp: image_iff)
  then show ?case using Cons by auto
qed simp

lemma word_succ_less:
  assumes "(n :: u32) < 0xFFFFFFFF" "m \<le> n"
  shows "m < n + 1"
proof -
  have "unat n < 0xFFFFFFFF" using assms(1) by (simp add: word_less_nat_alt)
  then have "unat (n + 1) = unat n + 1" using unat_add_lem [of n 1] by simp
  then show ?thesis using assms(2) by (simp add: word_less_nat_alt word_le_nat_alt)
qed

lemma spawn_succ_less:
  assumes "(g :: u32) < 0xFFFFFF"
  shows "g < g + 1" "x < g \<Longrightarrow> x < g + 1"
proof -
  have "(0xFFFFFF :: u32) < 0xFFFFFFFF" by simp
  then have "g < 0xFFFFFFFF" using assms by (rule order.strict_trans [rotated])
  then show "g < g + 1" "x < g \<Longrightarrow> x < g + 1" using word_succ_less [of g] by auto
qed

lemma dev_inv_cong:
  assumes "dev_inv u" "changes t = changes u" "nextChangeId t = nextChangeId u"
    "hiddenCreatureSpawns t = hiddenCreatureSpawns u" "creatureDataStore t = creatureDataStore u"
    "creatureSpawnId t = creatureSpawnId u"
  shows "dev_inv t"
  using assms by (simp add: dev_inv_def change_ok_def)

lemma inv_Undo:
  assumes "dev_inv s"
  shows "dev_inv (snd (snd (Undo w i err s)))"
proof (cases "find_change i (changes s)")
  case None
  then show ?thesis using assms by (simp add: Undo_def)
next
  case (Some c)
  let ?cs = "filter (\<lambda>c. ChangeId c \<noteq> i) (changes s)"
  have c: "c \<in> set (changes s)" "ChangeId c = i" using find_change_Some [OF Some] by auto
  have erase: "erase_change i (changes s) = ?cs"
    using assms by (intro erase_change_filter) (simp add: dev_inv_def)
  have d: "distinct (map ChangeId ?cs)" "distinct (map SpawnId ?cs)"
    using assms by (auto simp: dev_inv_def intro: distinct_filter_key)
  have other: "SpawnId d \<noteq> SpawnId c" if "d \<in> set ?cs" for d
    using that assms c by (auto simp: dev_inv_def distinct_map dest: inj_onD)
  show ?thesis
    using assms Some d other
    by (auto simp: Undo_def erase Let_def dev_inv_def change_ok_def split: option.split)
qed

lemma change_ok_later:
  assumes "change_ok s c" "nextChangeId s < 0xFFFFFFFF"
  shows "ChangeId c < nextChangeId s + 1"
  using assms by (auto simp: change_ok_def intro: word_succ_less less_imp_le)

text \<open>Adding a change to the list, the common end of both operations.\<close>

lemma inv_add_change:
  assumes inv: "dev_inv s" and n: "nextChangeId s < 0xFFFFFFFF"
    and c: "ChangeId c = nextChangeId s" "SpawnId c \<notin> SpawnId ` set (changes s)"
    and ok: "change_ok (s\<lparr>nextChangeId := nextChangeId s + 1\<rparr>) c"
  shows "dev_inv (s\<lparr>changes := changes s @ [c], nextChangeId := nextChangeId s + 1\<rparr>)"
proof -
  have old: "change_ok (s\<lparr>changes := cs, nextChangeId := nextChangeId s + 1\<rparr>) d" if "d \<in> set (changes s)" for d cs
    using inv that change_ok_later [of s d] n by (auto simp: dev_inv_def change_ok_def)
  have i: "nextChangeId s \<notin> ChangeId ` set (changes s)"
    using inv by (auto simp: dev_inv_def change_ok_def)
  have new: "change_ok (s\<lparr>changes := cs, nextChangeId := nextChangeId s + 1\<rparr>) c" for cs
    using ok by (auto simp: change_ok_def split: if_splits)
  show ?thesis
    using inv i c old new by (simp add: dev_inv_def ball_Un)
qed

lemma inv_dev_emit [simp]: "dev_inv (dev_emit es s) = dev_inv s"
  by (simp add: dev_inv_def change_ok_def)

lemma inv_hide:
  assumes "dev_inv s" "g < creatureSpawnId s" "g \<notin> SpawnId ` set (changes s)"
  shows "dev_inv (s\<lparr>hiddenCreatureSpawns := insert g (hiddenCreatureSpawns s)\<rparr>)"
  using assms by (auto simp: dev_inv_def change_ok_def)

lemma inv_Delete:
  assumes inv: "dev_inv s" and w: "fmt_ok w" and n: "nextChangeId s < 0xFFFFFFFF"
  shows "dev_inv (snd (snd (DeleteCreatureSpawn w c s)))"
proof -
  let ?g = "cr_spawnId c"
  show ?thesis
  proof (cases "?g = 0 \<or> creatureDataStore s ?g = None \<or> ?g \<in> hiddenCreatureSpawns s")
    case True
    then have "snd (snd (DeleteCreatureSpawn w c s)) = s"
      by (cases "creatureDataStore s ?g") (auto simp: DeleteCreatureSpawn_def IsCreatureSpawnHidden_def Let_def)
    then show ?thesis using inv by simp
  next
    case False
    then obtain data where data: "creatureDataStore s ?g = Some data" by auto
    show ?thesis
    proof (cases "find_pending_spawn ?g (changes s)")
      case (Some p)
      then show ?thesis
        using False data inv_Undo [OF inv] by (simp add: DeleteCreatureSpawn_def IsCreatureSpawnHidden_def)
    next
      case None
      let ?h = "s\<lparr>hiddenCreatureSpawns := insert ?g (hiddenCreatureSpawns s)\<rparr>"
      let ?d = "delete_change w (nextChangeId s) c data"
      have g: "?g \<notin> SpawnId ` set (changes s)"
        using inv False find_pending_None [OF None] by (fastforce simp: dev_inv_def change_ok_def)
      have lt: "?g < creatureSpawnId s" using inv data by (auto simp: dev_inv_def)
      have "change_ok (?h\<lparr>nextChangeId := nextChangeId ?h + 1\<rparr>) ?d"
        using lt word_succ_less [OF n, of "nextChangeId s"] delete_change_block [OF w, of "nextChangeId s" c data]
        by (simp add: change_ok_def delete_change_def Let_def)
      then have "dev_inv (?h\<lparr>changes := changes ?h @ [?d], nextChangeId := nextChangeId ?h + 1\<rparr>)"
        using g n by (intro inv_add_change inv_hide [OF inv lt g]) (simp_all add: delete_change_def Let_def)
      then show ?thesis
        by (rule dev_inv_cong)
          (use False None data in \<open>simp_all add: DeleteCreatureSpawn_def IsCreatureSpawnHidden_def Let_def\<close>)
    qed
  qed
qed

lemma inv_new_data:
  assumes inv: "dev_inv s" and g: "creatureSpawnId s < 0xFFFFFF"
  shows "dev_inv (s\<lparr>creatureSpawnId := creatureSpawnId s + 1, creatureDataStore := (creatureDataStore s)(creatureSpawnId s := d)\<rparr>)"
proof -
  let ?g = "creatureSpawnId s"
  have less: "x < ?g \<Longrightarrow> x < ?g + 1" "?g < ?g + 1" for x using spawn_succ_less [OF g] by auto
  let ?t = "s\<lparr>creatureSpawnId := ?g + 1, creatureDataStore := (creatureDataStore s)(?g := d)\<rparr>"
  have "change_ok ?t c" if "c \<in> set (changes s)" for c
  proof -
    have "change_ok s c" using inv that by (simp add: dev_inv_def)
    then show ?thesis using less(1) [of "SpawnId c"] by (auto simp: change_ok_def)
  qed
  moreover have "x < ?g + 1" if "creatureDataStore ?t x \<noteq> None \<or> x \<in> hiddenCreatureSpawns s" for x
    using inv that less(1) [of x] less(2) by (cases "x = ?g") (auto simp: dev_inv_def)
  ultimately show ?thesis using inv by (simp add: dev_inv_def)
qed

lemma inv_Spawn:
  assumes inv: "dev_inv s" and w: "fmt_ok w" and n: "nextChangeId s < 0xFFFFFFFF" and g: "creatureSpawnId s < 0xFFFFFF"
  shows "dev_inv (snd (snd (SpawnCreature w q entry s)))"
proof (cases "sr_templateName q = None \<or> sr_onTransport q \<or> \<not> sr_tmpCreated q")
  case True
  then show ?thesis using inv by (auto simp: SpawnCreature_def split: option.split)
next
  case False
  then obtain name where name: "sr_templateName q = Some name" by auto
  let ?g = "creatureSpawnId s"
  have fresh: "?g \<notin> SpawnId ` set (changes s)" "?g \<notin> hiddenCreatureSpawns s" "creatureDataStore s ?g = None"
    using inv by (auto simp: dev_inv_def change_ok_def)
  have less: "?g < ?g + 1" using spawn_succ_less [OF g] by simp
  define data where "data = spawn_data q entry ?g None"
  let ?s = "s\<lparr>creatureSpawnId := ?g + 1, creatureDataStore := (creatureDataStore s)(?g \<mapsto> data)\<rparr>"
  let ?c = "spawn_change w (nextChangeId s) ?g entry name data"
  have "change_ok (?s\<lparr>nextChangeId := nextChangeId ?s + 1\<rparr>) ?c"
    using fresh less word_succ_less [OF n, of "nextChangeId s"] spawn_change_block [OF w, of "nextChangeId s" ?g entry name data]
    by (simp add: change_ok_def spawn_change_def Let_def)
  then have add: "dev_inv (?s\<lparr>changes := changes ?s @ [?c], nextChangeId := nextChangeId ?s + 1\<rparr>)"
    using fresh n by (intro inv_add_change inv_new_data [OF inv g]) (simp_all add: spawn_change_def Let_def)
  have fail: "dev_inv (s\<lparr>creatureSpawnId := ?g + 1, creatureDataStore := (creatureDataStore s)(?g := None)\<rparr>)"
    by (rule inv_new_data [OF inv g])
  show ?thesis
  proof (cases "sr_fromDB q")
    case True
    show ?thesis
      by (rule dev_inv_cong [OF add])
        (use True False name fresh in \<open>simp_all add: SpawnCreature_def GenerateCreatureSpawnId_eq [OF g] data_def dev_emit_def Let_def\<close>)
  next
    case nodb: False
    show ?thesis
      by (rule dev_inv_cong [OF fail])
        (use nodb False name fresh in \<open>simp_all add: SpawnCreature_def GenerateCreatureSpawnId_eq [OF g] data_def Let_def\<close>)
  qed
qed

lemma inv_dev_step: "dev_inv s \<Longrightarrow> dev_step s t \<Longrightarrow> dev_inv t"
proof (erule dev_step.cases)
  show "dev_inv t" if "dev_inv s" "t = snd (Commit env d s')" "s = s'" for env d s'
    using that by (auto simp: Commit_def Let_def dev_inv_def change_ok_def)
qed (auto intro: inv_Delete inv_Spawn inv_Undo)

interpretation devtools: invariant_system dev_init dev_step dev_inv
proof
  show "dev_inv s" if "dev_init s" for s
    using that by (auto simp: dev_init_def dev_inv_def)
qed (rule inv_dev_step)

section \<open>Properties\<close>

text \<open>Claim C15: in every state the tools can reach, pending changes have distinct ids and concern distinct spawns,
  the spawn of a pending deletion is hidden, and the spawn of a pending creation has its data and is not.\<close>

theorem devtools_consistent:
  assumes "dev_init s" "dev_step\<^sup>*\<^sup>* s t"
  shows "distinct (map ChangeId (changes t)) \<and> distinct (map SpawnId (changes t))
    \<and> list_all (\<lambda>c. if ChangeType c = DeleteCreature then IsCreatureSpawnHidden t (SpawnId c)
                    else \<not> IsCreatureSpawnHidden t (SpawnId c) \<and> creatureDataStore t (SpawnId c) \<noteq> None) (changes t)"
  using devtools.invar_reachable [OF assms]
  by (auto simp: dev_inv_def change_ok_def list_all_iff IsCreatureSpawnHidden_def)

definition demo_world :: dev_world where
  "demo_world = \<lparr>countRows = (\<lambda>t c. if t = ''creature_addon'' then 1 else 0), addonPath = (\<lambda>_. None), isPooled = (\<lambda>_. False),
     mapsWithId = (\<lambda>_. []), fmt2 = str, fmtFloat = str\<rparr>"

definition demo_dev :: dev_state where
  "demo_dev = \<lparr>changes = [], nextChangeId = 1, hiddenCreatureSpawns = {}, creatureDataStore = [77 \<mapsto> new_CreatureData],
     creatureSpawnId = 100, devEffects = []\<rparr>"

definition demo_creature :: creature_ref where
  "demo_creature = \<lparr>cr_spawnId = 77, cr_name = ''Hogger'' @ [NL] @ ''DROP TABLE creature;''\<rparr>"

definition demo_deleted :: dev_state where
  "demo_deleted = snd (snd (DeleteCreatureSpawn demo_world demo_creature demo_dev))"

lemma demo_fmt_ok: "fmt_ok demo_world"
  by (simp add: fmt_ok_def demo_world_def)

lemma demo_steps: "dev_init demo_dev" "dev_step\<^sup>*\<^sup>* demo_dev demo_deleted"
proof -
  show "dev_init demo_dev" by (simp add: dev_init_def demo_dev_def split: if_splits)
  have "dev_step demo_dev demo_deleted"
    unfolding demo_deleted_def by (rule step_delete [OF demo_fmt_ok]) (simp add: demo_dev_def)
  then show "dev_step\<^sup>*\<^sup>* demo_dev demo_deleted" by (rule r_into_rtranclp)
qed

lemma demo_deleted_changes:
  "DeleteCreatureSpawn demo_world demo_creature demo_dev
     = (True, Label (delete_change demo_world 1 demo_creature new_CreatureData), demo_deleted)"
  "changes demo_deleted = [delete_change demo_world 1 demo_creature new_CreatureData]"
  "hiddenCreatureSpawns demo_deleted = {77}"
  by (simp_all add: demo_deleted_def DeleteCreatureSpawn_def demo_dev_def demo_creature_def Let_def IsCreatureSpawnHidden_def)

theorem devtools_consistent_witness: "changes demo_deleted \<noteq> [] \<and> distinct (map SpawnId (changes demo_deleted))"
  using devtools_consistent [OF demo_steps] demo_deleted_changes by simp

lemma erase_last: "i \<notin> ChangeId ` set cs \<Longrightarrow> ChangeId c = i \<Longrightarrow> erase_change i (cs @ [c]) = cs"
  by (induction cs) auto

lemma find_last: "i \<notin> ChangeId ` set cs \<Longrightarrow> ChangeId c = i \<Longrightarrow> find_change i (cs @ [c]) = Some c"
  by (induction cs) auto

lemma find_pending_last:
  "g \<notin> SpawnId ` set cs \<Longrightarrow> SpawnId c = g \<Longrightarrow> ChangeType c = SpawnCreatureChange \<Longrightarrow> find_pending_spawn g (cs @ [c]) = Some c"
  by (induction cs) auto

text \<open>Claim C35: undoing a deletion just made succeeds and restores the change list, the hidden spawns and the
  creature data exactly.\<close>

theorem undo_delete:
  assumes "dev_inv s" "DeleteCreatureSpawn w c s = (True, m, t)" "find_pending_spawn (cr_spawnId c) (changes s) = None"
  shows "\<exists>u. Undo w (nextChangeId s) err t = (True, err, u) \<and> changes u = changes s
    \<and> hiddenCreatureSpawns u = hiddenCreatureSpawns s \<and> creatureDataStore u = creatureDataStore s"
proof -
  let ?g = "cr_spawnId c"
  have i: "nextChangeId s \<notin> ChangeId ` set (changes s)" using assms(1) by (auto simp: dev_inv_def change_ok_def)
  obtain data where data: "creatureDataStore s ?g = Some data" "?g \<notin> hiddenCreatureSpawns s" "?g \<noteq> 0"
    using assms(2) by (auto simp: DeleteCreatureSpawn_def Let_def IsCreatureSpawnHidden_def split: if_splits option.splits)
  let ?d = "delete_change w (nextChangeId s) c data"
  have d: "ChangeId ?d = nextChangeId s" "SpawnId ?d = ?g" "ChangeType ?d = DeleteCreature"
    by (simp_all add: delete_change_def Let_def)
  have t: "changes t = changes s @ [?d]" "hiddenCreatureSpawns t = insert ?g (hiddenCreatureSpawns s)"
      "creatureDataStore t = creatureDataStore s"
    using assms(2,3) data by (auto simp: DeleteCreatureSpawn_def Let_def IsCreatureSpawnHidden_def)
  show ?thesis
    using data t d i by (simp add: Undo_def Let_def find_last erase_last)
qed

theorem undo_delete_witness: "\<exists>u. Undo demo_world 1 [] demo_deleted = (True, [], u) \<and> changes u = [] \<and> hiddenCreatureSpawns u = {}"
proof -
  have "dev_inv demo_dev" using devtools.invar_init [OF demo_steps(1)] .
  from undo_delete [OF this demo_deleted_changes(1), of "[]"] show ?thesis by (auto simp: demo_dev_def)
qed

text \<open>A spawned creature can be taken back by undoing the change or by deleting the creature; either
  way the change list and the creature data are what they were.\<close>

theorem undo_spawn:
  assumes "dev_inv s" "SpawnCreature w q entry s = (True, m, t)" "creatureSpawnId s < 0xFFFFFF" "creatureSpawnId s \<noteq> 0"
  shows "\<exists>u. Undo w' (nextChangeId s) err t = (True, err, u) \<and> changes u = changes s
      \<and> creatureDataStore u = creatureDataStore s \<and> hiddenCreatureSpawns u = hiddenCreatureSpawns s
      \<and> (\<forall>c. cr_spawnId c = creatureSpawnId s \<longrightarrow> DeleteCreatureSpawn w' c t = Undo w' (nextChangeId s) (''Cancelled: '' @ m) t)"
proof -
  let ?g = "creatureSpawnId s"
  have i: "nextChangeId s \<notin> ChangeId ` set (changes s)" using assms(1) by (auto simp: dev_inv_def change_ok_def)
  have fresh: "?g \<notin> SpawnId ` set (changes s)" "?g \<notin> hiddenCreatureSpawns s" "creatureDataStore s ?g = None"
    using assms(1) by (auto simp: dev_inv_def change_ok_def)
  obtain name where name: "sr_templateName q = Some name" "\<not> sr_onTransport q" "sr_tmpCreated q" "sr_fromDB q"
    using assms(2) GenerateCreatureSpawnId_eq [OF assms(3)]
    by (auto simp: SpawnCreature_def Let_def split: option.splits if_splits)
  define data where "data = spawn_data q entry ?g None"
  let ?c = "spawn_change w (nextChangeId s) ?g entry name data"
  have c: "ChangeId ?c = nextChangeId s" "SpawnId ?c = ?g" "ChangeType ?c = SpawnCreatureChange"
    by (simp_all add: spawn_change_def Let_def)
  have t: "changes t = changes s @ [?c]" "creatureDataStore t = (creatureDataStore s)(?g \<mapsto> data)"
      "hiddenCreatureSpawns t = hiddenCreatureSpawns s" "m = Label ?c"
    using assms(2) name fresh by (auto simp: SpawnCreature_def Let_def GenerateCreatureSpawnId_eq [OF assms(3)] data_def)
  have pending: "find_pending_spawn ?g (changes s @ [?c]) = Some ?c"
    using find_pending_last [OF fresh(1), of ?c] c by simp
  have restore: "(creatureDataStore s)(?g := None) = creatureDataStore s" using fresh(3) by auto
  show ?thesis
    using t c i pending fresh restore assms(4)
    by (simp add: Undo_def Let_def find_last erase_last DeleteCreatureSpawn_def IsCreatureSpawnHidden_def)
qed

definition demo_request :: spawn_request where
  "demo_request = \<lparr>sr_templateName = Some ''Murloc'', sr_onTransport = False, sr_tmpCreated = True, sr_mapId = 0, sr_mapIndex = 0,
     sr_spawnMode = 0, sr_phaseMask = 1, sr_posX = 0, sr_posY = 0, sr_posZ = 0, sr_orientation = 0, sr_respawnDelay = 300,
     sr_equipmentId = 0, sr_health = 10, sr_mana = 0, sr_fromDB = True\<rparr>"

theorem undo_spawn_witness:
  "\<exists>m t u. SpawnCreature demo_world demo_request 5 demo_dev = (True, m, t)
     \<and> Undo demo_world 1 [] t = (True, [], u) \<and> creatureDataStore u = [77 \<mapsto> new_CreatureData]"
proof -
  obtain m t where t: "SpawnCreature demo_world demo_request 5 demo_dev = (True, m, t)"
    by (simp add: SpawnCreature_def demo_request_def demo_dev_def GenerateCreatureSpawnId_def Let_def)
  have "dev_inv demo_dev" using devtools.invar_init [OF demo_steps(1)] .
  from undo_spawn [OF this t, of demo_world "[]"] show ?thesis
    using t by (auto simp: demo_dev_def)
qed

subsection \<open>The update file\<close>

lemma next_index_mono: "acc \<le> next_index day names acc"
  by (induction names arbitrary: acc)
    (auto split: option.split intro: order_trans [OF max.cobounded1])

lemma next_index_upper:
  "name \<in> set names \<Longrightarrow> file_index day name = Some i \<Longrightarrow> i + 1 \<le> next_index day names acc"
proof (induction names arbitrary: acc)
  case (Cons n names)
  show ?case
  proof (cases "n = name")
    case True
    then show ?thesis
      using Cons.prems(2) next_index_mono [of "max acc (i + 1)" day names] by simp
  next
    case False
    then show ?thesis using Cons by auto
  qed
qed simp

lemma file_index_name:
  "file_index day (day @ pad_left 2 (show_nat (unat (i :: u32))) @ ''_world.sql'') = Some i"
proof -
  let ?d = "pad_left 2 (show_nat (unat i))"
  have digits: "\<forall>c \<in> set ?d. is_digit_of 10 c"
    unfolding show_nat_def by (rule pad_left_digits) simp_all
  have "\<not> is_digit_of 10 (CHR ''_'')" by (simp add: is_digit_of_def digit_value_def)
  then have "\<forall>c \<in> set ?d. c \<noteq> CHR ''_''" using digits by auto
  then have "takeWhile (\<lambda>c. c \<noteq> CHR ''_'') (?d @ ''_world.sql'') = ?d" by (simp add: takeWhile_append)
  moreover have "FromString 10 ?d = Some i"
    using FromString_pad_left [of 10 "unat i" 2, where ?'a=32] unsigned_less [of i, where ?'a=nat] by (simp add: show_nat_def)
  ultimately show ?thesis by (simp add: file_index_def)
qed

text \<open>The update file gets a name no file of the directory has, unless a file of the day already carries
  the greatest 32-bit index, at which the counter wraps.\<close>

theorem update_file_fresh:
  assumes "list_all (\<lambda>f. file_index (day_prefix env) f \<noteq> Some 0xFFFFFFFF) (ce_listing env)"
  shows "update_file_name env \<notin> set (ce_listing env)"
proof
  assume mem: "update_file_name env \<in> set (ce_listing env)"
  let ?i = "next_index (day_prefix env) (ce_listing env) 0"
  have i: "file_index (day_prefix env) (update_file_name env) = Some ?i"
    unfolding update_file_name_def by (rule file_index_name)
  then have "?i \<noteq> 0xFFFFFFFF" using assms mem by (auto simp: list_all_iff)
  then have "?i < 0xFFFFFFFF"
    using unsigned_less [of ?i, where ?'a=nat] by (simp add: order.strict_iff_order word_le_nat_alt)
  then have "?i < ?i + 1" by (rule word_succ_less) simp
  moreover have "?i + 1 \<le> ?i" by (rule next_index_upper [OF mem i])
  ultimately show False by simp
qed

definition demo_commit :: commit_env where
  "demo_commit = \<lparr>ce_directory = ''sql'', ce_isDirectory = True, ce_listing = [''2025_01_02_00_world.sql'', ''README''], ce_year = 2025,
     ce_month = 1, ce_day = 2, ce_writeOk = True\<rparr>"

lemma demo_day: "day_prefix demo_commit = ''2025_01_02_''"
  by (simp add: day_prefix_def demo_commit_def show_nat_def pad_left_def digits_of.simps digit_char_def char_of_def bit_0)

theorem update_file_fresh_witness: "update_file_name demo_commit \<notin> set (ce_listing demo_commit)"
proof (rule update_file_fresh)
  show "list_all (\<lambda>f. file_index (day_prefix demo_commit) f \<noteq> Some 0xFFFFFFFF) (ce_listing demo_commit)"
    unfolding demo_day
    by (simp add: demo_commit_def file_index_def FromString_def FromString_digits_def from_chars_def is_digit_of_def digit_value_def)
qed

text \<open>Claim C21: whatever the names of creatures and the description typed by the developer, every line of the
  committed file is empty, a comment, or a statement the tools generate: no text gets out of its comment.\<close>

theorem committed_lines:
  assumes "dev_init s" "dev_step\<^sup>*\<^sup>* s t" "fst (Commit env description t) = Inr (f, content)"
  shows "list_all sql_line (Tokenize content NL True)"
proof -
  have inv: "dev_inv t" using devtools.invar_reachable [OF assms(1,2)] .
  have content: "content = file_content description (changes t)"
    using assms(3) by (auto simp: Commit_def Let_def split: if_splits)
  have blank: "sql_block [NL]" using sql_block_line [of "[]"] by (simp add: sql_line_def)
  have head: "sql_block (''-- '' @ (if description = [] then ''ISC DevTools changes'' else ToSingleLine description) @ [NL])"
    by (rule block_comment) simp
  have "sql_block (concat (map (\<lambda>c. [NL] @ Sql c) (changes t)))"
    using inv blank by (intro sql_block_concat sql_block_append) (simp_all add: dev_inv_def change_ok_def)
  then have "sql_block content"
    using sql_block_append [OF head] by (simp add: content file_content_def)
  then show ?thesis by (rule sql_block_lines)
qed

theorem committed_lines_witness:
  "\<exists>f content. fst (Commit demo_commit ''cleanup'' demo_deleted) = Inr (f, content) \<and> list_all sql_line (Tokenize content NL True)"
proof -
  have "fst (Commit demo_commit ''cleanup'' demo_deleted)
      = Inr (update_file_name demo_commit, file_content ''cleanup'' (changes demo_deleted))"
    by (simp add: Commit_def demo_deleted_changes demo_commit_def Let_def)
  then show ?thesis using committed_lines [OF demo_steps] by blast
qed

end
