(* ===== verification/Utf8.thy ===== *)
theory Utf8
  imports Text_Util
begin

text \<open>
  Text as UTF-8 and as \<open>wchar_t\<close>: the conversions of the \<open>utf8cpp\<close> library the server ships
  (\<open>dep/utf8cpp\<close>) and the wrappers of \<open>Util.cpp\<close> that catch its exceptions. Octets, UTF-16 units and
  code points are natural numbers; shifts and masks are multiplications, divisions and remainders by
  powers of two, and the one addition that wraps is taken modulo \<open>2^32\<close>.
\<close>

section \<open>Decoding one code point\<close>

type_synonym wchar = nat

datatype utf_error = NOT_ENOUGH_ROOM | INVALID_LEAD | INCOMPLETE_SEQUENCE | OVERLONG_SEQUENCE | INVALID_CODE_POINT

definition is_trail :: "nat \<Rightarrow> bool" where
  "is_trail oc = (oc div 64 = 2)"

definition is_lead_surrogate :: "nat \<Rightarrow> bool" where
  "is_lead_surrogate cp = (0xd800 \<le> cp \<and> cp \<le> 0xdbff)"

definition is_trail_surrogate :: "nat \<Rightarrow> bool" where
  "is_trail_surrogate cp = (0xdc00 \<le> cp \<and> cp \<le> 0xdfff)"

definition is_surrogate :: "nat \<Rightarrow> bool" where
  "is_surrogate cp = (0xd800 \<le> cp \<and> cp \<le> 0xdfff)"

definition is_code_point_valid :: "nat \<Rightarrow> bool" where
  "is_code_point_valid cp = (cp \<le> 0x10ffff \<and> \<not> is_surrogate cp)"

definition sequence_length :: "nat \<Rightarrow> nat" where
  "sequence_length lead =
     (if lead < 0x80 then 1 else if lead div 32 = 0x6 then 2 else if lead div 16 = 0xe then 3
      else if lead div 8 = 0x1e then 4 else 0)"

definition is_overlong_sequence :: "nat \<Rightarrow> nat \<Rightarrow> bool" where
  "is_overlong_sequence cp len =
     (if cp < 0x80 then len \<noteq> 1 else if cp < 0x800 then len \<noteq> 2 else if cp < 0x10000 then len \<noteq> 3 else False)"

text \<open>The iterators become the octets that are left; \<open>increase_safely\<close> gives the trail octet it stops
  at and what follows.\<close>

fun increase_safely :: "nat list \<Rightarrow> utf_error + nat \<times> nat list" where
  "increase_safely [] = Inl NOT_ENOUGH_ROOM"
| "increase_safely (oc # r) = (if \<not> is_trail oc then Inl INCOMPLETE_SEQUENCE else Inr (oc, r))"

fun get_sequence_1 :: "nat list \<Rightarrow> utf_error + nat \<times> nat list" where
  "get_sequence_1 [] = Inl NOT_ENOUGH_ROOM"
| "get_sequence_1 (oc # r) = Inr (oc, r)"

fun get_sequence_2 :: "nat list \<Rightarrow> utf_error + nat \<times> nat list" where
  "get_sequence_2 [] = Inl NOT_ENOUGH_ROOM"
| "get_sequence_2 (oc # r) =
     (case increase_safely r of Inl e \<Rightarrow> Inl e
      | Inr (t, r) \<Rightarrow> Inr ((oc * 64) mod 0x800 + t mod 64, r))"

fun get_sequence_3 :: "nat list \<Rightarrow> utf_error + nat \<times> nat list" where
  "get_sequence_3 [] = Inl NOT_ENOUGH_ROOM"
| "get_sequence_3 (oc # r) =
     (case increase_safely r of Inl e \<Rightarrow> Inl e
      | Inr (t, r) \<Rightarrow> (case increase_safely r of Inl e \<Rightarrow> Inl e
      | Inr (u, r) \<Rightarrow> Inr ((oc * 4096) mod 0x10000 + (t * 64) mod 0x1000 + u mod 64, r)))"

fun get_sequence_4 :: "nat list \<Rightarrow> utf_error + nat \<times> nat list" where
  "get_sequence_4 [] = Inl NOT_ENOUGH_ROOM"
| "get_sequence_4 (oc # r) =
     (case increase_safely r of Inl e \<Rightarrow> Inl e
      | Inr (t, r) \<Rightarrow> (case increase_safely r of Inl e \<Rightarrow> Inl e
      | Inr (u, r) \<Rightarrow> (case increase_safely r of Inl e \<Rightarrow> Inl e
      | Inr (v, r) \<Rightarrow> Inr ((oc * 262144) mod 0x200000 + (t * 4096) mod 0x40000 + (u * 64) mod 0x1000 + v mod 64, r))))"

definition validate_next :: "nat list \<Rightarrow> utf_error + nat \<times> nat list" where
  "validate_next os =
     (case os of [] \<Rightarrow> Inl NOT_ENOUGH_ROOM
      | lead # _ \<Rightarrow>
        let len = sequence_length lead;
            res = (if len = 0 then Inl INVALID_LEAD else if len = 1 then get_sequence_1 os
                   else if len = 2 then get_sequence_2 os else if len = 3 then get_sequence_3 os
                   else get_sequence_4 os)
        in case res of Inl e \<Rightarrow> Inl e
           | Inr (cp, r) \<Rightarrow>
             if is_code_point_valid cp then
               if \<not> is_overlong_sequence cp len then Inr (cp, r) else Inl OVERLONG_SEQUENCE
             else Inl INVALID_CODE_POINT)"

lemma increase_safely_shorter: "increase_safely r = Inr (t, r') \<Longrightarrow> length r = Suc (length r')"
  by (cases r) (auto split: if_splits)

lemma validate_next_shorter: "validate_next os = Inr (cp, r) \<Longrightarrow> length r < length os"
  by (cases os) (auto simp: validate_next_def Let_def split: sum.splits if_splits dest!: increase_safely_shorter)

section \<open>Whole texts\<close>

datatype utf_exception = not_enough_room | invalid_utf8 | invalid_code_point nat | invalid_utf16

definition next_code_point :: "nat list \<Rightarrow> utf_exception + nat \<times> nat list" where
  "next_code_point os =
     (case validate_next os of
        Inr res \<Rightarrow> Inr res
      | Inl NOT_ENOUGH_ROOM \<Rightarrow> Inl not_enough_room
      | Inl INVALID_CODE_POINT \<Rightarrow> Inl (invalid_code_point 0)
      | Inl _ \<Rightarrow> Inl invalid_utf8)"

lemma next_code_point_shorter: "next_code_point os = Inr (cp, r) \<Longrightarrow> length r < length os"
  by (auto simp: next_code_point_def intro: validate_next_shorter split: sum.splits utf_error.splits)

definition utf16_units :: "nat \<Rightarrow> wchar list" where
  "utf16_units cp =
     (if cp > 0xffff then [(cp div 1024 + 0xd7c0) mod 0x10000, (cp mod 1024 + 0xdc00) mod 0x10000]
      else [cp mod 0x10000])"

function utf8to16 :: "nat list \<Rightarrow> utf_exception + wchar list" where
  "utf8to16 os =
     (if os = [] then Inr []
      else case next_code_point os of Inl e \<Rightarrow> Inl e
           | Inr (cp, r) \<Rightarrow> (case utf8to16 r of Inl e \<Rightarrow> Inl e | Inr ws \<Rightarrow> Inr (utf16_units cp @ ws)))"
  by pat_completeness auto
termination by (relation "measure length") (auto dest: next_code_point_shorter)

declare utf8to16.simps [simp del]

text \<open>The number of code points, \<open>utf8::distance\<close>.\<close>

function utf8_distance :: "nat list \<Rightarrow> utf_exception + nat" where
  "utf8_distance os =
     (if os = [] then Inr 0
      else case next_code_point os of Inl e \<Rightarrow> Inl e
           | Inr (cp, r) \<Rightarrow> (case utf8_distance r of Inl e \<Rightarrow> Inl e | Inr n \<Rightarrow> Inr (Suc n)))"
  by pat_completeness auto
termination by (relation "measure length") (auto dest: next_code_point_shorter)

declare utf8_distance.simps [simp del]

definition append_octets :: "nat \<Rightarrow> nat list" where
  "append_octets cp =
     (if cp < 0x80 then [cp]
      else if cp < 0x800 then [cp div 64 OR 0xc0, cp mod 64 OR 0x80]
      else if cp < 0x10000 then [cp div 4096 OR 0xe0, cp div 64 mod 64 OR 0x80, cp mod 64 OR 0x80]
      else [cp div 262144 OR 0xf0, cp div 4096 mod 64 OR 0x80, cp div 64 mod 64 OR 0x80, cp mod 64 OR 0x80])"

definition utf8_append :: "nat \<Rightarrow> utf_exception + nat list" where
  "utf8_append cp = (if \<not> is_code_point_valid cp then Inl (invalid_code_point cp) else Inr (append_octets cp))"

definition surrogate_pair :: "nat \<Rightarrow> nat \<Rightarrow> nat" where
  "surrogate_pair lead trail = (lead * 1024 + trail + 0xfca02400) mod 2 ^ 32"

fun utf16to8 :: "wchar list \<Rightarrow> utf_exception + nat list" where
  "utf16to8 [] = Inr []"
| "utf16to8 (w # ws) =
     (let cp = w mod 0x10000
      in if is_lead_surrogate cp then
           case ws of [] \<Rightarrow> Inl invalid_utf16
           | t # ws' \<Rightarrow> if is_trail_surrogate (t mod 0x10000) then
                          (case utf8_append (surrogate_pair cp (t mod 0x10000)) of Inl e \<Rightarrow> Inl e
                           | Inr os \<Rightarrow> (case utf16to8 ws' of Inl e \<Rightarrow> Inl e | Inr os' \<Rightarrow> Inr (os @ os')))
                        else Inl invalid_utf16
         else if is_trail_surrogate cp then Inl invalid_utf16
         else case utf8_append cp of Inl e \<Rightarrow> Inl e
              | Inr os \<Rightarrow> (case utf16to8 ws of Inl e \<Rightarrow> Inl e | Inr os' \<Rightarrow> Inr (os @ os')))"

section \<open>The wrappers of Util.cpp\<close>

definition octets :: "string \<Rightarrow> nat list" where
  "octets s = map of_char s"

definition of_octets :: "nat list \<Rightarrow> string" where
  "of_octets os = map char_of os"

text \<open>The result and the text that is left in the output argument.\<close>

definition Utf8toWStr :: "string \<Rightarrow> bool \<times> wchar list" where
  "Utf8toWStr utf8str = (case utf8to16 (octets utf8str) of Inl _ \<Rightarrow> (False, []) | Inr ws \<Rightarrow> (True, ws))"

definition WStrToUtf8 :: "wchar list \<Rightarrow> bool \<times> string" where
  "WStrToUtf8 wstr = (case utf16to8 wstr of Inl _ \<Rightarrow> (False, []) | Inr os \<Rightarrow> (True, of_octets os))"

definition utf8length :: "string \<Rightarrow> nat \<times> string" where
  "utf8length utf8str = (case utf8_distance (octets utf8str) of Inl _ \<Rightarrow> (0, []) | Inr n \<Rightarrow> (n, utf8str))"

text \<open>\<open>utf8truncate\<close> gives \<open>wstr\<close> the size \<open>wlen\<close>, a number of code points, and lets \<open>utf8to16\<close> write
  UTF-16 units through a raw pointer to it. \<open>WriteOutOfBounds\<close> is the undefined behaviour when more units than that
  are written.\<close>

datatype truncate_result = TruncatedTo string | WriteOutOfBounds

definition utf8truncate :: "string \<Rightarrow> nat \<Rightarrow> truncate_result" where
  "utf8truncate utf8str len =
     (case utf8_distance (octets utf8str) of
        Inl _ \<Rightarrow> TruncatedTo []
      | Inr wlen \<Rightarrow>
          if wlen \<le> len then TruncatedTo utf8str
          else (case utf8to16 (octets utf8str) of
                  Inl _ \<Rightarrow> TruncatedTo []
                | Inr ws \<Rightarrow>
                    if length ws > wlen then WriteOutOfBounds
                    else (case utf16to8 (take len ws) of
                            Inl _ \<Rightarrow> TruncatedTo []
                          | Inr os \<Rightarrow> TruncatedTo (of_octets os))))"

section \<open>Decoding what was encoded\<close>

lemma or_lead2: "a < 32 \<Longrightarrow> a OR 0xc0 = (a + 0xc0 :: nat)"
proof -
  have "list_all (\<lambda>a. a OR 0xc0 = (a + 0xc0 :: nat)) [0..<32]" by code_simp
  then show "a < 32 \<Longrightarrow> a OR 0xc0 = (a + 0xc0 :: nat)" by (simp add: list_all_iff)
qed

lemma or_lead3: "a < 16 \<Longrightarrow> a OR 0xe0 = (a + 0xe0 :: nat)"
proof -
  have "list_all (\<lambda>a. a OR 0xe0 = (a + 0xe0 :: nat)) [0..<16]" by code_simp
  then show "a < 16 \<Longrightarrow> a OR 0xe0 = (a + 0xe0 :: nat)" by (simp add: list_all_iff)
qed

lemma or_lead4: "a < 8 \<Longrightarrow> a OR 0xf0 = (a + 0xf0 :: nat)"
proof -
  have "list_all (\<lambda>a. a OR 0xf0 = (a + 0xf0 :: nat)) [0..<8]" by code_simp
  then show "a < 8 \<Longrightarrow> a OR 0xf0 = (a + 0xf0 :: nat)" by (simp add: list_all_iff)
qed

lemma or_trail: "a < 64 \<Longrightarrow> a OR 0x80 = (a + 0x80 :: nat)"
proof -
  have "list_all (\<lambda>a. a OR 0x80 = (a + 0x80 :: nat)) [0..<64]" by code_simp
  then show "a < 64 \<Longrightarrow> a OR 0x80 = (a + 0x80 :: nat)" by (simp add: list_all_iff)
qed

lemma is_trail_octet: "a < 64 \<Longrightarrow> is_trail (a + 0x80)"
  by (simp add: is_trail_def)

lemma shifted_mod: "x < m \<Longrightarrow> (x + k * m) mod m = (x :: nat)"
  by simp

lemma trail_mod: "a < 64 \<Longrightarrow> (a + 0x80) mod 64 = (a :: nat)"
  using shifted_mod [of a 64 2] by simp

text \<open>A code point as digits in base 64, from the lead octet on.\<close>

lemma base64_digits:
  fixes cp :: nat
  shows "cp = cp div 64 * 64 + cp mod 64"
    and "cp = cp div 4096 * 4096 + cp div 64 mod 64 * 64 + cp mod 64"
    and "cp = cp div 262144 * 262144 + cp div 4096 mod 64 * 4096 + cp div 64 mod 64 * 64 + cp mod 64"
proof -
  have a: "cp div 4096 = cp div 64 div 64" "cp div 262144 = cp div 64 div 64 div 64" by (simp_all add: div_mult2_eq [symmetric])
  show "cp = cp div 64 * 64 + cp mod 64" by simp
  then show "cp = cp div 4096 * 4096 + cp div 64 mod 64 * 64 + cp mod 64"
    unfolding a using div_mult_mod_eq [of "cp div 64" 64] by linarith
  then show "cp = cp div 262144 * 262144 + cp div 4096 mod 64 * 4096 + cp div 64 mod 64 * 64 + cp mod 64"
    unfolding a using div_mult_mod_eq [of "cp div 64 div 64" 64] by linarith
qed

lemma lead_lengths:
  "a < 32 \<Longrightarrow> sequence_length (a + 0xc0) = 2"
  "a < 16 \<Longrightarrow> sequence_length (a + 0xe0) = 3"
  "a < 8 \<Longrightarrow> sequence_length (a + 0xf0) = 4"
proof -
  have "list_all (\<lambda>a. sequence_length (a + 0xc0) = 2) [0..<32]" "list_all (\<lambda>a. sequence_length (a + 0xe0) = 3) [0..<16]"
    "list_all (\<lambda>a. sequence_length (a + 0xf0) = 4) [0..<8]"
    by code_simp+
  then show "a < 32 \<Longrightarrow> sequence_length (a + 0xc0) = 2" "a < 16 \<Longrightarrow> sequence_length (a + 0xe0) = 3"
    "a < 8 \<Longrightarrow> sequence_length (a + 0xf0) = 4"
    by (simp_all add: list_all_iff)
qed

lemma get_sequences:
  "a < 32 \<Longrightarrow> b < 64 \<Longrightarrow> get_sequence_2 ((a + 0xc0) # (b + 0x80) # r) = Inr (a * 64 + b, r)"
  "a < 16 \<Longrightarrow> b < 64 \<Longrightarrow> c < 64 \<Longrightarrow>
     get_sequence_3 ((a + 0xe0) # (b + 0x80) # (c + 0x80) # r) = Inr (a * 4096 + b * 64 + c, r)"
  "a < 8 \<Longrightarrow> b < 64 \<Longrightarrow> c < 64 \<Longrightarrow> d < 64 \<Longrightarrow>
     get_sequence_4 ((a + 0xf0) # (b + 0x80) # (c + 0x80) # (d + 0x80) # r)
       = Inr (a * 262144 + b * 4096 + c * 64 + d, r)"
  using shifted_mod [of "a * 64" 2048 6] shifted_mod [of "a * 4096" 65536 14] shifted_mod [of "b * 64" 4096 2]
    shifted_mod [of "a * 262144" 2097152 30] shifted_mod [of "b * 4096" 262144 2] shifted_mod [of "c * 64" 4096 2]
  by (simp_all add: is_trail_octet trail_mod)

lemma append_octets_digits:
  "0x80 \<le> cp \<Longrightarrow> cp < 0x800 \<Longrightarrow> append_octets cp = [cp div 64 + 0xc0, cp mod 64 + 0x80]"
  "0x800 \<le> cp \<Longrightarrow> cp < 0x10000 \<Longrightarrow>
     append_octets cp = [cp div 4096 + 0xe0, cp div 64 mod 64 + 0x80, cp mod 64 + 0x80]"
  "0x10000 \<le> cp \<Longrightarrow> cp \<le> 0x10ffff \<Longrightarrow>
     append_octets cp = [cp div 262144 + 0xf0, cp div 4096 mod 64 + 0x80, cp div 64 mod 64 + 0x80, cp mod 64 + 0x80]"
  by (simp_all add: append_octets_def or_lead2 or_lead3 or_lead4 or_trail)

lemma validate_next_append:
  assumes "is_code_point_valid cp"
  shows "validate_next (append_octets cp @ r) = Inr (cp, r)"
proof -
  have le: "cp \<le> 0x10ffff" using assms by (simp add: is_code_point_valid_def)
  consider "cp < 0x80" | "0x80 \<le> cp" "cp < 0x800" | "0x800 \<le> cp" "cp < 0x10000" | "0x10000 \<le> cp" by linarith
  then show ?thesis
  proof cases
    case 1
    then show ?thesis
      using assms by (simp add: validate_next_def append_octets_def sequence_length_def is_overlong_sequence_def)
  next
    case 2
    then have "cp div 64 < 32" by simp
    then have "get_sequence_2 (append_octets cp @ r) = Inr (cp, r)" "sequence_length (cp div 64 + 0xc0) = 2"
      using 2 get_sequences(1) [of "cp div 64" "cp mod 64" r] base64_digits(1) [of cp]
      by (simp_all add: append_octets_digits lead_lengths del: get_sequence_2.simps)
    then show ?thesis
      using 2 assms by (simp add: validate_next_def append_octets_digits is_overlong_sequence_def del: get_sequence_2.simps)
  next
    case 3
    then have "cp div 4096 < 16" by simp
    then have "get_sequence_3 (append_octets cp @ r) = Inr (cp, r)" "sequence_length (cp div 4096 + 0xe0) = 3"
      using 3 get_sequences(2) [of "cp div 4096" "cp div 64 mod 64" "cp mod 64" r] base64_digits(2) [of cp]
      by (simp_all add: append_octets_digits lead_lengths del: get_sequence_3.simps)
    then show ?thesis
      using 3 assms by (simp add: validate_next_def append_octets_digits is_overlong_sequence_def del: get_sequence_3.simps)
  next
    case 4
    have "cp div 262144 < 8" using le by simp
    then have "get_sequence_4 (append_octets cp @ r) = Inr (cp, r)" "sequence_length (cp div 262144 + 0xf0) = 4"
      using 4 le get_sequences(3) [of "cp div 262144" "cp div 4096 mod 64" "cp div 64 mod 64" "cp mod 64" r]
        base64_digits(3) [of cp]
      by (simp_all add: append_octets_digits lead_lengths del: get_sequence_4.simps)
    then show ?thesis
      using 4 le assms by (simp add: validate_next_def append_octets_digits is_overlong_sequence_def del: get_sequence_4.simps)
  qed
qed

lemma append_octets_not_Nil [simp]: "append_octets cp \<noteq> []"
  by (simp add: append_octets_def)

lemma utf8to16_append:
  assumes "is_code_point_valid cp"
  shows "utf8to16 (append_octets cp @ os) = (case utf8to16 os of Inl e \<Rightarrow> Inl e | Inr ws \<Rightarrow> Inr (utf16_units cp @ ws))"
  by (subst utf8to16.simps) (simp add: next_code_point_def validate_next_append [OF assms])

lemma surrogate_pair_split:
  assumes "is_lead_surrogate l" "is_trail_surrogate t"
  shows "utf16_units (surrogate_pair l t) = [l, t]"
proof -
  obtain a where a: "l = a + 0xd800" "a < 0x400"
    using assms(1) le_Suc_ex [of "0xd800" l] by (auto simp: is_lead_surrogate_def)
  obtain b where b: "t = b + 0xdc00" "b < 0x400"
    using assms(2) le_Suc_ex [of "0xdc00" t] by (auto simp: is_trail_surrogate_def)
  have "surrogate_pair l t = (a + 64) * 1024 + b"
    using a b shifted_mod [of "(a + 64) * 1024 + b" "2 ^ 32" 1] by (simp add: surrogate_pair_def algebra_simps)
  moreover have "((a + 64) * 1024 + b) div 1024 = a + 64" "((a + 64) * 1024 + b) mod 1024 = b"
    using b(2) shifted_mod [of b 1024 "a + 64"] by (simp_all add: div_nat_eqI add.commute)
  ultimately show ?thesis
    using a b(1,2) by (simp add: utf16_units_def del: add_mult_distrib add_mult_distrib2)
qed

lemma utf16_units_bmp: "w < 0x10000 \<Longrightarrow> utf16_units w = [w]"
  by (simp add: utf16_units_def)

lemma utf8to16_utf16to8:
  "utf16to8 ws = Inr os \<Longrightarrow> list_all (\<lambda>w. w < 0x10000) ws \<Longrightarrow> utf8to16 os = Inr ws"
proof (induction ws arbitrary: os rule: utf16to8.induct)
  case 1
  then show ?case by (simp add: utf8to16.simps)
next
  case (2 w ws)
  have w: "w < 0x10000" "list_all (\<lambda>w. w < 0x10000) ws" using 2(4) by simp_all
  show ?case
  proof (cases "is_lead_surrogate w")
    case True
    then obtain t ws' os1 os2 where t: "ws = t # ws'" "is_trail_surrogate t"
        "utf8_append (surrogate_pair w t) = Inr os1" "utf16to8 ws' = Inr os2" "os = os1 @ os2" "t < 0x10000"
      using 2(3) w by (auto split: list.splits if_splits sum.splits)
    then have "utf8to16 os2 = Inr ws'" using 2(1) [of w t ws'] True w by simp
    then show ?thesis
      using t surrogate_pair_split [OF True t(2)]
      by (auto simp: utf8_append_def utf8to16_append split: if_splits)
  next
    case False
    then obtain os1 os2 where o: "utf8_append w = Inr os1" "utf16to8 ws = Inr os2" "os = os1 @ os2" "\<not> is_trail_surrogate w"
      using 2(3) w by (auto split: if_splits sum.splits)
    then have "utf8to16 os2 = Inr ws" using 2(2) [of w os1 os2] False w by simp
    then show ?thesis
      using o utf16_units_bmp [OF w(1)] by (auto simp: utf8_append_def utf8to16_append split: if_splits)
  qed
qed

lemma append_octets_bounded: "cp \<le> 0x10ffff \<Longrightarrow> oc \<in> set (append_octets cp) \<Longrightarrow> oc < 256"
proof -
  assume cp: "cp \<le> 0x10ffff" and oc: "oc \<in> set (append_octets cp)"
  have m: "cp mod 64 < 64" "cp div 64 mod 64 < 64" "cp div 4096 mod 64 < 64" by simp_all
  have d: "cp < 0x800 \<Longrightarrow> cp div 64 < 32" "cp < 0x10000 \<Longrightarrow> cp div 4096 < 16" "cp div 262144 < 8"
    using cp by simp_all
  show "oc < 256"
    using oc m d by (auto simp: append_octets_def or_lead2 or_lead3 or_lead4 or_trail split: if_splits)
qed

lemma utf16to8_bounded: "utf16to8 ws = Inr os \<Longrightarrow> list_all (\<lambda>oc. oc < 256) os"
  by (induction ws arbitrary: os rule: utf16to8.induct)
    (auto simp: Let_def utf8_append_def is_code_point_valid_def list_all_iff dest: append_octets_bounded
      split: if_splits sum.splits list.splits)

lemma octets_of_octets: "list_all (\<lambda>oc. oc < 256) os \<Longrightarrow> octets (of_octets os) = os"
  by (induction os) (auto simp: octets_def of_octets_def)

lemma Utf8_WStr_inverse:
  assumes "WStrToUtf8 ws = (True, s)" "list_all (\<lambda>w. w < 0x10000) ws"
  shows "Utf8toWStr s = (True, ws)"
proof -
  obtain os where os: "utf16to8 ws = Inr os" "s = of_octets os"
    using assms(1) by (auto simp: WStrToUtf8_def split: sum.splits)
  then show ?thesis
    using utf8to16_utf16to8 [OF os(1) assms(2)] octets_of_octets [OF utf16to8_bounded [OF os(1)]]
    by (simp add: Utf8toWStr_def)
qed

lemma utf8to16_units: "utf8to16 os = Inr ws \<Longrightarrow> list_all (\<lambda>w. w < 0x10000) ws"
proof (induction os arbitrary: ws rule: utf8to16.induct)
  case (1 os)
  then show ?case
    using utf8to16.simps [of os]
    by (auto simp: utf16_units_def split: if_splits sum.splits prod.splits)
qed

section \<open>Properties\<close>

text \<open>Claim C31: a text of UTF-16 units that converts to UTF-8 converts back to the same units, surrogate pairs
  included.\<close>

theorem utf8_roundtrip:
  assumes "WStrToUtf8 ws = (True, s)" "list_all (\<lambda>w. w < 0x10000) ws"
  shows "Utf8toWStr s = (True, ws)"
  using assms by (rule Utf8_WStr_inverse)

theorem utf8_roundtrip_witness: "Utf8toWStr (snd (WStrToUtf8 [0x416, 0xd83d, 0xde00])) = (True, [0x416, 0xd83d, 0xde00])"
proof -
  have "WStrToUtf8 [0x416, 0xd83d, 0xde00] = (True, snd (WStrToUtf8 [0x416, 0xd83d, 0xde00]))" 
    by (simp add: WStrToUtf8_def is_lead_surrogate_def is_trail_surrogate_def utf8_append_def surrogate_pair_def
        is_code_point_valid_def is_surrogate_def)
  then show ?thesis by (rule utf8_roundtrip) simp
qed

lemma next_code_point_valid: "next_code_point os = Inr (cp, r) \<Longrightarrow> is_code_point_valid cp"
  by (auto simp: next_code_point_def validate_next_def Let_def split: sum.splits utf_error.splits list.splits if_splits)

lemma utf16_units_length: "Suc 0 \<le> length (utf16_units cp)" "length (utf16_units cp) = Suc 0 \<longleftrightarrow> cp < 0x10000"
  by (auto simp: utf16_units_def)

lemma utf8_distance_units:
  "utf8to16 os = Inr ws \<Longrightarrow> utf8_distance os = Inr n \<Longrightarrow>
     n \<le> length ws \<and> (length ws = n \<longrightarrow> list_all (\<lambda>w. w < 0x10000 \<and> \<not> is_surrogate w) ws)"
proof (induction os arbitrary: ws n rule: utf8to16.induct)
  case (1 os)
  show ?case
  proof (cases "os = []")
    case True
    then show ?thesis using 1(2,3) by (simp add: utf8to16.simps utf8_distance.simps)
  next
    case False
    obtain cp r ws' n' where o: "next_code_point os = Inr (cp, r)" "utf8to16 r = Inr ws'" "ws = utf16_units cp @ ws'"
        "utf8_distance r = Inr n'" "n = Suc n'"
      using 1(2,3) False utf8to16.simps [of os] utf8_distance.simps [of os] by (auto split: sum.splits)
    have ih: "n' \<le> length ws' \<and> (length ws' = n' \<longrightarrow> list_all (\<lambda>w. w < 0x10000 \<and> \<not> is_surrogate w) ws')"
      using 1(1) [OF False o(1) refl o(2,4)] .
    have "\<not> is_surrogate cp" using next_code_point_valid [OF o(1)] by (simp add: is_code_point_valid_def)
    then show ?thesis
      using ih o(3,5) utf16_units_length [of cp] utf16_units_bmp [of cp]
      by (cases "cp < 0x10000") auto
  qed
qed

lemma utf16to8_plain: "list_all (\<lambda>w. w < 0x10000 \<and> \<not> is_surrogate w) ws \<Longrightarrow> \<exists>os. utf16to8 ws = Inr os"
  by (induction ws)
    (auto simp: Let_def is_lead_surrogate_def is_trail_surrogate_def is_surrogate_def utf8_append_def is_code_point_valid_def)

text \<open>Truncating a text all of whose code points fit one UTF-16 unit keeps exactly its first characters.\<close>

theorem utf8truncate_prefix:
  assumes "Utf8toWStr s = (True, ws)" "length ws = fst (utf8length s)" "len < fst (utf8length s)"
  shows "\<exists>t. utf8truncate s len = TruncatedTo t \<and> Utf8toWStr t = (True, take len ws)"
proof -
  obtain n where n: "utf8_distance (octets s) = Inr n" "length ws = n" "len < n"
    using assms(2,3) by (auto simp: utf8length_def split: sum.splits)
  have ws: "utf8to16 (octets s) = Inr ws" using assms(1) by (auto simp: Utf8toWStr_def split: sum.splits)
  have plain: "list_all (\<lambda>w. w < 0x10000 \<and> \<not> is_surrogate w) (take len ws)"
    using utf8_distance_units [OF ws n(1)] n(2) by (auto simp: list_all_iff dest: in_set_takeD)
  obtain os where os: "utf16to8 (take len ws) = Inr os" using utf16to8_plain [OF plain] by blast
  have "utf8truncate s len = TruncatedTo (of_octets os)"
    using n ws os by (simp add: utf8truncate_def)
  moreover have "Utf8toWStr (of_octets os) = (True, take len ws)"
    using Utf8_WStr_inverse [of "take len ws" "of_octets os"] os plain by (simp add: WStrToUtf8_def list_all_iff)
  ultimately show ?thesis by blast
qed

lemma ascii_units: "list_all (\<lambda>oc. oc < 0x80) os \<Longrightarrow> utf8to16 os = Inr os \<and> utf8_distance os = Inr (length os)"
proof (induction os)
  case (Cons oc os)
  then have "next_code_point (oc # os) = Inr (oc, os)"
    by (simp add: next_code_point_def validate_next_def sequence_length_def is_code_point_valid_def is_surrogate_def
        is_overlong_sequence_def)
  then show ?case
    using Cons by (simp add: utf8to16.simps [of "oc # os"] utf8_distance.simps [of "oc # os"] utf16_units_def)
qed (simp add: utf8to16.simps utf8_distance.simps)

theorem utf8truncate_prefix_witness: "\<exists>t. utf8truncate ''guild'' 3 = TruncatedTo t \<and> Utf8toWStr t = (True, [103, 117, 105])"
proof -
  have "octets ''guild'' = [103, 117, 105, 108, 100]" by (simp add: octets_def)
  moreover from this have "list_all (\<lambda>oc. oc < 0x80) (octets ''guild'')" by simp
  ultimately show ?thesis
    using utf8truncate_prefix [of "''guild''" "[103, 117, 105, 108, 100]" 3] ascii_units [of "octets ''guild''"]
    by (simp add: Utf8toWStr_def utf8length_def)
qed

text \<open>Truncating a text that is one code point beyond the basic plane writes two units into a buffer of one.\<close>

theorem utf8truncate_overflow: "utf8truncate (of_octets [0xf0, 0x9f, 0x98, 0x80]) 0 = WriteOutOfBounds"
proof -
  have o: "octets (of_octets [0xf0, 0x9f, 0x98, 0x80]) = [0xf0, 0x9f, 0x98, 0x80]"
    by (rule octets_of_octets) simp
  have "next_code_point [0xf0, 0x9f, 0x98, 0x80] = Inr (0x1f600, [])"
    by (simp add: next_code_point_def validate_next_def sequence_length_def is_trail_def is_code_point_valid_def
        is_surrogate_def is_overlong_sequence_def)
  then show ?thesis
    by (simp add: utf8truncate_def o utf8_distance.simps utf8to16.simps utf16_units_def)
qed

end
