(* ===== verification/Names.thy ===== *)
theory Names
  imports Utf8
begin

text \<open>
  Names of players, pets and charters: the alphabets and the case mapping of \<open>Util.h\<close>,
  \<open>GetMainPartOfName\<close> of \<open>Util.cpp\<close> and the checks of \<open>ObjectMgr.cpp\<close>. The regular expressions of the DBC
  files are a parameter, for each locale the predicates of its profane and of its reserved names.
\<close>

section \<open>Alphabets\<close>

definition isBasicLatinCharacter :: "wchar \<Rightarrow> bool" where
  "isBasicLatinCharacter w = (97 \<le> w \<and> w \<le> 122 \<or> 65 \<le> w \<and> w \<le> 90)"

definition isExtendedLatinCharacter :: "wchar \<Rightarrow> bool" where
  "isExtendedLatinCharacter w =
     (isBasicLatinCharacter w \<or> 0x00C0 \<le> w \<and> w \<le> 0x00D6 \<or> 0x00D8 \<le> w \<and> w \<le> 0x00DE \<or> w = 0x00DF
      \<or> 0x00E0 \<le> w \<and> w \<le> 0x00F6 \<or> 0x00F8 \<le> w \<and> w \<le> 0x00FE \<or> 0x0100 \<le> w \<and> w \<le> 0x012F \<or> w = 0x1E9E)"

definition isCyrillicCharacter :: "wchar \<Rightarrow> bool" where
  "isCyrillicCharacter w = (0x0410 \<le> w \<and> w \<le> 0x044F \<or> w = 0x0401 \<or> w = 0x0451)"

definition isEastAsianCharacter :: "wchar \<Rightarrow> bool" where
  "isEastAsianCharacter w =
     (0x1100 \<le> w \<and> w \<le> 0x11F9 \<or> 0x3041 \<le> w \<and> w \<le> 0x30FF \<or> 0x3131 \<le> w \<and> w \<le> 0x318E
      \<or> 0x31F0 \<le> w \<and> w \<le> 0x31FF \<or> 0x3400 \<le> w \<and> w \<le> 0x4DB5 \<or> 0x4E00 \<le> w \<and> w \<le> 0x9FC3
      \<or> 0xAC00 \<le> w \<and> w \<le> 0xD7A3 \<or> 0xFF01 \<le> w \<and> w \<le> 0xFFEE)"

definition isNumeric :: "wchar \<Rightarrow> bool" where
  "isNumeric w = (48 \<le> w \<and> w \<le> 57)"

definition isNumericOrSpace :: "wchar \<Rightarrow> bool" where
  "isNumericOrSpace w = (isNumeric w \<or> w = 32)"

definition isBasicLatinString :: "wchar list \<Rightarrow> bool \<Rightarrow> bool" where
  "isBasicLatinString ws numericOrSpace =
     list_all (\<lambda>c. isBasicLatinCharacter c \<or> numericOrSpace \<and> isNumericOrSpace c) ws"

definition isExtendedLatinString :: "wchar list \<Rightarrow> bool \<Rightarrow> bool" where
  "isExtendedLatinString ws numericOrSpace =
     list_all (\<lambda>c. isExtendedLatinCharacter c \<or> numericOrSpace \<and> isNumericOrSpace c) ws"

definition isCyrillicString :: "wchar list \<Rightarrow> bool \<Rightarrow> bool" where
  "isCyrillicString ws numericOrSpace =
     list_all (\<lambda>c. isCyrillicCharacter c \<or> numericOrSpace \<and> isNumericOrSpace c) ws"

definition isEastAsianString :: "wchar list \<Rightarrow> bool \<Rightarrow> bool" where
  "isEastAsianString ws numericOrSpace =
     list_all (\<lambda>c. isEastAsianCharacter c \<or> numericOrSpace \<and> isNumericOrSpace c) ws"

section \<open>Case\<close>

text \<open>\<open>uint16(wchar)\<close> is the remainder modulo \<open>0x10000\<close>.\<close>

definition wcharToUpper :: "wchar \<Rightarrow> wchar" where
  "wcharToUpper w =
     (if 97 \<le> w \<and> w \<le> 122 then w mod 0x10000 - 0x20
      else if w = 0x00DF then 0x1E9E
      else if 0x00E0 \<le> w \<and> w \<le> 0x00F6 then w mod 0x10000 - 0x20
      else if 0x00F8 \<le> w \<and> w \<le> 0x00FE then w mod 0x10000 - 0x20
      else if 0x0101 \<le> w \<and> w \<le> 0x012F \<and> w mod 2 = 1 then w mod 0x10000 - 1
      else if 0x0430 \<le> w \<and> w \<le> 0x044F then w mod 0x10000 - 0x20
      else if w = 0x0451 then 0x0401
      else w)"

definition wcharToUpperOnlyLatin :: "wchar \<Rightarrow> wchar" where
  "wcharToUpperOnlyLatin w = (if isBasicLatinCharacter w then wcharToUpper w else w)"

definition wcharToLower :: "wchar \<Rightarrow> wchar" where
  "wcharToLower w =
     (if 65 \<le> w \<and> w \<le> 90 then w mod 0x10000 + 0x20
      else if 0x00C0 \<le> w \<and> w \<le> 0x00D6 then w mod 0x10000 + 0x20
      else if 0x00D8 \<le> w \<and> w \<le> 0x00DE then w mod 0x10000 + 0x20
      else if 0x0100 \<le> w \<and> w \<le> 0x012E \<and> w mod 2 = 0 then w mod 0x10000 + 1
      else if w = 0x1E9E then 0x00DF
      else if w = 0x0401 then 0x0451
      else if 0x0410 \<le> w \<and> w \<le> 0x042F then w mod 0x10000 + 0x20
      else w)"

definition wstrToUpper :: "wchar list \<Rightarrow> wchar list" where
  "wstrToUpper ws = map wcharToUpper ws"

definition wstrToLower :: "wchar list \<Rightarrow> wchar list" where
  "wstrToLower ws = map wcharToLower ws"

definition Utf8ToUpperOnlyLatin :: "string \<Rightarrow> bool \<times> string" where
  "Utf8ToUpperOnlyLatin s =
     (case Utf8toWStr s of (False, _) \<Rightarrow> (False, s) | (True, ws) \<Rightarrow> WStrToUtf8 (map wcharToUpperOnlyLatin ws))"

fun find_substring :: "wchar list \<Rightarrow> wchar list \<Rightarrow> bool" where
  "find_substring [] search = (search = [])"
| "find_substring (w # ws) search = (take (length search) (w # ws) = search \<or> find_substring ws search)"

definition Utf8FitTo :: "string \<Rightarrow> wchar list \<Rightarrow> bool" where
  "Utf8FitTo str search = (case Utf8toWStr str of (False, _) \<Rightarrow> False | (True, ws) \<Rightarrow> find_substring (wstrToLower ws) search)"

section \<open>Names\<close>

text \<open>The result, and the name that is left in the argument.\<close>

definition normalizePlayerName :: "string \<Rightarrow> bool \<times> string" where
  "normalizePlayerName name =
     (if name = [] then (False, name)
      else case Utf8toWStr name of
             (False, _) \<Rightarrow> (False, name)
           | (True, tmp) \<Rightarrow>
               let tmp = wstrToLower tmp;
                   tmp = (case tmp of [] \<Rightarrow> [] | w # ws \<Rightarrow> wcharToUpper w # ws)
               in WStrToUtf8 tmp)"

definition dropEnds :: "nat \<Rightarrow> wchar list list" where
  "dropEnds declension =
     [[[0x0430], [0x043E], [0x044F], [0x0435], [0x044C], [0x0439]],
      [[0x0430], [0x044F], [0x044B], [0x0438]],
      [[0x0435], [0x0443], [0x044E], [0x0438]],
      [[0x0443], [0x044E], [0x043E], [0x0435], [0x044C], [0x044F], [0x0430]],
      [[0x043E, 0x0439], [0x0451, 0x0439], [0x0435, 0x0439], [0x043E, 0x043C], [0x0451, 0x043C], [0x0435, 0x043C], [0x044E]],
      [[0x0435], [0x0438]]] ! declension"

fun drop_ending :: "wchar list list \<Rightarrow> wchar list \<Rightarrow> wchar list" where
  "drop_ending [] wname = wname"
| "drop_ending (ending # endings) wname =
     (if length ending \<le> length wname \<and> drop (length wname - length ending) wname = ending
      then take (length wname - length ending) wname
      else drop_ending endings wname)"

definition GetMainPartOfName :: "wchar list \<Rightarrow> nat \<Rightarrow> wchar list" where
  "GetMainPartOfName wname declension =
     (if wname = [] \<or> \<not> isCyrillicCharacter (hd wname) \<or> declension > 5 then wname
      else drop_ending (dropEnds declension) wname)"

definition MAX_DECLINED_NAME_CASES :: nat where "MAX_DECLINED_NAME_CASES = 5"

text \<open>The loop over the declined names, numbered from \<open>i\<close>, with the flags \<open>x\<close> and \<open>y\<close>.\<close>

fun declined_loop :: "wchar list \<Rightarrow> wchar list \<Rightarrow> nat \<Rightarrow> string list \<Rightarrow> bool \<Rightarrow> bool \<Rightarrow> bool" where
  "declined_loop mainpart ownname i [] x y = (x \<or> y)"
| "declined_loop mainpart ownname i (name # names) x y =
     (case Utf8toWStr name of
        (False, _) \<Rightarrow> False
      | (True, wname) \<Rightarrow>
          declined_loop mainpart ownname (Suc i) names
            (x \<and> mainpart = GetMainPartOfName wname (i + 1)) (y \<and> ownname = wname))"

definition CheckDeclinedNames :: "wchar list \<Rightarrow> string list \<Rightarrow> bool" where
  "CheckDeclinedNames w_ownname names =
     declined_loop (GetMainPartOfName w_ownname 0) w_ownname 0 (take MAX_DECLINED_NAME_CASES names) True True"

section \<open>Checks\<close>

datatype ResponseCode =
    CHAR_NAME_SUCCESS | CHAR_NAME_INVALID_CHARACTER | CHAR_NAME_TOO_LONG | CHAR_NAME_TOO_SHORT
  | CHAR_NAME_MIXED_LANGUAGES | CHAR_NAME_THREE_CONSECUTIVE | CHAR_NAME_PROFANE | CHAR_NAME_RESERVED | RESPONSE_FAILURE

datatype PetNameInvalidReason =
    PET_NAME_SUCCESS | PET_NAME_INVALID | PET_NAME_TOO_LONG | PET_NAME_TOO_SHORT
  | PET_NAME_MIXED_LANGUAGES | PET_NAME_PROFANE | PET_NAME_RESERVED

record name_config =
  realmZone :: nat
  minPlayerName :: nat
  minCharterName :: nat
  minPetName :: nat
  strictPlayerNames :: u32
  strictCharterNames :: u32
  strictPetNames :: u32

record name_regexes =
  profaneValidators :: "nat \<Rightarrow> (wchar list \<Rightarrow> bool) list"
  reservedValidators :: "nat \<Rightarrow> (wchar list \<Rightarrow> bool) list"

definition TOTAL_LOCALES :: nat where "TOTAL_LOCALES = 9"
definition MAX_PLAYER_NAME :: nat where "MAX_PLAYER_NAME = 12"
definition MAX_PET_NAME :: nat where "MAX_PET_NAME = 12"
definition MAX_CHARTER_NAME :: nat where "MAX_CHARTER_NAME = 24"

definition LT_BASIC_LATIN :: u32 where "LT_BASIC_LATIN = 0x0000"
definition LT_EXTENDEN_LATIN :: u32 where "LT_EXTENDEN_LATIN = 0x0001"
definition LT_CYRILLIC :: u32 where "LT_CYRILLIC = 0x0002"
definition LT_EAST_ASIA :: u32 where "LT_EAST_ASIA = 0x0004"
definition LT_ANY :: u32 where "LT_ANY = 0xFFFF"

definition IsReservedName :: "wchar list set \<Rightarrow> string \<Rightarrow> bool" where
  "IsReservedName reservedNamesStore name =
     (case Utf8toWStr name of (False, _) \<Rightarrow> False | (True, ws) \<Rightarrow> wstrToLower ws \<in> reservedNamesStore)"

definition GetRealmLanguageType :: "name_config \<Rightarrow> bool \<Rightarrow> u32" where
  "GetRealmLanguageType cfg create =
     (if realmZone cfg \<in> {0, 1, 26, 28} then LT_ANY
      else if realmZone cfg \<in> {2, 3, 4, 8, 9, 10, 11} then LT_EXTENDEN_LATIN
      else if realmZone cfg \<in> {6, 14, 16} then LT_EAST_ASIA
      else if realmZone cfg = 12 then LT_CYRILLIC
      else if create then LT_BASIC_LATIN else LT_ANY)"

definition isValidString :: "name_config \<Rightarrow> wchar list \<Rightarrow> u32 \<Rightarrow> bool \<Rightarrow> bool \<Rightarrow> bool" where
  "isValidString cfg wstr strictMask numericOrSpace create =
     (if strictMask = 0 then
        isExtendedLatinString wstr numericOrSpace \<or> isCyrillicString wstr numericOrSpace
        \<or> isEastAsianString wstr numericOrSpace
      else
        (strictMask AND 0x2 \<noteq> 0
         \<and> (let lt = GetRealmLanguageType cfg create in
              lt AND LT_EXTENDEN_LATIN \<noteq> 0 \<and> isExtendedLatinString wstr numericOrSpace
              \<or> lt AND LT_CYRILLIC \<noteq> 0 \<and> isCyrillicString wstr numericOrSpace
              \<or> lt AND LT_EAST_ASIA \<noteq> 0 \<and> isEastAsianString wstr numericOrSpace))
        \<or> strictMask AND 0x1 \<noteq> 0 \<and> isBasicLatinString wstr numericOrSpace)"

definition ValidateName :: "name_regexes \<Rightarrow> wchar list \<Rightarrow> nat \<Rightarrow> ResponseCode" where
  "ValidateName rx name locale =
     (if locale \<ge> TOTAL_LOCALES then RESPONSE_FAILURE
      else if list_ex (\<lambda>regex. regex name) (profaneValidators rx locale) then CHAR_NAME_PROFANE
      else if list_ex (\<lambda>regex. regex name) (reservedValidators rx locale) then CHAR_NAME_RESERVED
      else CHAR_NAME_SUCCESS)"

fun three_consecutive :: "wchar list \<Rightarrow> bool" where
  "three_consecutive (a # b # c # ws) = (c = b \<and> c = a \<or> three_consecutive (b # c # ws))"
| "three_consecutive ws = False"

definition CheckPlayerName :: "name_config \<Rightarrow> name_regexes \<Rightarrow> string \<Rightarrow> nat \<Rightarrow> bool \<Rightarrow> ResponseCode" where
  "CheckPlayerName cfg rx name locale create =
     (case Utf8toWStr name of
        (False, _) \<Rightarrow> CHAR_NAME_INVALID_CHARACTER
      | (True, wname) \<Rightarrow>
          if length wname > MAX_PLAYER_NAME then CHAR_NAME_TOO_LONG
          else if length wname < minPlayerName cfg then CHAR_NAME_TOO_SHORT
          else if \<not> isValidString cfg wname (strictPlayerNames cfg) False create then CHAR_NAME_MIXED_LANGUAGES
          else if three_consecutive (wstrToLower wname) then CHAR_NAME_THREE_CONSECUTIVE
          else ValidateName rx (wstrToLower wname) locale)"

definition IsValidCharterName :: "name_config \<Rightarrow> string \<Rightarrow> bool" where
  "IsValidCharterName cfg name =
     (case Utf8toWStr name of
        (False, _) \<Rightarrow> False
      | (True, wname) \<Rightarrow>
          length wname \<le> MAX_CHARTER_NAME \<and> length wname \<ge> minCharterName cfg
          \<and> isValidString cfg wname (strictCharterNames cfg) True False)"

definition CheckPetName :: "name_config \<Rightarrow> name_regexes \<Rightarrow> string \<Rightarrow> nat \<Rightarrow> PetNameInvalidReason" where
  "CheckPetName cfg rx name locale =
     (case Utf8toWStr name of
        (False, _) \<Rightarrow> PET_NAME_INVALID
      | (True, wname) \<Rightarrow>
          if length wname > MAX_PET_NAME then PET_NAME_TOO_LONG
          else if length wname < minPetName cfg then PET_NAME_TOO_SHORT
          else if \<not> isValidString cfg wname (strictPetNames cfg) False False then PET_NAME_MIXED_LANGUAGES
          else (case ValidateName rx wname locale of
                  CHAR_NAME_PROFANE \<Rightarrow> PET_NAME_PROFANE
                | CHAR_NAME_RESERVED \<Rightarrow> PET_NAME_RESERVED
                | RESPONSE_FAILURE \<Rightarrow> PET_NAME_INVALID
                | _ \<Rightarrow> PET_NAME_SUCCESS))"

section \<open>The case mapping\<close>

text \<open>What the name functions need of a pair of case mappings.\<close>

locale case_mapping =
  fixes up :: "'c \<Rightarrow> 'c" and low :: "'c \<Rightarrow> 'c"
  assumes low_up: "low (up c) = low c"
    and up_low: "up (low c) = up c"
begin

lemma low_low: "low (low c) = low c"
  by (metis low_up up_low)

lemma up_up: "up (up c) = up c"
  by (metis low_up up_low)

definition capitalize :: "'c list \<Rightarrow> 'c list" where
  "capitalize cs = (case map low cs of [] \<Rightarrow> [] | d # ds \<Rightarrow> up d # ds)"

lemma capitalize_low: "map low cs = map low ds \<Longrightarrow> capitalize cs = capitalize ds"
  by (simp add: capitalize_def)

lemma low_capitalize: "map low (capitalize cs) = map low cs"
  by (cases cs) (auto simp: capitalize_def low_up low_low comp_def)

lemma capitalize_idem: "capitalize (capitalize cs) = capitalize cs"
  by (rule capitalize_low) (rule low_capitalize)

end

lemma wcharToLower_Upper: "wcharToLower (wcharToUpper w) = wcharToLower w"
proof -
  consider "97 \<le> w" "w \<le> 122" | "w = 0xDF" | "0xE0 \<le> w" "w \<le> 0xF6" | "0xF8 \<le> w" "w \<le> 0xFE"
    | "0x101 \<le> w" "w \<le> 0x12F" "odd w" | "0x430 \<le> w" "w \<le> 0x44F" | "w = 0x451" | "wcharToUpper w = w"
    unfolding wcharToUpper_def odd_iff_mod_2_eq_one by argo
  then show ?thesis
  proof cases
    case 5
    then obtain k where k: "w = 2 * k + 1" by (elim oddE)
    then have "0x80 \<le> k" "k \<le> 0x97" using 5 by simp_all
    then show ?thesis unfolding k by (simp add: wcharToUpper_def wcharToLower_def)
  qed (auto simp: wcharToUpper_def wcharToLower_def)
qed

lemma wcharToUpper_Lower: "wcharToUpper (wcharToLower w) = wcharToUpper w"
proof -
  consider "65 \<le> w" "w \<le> 90" | "0xC0 \<le> w" "w \<le> 0xD6" | "0xD8 \<le> w" "w \<le> 0xDE"
    | "0x100 \<le> w" "w \<le> 0x12E" "even w" | "w = 0x1E9E" | "w = 0x401" | "0x410 \<le> w" "w \<le> 0x42F" | "wcharToLower w = w"
    unfolding wcharToLower_def even_iff_mod_2_eq_zero by argo
  then show ?thesis
  proof cases
    case 4
    then obtain k where k: "w = 2 * k" by (elim evenE)
    then have "0x80 \<le> k" "k \<le> 0x97" using 4 by simp_all
    then show ?thesis unfolding k by (simp add: wcharToUpper_def wcharToLower_def)
  qed (simp_all add: wcharToUpper_def wcharToLower_def)
qed

interpretation wchar_case: case_mapping wcharToUpper wcharToLower
  by unfold_locales (rule wcharToLower_Upper, rule wcharToUpper_Lower)

section \<open>Normal form of a player name\<close>

lemma wcharToUpper_unit: "w < 0x10000 \<Longrightarrow> wcharToUpper w < 0x10000"
  by (auto simp: wcharToUpper_def)

lemma wcharToLower_unit: "w < 0x10000 \<Longrightarrow> wcharToLower w < 0x10000"
  by (auto simp: wcharToLower_def)

lemma normalizePlayerName_alt:
  "normalizePlayerName name =
     (if name = [] then (False, name)
      else case Utf8toWStr name of (False, _) \<Rightarrow> (False, name) | (True, ws) \<Rightarrow> WStrToUtf8 (wchar_case.capitalize ws))"
  by (auto simp: normalizePlayerName_def wchar_case.capitalize_def wstrToLower_def Let_def split: prod.split bool.split)

lemma capitalize_units: "list_all (\<lambda>w. w < 0x10000) ws \<Longrightarrow> list_all (\<lambda>w. w < 0x10000) (wchar_case.capitalize ws)"
  by (cases ws) (auto simp: wchar_case.capitalize_def list_all_iff intro: wcharToUpper_unit wcharToLower_unit)

lemma Utf8toWStr_units: "Utf8toWStr s = (True, ws) \<Longrightarrow> list_all (\<lambda>w. w < 0x10000) ws"
  by (auto simp: Utf8toWStr_def dest: utf8to16_units split: sum.splits)

lemma Utf8toWStr_Nil_iff: "Utf8toWStr s = (True, ws) \<Longrightarrow> ws = [] \<longleftrightarrow> s = []"
  by (cases s) (auto simp: Utf8toWStr_def octets_def utf8to16.simps utf16_units_def split: sum.splits if_splits)

lemma normalized_units:
  assumes "normalizePlayerName name = (True, n)"
  obtains ws where "Utf8toWStr name = (True, ws)" "WStrToUtf8 (wchar_case.capitalize ws) = (True, n)"
    "Utf8toWStr n = (True, wchar_case.capitalize ws)" "ws \<noteq> []"
proof -
  obtain ws where ws: "Utf8toWStr name = (True, ws)" "WStrToUtf8 (wchar_case.capitalize ws) = (True, n)" "name \<noteq> []"
    using assms by (auto simp: normalizePlayerName_alt split: if_splits prod.splits bool.splits)
  then show thesis
    using that Utf8_WStr_inverse [OF ws(2) capitalize_units [OF Utf8toWStr_units [OF ws(1)]]]
      Utf8toWStr_Nil_iff [OF ws(1)] by blast
qed

section \<open>Properties\<close>

text \<open>Normalizing a player name succeeds again on its result and changes nothing, and two names
  that differ only in case have the same normal form, so players are found whatever case is typed.\<close>

theorem normalizePlayerName_canonical:
  assumes "normalizePlayerName a = (True, na)"
  shows "normalizePlayerName na = (True, na)
    \<and> (\<forall>b. wstrToLower (snd (Utf8toWStr b)) = wstrToLower (snd (Utf8toWStr a)) \<longrightarrow> fst (Utf8toWStr b) \<longrightarrow> b \<noteq> []
          \<longrightarrow> normalizePlayerName b = (True, na))"
proof -
  obtain ws where ws: "Utf8toWStr a = (True, ws)" "WStrToUtf8 (wchar_case.capitalize ws) = (True, na)"
      "Utf8toWStr na = (True, wchar_case.capitalize ws)" "ws \<noteq> []"
    using assms by (rule normalized_units)
  have "na \<noteq> []"
    using Utf8toWStr_Nil_iff [OF ws(3)] ws(4) by (cases ws) (auto simp: wchar_case.capitalize_def)
  then have "normalizePlayerName na = (True, na)"
    using ws by (simp add: normalizePlayerName_alt wchar_case.capitalize_idem)
  moreover have "normalizePlayerName b = (True, na)"
    if b: "wstrToLower (snd (Utf8toWStr b)) = wstrToLower (snd (Utf8toWStr a))" "fst (Utf8toWStr b)" "b \<noteq> []" for b
  proof -
    obtain vs where vs: "Utf8toWStr b = (True, vs)" using b(2) by (cases "Utf8toWStr b") auto
    then have "wchar_case.capitalize vs = wchar_case.capitalize ws"
      using b(1) ws(1) by (intro wchar_case.capitalize_low) (simp add: wstrToLower_def)
    then show ?thesis using vs b(3) ws(2) by (simp add: normalizePlayerName_alt)
  qed
  ultimately show ?thesis by blast
qed

lemma normalize_demo: "normalizePlayerName ''jAINA'' = (True, ''Jaina'')"
proof -
  have o: "octets ''jAINA'' = [106, 65, 73, 78, 65]" by (simp add: octets_def)
  have "Utf8toWStr ''jAINA'' = (True, [106, 65, 73, 78, 65])"
    using ascii_units [of "octets ''jAINA''"] by (simp add: Utf8toWStr_def o)
  moreover have "WStrToUtf8 [74, 97, 105, 110, 97] = (True, ''Jaina'')"
    by (simp add: WStrToUtf8_def is_lead_surrogate_def is_trail_surrogate_def utf8_append_def is_code_point_valid_def
        is_surrogate_def append_octets_def of_octets_def, code_simp)
  ultimately show ?thesis
    by (simp add: normalizePlayerName_def wstrToLower_def wcharToLower_def wcharToUpper_def)
qed

theorem normalizePlayerName_canonical_witness: "normalizePlayerName ''Jaina'' = (True, ''Jaina'')"
  using normalizePlayerName_canonical [OF normalize_demo] by blast

text \<open>A player name that passes the check has between the configured minimum and twelve characters, is
  written in one alphabet, repeats no letter three times in a row even in different case, and matches
  no profane or reserved pattern of the locale.\<close>

theorem CheckPlayerName_success:
  assumes "CheckPlayerName cfg rx name locale create = CHAR_NAME_SUCCESS"
  shows "\<exists>ws. Utf8toWStr name = (True, ws) \<and> minPlayerName cfg \<le> length ws \<and> length ws \<le> 12
    \<and> (isExtendedLatinString ws False \<or> isCyrillicString ws False \<or> isEastAsianString ws False)
    \<and> \<not> three_consecutive (wstrToLower ws)
    \<and> \<not> list_ex (\<lambda>r. r (wstrToLower ws)) (profaneValidators rx locale @ reservedValidators rx locale)"
proof -
  have basic: "isExtendedLatinString ws False" if "isBasicLatinString ws False" for ws
    using that by (auto simp: isBasicLatinString_def isExtendedLatinString_def isExtendedLatinCharacter_def list_all_iff)
  show ?thesis
    using assms basic
    by (auto simp: CheckPlayerName_def isValidString_def ValidateName_def Let_def MAX_PLAYER_NAME_def not_less
        split: prod.splits bool.splits if_splits)
qed

definition demo_config :: name_config where
  "demo_config = \<lparr>realmZone = 8, minPlayerName = 2, minCharterName = 2, minPetName = 2, strictPlayerNames = 2,
     strictCharterNames = 0, strictPetNames = 0\<rparr>"

lemma ascii_WStr: "list_all (\<lambda>c. of_char c < (0x80::nat)) s \<Longrightarrow> Utf8toWStr s = (True, octets s)"
  using ascii_units [of "octets s"] by (simp add: Utf8toWStr_def octets_def list_all_iff)

theorem CheckPlayerName_success_witness:
  "\<exists>ws. Utf8toWStr ''Jaina'' = (True, ws) \<and> length ws \<le> 12 \<and> \<not> three_consecutive (wstrToLower ws)"
proof -
  have "CheckPlayerName demo_config \<lparr>profaneValidators = (\<lambda>_. []), reservedValidators = (\<lambda>_. [])\<rparr> ''Jaina'' 0 True = CHAR_NAME_SUCCESS"
    by (simp add: CheckPlayerName_def demo_config_def ascii_WStr octets_def MAX_PLAYER_NAME_def isValidString_def
        GetRealmLanguageType_def LT_EXTENDEN_LATIN_def isExtendedLatinString_def isExtendedLatinCharacter_def
        isBasicLatinCharacter_def wstrToLower_def wcharToLower_def ValidateName_def TOTAL_LOCALES_def)
  from CheckPlayerName_success [OF this] show ?thesis by blast
qed

text \<open>On a realm zone that is basic Latin at creation, the realm-specific check of a created name
  accepts no name at all, basic Latin ones included.\<close>

theorem basic_latin_realm_rejects_all:
  assumes "realmZone cfg = 5"
  shows "\<not> isValidString cfg ws 2 numericOrSpace True"
  using assms by (simp add: isValidString_def GetRealmLanguageType_def LT_BASIC_LATIN_def)

theorem basic_latin_realm_rejects_all_witness: "\<not> isValidString (demo_config\<lparr>realmZone := 5\<rparr>) [74, 97] 2 False True"
  by (rule basic_latin_realm_rejects_all) simp

end
