(* ===== verification/Isc_Session.thy ===== *)
theory Isc_Session
  imports Isc_Protocol Dev_Tools Names
begin

text \<open>
  The session side of the ISC protocol, \<open>src/server/game/Handlers/IscHandler.cpp\<close>, and the
  conversations it sends (\<open>ConversationDataStore.cpp\<close>). A session keeps the reassembler of the frames
  it receives, the id of its next message and the addon messages it sent; the change list of the
  developer tools is shared by all sessions and is threaded through the handlers.
\<close>

section \<open>State and environment\<close>

record isc_session =
  iscReassembler :: Reassembler
  iscNextMessageId :: u16
  sentMessages :: "string list"
  devtools :: dev_state

record isc_env =
  playerName :: string
  devToolsEnable :: bool
  hasPermission :: bool
  getCreature :: "ObjectGuid \<Rightarrow> creature_ref option"
  devWorld :: dev_world
  spawnRequest :: "u32 \<Rightarrow> spawn_request"
  commitEnv :: commit_env

text \<open>A handler returns, throws a \<open>ByteBufferException\<close>, or fails an assertion, which stops the server.\<close>

datatype isc_result = Done isc_session | Throws buffer_exn | Aborts

definition utf8_is_valid :: "string \<Rightarrow> bool" where
  "utf8_is_valid s = (case utf8_distance (octets s) of Inl _ \<Rightarrow> False | Inr _ \<Rightarrow> True)"

section \<open>Sending\<close>

definition TAB :: char where "TAB = CHR 0x09"

definition SendIscPacket :: "IscPacket \<Rightarrow> isc_session \<Rightarrow> isc_result" where
  "SendIscPacket packet s =
     (case EncodeFrames (iscNextMessageId s) packet of
        None \<Rightarrow> Aborts
      | Some frames \<Rightarrow>
          Done (s\<lparr>iscNextMessageId := iscNextMessageId s + 1,
                  sentMessages := sentMessages s @ map (\<lambda>frame. SERVER_PREFIX @ [TAB] @ frame) frames\<rparr>))"

text \<open>A packet of the given opcode with the given values streamed into it.\<close>

definition send_values :: "u16 \<Rightarrow> wire_value list \<Rightarrow> isc_session \<Rightarrow> isc_result" where
  "send_values opcode vs s =
     (case write_values vs new_buffer of
        Inl _ \<Rightarrow> Aborts
      | Inr b \<Rightarrow> SendIscPacket \<lparr>pktOpcode = opcode, pktBuffer = b\<rparr> s)"

definition changes_values :: "DevToolsChange list \<Rightarrow> wire_value list" where
  "changes_values cs =
     VU32 (of_nat (length cs)) # concat (map (\<lambda>c. [VU32 (ChangeId c), VStr (Label c), VStr (Details c)]) cs)"

definition SendIscDevToolsChanges :: "isc_session \<Rightarrow> isc_result" where
  "SendIscDevToolsChanges s = send_values ISC_SMSG_DEVTOOLS_CHANGES (changes_values (changes (devtools s))) s"

definition SendIscDevToolsResult :: "bool \<Rightarrow> string \<Rightarrow> isc_session \<Rightarrow> isc_result" where
  "SendIscDevToolsResult success message s = send_values ISC_SMSG_DEVTOOLS_RESULT [VBool success, VStr message] s"

definition and_then :: "isc_result \<Rightarrow> (isc_session \<Rightarrow> isc_result) \<Rightarrow> isc_result" where
  "and_then r f = (case r of Done s \<Rightarrow> f s | Throws e \<Rightarrow> Throws e | Aborts \<Rightarrow> Aborts)"

section \<open>Handlers\<close>

definition CanUseIscDevTools :: "isc_env \<Rightarrow> bool" where
  "CanUseIscDevTools env = (devToolsEnable env \<and> hasPermission env)"

text \<open>The check shared by all handlers: the refusal is sent, or the handler goes on.\<close>

definition with_devtools :: "isc_env \<Rightarrow> (isc_session \<Rightarrow> isc_result) \<Rightarrow> isc_session \<Rightarrow> isc_result" where
  "with_devtools env body s =
     (if CanUseIscDevTools env then body s
      else SendIscDevToolsResult False
             ''DevTools are disabled (DevTools.Enable) or your account lacks the permission.'' s)"

definition handle_sync :: "isc_env \<Rightarrow> IscPacket \<Rightarrow> isc_session \<Rightarrow> isc_result" where
  "handle_sync env packet s = with_devtools env SendIscDevToolsChanges s"

definition handle_delete :: "isc_env \<Rightarrow> IscPacket \<Rightarrow> isc_session \<Rightarrow> isc_result" where
  "handle_delete env packet s =
     (case read_guid (pktBuffer packet) of
        Inl e \<Rightarrow> Throws e
      | Inr (guid, _) \<Rightarrow>
          with_devtools env
            (\<lambda>s. case getCreature env guid of
                   None \<Rightarrow> SendIscDevToolsResult False ''Creature not found.'' s
                 | Some creature \<Rightarrow>
                     (case DeleteCreatureSpawn (devWorld env) creature (devtools s) of
                        (success, message, d) \<Rightarrow>
                          and_then (SendIscDevToolsResult success message (s\<lparr>devtools := d\<rparr>)) SendIscDevToolsChanges)) s)"

definition handle_spawn :: "isc_env \<Rightarrow> IscPacket \<Rightarrow> isc_session \<Rightarrow> isc_result" where
  "handle_spawn env packet s =
     (case read_u32 (pktBuffer packet) of
        Inl e \<Rightarrow> Throws e
      | Inr (entry, _) \<Rightarrow>
          with_devtools env
            (\<lambda>s. case SpawnCreature (devWorld env) (spawnRequest env entry) entry (devtools s) of
                   (success, message, d) \<Rightarrow>
                     and_then (SendIscDevToolsResult success message (s\<lparr>devtools := d\<rparr>)) SendIscDevToolsChanges) s)"

definition handle_undo :: "isc_env \<Rightarrow> IscPacket \<Rightarrow> isc_session \<Rightarrow> isc_result" where
  "handle_undo env packet s =
     (case read_u32 (pktBuffer packet) of
        Inl e \<Rightarrow> Throws e
      | Inr (changeId, _) \<Rightarrow>
          with_devtools env
            (\<lambda>s. case Undo (devWorld env) changeId [] (devtools s) of
                   (success, error, d) \<Rightarrow>
                     let s = s\<lparr>devtools := d\<rparr>
                     in and_then (if \<not> success then SendIscDevToolsResult False error s else Done s) SendIscDevToolsChanges) s)"

definition handle_commit :: "isc_env \<Rightarrow> IscPacket \<Rightarrow> isc_session \<Rightarrow> isc_result" where
  "handle_commit env packet s =
     (case read_string utf8_is_valid (pktBuffer packet) of
        Inl e \<Rightarrow> Throws e
      | Inr (description, _) \<Rightarrow>
          with_devtools env
            (\<lambda>s. case Commit (commitEnv env) description (devtools s) of
                   (res, d) \<Rightarrow>
                     let s = s\<lparr>devtools := d\<rparr>
                     in and_then
                          (case res of
                             Inr (fileName, _) \<Rightarrow>
                               SendIscDevToolsResult True
                                 (''Written to sql/updates/world/3.3.5/'' @ fileName @ '', applied at the next restart.'') s
                           | Inl error \<Rightarrow> SendIscDevToolsResult False error s)
                          SendIscDevToolsChanges) s)"

fun run_handler :: "isc_handler \<Rightarrow> isc_env \<Rightarrow> IscPacket \<Rightarrow> isc_session \<Rightarrow> isc_result" where
  "run_handler HandleIscDevToolsSync = handle_sync"
| "run_handler HandleIscDevToolsDeleteCreature = handle_delete"
| "run_handler HandleIscDevToolsUndo = handle_undo"
| "run_handler HandleIscDevToolsCommit = handle_commit"
| "run_handler HandleIscDevToolsSpawnCreature = handle_spawn"

text \<open>The result and the new session, or \<open>None\<close> when the server stops on an assertion. A handler that
  throws has changed nothing: each reads its packet before it does anything else.\<close>

definition HandleIscAddonMessage :: "isc_env \<Rightarrow> string \<Rightarrow> string \<Rightarrow> isc_session \<Rightarrow> (bool \<times> isc_session) option" where
  "HandleIscAddonMessage env msg target s =
     (if length msg \<le> length CLIENT_PREFIX \<or> \<not> StringStartsWith msg CLIENT_PREFIX \<or> msg ! length CLIENT_PREFIX \<noteq> TAB
      then Some (False, s)
      else if \<not> fst (normalizePlayerName target) \<or> snd (normalizePlayerName target) \<noteq> playerName env then Some (False, s)
      else case Feed (drop (length CLIENT_PREFIX + 1) msg) (iscReassembler s) of
             (packet, r) \<Rightarrow>
               let s = s\<lparr>iscReassembler := r\<rparr>
               in (case packet of
                     None \<Rightarrow> Some (True, s)
                   | Some packet \<Rightarrow>
                       (case GetIscOpcodeHandler (pktOpcode packet) of
                          None \<Rightarrow> Some (True, s)
                        | Some opcodeHandler \<Rightarrow>
                            (case hHandler opcodeHandler of
                               None \<Rightarrow> Some (True, s)
                             | Some h \<Rightarrow>
                                 (case run_handler h env packet s of
                                    Done s' \<Rightarrow> Some (True, s')
                                  | Throws _ \<Rightarrow> Some (True, s)
                                  | Aborts \<Rightarrow> None)))))"

section \<open>Conversations\<close>

record ConversationLine =
  lineCreatureId :: u32
  lineDuration :: u32
  lineText :: "string list"

text \<open>The lines of a conversation, a \<open>std::map\<close> from their index, walked in the order of the index.\<close>

type_synonym ConversationLines = "u8 \<rightharpoonup> ConversationLine"

definition lines_in_order :: "ConversationLines \<Rightarrow> ConversationLine list" where
  "lines_in_order ls = List.map_filter (\<lambda>i. ls (of_nat i)) [0..<256]"

definition GetLocaleString :: "string list \<Rightarrow> nat \<Rightarrow> string" where
  "GetLocaleString data locale = (if locale < length data then data ! locale else [])"

definition override_LocaleString :: "string list \<Rightarrow> nat \<Rightarrow> string \<Rightarrow> string" where
  "override_LocaleString data locale v = (let t = GetLocaleString data locale in if t \<noteq> [] then t else v)"

definition AddLocaleString :: "string \<Rightarrow> nat \<Rightarrow> string list \<Rightarrow> string list" where
  "AddLocaleString v locale data =
     (if v = [] then data
      else let data = (if length data \<le> locale then data @ replicate (locale + 1 - length data) [] else data)
           in data[locale := v])"

record conversation_row =
  rowConversationId :: u32
  rowIdx :: u8
  rowCreatureId :: u32
  rowDuration :: u32
  rowText :: string

record locale_row =
  lrowConversationId :: u32
  lrowIdx :: u8
  lrowLocale :: nat
  lrowText :: string

type_synonym conversation_store = "u32 \<rightharpoonup> ConversationLines"

definition new_ConversationLine :: ConversationLine where
  "new_ConversationLine = \<lparr>lineCreatureId = 0, lineDuration = 0, lineText = []\<rparr>"

fun load_lines :: "(u32 \<Rightarrow> bool) \<Rightarrow> conversation_row list \<Rightarrow> conversation_store \<Rightarrow> conversation_store" where
  "load_lines hasTemplate [] store = store"
| "load_lines hasTemplate (row # rows) store =
     (if rowCreatureId row \<noteq> 0 \<and> \<not> hasTemplate (rowCreatureId row) then load_lines hasTemplate rows store
      else if rowDuration row = 0 then load_lines hasTemplate rows store
      else let lines = (case store (rowConversationId row) of None \<Rightarrow> Map.empty | Some ls \<Rightarrow> ls);
               line = (case lines (rowIdx row) of None \<Rightarrow> new_ConversationLine | Some l \<Rightarrow> l);
               line = line\<lparr>lineCreatureId := rowCreatureId row, lineDuration := rowDuration row,
                           lineText := AddLocaleString (rowText row) 0 (lineText line)\<rparr>
           in load_lines hasTemplate rows
                (store(rowConversationId row \<mapsto> lines(rowIdx row \<mapsto> line))))"

fun load_locales :: "locale_row list \<Rightarrow> conversation_store \<Rightarrow> conversation_store" where
  "load_locales [] store = store"
| "load_locales (row # rows) store =
     (if lrowLocale row = 0 then load_locales rows store
      else case store (lrowConversationId row) of
             None \<Rightarrow> load_locales rows store
           | Some lines \<Rightarrow>
               (case lines (lrowIdx row) of
                  None \<Rightarrow> load_locales rows store
                | Some line \<Rightarrow>
                    load_locales rows
                      (store(lrowConversationId row \<mapsto>
                         lines(lrowIdx row \<mapsto> line\<lparr>lineText := AddLocaleString (lrowText row) (lrowLocale row) (lineText line)\<rparr>)))))"

text \<open>\<open>None\<close> is a query with no result.\<close>

definition LoadConversationTemplates ::
  "(u32 \<Rightarrow> bool) \<Rightarrow> conversation_row list option \<Rightarrow> locale_row list option \<Rightarrow> conversation_store" where
  "LoadConversationTemplates hasTemplate rows locales =
     (case rows of
        None \<Rightarrow> Map.empty
      | Some rs \<Rightarrow>
          let store = load_lines hasTemplate rs Map.empty
          in (case locales of None \<Rightarrow> store | Some ls \<Rightarrow> load_locales ls store))"

subsection \<open>Text variables\<close>

record text_player =
  tpName :: string
  tpRace :: "string option"
  tpClass :: "string option"
  tpFemale :: bool

definition opt_string :: "string option \<Rightarrow> string" where
  "opt_string s = (case s of None \<Rightarrow> [] | Some t \<Rightarrow> t)"

text \<open>The texts of \<open>$gmale:female;\<close> after the \<open>$g\<close>, and what follows; \<open>None\<close> without a colon and a
  semicolon after it.\<close>

definition gender_texts :: "string \<Rightarrow> (string \<times> string \<times> string) option" where
  "gender_texts rest =
     (let male = takeWhile (\<lambda>c. c \<noteq> CHR '':'') rest;
          after = drop (length male + 1) rest;
          female = takeWhile (\<lambda>c. c \<noteq> CHR '';'') after
      in if length male = length rest \<or> length female = length after then None
         else Some (male, female, drop (length female + 1) after))"

lemma gender_texts_shorter: "gender_texts rest = Some (m, f, r) \<Longrightarrow> length r \<le> length rest"
  by (auto simp: gender_texts_def Let_def split: if_splits)

function ReplaceTextVariables :: "text_player \<Rightarrow> string \<Rightarrow> string" where
  "ReplaceTextVariables p [] = []"
| "ReplaceTextVariables p [c] = [c]"
| "ReplaceTextVariables p (c # d # rest) =
     (if c \<noteq> CHR ''$'' then c # ReplaceTextVariables p (d # rest)
      else if lower_char d = CHR ''n'' then tpName p @ ReplaceTextVariables p rest
      else if lower_char d = CHR ''r'' then opt_string (tpRace p) @ ReplaceTextVariables p rest
      else if lower_char d = CHR ''c'' then opt_string (tpClass p) @ ReplaceTextVariables p rest
      else if lower_char d = CHR ''g'' then
        (case gender_texts rest of
           None \<Rightarrow> c # ReplaceTextVariables p (d # rest)
         | Some (male, female, after) \<Rightarrow> (if tpFemale p then female else male) @ ReplaceTextVariables p after)
      else c # ReplaceTextVariables p (d # rest))"
  by pat_completeness auto
termination
  by (relation "measure (\<lambda>(p, t). length t)") (auto dest!: gender_texts_shorter)

subsection \<open>Sending a conversation\<close>

record conv_env =
  convPlayer :: text_player
  convPlayerGuid :: ObjectGuid
  convLocale :: nat
  convCreatureName :: "u32 \<Rightarrow> string"
  convCreatureLocale :: "u32 \<Rightarrow> string list"
  convNearest :: "u32 \<Rightarrow> ObjectGuid option"

fun actors_of :: "ConversationLine list \<Rightarrow> u32 list \<Rightarrow> u32 list" where
  "actors_of [] actors = actors"
| "actors_of (line # lines) actors =
     actors_of lines (if lineCreatureId line \<in> set actors then actors else actors @ [lineCreatureId line])"

definition actor_values :: "conv_env \<Rightarrow> u32 \<Rightarrow> wire_value list" where
  "actor_values env creatureId =
     (if creatureId = 0 then [VStr (tpName (convPlayer env)), VU64 (convPlayerGuid env), VU32 0]
      else [VStr (override_LocaleString (convCreatureLocale env creatureId) (convLocale env) (convCreatureName env creatureId)),
            VU64 (case convNearest env creatureId of None \<Rightarrow> 0 | Some g \<Rightarrow> g), VU32 creatureId])"

fun position_in :: "'a \<Rightarrow> 'a list \<Rightarrow> nat" where
  "position_in x [] = 0"
| "position_in x (y # ys) = (if x = y then 0 else Suc (position_in x ys))"

definition line_values :: "conv_env \<Rightarrow> u32 list \<Rightarrow> ConversationLine \<Rightarrow> wire_value list" where
  "line_values env actors line =
     [VU8 (of_nat (position_in (lineCreatureId line) actors)), VU32 (lineDuration line),
      VStr (ReplaceTextVariables (convPlayer env)
              (override_LocaleString (lineText line) (convLocale env) (GetLocaleString (lineText line) 0)))]"

definition conversation_values :: "conv_env \<Rightarrow> ConversationLine list \<Rightarrow> wire_value list" where
  "conversation_values env lines =
     (let actors = actors_of lines []
      in VU8 (of_nat (length actors)) # concat (map (actor_values env) actors)
         @ VU8 (of_nat (length lines)) # concat (map (line_values env actors) lines))"

definition SendConversation :: "conv_env \<Rightarrow> conversation_store \<Rightarrow> u32 \<Rightarrow> isc_session \<Rightarrow> bool \<times> isc_result" where
  "SendConversation env store conversationId s =
     (case store conversationId of
        None \<Rightarrow> (False, Done s)
      | Some ls \<Rightarrow> (True, send_values ISC_SMSG_CONVERSATION (conversation_values env (lines_in_order ls)) s))"

section \<open>What sending and the handlers change\<close>

lemma SendIscPacket_devtools: "SendIscPacket p s = Done s' \<Longrightarrow> devtools s' = devtools s"
  by (auto simp: SendIscPacket_def split: option.splits)

lemma send_values_devtools: "send_values op vs s = Done s' \<Longrightarrow> devtools s' = devtools s"
  by (auto simp: send_values_def dest: SendIscPacket_devtools split: sum.splits)

lemma SendIscDevToolsChanges_devtools: "SendIscDevToolsChanges s = Done s' \<Longrightarrow> devtools s' = devtools s"
  by (simp add: SendIscDevToolsChanges_def send_values_devtools)

lemma SendIscDevToolsResult_devtools: "SendIscDevToolsResult b m s = Done s' \<Longrightarrow> devtools s' = devtools s"
  by (simp add: SendIscDevToolsResult_def send_values_devtools)

lemma and_then_Done: "and_then r f = Done s' \<longleftrightarrow> (\<exists>t. r = Done t \<and> f t = Done s')"
  by (simp add: and_then_def split: isc_result.split)

lemmas reply_devtools = SendIscDevToolsChanges_devtools SendIscDevToolsResult_devtools

lemma result_then_changes:
  "and_then (SendIscDevToolsResult b m s) SendIscDevToolsChanges = Done s' \<Longrightarrow> devtools s' = devtools s"
  by (auto simp: and_then_Done dest!: reply_devtools)

lemma with_devtools_denied: "\<not> CanUseIscDevTools env \<Longrightarrow> with_devtools env f s = Done s' \<Longrightarrow> devtools s' = devtools s"
  by (auto simp: with_devtools_def dest: SendIscDevToolsResult_devtools)

lemma run_handler_denied:
  "\<not> CanUseIscDevTools env \<Longrightarrow> run_handler h env p s = Done s' \<Longrightarrow> devtools s' = devtools s"
  by (cases h) (auto simp: handle_sync_def handle_delete_def handle_spawn_def handle_undo_def handle_commit_def
      split: sum.splits dest: with_devtools_denied)

text \<open>What a handler does to the change list is one step of the developer tools.\<close>

definition dev_counters_ok :: "dev_state \<Rightarrow> bool" where
  "dev_counters_ok d = (nextChangeId d < 0xFFFFFFFF \<and> creatureSpawnId d < 0xFFFFFF)"

lemma handle_delete_step:
  assumes "handle_delete env p s = Done s'" "fmt_ok (devWorld env)" "dev_counters_ok (devtools s)"
  shows "devtools s' = devtools s \<or> dev_step (devtools s) (devtools s')"
proof -
  obtain g b where "read_guid (pktBuffer p) = Inr (g, b)" using assms(1) by (auto simp: handle_delete_def split: sum.splits)
  show ?thesis
  proof (cases "CanUseIscDevTools env")
    case True
    then show ?thesis
      using assms step_delete [OF assms(2), of "devtools s"] \<open>read_guid _ = _\<close>
      by (auto simp: handle_delete_def with_devtools_def dev_counters_ok_def split: option.splits prod.splits
          dest!: reply_devtools result_then_changes) (metis snd_conv)
  next
    case False
    then show ?thesis using assms(1) \<open>read_guid _ = _\<close> by (auto simp: handle_delete_def dest: with_devtools_denied)
  qed
qed

lemma handle_spawn_step:
  assumes "handle_spawn env p s = Done s'" "fmt_ok (devWorld env)" "dev_counters_ok (devtools s)"
  shows "devtools s' = devtools s \<or> dev_step (devtools s) (devtools s')"
proof -
  obtain e b where e: "read_u32 (pktBuffer p) = Inr (e, b)" using assms(1) by (auto simp: handle_spawn_def split: sum.splits)
  show ?thesis
  proof (cases "CanUseIscDevTools env")
    case True
    obtain ok m d where d: "SpawnCreature (devWorld env) (spawnRequest env e) e (devtools s) = (ok, m, d)" by (metis prod_cases3)
    have "devtools s' = d"
      using assms(1) True e d by (auto simp: handle_spawn_def with_devtools_def dest!: result_then_changes)
    then show ?thesis
      using step_spawn [OF assms(2), of "devtools s" "spawnRequest env e" e] assms(3) d by (simp add: dev_counters_ok_def)
  next
    case False
    then show ?thesis using assms(1) e by (auto simp: handle_spawn_def dest: with_devtools_denied)
  qed
qed

lemma handle_undo_step:
  assumes "handle_undo env p s = Done s'"
  shows "devtools s' = devtools s \<or> dev_step (devtools s) (devtools s')"
proof -
  obtain e b where e: "read_u32 (pktBuffer p) = Inr (e, b)" using assms(1) by (auto simp: handle_undo_def split: sum.splits)
  show ?thesis
  proof (cases "CanUseIscDevTools env")
    case True
    obtain ok m d where d: "Undo (devWorld env) e [] (devtools s) = (ok, m, d)" by (metis prod_cases3)
    have "devtools s' = d"
      using assms(1) True e d
      by (auto simp: handle_undo_def with_devtools_def Let_def and_then_Done split: if_splits dest!: reply_devtools)
    then show ?thesis
      using step_undo [of "devtools s" "devWorld env" e "[]"] d by simp
  next
    case False
    then show ?thesis using assms(1) e by (auto simp: handle_undo_def dest: with_devtools_denied)
  qed
qed

lemma handle_commit_step:
  assumes "handle_commit env p s = Done s'"
  shows "devtools s' = devtools s \<or> dev_step (devtools s) (devtools s')"
proof -
  obtain e b where e: "read_string utf8_is_valid (pktBuffer p) = Inr (e, b)" using assms(1) by (auto simp: handle_commit_def split: sum.splits)
  show ?thesis
  proof (cases "CanUseIscDevTools env")
    case True
    obtain res d where d: "Commit (commitEnv env) e (devtools s) = (res, d)" by (metis surj_pair)
    have "devtools s' = d"
      using assms(1) True e d
      by (auto simp: handle_commit_def with_devtools_def Let_def and_then_Done split: sum.splits prod.splits dest!: reply_devtools)
    then show ?thesis
      using step_commit [of "devtools s" "commitEnv env" e] d by simp
  next
    case False
    then show ?thesis using assms(1) e by (auto simp: handle_commit_def dest: with_devtools_denied)
  qed
qed

lemma handle_sync_devtools: "handle_sync env p s = Done s' \<Longrightarrow> devtools s' = devtools s"
  by (auto simp: handle_sync_def with_devtools_def dest: reply_devtools split: if_splits)

lemma run_handler_step:
  assumes "run_handler h env p s = Done s'" "fmt_ok (devWorld env)" "dev_counters_ok (devtools s)"
  shows "devtools s' = devtools s \<or> dev_step (devtools s) (devtools s')"
proof (cases h)
  case HandleIscDevToolsSync
  then show ?thesis using assms(1) handle_sync_devtools by simp
next
  case HandleIscDevToolsDeleteCreature
  then show ?thesis using assms(1) handle_delete_step [OF _ assms(2,3)] by simp
next
  case HandleIscDevToolsUndo
  then show ?thesis using assms(1) handle_undo_step by simp
next
  case HandleIscDevToolsCommit
  then show ?thesis using assms(1) handle_commit_step by simp
next
  case HandleIscDevToolsSpawnCreature
  then show ?thesis using assms(1) handle_spawn_step [OF _ assms(2,3)] by simp
qed

lemma addon_message_cases:
  assumes "HandleIscAddonMessage env msg target s = Some (b, s')"
  obtains "devtools s' = devtools s"
  | h p r where "run_handler h env p (s\<lparr>iscReassembler := r\<rparr>) = Done s'"
  using assms
  by (auto simp: HandleIscAddonMessage_def Let_def split: if_splits prod.splits option.splits isc_result.splits)

section \<open>From one end to the other\<close>

lemma message_length: "length (packet_message p) = 2 + bb_size (pktBuffer p)"
  by (simp add: packet_message_def WriteUInt16_def bb_empty_def bb_size_def)

lemma frame_limit: "n < 10000000 \<Longrightarrow> (2 + n + 179) div 180 \<le> (65535 :: nat)"
  using div_le_mono [of "2 + n + 179" "10000181" 180] by simp

lemma send_values_delivered:
  assumes ok: "list_all (value_ok utf8_is_valid) vs"
    and len: "length (concat (map value_bytes vs)) < 10000000" "length (concat (map value_bytes vs)) + 2 \<le> maxMessageSize r"
  shows "\<exists>s' frames b. send_values op vs s = Done s'
     \<and> s' = s\<lparr>iscNextMessageId := iscNextMessageId s + 1,
              sentMessages := sentMessages s @ map (\<lambda>f. SERVER_PREFIX @ [TAB] @ f) frames\<rparr>
     \<and> feed_all frames r = ([\<lparr>pktOpcode = op, pktBuffer = b\<rparr>], Reset r)
     \<and> read_values utf8_is_valid (map type_of vs) b = Inr (vs, b\<lparr>rpos := bb_size b\<rparr>)"
proof -
  let ?bs = "concat (map value_bytes vs)"
  let ?b = "bb_extend new_buffer ?bs"
  let ?p = "\<lparr>pktOpcode = op, pktBuffer = ?b\<rparr>"
  have w: "write_values vs new_buffer = Inr ?b" using ok len(1) by (intro write_values_bytes) auto
  have msg: "length (packet_message ?p) = 2 + length ?bs" by (simp add: message_length)
  have few: "frame_count (packet_message ?p) \<le> 65535" unfolding frame_count_def msg by (rule frame_limit [OF len(1)])
  obtain frames where f: "EncodeFrames (iscNextMessageId s) ?p = Some frames"
    "feed_all frames r = ([\<lparr>pktOpcode = op, pktBuffer = \<lparr>rpos = 0, wpos = bb_size ?b, storage = storage ?b\<rparr>\<rparr>], Reset r)"
    using frames_delivered [of ?p r "iscNextMessageId s"] few msg len(2) by auto
  have b: "\<lparr>rpos = 0, wpos = bb_size ?b, storage = storage ?b\<rparr> = ?b"
    by (simp add: bb_extend_def new_buffer_def bb_size_def)
  have "read_values utf8_is_valid (map type_of vs) ?b = Inr (vs, ?b\<lparr>rpos := rpos ?b + length ?bs\<rparr>)"
    by (rule read_values_bytes [OF ok, of _ "[]" "[]"]) auto
  then have read: "read_values utf8_is_valid (map type_of vs) ?b = Inr (vs, ?b\<lparr>rpos := bb_size ?b\<rparr>)" by simp
  have "send_values op vs s = Done (s\<lparr>iscNextMessageId := iscNextMessageId s + 1,
      sentMessages := sentMessages s @ map (\<lambda>f. SERVER_PREFIX @ [TAB] @ f) frames\<rparr>)"
    using w f(1) by (simp add: send_values_def SendIscPacket_def)
  then show ?thesis
    using read f(2) unfolding b by blast
qed

definition demo_change :: DevToolsChange where
  "demo_change = \<lparr>ChangeId = 1, ChangeType = DeleteCreature, SpawnId = 77, Label = ''Delete'', Details = [], Sql = []\<rparr>"

definition demo_session :: isc_session where
  "demo_session = \<lparr>iscReassembler = new_Reassembler MAX_CLIENT_MESSAGE_SIZE, iscNextMessageId = 0, sentMessages = [],
     devtools = demo_dev\<lparr>changes := [demo_change]\<rparr>\<rparr>"

lemma ascii_valid: "list_all (\<lambda>c. of_char c < (0x80::nat)) s \<Longrightarrow> utf8_is_valid s"
  using ascii_units [of "octets s"] by (simp add: utf8_is_valid_def octets_def list_all_iff)

lemma send_values_Done:
  assumes "list_all (value_ok utf8_is_valid) vs" "length (concat (map value_bytes vs)) < 10000000"
  shows "\<exists>s'. send_values op vs s = Done s'"
  using send_values_delivered [OF assms, of "new_Reassembler (length (concat (map value_bytes vs)) + 2)" op s]
  by (auto simp: new_Reassembler_def)

lemma result_Done:
  assumes "list_all (\<lambda>c. of_char c < (0x80::nat) \<and> c \<noteq> CHR 0x00) m" "length m < 1000"
  shows "\<exists>s'. SendIscDevToolsResult b m s = Done s'"
  unfolding SendIscDevToolsResult_def
proof (rule send_values_Done)
  show "list_all (value_ok utf8_is_valid) [VBool b, VStr m]"
    using assms(1) ascii_valid [of m] by (auto simp: list_all_iff)
  show "length (concat (map value_bytes [VBool b, VStr m])) < 10000000"
    using assms(2) by (simp add: cstring_bytes_def bool_bytes_def)
qed

lemma those_length: "those xs = Some ys \<Longrightarrow> length ys = length xs"
  by (induction xs arbitrary: ys) (auto split: option.splits)

lemma one_frame:
  assumes "bb_size (pktBuffer p) \<le> 178" "rpos (pktBuffer p) = 0" "wpos (pktBuffer p) = bb_size (pktBuffer p)"
  shows "\<exists>f. \<forall>r. 180 \<le> maxMessageSize r \<longrightarrow> Feed f r = (Some p, Reset r)"
proof -
  have len: "length (packet_message p) \<le> 180" "2 \<le> length (packet_message p)"
    using assms(1) by (simp_all add: message_length)
  have one: "frame_count (packet_message p) = 1" using len by (simp add: frame_count_def div_nat_eqI)
  have p: "\<lparr>pktOpcode = pktOpcode p, pktBuffer = \<lparr>rpos = 0, wpos = bb_size (pktBuffer p), storage = storage (pktBuffer p)\<rparr>\<rparr> = p"
    using assms(2,3) by (cases p; cases "pktBuffer p") simp
  have *: "\<exists>fs. EncodeFrames 0 p = Some fs \<and> feed_all fs r = ([p], Reset r)" if "180 \<le> maxMessageSize r" for r
    using frames_delivered [of p r 0] len that one unfolding p by simp
  obtain fs where fs: "EncodeFrames 0 p = Some fs" using * [of "new_Reassembler 180"] by (auto simp: new_Reassembler_def)
  have "length fs = 1"
    using fs one by (auto simp: EncodeFrames_def Let_def frame_count_def dest: those_length split: if_splits)
  then obtain f where f: "fs = [f]" by (cases fs) auto
  have "Feed f r = (Some p, Reset r)" if "180 \<le> maxMessageSize r" for r
    using * [OF that] fs f by (cases "Feed f r") (auto split: option.splits)
  then show ?thesis by blast
qed

text \<open>A client that asks to undo change 1.\<close>

definition undo_packet :: IscPacket where
  "undo_packet = \<lparr>pktOpcode = ISC_CMSG_DEVTOOLS_UNDO, pktBuffer = bb_extend new_buffer (le_bytes 4 (1::u32))\<rparr>"

lemma undo_packet_read: "read_u32 (pktBuffer undo_packet) = Inr (1, (pktBuffer undo_packet)\<lparr>rpos := 4\<rparr>)"
  using u32.rd_enc [where v = 1 and b = "pktBuffer undo_packet" and pre = "[]" and post = "[]"] by (simp add: undo_packet_def)

definition demo_env :: "bool \<Rightarrow> isc_env" where
  "demo_env ok = \<lparr>playerName = ''Jaina'', devToolsEnable = True, hasPermission = ok, getCreature = (\<lambda>_. None), devWorld = demo_world,
     spawnRequest = (\<lambda>_. demo_request), commitEnv = demo_commit\<rparr>"

lemma undo_request:
  assumes "run_handler HandleIscDevToolsUndo env undo_packet (demo_session\<lparr>iscReassembler := Reset (iscReassembler demo_session)\<rparr>) = Done s'"
    and "playerName env = ''Jaina''"
  shows "\<exists>msg. HandleIscAddonMessage env msg ''jAINA'' demo_session = Some (True, s')"
proof -
  obtain f where f: "\<forall>r. 180 \<le> maxMessageSize r \<longrightarrow> Feed f r = (Some undo_packet, Reset r)"
    using one_frame [of undo_packet] by (auto simp: undo_packet_def)
  have m: "180 \<le> maxMessageSize (iscReassembler demo_session)"
    by (simp add: demo_session_def new_Reassembler_def MAX_CLIENT_MESSAGE_SIZE_def)
  have "HandleIscAddonMessage env (CLIENT_PREFIX @ [TAB] @ f) ''jAINA'' demo_session = Some (True, s')"
    using assms f m normalize_demo
    by (simp add: HandleIscAddonMessage_def StringStartsWith_def nth_append GetIscOpcodeHandler_def IscOpcodeTable_def
        undo_packet_def Let_def)
  then show ?thesis by blast
qed

text \<open>A request that is refused.\<close>

lemma denied_request:
  "\<exists>msg s'. HandleIscAddonMessage (demo_env False) msg ''jAINA'' demo_session = Some (True, s')"
proof -
  let ?s = "demo_session\<lparr>iscReassembler := Reset (iscReassembler demo_session)\<rparr>"
  obtain s' where "run_handler HandleIscDevToolsUndo (demo_env False) undo_packet ?s = Done s'"
    using result_Done [of "''DevTools are disabled (DevTools.Enable) or your account lacks the permission.''" False ?s]
    by (auto simp: handle_undo_def undo_packet_read with_devtools_def CanUseIscDevTools_def demo_env_def)
  then show ?thesis using undo_request by (fastforce simp: demo_env_def)
qed

section \<open>Properties\<close>

text \<open>A request of a session that may not use the tools leaves them alone.\<close>

lemma addon_message_denied:
  assumes "HandleIscAddonMessage env msg target s = Some (b, s')" "\<not> CanUseIscDevTools env"
  shows "devtools s' = devtools s"
  using assms(1)
proof (rule addon_message_cases)
  fix h p r
  assume "run_handler h env p (s\<lparr>iscReassembler := r\<rparr>) = Done s'"
  then show ?thesis using run_handler_denied assms(2) by fastforce
qed

text \<open>Claim C10: whatever messages a client sends, the change list of the developer tools does not change when
  the tools are disabled or the account lacks the permission.\<close>

theorem devtools_authorized:
  assumes "HandleIscAddonMessage env msg target s = Some (b, s')"
    and "\<not> (devToolsEnable env \<and> hasPermission env)"
  shows "devtools s' = devtools s"
  using addon_message_denied [OF assms(1)] assms(2) by (simp add: CanUseIscDevTools_def)

theorem devtools_authorized_witness:
  "\<exists>msg s'. HandleIscAddonMessage (demo_env False) msg ''jAINA'' demo_session = Some (True, s') \<and> devtools s' = devtools demo_session"
proof -
  obtain msg s' where msg: "HandleIscAddonMessage (demo_env False) msg ''jAINA'' demo_session = Some (True, s')"
    using denied_request by blast
  then show ?thesis using devtools_authorized [OF msg] by (auto simp: demo_env_def)
qed





subsection \<open>Conversations\<close>

lemma actors_of_spec:
  "distinct actors \<Longrightarrow>
     distinct (actors_of lines actors) \<and> set (actors_of lines actors) = set actors \<union> lineCreatureId ` set lines
     \<and> length (actors_of lines actors) \<le> length actors + length lines"
proof (induction lines arbitrary: actors)
  case (Cons line lines)
  let ?a = "if lineCreatureId line \<in> set actors then actors else actors @ [lineCreatureId line]"
  have "distinct ?a" using Cons.prems by simp
  from Cons.IH [OF this] show ?case by (auto split: if_splits)
qed simp

lemma position_in_nth: "x \<in> set xs \<Longrightarrow> position_in x xs < length xs \<and> xs ! position_in x xs = x"
  by (induction xs) auto

text \<open>In a conversation of at most 255 lines each speaker is one actor, the two count bytes are the numbers
  of actors and of lines that follow, and the actor byte of a line is the place of its speaker in the list of
  actors.\<close>

theorem conversation_actors:
  assumes "length lines \<le> 255" "line \<in> set lines"
  shows "distinct (actors_of lines []) \<and> set (actors_of lines []) = lineCreatureId ` set lines
    \<and> unat (of_nat (length (actors_of lines [])) :: u8) = length (actors_of lines [])
    \<and> unat (of_nat (length lines) :: u8) = length lines
    \<and> (\<exists>i rest. line_values env (actors_of lines []) line = VU8 i # rest \<and> unat i < length (actors_of lines [])
        \<and> actors_of lines [] ! unat i = lineCreatureId line)"
proof -
  let ?a = "actors_of lines []"
  have a: "distinct ?a" "set ?a = lineCreatureId ` set lines" "length ?a \<le> 255"
    using actors_of_spec [of "[]" lines] assms(1) by auto
  have u: "unat (of_nat n :: u8) = n" if "n \<le> 255" for n
    using that by (simp add: unat_of_nat take_bit_nat_eq_self)
  have i: "position_in (lineCreatureId line) ?a < length ?a" "?a ! position_in (lineCreatureId line) ?a = lineCreatureId line"
    using position_in_nth [of "lineCreatureId line" ?a] a(2) assms(2) by auto
  then have "unat (of_nat (position_in (lineCreatureId line) ?a) :: u8) = position_in (lineCreatureId line) ?a"
    using a(3) by (intro u) linarith
  then show ?thesis
    using a i u assms(1) by (simp add: line_values_def)
qed

definition demo_line :: ConversationLine where
  "demo_line = \<lparr>lineCreatureId = 29, lineDuration = 3000, lineText = [''Well met, $n.'']\<rparr>"

theorem conversation_actors_witness: "distinct (actors_of [demo_line, demo_line] []) \<and> set (actors_of [demo_line, demo_line] []) = {29}"
  using conversation_actors [of "[demo_line, demo_line]" demo_line] by (simp add: demo_line_def)

text \<open>A conversation with all the 256 indices a \<open>uint8\<close> allows announces no line.\<close>

theorem conversation_256_lines:
  assumes "\<forall>i. ls i \<noteq> None"
  shows "length (lines_in_order ls) = 256 \<and> (of_nat (length (lines_in_order ls)) :: u8) = 0"
proof -
  have "length (List.map_filter (\<lambda>i. ls (of_nat i :: u8)) is) = length is" for "is" :: "nat list"
    using assms by (induction "is") (auto simp: List.map_filter_def)
  then have "length (lines_in_order ls) = 256" by (simp add: lines_in_order_def)
  then show ?thesis by simp
qed

theorem conversation_256_lines_witness: "length (lines_in_order (\<lambda>_. Some demo_line)) = 256"
  using conversation_256_lines [of "\<lambda>_. Some demo_line"] by simp

lemma ReplaceTextVariables_plain: "CHR ''$'' \<notin> set t \<Longrightarrow> ReplaceTextVariables p (t @ r) = t @ ReplaceTextVariables p r"
proof (induction t)
  case (Cons c t)
  then show ?case
    by (cases "t @ r") auto
qed simp

text \<open>Text without a dollar sign is kept, a name variable becomes the player's name, and a gender variable
  the text of the player's gender, wherever they stand.\<close>

theorem ReplaceTextVariables_spec:
  assumes "CHR ''$'' \<notin> set a" "CHR '':'' \<notin> set m" "CHR '';'' \<notin> set f"
  shows "ReplaceTextVariables p (a @ ''$n'' @ r) = a @ tpName p @ ReplaceTextVariables p r
    \<and> ReplaceTextVariables p (a @ ''$g'' @ m @ '':'' @ f @ '';'' @ r) = a @ (if tpFemale p then f else m) @ ReplaceTextVariables p r
    \<and> ReplaceTextVariables p a = a"
proof -
  have "takeWhile (\<lambda>c. c \<noteq> CHR '':'') (m @ CHR '':'' # f @ CHR '';'' # r) = m"
    "takeWhile (\<lambda>c. c \<noteq> CHR '';'') (f @ CHR '';'' # r) = f"
    using assms(2,3) by (auto simp: takeWhile_append)
  then have g: "gender_texts (m @ CHR '':'' # f @ CHR '';'' # r) = Some (m, f, r)"
    by (simp add: gender_texts_def Let_def)
  have n: "lower_char (CHR ''n'') = CHR ''n''" "lower_char (CHR ''g'') = CHR ''g''" by (simp_all add: lower_char_def)
  show ?thesis
    using ReplaceTextVariables_plain [OF assms(1), of p] ReplaceTextVariables_plain [OF assms(1), of p "[]"] g n by simp
qed

theorem ReplaceTextVariables_spec_witness:
  "ReplaceTextVariables \<lparr>tpName = ''Jaina'', tpRace = None, tpClass = None, tpFemale = True\<rparr> (''Hail $n'' @ []) = ''Hail Jaina''"
  using ReplaceTextVariables_spec [of "''Hail ''" "[]" "[]" "\<lparr>tpName = ''Jaina'', tpRace = None, tpClass = None, tpFemale = True\<rparr>" "[]"]
  by simp

end
