(* ===== verification/Event_Map.thy ===== *)
theory Event_Map
  imports Prelude
begin

text \<open>
  The timed events of a creature script, \<open>src/common/Utilities/EventMap.cpp\<close>. The \<open>std::multimap\<close> from
  times to events is a list of pairs sorted by time, in which an insertion goes behind the entries of
  the same time, as the standard says. Times count milliseconds from \<open>TimePoint::min()\<close>, where a reset
  map starts; the random time of the two-argument variants is an argument.
\<close>

section \<open>Ordered multimaps\<close>

type_synonym ('k, 'v) multimap = "('k \<times> 'v) list"

fun mm_insert :: "'k::linorder \<Rightarrow> 'v \<Rightarrow> ('k, 'v) multimap \<Rightarrow> ('k, 'v) multimap" where
  "mm_insert k v [] = [(k, v)]"
| "mm_insert k v ((k', v') # m) = (if k < k' then (k, v) # (k', v') # m else (k', v') # mm_insert k v m)"

definition mm_sorted :: "('k::linorder, 'v) multimap \<Rightarrow> bool" where
  "mm_sorted m = sorted (map fst m)"

text \<open>What the event map relies on: insertion adds one entry and nothing else, keeps the order, and puts
  the entry behind those of its key.\<close>

locale ordered_multimap =
  fixes ins :: "'k::linorder \<Rightarrow> 'v \<Rightarrow> ('k, 'v) multimap \<Rightarrow> ('k, 'v) multimap"
  assumes ins_mset: "mset (ins k v m) = add_mset (k, v) (mset m)"
    and ins_sorted: "mm_sorted m \<Longrightarrow> mm_sorted (ins k v m)"
    and ins_stable: "mm_sorted m \<Longrightarrow> filter (\<lambda>e. fst e = k) (ins k v m) = filter (\<lambda>e. fst e = k) m @ [(k, v)]"
begin

definition ins_all :: "('k, 'v) multimap \<Rightarrow> ('k, 'v) multimap \<Rightarrow> ('k, 'v) multimap" where
  "ins_all es m = fold (\<lambda>(k, v). ins k v) es m"

lemma ins_all_mset: "mset (ins_all es m) = mset es + mset m"
  by (induction es arbitrary: m) (auto simp: ins_all_def ins_mset)

lemma ins_all_sorted: "mm_sorted m \<Longrightarrow> mm_sorted (ins_all es m)"
  by (induction es arbitrary: m) (auto simp: ins_all_def ins_sorted)

lemma ins_set: "set (ins k v m) = insert (k, v) (set m)"
  using arg_cong [OF ins_mset, of set_mset k v m] by simp

lemma ins_length: "length (ins k v m) = Suc (length m)"
  using arg_cong [OF ins_mset, of size k v m] by simp

end

lemma mm_insert_mset: "mset (mm_insert k v m) = add_mset (k, v) (mset m)"
  by (induction m) auto

lemma mm_insert_set: "set (mm_insert k v m) = insert (k, v) (set m)"
  using arg_cong [OF mm_insert_mset, of set_mset k v m] by simp

lemma mm_insert_sorted: "mm_sorted m \<Longrightarrow> mm_sorted (mm_insert k v m)"
proof (induction m)
  case (Cons e m)
  then show ?case
    by (cases e) (auto simp: mm_sorted_def mm_insert_set)
qed (simp add: mm_sorted_def)

lemma mm_insert_stable: "mm_sorted m \<Longrightarrow> filter (\<lambda>e. fst e = k) (mm_insert k v m) = filter (\<lambda>e. fst e = k) m @ [(k, v)]"
proof (induction m)
  case (Cons e m)
  obtain k' v' where e: "e = (k', v')" by (cases e)
  have "filter (\<lambda>e. fst e = k) m = []" if "k < k'"
    using Cons.prems that e by (auto simp: mm_sorted_def filter_empty_conv)
  then show ?case using Cons e by (auto simp: mm_sorted_def)
qed simp

interpretation mm: ordered_multimap mm_insert
  by unfold_locales (simp_all add: mm_insert_mset mm_insert_sorted mm_insert_stable)

section \<open>State\<close>

record event =
  ev_id :: u16
  ev_groupMask :: u8
  ev_phaseMask :: u8

type_synonym ms = int

record EventMap =
  em_time :: ms
  em_phaseMask :: u8
  eventMap :: "(ms, event) multimap"
  lastEvent :: event

definition index_mask :: "u8 \<Rightarrow> u8" where
  "index_mask i = (if i \<noteq> 0 then push_bit (unat i - 1) 1 else 0)"

definition new_Event :: "u16 \<Rightarrow> u8 \<Rightarrow> u8 \<Rightarrow> event" where
  "new_Event eventId groupIndex phaseIndex =
     \<lparr>ev_id = eventId, ev_groupMask = index_mask groupIndex, ev_phaseMask = index_mask phaseIndex\<rparr>"

definition new_EventMap :: EventMap where
  "new_EventMap = \<lparr>em_time = 0, em_phaseMask = 0, eventMap = [], lastEvent = \<lparr>ev_id = 0, ev_groupMask = 0, ev_phaseMask = 0\<rparr>\<rparr>"

section \<open>Operations\<close>

definition em_Reset :: "EventMap \<Rightarrow> EventMap" where
  "em_Reset m = m\<lparr>eventMap := [], em_time := 0, em_phaseMask := 0\<rparr>"

definition em_Update :: "ms \<Rightarrow> EventMap \<Rightarrow> EventMap" where
  "em_Update time m = m\<lparr>em_time := em_time m + time\<rparr>"

definition em_Empty :: "EventMap \<Rightarrow> bool" where
  "em_Empty m = (eventMap m = [])"

definition SetPhase :: "u8 \<Rightarrow> EventMap \<Rightarrow> EventMap" where
  "SetPhase phase m =
     (if phase = 0 then m\<lparr>em_phaseMask := 0\<rparr>
      else if phase \<le> 8 then m\<lparr>em_phaseMask := push_bit (unat phase - 1) 1\<rparr>
      else m)"

definition AddPhase :: "u8 \<Rightarrow> EventMap \<Rightarrow> EventMap" where
  "AddPhase phase m =
     (if phase \<noteq> 0 \<and> phase \<le> 8 then m\<lparr>em_phaseMask := em_phaseMask m OR push_bit (unat phase - 1) 1\<rparr> else m)"

definition RemovePhase :: "u8 \<Rightarrow> EventMap \<Rightarrow> EventMap" where
  "RemovePhase phase m =
     (if phase \<noteq> 0 \<and> phase \<le> 8 then m\<lparr>em_phaseMask := em_phaseMask m AND NOT (push_bit (unat phase - 1) 1)\<rparr> else m)"

definition IsInPhase :: "u8 \<Rightarrow> EventMap \<Rightarrow> bool" where
  "IsInPhase phase m = (phase \<le> 8 \<and> (phase = 0 \<or> em_phaseMask m AND push_bit (unat phase - 1) 1 \<noteq> 0))"

definition ScheduleEvent :: "u16 \<Rightarrow> ms \<Rightarrow> u8 \<Rightarrow> u8 \<Rightarrow> EventMap \<Rightarrow> EventMap" where
  "ScheduleEvent eventId time grp phase m =
     (if grp > 8 \<or> phase > 8 then m
      else m\<lparr>eventMap := mm_insert (em_time m + time) (new_Event eventId grp phase) (eventMap m)\<rparr>)"

definition CancelEvent :: "u16 \<Rightarrow> EventMap \<Rightarrow> EventMap" where
  "CancelEvent eventId m =
     (if em_Empty m then m else m\<lparr>eventMap := filter (\<lambda>(t, e). eventId \<noteq> ev_id e) (eventMap m)\<rparr>)"

definition in_group :: "u8 \<Rightarrow> event \<Rightarrow> bool" where
  "in_group grp e = (ev_groupMask e AND push_bit (unat grp - 1) 1 \<noteq> 0)"

definition CancelEventGroup :: "u8 \<Rightarrow> EventMap \<Rightarrow> EventMap" where
  "CancelEventGroup grp m =
     (if grp = 0 \<or> grp > 8 \<or> em_Empty m then m
      else m\<lparr>eventMap := filter (\<lambda>(t, e). \<not> in_group grp e) (eventMap m)\<rparr>)"

definition RescheduleEvent :: "u16 \<Rightarrow> ms \<Rightarrow> u8 \<Rightarrow> u8 \<Rightarrow> EventMap \<Rightarrow> EventMap" where
  "RescheduleEvent eventId time grp phase m = ScheduleEvent eventId time grp phase (CancelEvent eventId m)"

definition Repeat :: "ms \<Rightarrow> EventMap \<Rightarrow> EventMap" where
  "Repeat time m = m\<lparr>eventMap := mm_insert (em_time m + time) (lastEvent m) (eventMap m)\<rparr>"

definition out_of_phase :: "u8 \<Rightarrow> event \<Rightarrow> bool" where
  "out_of_phase phases e = (phases \<noteq> 0 \<and> ev_phaseMask e \<noteq> 0 \<and> ev_phaseMask e AND phases = 0)"

text \<open>The loop of \<open>ExecuteEvent\<close> over the entries from the first on: the event to run, if any, and what is left.\<close>

fun execute_loop :: "ms \<Rightarrow> u8 \<Rightarrow> (ms, event) multimap \<Rightarrow> event option \<times> (ms, event) multimap" where
  "execute_loop now phases [] = (None, [])"
| "execute_loop now phases ((t, e) # rest) =
     (if t > now then (None, (t, e) # rest)
      else if out_of_phase phases e then execute_loop now phases rest
      else (Some e, rest))"

definition ExecuteEvent :: "EventMap \<Rightarrow> u16 \<times> EventMap" where
  "ExecuteEvent m =
     (case execute_loop (em_time m) (em_phaseMask m) (eventMap m) of
        (None, rest) \<Rightarrow> (0, m\<lparr>eventMap := rest\<rparr>)
      | (Some e, rest) \<Rightarrow> (ev_id e, m\<lparr>lastEvent := e, eventMap := rest\<rparr>))"

definition DelayEvents :: "ms \<Rightarrow> EventMap \<Rightarrow> EventMap" where
  "DelayEvents delay m = (if em_Empty m then m else m\<lparr>eventMap := map (\<lambda>(t, e). (t + delay, e)) (eventMap m)\<rparr>)"

definition DelayEvents_group :: "ms \<Rightarrow> u8 \<Rightarrow> EventMap \<Rightarrow> EventMap" where
  "DelayEvents_group delay grp m =
     (if grp = 0 \<or> grp > 8 \<or> em_Empty m then m
      else let delayed = mm.ins_all (map (\<lambda>(t, e). (t + delay, e)) (filter (\<lambda>(t, e). in_group grp e) (eventMap m))) []
           in m\<lparr>eventMap := mm.ins_all delayed (filter (\<lambda>(t, e). \<not> in_group grp e) (eventMap m))\<rparr>)"

text \<open>The loop of \<open>SetMinimalDelay\<close>: an early entry of the event is inserted again at the limit, which lies
  behind the iterator, and erased; the loop meets it again there.\<close>

definition early :: "u16 \<Rightarrow> ms \<Rightarrow> ms \<times> event \<Rightarrow> bool" where
  "early eventId limit x = (eventId = ev_id (snd x) \<and> fst x < limit)"

lemma early_insert:
  "length (filter (early i l) (mm_insert l v m)) = length (filter (early i l) m)"
proof -
  have "filter_mset (early i l) (mset (mm_insert l v m)) = filter_mset (early i l) (mset m)"
    by (simp add: mm_insert_mset early_def)
  then show ?thesis by (metis mset_filter size_mset)
qed

function min_delay_loop :: "u16 \<Rightarrow> ms \<Rightarrow> (ms, event) multimap \<Rightarrow> (ms, event) multimap" where
  "min_delay_loop eventId limit [] = []"
| "min_delay_loop eventId limit (x # rest) =
     (if early eventId limit x then min_delay_loop eventId limit (mm_insert limit (snd x) rest)
      else x # min_delay_loop eventId limit rest)"
  by pat_completeness auto
termination
  by (relation "measures [\<lambda>(i, l, m). length (filter (early i l) m), \<lambda>(i, l, m). length m]") (auto simp: early_insert)

definition SetMinimalDelay :: "u16 \<Rightarrow> ms \<Rightarrow> EventMap \<Rightarrow> EventMap" where
  "SetMinimalDelay eventId delay m =
     (if em_Empty m then m else m\<lparr>eventMap := min_delay_loop eventId (em_time m + delay) (eventMap m)\<rparr>)"

definition MS_MAX :: ms where "MS_MAX = 2 ^ 63 - 1"

fun time_until :: "u16 \<Rightarrow> ms \<Rightarrow> (ms, event) multimap \<Rightarrow> ms" where
  "time_until eventId now [] = MS_MAX"
| "time_until eventId now ((t, e) # rest) = (if eventId = ev_id e then t - now else time_until eventId now rest)"

definition GetTimeUntilEvent :: "u16 \<Rightarrow> EventMap \<Rightarrow> ms" where
  "GetTimeUntilEvent eventId m = time_until eventId (em_time m) (eventMap m)"

definition HasEventScheduled :: "u16 \<Rightarrow> EventMap \<Rightarrow> bool" where
  "HasEventScheduled eventId m = (GetTimeUntilEvent eventId m \<noteq> MS_MAX)"

section \<open>Steps\<close>

inductive em_step :: "EventMap \<Rightarrow> EventMap \<Rightarrow> bool" where
  em_step_reset: "em_step m (em_Reset m)"
| em_step_update: "em_step m (em_Update time m)"
| em_step_set_phase: "em_step m (SetPhase phase m)"
| em_step_add_phase: "em_step m (AddPhase phase m)"
| em_step_remove_phase: "em_step m (RemovePhase phase m)"
| em_step_schedule: "em_step m (ScheduleEvent i time grp phase m)"
| em_step_reschedule: "em_step m (RescheduleEvent i time grp phase m)"
| em_step_repeat: "em_step m (Repeat time m)"
| em_step_execute: "em_step m (snd (ExecuteEvent m))"
| em_step_delay: "em_step m (DelayEvents delay m)"
| em_step_delay_group: "em_step m (DelayEvents_group delay grp m)"
| em_step_min_delay: "em_step m (SetMinimalDelay i delay m)"
| em_step_cancel: "em_step m (CancelEvent i m)"
| em_step_cancel_group: "em_step m (CancelEventGroup grp m)"

definition em_init :: "EventMap \<Rightarrow> bool" where
  "em_init m = (eventMap m = [])"

definition em_inv :: "EventMap \<Rightarrow> bool" where
  "em_inv m = mm_sorted (eventMap m)"

lemma sorted_filter: "mm_sorted m \<Longrightarrow> mm_sorted (filter P m)"
  by (simp add: mm_sorted_def sorted_filter)

lemma sorted_Cons: "mm_sorted (x # m) \<longleftrightarrow> (\<forall>y \<in> set m. fst x \<le> fst y) \<and> mm_sorted m"
  by (auto simp: mm_sorted_def)

lemma sorted_shift: "mm_sorted m \<Longrightarrow> mm_sorted (map (\<lambda>(t, e). (t + (d :: int), e)) m)"
  by (induction m) (auto simp: mm_sorted_def)

lemma execute_loop_sorted: "mm_sorted m \<Longrightarrow> mm_sorted (snd (execute_loop now phases m))"
  by (induction now phases m rule: execute_loop.induct) (auto simp: sorted_Cons)

lemma ExecuteEvent_map: "eventMap (snd (ExecuteEvent m)) = snd (execute_loop (em_time m) (em_phaseMask m) (eventMap m))"
  by (simp add: ExecuteEvent_def split: prod.split option.split)

definition push_back :: "u16 \<Rightarrow> ms \<Rightarrow> ms \<times> event \<Rightarrow> ms \<times> event" where
  "push_back eventId limit x = (if eventId = ev_id (snd x) then max (fst x) limit else fst x, snd x)"

lemma min_delay_loop_mset: "mset (min_delay_loop i l m) = image_mset (push_back i l) (mset m)"
proof (induction i l m rule: min_delay_loop.induct)
  case (2 i l x rest)
  show ?case
  proof (cases "early i l x")
    case True
    then have "push_back i l x = (l, snd x)" "push_back i l (l, snd x) = (l, snd x)" by (auto simp: push_back_def early_def)
    then show ?thesis using True 2 by (simp add: mm_insert_mset)
  next
    case False
    then have "push_back i l x = x" by (cases x) (auto simp: push_back_def early_def)
    then show ?thesis using False 2 by simp
  qed
qed simp

lemma min_delay_loop_set: "set (min_delay_loop i l m) = push_back i l ` set m"
  using arg_cong [OF min_delay_loop_mset, of set_mset i l m] by simp

lemma min_delay_loop_sorted: "mm_sorted m \<Longrightarrow> mm_sorted (min_delay_loop i l m)"
proof (induction i l m rule: min_delay_loop.induct)
  case (2 i l x rest)
  show ?case
  proof (cases "early i l x")
    case True
    then show ?thesis using 2 by (simp add: mm_insert_sorted sorted_Cons)
  next
    case False
    have "fst x \<le> fst (push_back i l y)" if "y \<in> set rest" for y
      using 2(3) that by (auto simp: sorted_Cons push_back_def max_def intro: order_trans)
    then show ?thesis using False 2 by (auto simp: sorted_Cons min_delay_loop_set)
  qed
qed simp

lemma em_inv_ops:
  assumes "em_inv m"
  shows "em_inv (CancelEvent i m)" "em_inv (ScheduleEvent i time grp phase m)" "em_inv (snd (ExecuteEvent m))"
    "em_inv (DelayEvents_group delay grp m)" "em_inv (SetMinimalDelay i delay m)" "em_inv (DelayEvents delay m)"
  using assms
  by (simp_all add: em_inv_def CancelEvent_def ScheduleEvent_def ExecuteEvent_map execute_loop_sorted
      DelayEvents_group_def SetMinimalDelay_def DelayEvents_def Let_def sorted_filter mm_insert_sorted mm.ins_all_sorted
      min_delay_loop_sorted sorted_shift)

lemma em_inv_step: "em_inv m \<Longrightarrow> em_step m m' \<Longrightarrow> em_inv m'"
  by (erule em_step.cases)
    (auto simp: em_inv_ops RescheduleEvent_def em_inv_def em_Reset_def em_Update_def SetPhase_def AddPhase_def RemovePhase_def
      Repeat_def mm_insert_sorted CancelEventGroup_def sorted_filter mm_sorted_def [of "[]"]
      intro: em_inv_ops [unfolded em_inv_def])

interpretation event_map: invariant_system em_init em_step em_inv
  by unfold_locales (auto simp: em_init_def em_inv_def mm_sorted_def intro: em_inv_step [unfolded em_inv_def mm_sorted_def])

section \<open>Properties\<close>

lemma execute_loop_spec:
  "execute_loop now phases m = (None, rest) \<Longrightarrow> mm_sorted m \<Longrightarrow>
     rest = filter (\<lambda>(t, e). t > now) m \<and> list_all (\<lambda>(t, e). t \<le> now \<longrightarrow> out_of_phase phases e) m"
  "execute_loop now phases m = (Some e, rest) \<Longrightarrow>
     \<exists>pre t. m = pre @ (t, e) # rest \<and> t \<le> now \<and> \<not> out_of_phase phases e
       \<and> list_all (\<lambda>(t', e'). t' \<le> now \<and> out_of_phase phases e') pre"
proof (induction now phases m rule: execute_loop.induct)
  case (2 now phases t e' m)
  { case 1
    have later: "filter (\<lambda>(t, e). now < t) m = m" if "now < t"
      using 1(2) that by (auto simp: sorted_Cons filter_id_conv)
    have due: "list_all (\<lambda>(t, e). t \<le> now \<longrightarrow> out_of_phase phases e) m" if "now < t"
      using 1(2) that by (auto simp: sorted_Cons list_all_iff)
    show ?case using 1 2(1) later due by (auto simp: sorted_Cons split: if_splits) }
  { case 2
    show ?case
    proof (cases "now < t \<or> \<not> out_of_phase phases e'")
      case True
      then show ?thesis using 2 by (auto split: if_splits intro!: exI [of _ "[]"])
    next
      case False
      then obtain pre t0 where "m = pre @ (t0, e) # rest" "t0 \<le> now" "\<not> out_of_phase phases e"
          "list_all (\<lambda>(t', e'). t' \<le> now \<and> out_of_phase phases e') pre"
        using "2.IH"(2) 2 by auto
      then show ?thesis using False by (intro exI [of _ "(t, e') # pre"] exI [of _ t0]) auto
    qed }
qed auto

text \<open>Claim C27: in every map that scripts can build, executing an event runs the earliest due event of the current
  phases and drops, of what lies before it, only due events of other phases; when it returns without an event,
  exactly the events that are not yet due stay.\<close>

theorem ExecuteEvent_spec:
  assumes "em_init s" "em_step\<^sup>*\<^sup>* s m"
  shows "(\<exists>pre t e rest. eventMap m = pre @ (t, e) # rest \<and> t \<le> em_time m \<and> \<not> out_of_phase (em_phaseMask m) e
      \<and> list_all (\<lambda>(t', e'). t' \<le> em_time m \<and> out_of_phase (em_phaseMask m) e') pre
      \<and> list_all (\<lambda>(t', e'). t \<le> t') rest
      \<and> ExecuteEvent m = (ev_id e, m\<lparr>lastEvent := e, eventMap := rest\<rparr>))
    \<or> (list_all (\<lambda>(t, e). t \<le> em_time m \<longrightarrow> out_of_phase (em_phaseMask m) e) (eventMap m)
      \<and> ExecuteEvent m = (0, m\<lparr>eventMap := filter (\<lambda>(t, e). t > em_time m) (eventMap m)\<rparr>))"
proof -
  have sorted: "mm_sorted (eventMap m)" using event_map.invar_reachable [OF assms] by (simp add: em_inv_def)
  obtain r rest where l: "execute_loop (em_time m) (em_phaseMask m) (eventMap m) = (r, rest)" by fastforce
  show ?thesis
  proof (cases r)
    case None
    then show ?thesis using l execute_loop_spec(1) [OF _ sorted] by (auto simp: ExecuteEvent_def)
  next
    case (Some e)
    then obtain pre t where sp: "eventMap m = pre @ (t, e) # rest" "t \<le> em_time m" "\<not> out_of_phase (em_phaseMask m) e"
        "list_all (\<lambda>(t', e'). t' \<le> em_time m \<and> out_of_phase (em_phaseMask m) e') pre"
      using l execute_loop_spec(2) by blast
    then have "list_all (\<lambda>(t', e'). t \<le> t') rest"
      using sorted by (auto simp: mm_sorted_def sorted_append list_all_iff)
    then show ?thesis using sp l Some by (auto simp: ExecuteEvent_def)
  qed
qed

definition demo_map :: EventMap where
  "demo_map = em_Update 10 (ScheduleEvent 2 5 0 0 (ScheduleEvent 1 30 0 0 new_EventMap))"

lemma demo_map_steps: "em_init new_EventMap" "em_step\<^sup>*\<^sup>* new_EventMap demo_map"
proof -
  show "em_init new_EventMap" by (simp add: em_init_def new_EventMap_def)
  let ?a = "ScheduleEvent 1 30 0 0 new_EventMap"
  have "em_step new_EventMap ?a" by (rule em_step_schedule)
  moreover have "em_step ?a (ScheduleEvent 2 5 0 0 ?a)" by (rule em_step_schedule)
  moreover have "em_step (ScheduleEvent 2 5 0 0 ?a) demo_map" unfolding demo_map_def by (rule em_step_update)
  ultimately show "em_step\<^sup>*\<^sup>* new_EventMap demo_map" by (auto intro: rtranclp.rtrancl_into_rtrancl)
qed

theorem ExecuteEvent_spec_witness: "fst (ExecuteEvent demo_map) = 2 \<and> list_all (\<lambda>(t, e). t = 30) (eventMap (snd (ExecuteEvent demo_map)))"
proof -
  have "eventMap demo_map = [(5, new_Event 2 0 0), (30, new_Event 1 0 0)]" "em_time demo_map = 10" "em_phaseMask demo_map = 0"
    by (simp_all add: demo_map_def em_Update_def ScheduleEvent_def new_EventMap_def)
  then show ?thesis
    using ExecuteEvent_spec [OF demo_map_steps] by (auto simp: Cons_eq_append_conv new_Event_def out_of_phase_def)
qed

definition delay_group :: "u8 \<Rightarrow> ms \<Rightarrow> ms \<times> event \<Rightarrow> ms \<times> event" where
  "delay_group grp delay x = (if in_group grp (snd x) then (fst x + delay, snd x) else x)"

lemma image_mset_partition:
  assumes "\<And>x. P x \<Longrightarrow> f x = g x" "\<And>x. \<not> P x \<Longrightarrow> f x = x"
  shows "image_mset f M = image_mset g (filter_mset P M) + filter_mset (\<lambda>x. \<not> P x) M"
  using assms by (induction M) auto

text \<open>The operations that move events change the times they should and nothing else: a minimal delay moves
  the earlier occurrences of an event to the limit, a group delay adds the delay to the events of the group, and
  no event is lost or doubled.\<close>

theorem delays_spec:
  "mset (eventMap (SetMinimalDelay i delay m)) = image_mset (push_back i (em_time m + delay)) (mset (eventMap m))
   \<and> mset (eventMap (DelayEvents_group delay grp m))
       = image_mset (if grp = 0 \<or> grp > 8 then id else delay_group grp delay) (mset (eventMap m))
   \<and> mset (eventMap (DelayEvents delay m)) = image_mset (\<lambda>(t, e). (t + delay, e)) (mset (eventMap m))"
proof -
  let ?in = "\<lambda>(t, e). in_group grp e"
  have "image_mset (delay_group grp delay) M
      = image_mset (\<lambda>(t, e). (t + delay, e)) (filter_mset ?in M) + filter_mset (\<lambda>x. \<not> ?in x) M" for M
    by (rule image_mset_partition) (auto simp: delay_group_def)
  then have "mset (eventMap (DelayEvents_group delay grp m))
       = image_mset (if grp = 0 \<or> grp > 8 then id else delay_group grp delay) (mset (eventMap m))"
    by (auto simp: DelayEvents_group_def Let_def mm.ins_all_mset em_Empty_def case_prod_unfold)
  then show ?thesis
    by (auto simp: SetMinimalDelay_def DelayEvents_def em_Empty_def min_delay_loop_mset)
qed

lemma time_until_absent: "list_all (\<lambda>(t, e). i \<noteq> ev_id e) m \<Longrightarrow> time_until i now m = MS_MAX"
  by (induction m) auto

lemma time_until_insert:
  "list_all (\<lambda>(t, e). ev_id v \<noteq> ev_id e) m \<Longrightarrow> time_until (ev_id v) now (mm_insert k v m) = k - now"
  by (induction m) auto

lemma CancelEvent_absent: "list_all (\<lambda>(t, e). i \<noteq> ev_id e) (eventMap (CancelEvent i m))"
  by (auto simp: CancelEvent_def list_all_iff em_Empty_def)

text \<open>A cancelled event is no longer scheduled, and a rescheduled one is scheduled once, at the new time.\<close>

theorem RescheduleEvent_spec:
  assumes "grp \<le> 8" "phase \<le> 8" "time \<noteq> MS_MAX"
  shows "\<not> HasEventScheduled i (CancelEvent i m)
    \<and> HasEventScheduled i (RescheduleEvent i time grp phase m)
    \<and> GetTimeUntilEvent i (RescheduleEvent i time grp phase m) = time
    \<and> length (filter (\<lambda>(t, e). ev_id e = i) (eventMap (RescheduleEvent i time grp phase m))) = 1"
proof -
  let ?c = "CancelEvent i m" and ?v = "new_Event i grp phase"
  have v: "ev_id ?v = i" by (simp add: new_Event_def)
  have c: "list_all (\<lambda>(t, e). ev_id ?v \<noteq> ev_id e) (eventMap ?c)" using CancelEvent_absent [of i m] v by simp
  have r: "RescheduleEvent i time grp phase m = ?c\<lparr>eventMap := mm_insert (em_time ?c + time) ?v (eventMap ?c)\<rparr>"
    using assms(1,2) by (simp add: RescheduleEvent_def ScheduleEvent_def not_less [symmetric])
  have t: "GetTimeUntilEvent i (RescheduleEvent i time grp phase m) = time"
    using time_until_insert [OF c] v by (simp add: GetTimeUntilEvent_def r)
  have "filter_mset (\<lambda>(t, e). ev_id e = i) (mset (eventMap ?c)) = {#}"
    using c v by (auto simp: filter_mset_eq_conv list_all_iff)
  then have "mset (filter (\<lambda>(t, e). ev_id e = i) (mm_insert (em_time ?c + time) ?v (eventMap ?c))) = {#(em_time ?c + time, ?v)#}"
    by (simp add: mm_insert_mset v)
  from arg_cong [OF this, of size]
  have "length (filter (\<lambda>(t, e). ev_id e = i) (eventMap (RescheduleEvent i time grp phase m))) = 1"
    by (simp only: size_mset size_single r) simp
  then show ?thesis
    using t assms(3) time_until_absent [OF CancelEvent_absent [of i m]] by (simp add: HasEventScheduled_def GetTimeUntilEvent_def)
qed

theorem RescheduleEvent_spec_witness: "GetTimeUntilEvent 1 (RescheduleEvent 1 7 0 0 demo_map) = 7"
  using RescheduleEvent_spec [of 0 0 7 1 demo_map] by (simp add: MS_MAX_def)

end
