(* ===== verification/Rbac.thy ===== *)
theory Rbac
  imports Prelude "HOL-Library.Product_Lexorder" "HOL-Library.While_Combinator"
begin

text \<open>
  Role based access control: \<open>src/server/game/Accounts/RBAC.cpp\<close>, \<open>RBAC.h\<close>, the permission tables of
  \<open>AccountMgr.cpp\<close> and the commands of \<open>src/server/scripts/Commands/cs_rbac.cpp\<close>. A
  \<open>std::set<uint32>\<close> is a \<open>u32 set\<close> (its first element is the minimum), an \<open>int32\<close> realm id a
  \<open>u32\<close> read with \<open>sint\<close>, so that all realms is \<open>- 1\<close>. The table \<open>rbac_account_permissions\<close> of the
  login database is a list of rows on which the three prepared statements of \<open>LoginDatabase.cpp\<close> act.
\<close>

section \<open>Permissions\<close>

record RBACPermission =
  perm_id :: u32
  perm_name :: string
  perm_links :: "u32 set"

text \<open>\<open>AccountMgr\<close>: the map of permissions holds pointers, so an entry may be null.\<close>

record AccountMgr =
  permissions :: "u32 \<rightharpoonup> RBACPermission option"
  defaultPermissions :: "u8 \<rightharpoonup> u32 set"

definition ClearRBAC :: AccountMgr where
  "ClearRBAC = \<lparr>permissions = Map.empty, defaultPermissions = Map.empty\<rparr>"

definition GetRBACPermission :: "AccountMgr \<Rightarrow> u32 \<Rightarrow> RBACPermission option" where
  "GetRBACPermission am permissionId = (case permissions am permissionId of Some p \<Rightarrow> p | None \<Rightarrow> None)"

definition GetRBACDefaultPermissions :: "AccountMgr \<Rightarrow> u8 \<Rightarrow> u32 set" where
  "GetRBACDefaultPermissions am secLevel = (case defaultPermissions am secLevel of Some s \<Rightarrow> s | None \<Rightarrow> {})"

definition AddLinkedPermission :: "u32 \<Rightarrow> RBACPermission \<Rightarrow> RBACPermission" where
  "AddLinkedPermission l p = p\<lparr>perm_links := insert l (perm_links p)\<rparr>"

section \<open>Loading the permission tables\<close>

datatype rbac_error = NullDereference

text \<open>The loop over \<open>rbac_linked_permissions\<close>. \<open>permissionId\<close> and the pointer \<open>permission\<close> survive
  from one row to the next; a pointer that is not null is the id of the object it points to.\<close>

fun load_links :: "u32 \<Rightarrow> u32 option \<Rightarrow> (u32 \<times> u32) list \<Rightarrow> AccountMgr \<Rightarrow> rbac_error + AccountMgr" where
  "load_links permissionId permission [] am = Inr am"
| "load_links permissionId permission ((newId, linkedPermissionId) # rows) am =
    (let (permissionId, permission, am) =
       (if permissionId \<noteq> newId
        then (newId, (case GetRBACPermission am newId of Some _ \<Rightarrow> Some newId | None \<Rightarrow> None),
              (if permissions am newId = None then am\<lparr>permissions := (permissions am)(newId \<mapsto> None)\<rparr> else am))
        else (permissionId, permission, am))
     in if linkedPermissionId = permissionId then load_links permissionId permission rows am
        else (case permission of
            None \<Rightarrow> Inl NullDereference
          | Some k \<Rightarrow> load_links permissionId permission rows
              (am\<lparr>permissions := (permissions am)(k \<mapsto>
                 map_option (AddLinkedPermission linkedPermissionId) (GetRBACPermission am k))\<rparr>)))"

text \<open>The loop over \<open>rbac_default_permissions\<close>; the level is narrowed to \<open>uint8\<close> when it is stored.\<close>

fun load_defaults :: "(u32 \<times> u32) list \<Rightarrow> AccountMgr \<Rightarrow> AccountMgr" where
  "load_defaults [] am = am"
| "load_defaults ((newId, p) # rows) am =
    (let secId = ucast newId :: u8
     in load_defaults rows
          (am\<lparr>defaultPermissions := (defaultPermissions am)(secId \<mapsto> insert p (GetRBACDefaultPermissions am secId))\<rparr>))"

definition LoadRBAC :: "(u32 \<times> string) list \<Rightarrow> (u32 \<times> u32) list \<Rightarrow> (u32 \<times> u32) list \<Rightarrow> rbac_error + AccountMgr" where
  "LoadRBAC perm_rows link_rows default_rows =
    (if perm_rows = [] then Inr ClearRBAC
     else let am = ClearRBAC\<lparr>permissions :=
            fold (\<lambda>(i, n) m. m(i \<mapsto> Some \<lparr>perm_id = i, perm_name = n, perm_links = {}\<rparr>)) perm_rows Map.empty\<rparr>
     in if link_rows = [] then Inr am
        else (case load_links 0 None (sort_key fst link_rows) am of
            Inl e \<Rightarrow> Inl e
          | Inr am \<Rightarrow> Inr (if default_rows = [] then am else load_defaults (sort_key fst default_rows) am)))"

section \<open>The permissions of an account\<close>

datatype RBACCommandResult = RBAC_OK | RBAC_CANT_ADD_ALREADY_ADDED | RBAC_CANT_REVOKE_NOT_IN_LIST
  | RBAC_IN_GRANTED_LIST | RBAC_IN_DENIED_LIST | RBAC_ID_DOES_NOT_EXISTS

record RBACData =
  rb_id :: u32
  rb_name :: string
  rb_realmId :: u32
  secLevel :: u8
  grantedPerms :: "u32 set"
  deniedPerms :: "u32 set"
  globalPerms :: "u32 set"

definition new_RBACData :: "u32 \<Rightarrow> string \<Rightarrow> u32 \<Rightarrow> u8 \<Rightarrow> RBACData" where
  "new_RBACData i n realm lvl = \<lparr>rb_id = i, rb_name = n, rb_realmId = realm, secLevel = lvl,
     grantedPerms = {}, deniedPerms = {}, globalPerms = {}\<rparr>"

subsection \<open>The stored rows\<close>

record rbac_row =
  row_account :: u32
  row_permission :: u32
  row_granted :: bool
  row_realm :: u32

type_synonym rbac_table = "rbac_row list"

definition SEL_RBAC_ACCOUNT_PERMISSIONS :: "u32 \<Rightarrow> u32 \<Rightarrow> rbac_table \<Rightarrow> rbac_row list" where
  "SEL_RBAC_ACCOUNT_PERMISSIONS a realm t =
    sort_key (\<lambda>r. (row_permission r, sint (row_realm r)))
      (filter (\<lambda>r. row_account r = a \<and> (row_realm r = realm \<or> row_realm r = - 1)) t)"

definition INS_RBAC_ACCOUNT_PERMISSION :: "u32 \<Rightarrow> u32 \<Rightarrow> bool \<Rightarrow> u32 \<Rightarrow> rbac_table \<Rightarrow> rbac_table" where
  "INS_RBAC_ACCOUNT_PERMISSION a p g realm t =
    (let same = (\<lambda>r. row_account r = a \<and> row_permission r = p \<and> row_realm r = realm)
     in if list_ex same t then map (\<lambda>r. if same r then r\<lparr>row_granted := g\<rparr> else r) t
        else t @ [\<lparr>row_account = a, row_permission = p, row_granted = g, row_realm = realm\<rparr>])"

definition DEL_RBAC_ACCOUNT_PERMISSION :: "u32 \<Rightarrow> u32 \<Rightarrow> u32 \<Rightarrow> rbac_table \<Rightarrow> rbac_table" where
  "DEL_RBAC_ACCOUNT_PERMISSION a p realm t =
    filter (\<lambda>r. \<not> (row_account r = a \<and> row_permission r = p \<and> (row_realm r = realm \<or> row_realm r = - 1))) t"

subsection \<open>Effective permissions\<close>

text \<open>\<open>ExpandPermissions\<close>: the condition and the body of its loop over \<open>toCheck\<close> and \<open>permissions\<close>.\<close>

type_synonym expand_state = "u32 set \<times> u32 set"

definition expand_cond :: "expand_state \<Rightarrow> bool" where
  "expand_cond s = (fst s \<noteq> {})"

definition expand_body :: "AccountMgr \<Rightarrow> expand_state \<Rightarrow> expand_state" where
  "expand_body am s =
    (let permissionId = Min (fst s);
         toCheck = fst s - {permissionId}
     in case GetRBACPermission am permissionId of
          None \<Rightarrow> (toCheck, snd s)
        | Some permission \<Rightarrow>
            let perms = insert permissionId (snd s)
            in (toCheck \<union> Set.filter (\<lambda>linkedPerm. linkedPerm \<notin> perms) (perm_links permission), perms))"

definition ExpandPermissions :: "AccountMgr \<Rightarrow> u32 set \<Rightarrow> u32 set" where
  "ExpandPermissions am perms = snd (while expand_cond (expand_body am) (perms, {}))"

definition RemovePermissions :: "u32 set \<Rightarrow> u32 set \<Rightarrow> u32 set" where
  "RemovePermissions permsFrom permsToRemove = fold (\<lambda>p s. s - {p}) (sorted_list_of_set permsToRemove) permsFrom"

definition CalculateNewPermissions :: "AccountMgr \<Rightarrow> RBACData \<Rightarrow> RBACData" where
  "CalculateNewPermissions am rb =
    rb\<lparr>globalPerms := RemovePermissions (ExpandPermissions am (grantedPerms rb)) (ExpandPermissions am (deniedPerms rb))\<rparr>"

definition HasPermission :: "RBACData \<Rightarrow> u32 \<Rightarrow> bool" where
  "HasPermission rb p = (p \<in> globalPerms rb)"

subsection \<open>Operations\<close>

definition HasGrantedPermission :: "RBACData \<Rightarrow> u32 \<Rightarrow> bool" where
  "HasGrantedPermission rb p = (p \<in> grantedPerms rb)"

definition HasDeniedPermission :: "RBACData \<Rightarrow> u32 \<Rightarrow> bool" where
  "HasDeniedPermission rb p = (p \<in> deniedPerms rb)"

definition AddGrantedPermission :: "u32 \<Rightarrow> RBACData \<Rightarrow> RBACData" where
  "AddGrantedPermission p rb = rb\<lparr>grantedPerms := insert p (grantedPerms rb)\<rparr>"

definition RemoveGrantedPermission :: "u32 \<Rightarrow> RBACData \<Rightarrow> RBACData" where
  "RemoveGrantedPermission p rb = rb\<lparr>grantedPerms := grantedPerms rb - {p}\<rparr>"

definition AddDeniedPermission :: "u32 \<Rightarrow> RBACData \<Rightarrow> RBACData" where
  "AddDeniedPermission p rb = rb\<lparr>deniedPerms := insert p (deniedPerms rb)\<rparr>"

definition RemoveDeniedPermission :: "u32 \<Rightarrow> RBACData \<Rightarrow> RBACData" where
  "RemoveDeniedPermission p rb = rb\<lparr>deniedPerms := deniedPerms rb - {p}\<rparr>"

text \<open>The account data and the table it is saved to.\<close>

type_synonym rbac_state = "RBACData \<times> rbac_table"

definition SavePermission :: "u32 \<Rightarrow> bool \<Rightarrow> u32 \<Rightarrow> rbac_state \<Rightarrow> rbac_state" where
  "SavePermission p g realm s = (fst s, INS_RBAC_ACCOUNT_PERMISSION (rb_id (fst s)) p g realm (snd s))"

definition GrantPermission :: "AccountMgr \<Rightarrow> u32 \<Rightarrow> u32 \<Rightarrow> rbac_state \<Rightarrow> RBACCommandResult \<times> rbac_state" where
  "GrantPermission am permissionId realmId s =
    (if GetRBACPermission am permissionId = None then (RBAC_ID_DOES_NOT_EXISTS, s)
     else if HasDeniedPermission (fst s) permissionId then (RBAC_IN_DENIED_LIST, s)
     else if HasGrantedPermission (fst s) permissionId then (RBAC_CANT_ADD_ALREADY_ADDED, s)
     else let s = apfst (AddGrantedPermission permissionId) s
          in (RBAC_OK, if realmId \<noteq> 0
                       then apfst (CalculateNewPermissions am) (SavePermission permissionId True realmId s)
                       else s))"

definition DenyPermission :: "AccountMgr \<Rightarrow> u32 \<Rightarrow> u32 \<Rightarrow> rbac_state \<Rightarrow> RBACCommandResult \<times> rbac_state" where
  "DenyPermission am permissionId realmId s =
    (if GetRBACPermission am permissionId = None then (RBAC_ID_DOES_NOT_EXISTS, s)
     else if HasGrantedPermission (fst s) permissionId then (RBAC_IN_GRANTED_LIST, s)
     else if HasDeniedPermission (fst s) permissionId then (RBAC_CANT_ADD_ALREADY_ADDED, s)
     else let s = apfst (AddDeniedPermission permissionId) s
          in (RBAC_OK, if realmId \<noteq> 0
                       then apfst (CalculateNewPermissions am) (SavePermission permissionId False realmId s)
                       else s))"

definition RevokePermission :: "AccountMgr \<Rightarrow> u32 \<Rightarrow> u32 \<Rightarrow> rbac_state \<Rightarrow> RBACCommandResult \<times> rbac_state" where
  "RevokePermission am permissionId realmId s =
    (if \<not> HasGrantedPermission (fst s) permissionId \<and> \<not> HasDeniedPermission (fst s) permissionId
     then (RBAC_CANT_REVOKE_NOT_IN_LIST, s)
     else let s = apfst (RemoveDeniedPermission permissionId \<circ> RemoveGrantedPermission permissionId) s
          in (RBAC_OK, if realmId \<noteq> 0
                       then (CalculateNewPermissions am (fst s),
                             DEL_RBAC_ACCOUNT_PERMISSION (rb_id (fst s)) permissionId realmId (snd s))
                       else s))"

definition ClearData :: "RBACData \<Rightarrow> RBACData" where
  "ClearData rb = rb\<lparr>grantedPerms := {}, deniedPerms := {}, globalPerms := {}\<rparr>"

definition load_row :: "AccountMgr \<Rightarrow> rbac_row \<Rightarrow> rbac_state \<Rightarrow> rbac_state" where
  "load_row am r s =
    (if row_granted r then snd (GrantPermission am (row_permission r) 0 s)
     else snd (DenyPermission am (row_permission r) 0 s))"

definition LoadFromDBCallback :: "AccountMgr \<Rightarrow> rbac_row list \<Rightarrow> rbac_state \<Rightarrow> rbac_state" where
  "LoadFromDBCallback am result s =
    (let s = fold (load_row am) result s;
         s = fold (\<lambda>p s. snd (GrantPermission am p 0 s))
               (sorted_list_of_set (GetRBACDefaultPermissions am (secLevel (fst s)))) s
     in apfst (CalculateNewPermissions am) s)"

definition LoadFromDB :: "AccountMgr \<Rightarrow> rbac_state \<Rightarrow> rbac_state" where
  "LoadFromDB am s =
    (let s = apfst ClearData s
     in LoadFromDBCallback am (SEL_RBAC_ACCOUNT_PERMISSIONS (rb_id (fst s)) (rb_realmId (fst s)) (snd s)) s)"

definition SetSecurityLevel :: "AccountMgr \<Rightarrow> u8 \<Rightarrow> rbac_state \<Rightarrow> rbac_state" where
  "SetSecurityLevel am lvl s = LoadFromDB am (apfst (\<lambda>rb. rb\<lparr>secLevel := lvl\<rparr>) s)"

section \<open>Security levels\<close>

text \<open>The table \<open>account_access\<close>, its prepared statements, and the two functions of \<open>AccountMgr\<close> on it.\<close>

record access_row =
  acc_account :: u32
  acc_level :: u8
  acc_realm :: u32

type_synonym access_table = "access_row list"

definition GET_GMLEVEL_BY_REALMID :: "u32 \<Rightarrow> u32 \<Rightarrow> access_table \<Rightarrow> access_row list" where
  "GET_GMLEVEL_BY_REALMID a realm t =
    sort_key (\<lambda>r. - sint (acc_realm r)) (filter (\<lambda>r. acc_account r = a \<and> (acc_realm r = realm \<or> acc_realm r = - 1)) t)"

definition GetSecurity :: "u32 \<Rightarrow> u32 \<Rightarrow> access_table \<Rightarrow> u8" where
  "GetSecurity accountId realmId t =
    (case GET_GMLEVEL_BY_REALMID accountId realmId t of [] \<Rightarrow> 0 | r # _ \<Rightarrow> acc_level r)"

definition DEL_ACCOUNT_ACCESS :: "u32 \<Rightarrow> access_table \<Rightarrow> access_table" where
  "DEL_ACCOUNT_ACCESS a t = filter (\<lambda>r. acc_account r \<noteq> a) t"

definition DEL_ACCOUNT_ACCESS_BY_REALM :: "u32 \<Rightarrow> u32 \<Rightarrow> access_table \<Rightarrow> access_table" where
  "DEL_ACCOUNT_ACCESS_BY_REALM a realm t =
    filter (\<lambda>r. \<not> (acc_account r = a \<and> (acc_realm r = realm \<or> acc_realm r = - 1))) t"

definition INS_ACCOUNT_ACCESS :: "u32 \<Rightarrow> u8 \<Rightarrow> u32 \<Rightarrow> access_table \<Rightarrow> access_table" where
  "INS_ACCOUNT_ACCESS a lvl realm t = t @ [\<lparr>acc_account = a, acc_level = lvl, acc_realm = realm\<rparr>]"

definition UpdateAccountAccess ::
    "AccountMgr \<Rightarrow> RBACData option \<Rightarrow> u32 \<Rightarrow> u8 \<Rightarrow> u32 \<Rightarrow> rbac_table \<times> access_table \<Rightarrow> RBACData option \<times> access_table" where
  "UpdateAccountAccess am rbac accountId securityLevel realmId db =
    ((case rbac of
        None \<Rightarrow> None
      | Some rb \<Rightarrow> Some (if securityLevel \<noteq> secLevel rb then fst (SetSecurityLevel am securityLevel (rb, fst db)) else rb)),
     (let t = (if realmId = - 1 then DEL_ACCOUNT_ACCESS accountId (snd db)
               else DEL_ACCOUNT_ACCESS_BY_REALM accountId realmId (snd db))
      in if securityLevel \<noteq> 0 then INS_ACCOUNT_ACCESS accountId securityLevel realmId t else t))"

definition AccountMgr_HasPermission :: "AccountMgr \<Rightarrow> rbac_table \<Rightarrow> access_table \<Rightarrow> u32 \<Rightarrow> u32 \<Rightarrow> u32 \<Rightarrow> bool" where
  "AccountMgr_HasPermission am t acc accountId permissionId realmId =
    (if accountId = 0 then False
     else HasPermission (fst (LoadFromDB am (new_RBACData accountId '''' realmId (GetSecurity accountId realmId acc), t))) permissionId)"

section \<open>The rbac commands\<close>

text \<open>What the commands read and write: the permission data of the connected sessions, both tables and
  the realm of this server.\<close>

record rbac_world =
  sessions :: "u32 \<rightharpoonup> RBACData"
  account_permissions :: rbac_table
  account_access :: access_table
  realm_id :: u32

record AccountIdentifier =
  ai_id :: u32
  ai_name :: string

text \<open>The invoker of a command: \<open>None\<close> is the console, otherwise the security level of the session and
  whether it may ignore the lower security check.\<close>

type_synonym chat_handler = "(u8 \<times> bool) option"

datatype rbac_msg =
    LANG_RBAC_PERM_GRANTED_IN_LIST u32 string u32 u32 string
  | LANG_RBAC_PERM_GRANTED_IN_DENIED_LIST u32 string u32 u32 string
  | LANG_RBAC_PERM_GRANTED u32 string u32 u32 string
  | LANG_RBAC_PERM_DENIED_IN_LIST u32 string u32 u32 string
  | LANG_RBAC_PERM_DENIED_IN_GRANTED_LIST u32 string u32 u32 string
  | LANG_RBAC_PERM_DENIED u32 string u32 u32 string
  | LANG_RBAC_PERM_REVOKED_NOT_IN_LIST u32 string u32 u32 string
  | LANG_RBAC_PERM_REVOKED u32 string u32 u32 string
  | LANG_RBAC_WRONG_PARAMETER_ID u32
  | LANG_YOURS_SECURITY_IS_LOW

definition HasLowerSecurityAccount ::
    "chat_handler \<Rightarrow> bool \<Rightarrow> u8 option \<Rightarrow> u32 \<Rightarrow> bool \<Rightarrow> rbac_world \<Rightarrow> bool \<times> rbac_msg list" where
  "HasLowerSecurityAccount handler gmLowerSecurity target target_account strong w =
    (case handler of
       None \<Rightarrow> (False, [])
     | Some (sec, ignore) \<Rightarrow>
         if ignore \<and> \<not> strong \<and> \<not> gmLowerSecurity then (False, [])
         else (case (case target of Some ts \<Rightarrow> Some ts
                     | None \<Rightarrow> if target_account \<noteq> 0 then Some (GetSecurity target_account (realm_id w) (account_access w)) else None) of
             None \<Rightarrow> (True, [])
           | Some target_sec \<Rightarrow>
               if sec < target_sec \<or> strong \<and> sec \<le> target_sec then (True, [LANG_YOURS_SECURITY_IS_LOW]) else (False, [])))"

definition GetRBACData :: "AccountMgr \<Rightarrow> AccountIdentifier \<Rightarrow> rbac_world \<Rightarrow> RBACData" where
  "GetRBACData am account w =
    (case sessions w (ai_id account) of
       Some rb \<Rightarrow> rb
     | None \<Rightarrow> fst (LoadFromDB am (new_RBACData (ai_id account) (ai_name account) (realm_id w)
                      (GetSecurity (ai_id account) (realm_id w) (account_access w)), account_permissions w)))"

text \<open>A session whose data has been invalidated loads it again before it answers.\<close>

definition LoadPermissions :: "AccountMgr \<Rightarrow> u32 \<Rightarrow> string \<Rightarrow> u8 \<Rightarrow> rbac_world \<Rightarrow> rbac_world" where
  "LoadPermissions am accountId accountName security w =
    w\<lparr>sessions := (sessions w)(accountId \<mapsto>
        fst (LoadFromDB am (new_RBACData accountId accountName (realm_id w) security, account_permissions w)))\<rparr>"

definition WorldSession_HasPermission ::
    "AccountMgr \<Rightarrow> u32 \<Rightarrow> string \<Rightarrow> u8 \<Rightarrow> u32 \<Rightarrow> rbac_world \<Rightarrow> bool \<times> rbac_world" where
  "WorldSession_HasPermission am accountId accountName security permission w =
    (let w = (if sessions w accountId = None then LoadPermissions am accountId accountName security w else w)
     in (HasPermission (the (sessions w accountId)) permission, w))"

definition InvalidateRBACData :: "u32 \<Rightarrow> rbac_world \<Rightarrow> rbac_world" where
  "InvalidateRBACData accountId w = w\<lparr>sessions := (sessions w)(accountId := None)\<rparr>"

definition RBAC_PERM_COMMAND_NPC_DELETE :: u32 where
  "RBAC_PERM_COMMAND_NPC_DELETE = 576"

text \<open>What the three commands share: the account, the security check, the operation on the data of the
  account (kept when its session is connected) and the report. The report of a result dereferences
  the permission.\<close>

definition report ::
    "AccountMgr \<Rightarrow> u32 \<Rightarrow> u32 \<Rightarrow> AccountIdentifier \<Rightarrow> (u32 \<Rightarrow> string \<Rightarrow> u32 \<Rightarrow> u32 \<Rightarrow> string \<Rightarrow> rbac_msg) \<Rightarrow> rbac_error + rbac_msg list" where
  "report am permId realmId account msg =
    (case GetRBACPermission am permId of
       None \<Rightarrow> Inl NullDereference
     | Some permission \<Rightarrow> Inr [msg permId (perm_name permission) realmId (ai_id account) (ai_name account)])"

definition rbac_command ::
    "(u32 \<Rightarrow> u32 \<Rightarrow> rbac_state \<Rightarrow> RBACCommandResult \<times> rbac_state) \<Rightarrow>
     (RBACCommandResult \<Rightarrow> u32 \<Rightarrow> AccountIdentifier \<Rightarrow> rbac_error + rbac_msg list) \<Rightarrow>
     AccountMgr \<Rightarrow> chat_handler \<Rightarrow> bool \<Rightarrow> AccountIdentifier option \<Rightarrow> AccountIdentifier option \<Rightarrow> u32 \<Rightarrow> u32 option \<Rightarrow>
     rbac_world \<Rightarrow> rbac_error + bool \<times> rbac_msg list \<times> rbac_world" where
  "rbac_command op rep am handler gmLowerSecurity fromTarget account permId realmId w =
    (case (case account of None \<Rightarrow> fromTarget | Some a \<Rightarrow> Some a) of
       None \<Rightarrow> Inr (False, [], w)
     | Some account \<Rightarrow>
         let (lower, msgs) = HasLowerSecurityAccount handler gmLowerSecurity None (ai_id account) True w
         in if lower then Inr (False, msgs, w)
            else let realmId = (case realmId of None \<Rightarrow> - 1 | Some r \<Rightarrow> r);
                     (result, rb, t) = op permId realmId (GetRBACData am account w, account_permissions w);
                     w = w\<lparr>account_permissions := t,
                           sessions := (if sessions w (ai_id account) = None then sessions w
                                        else (sessions w)(ai_id account \<mapsto> rb))\<rparr>
                 in map_sum id (\<lambda>msgs. (True, msgs, w)) (rep result realmId account))"

definition HandleRBACPermGrantCommand where
  "HandleRBACPermGrantCommand am handler gmLowerSecurity fromTarget account permId realmId w =
    rbac_command (GrantPermission am)
      (\<lambda>result realmId account. case result of
          RBAC_CANT_ADD_ALREADY_ADDED \<Rightarrow> report am permId realmId account LANG_RBAC_PERM_GRANTED_IN_LIST
        | RBAC_IN_DENIED_LIST \<Rightarrow> report am permId realmId account LANG_RBAC_PERM_GRANTED_IN_DENIED_LIST
        | RBAC_OK \<Rightarrow> report am permId realmId account LANG_RBAC_PERM_GRANTED
        | RBAC_ID_DOES_NOT_EXISTS \<Rightarrow> Inr [LANG_RBAC_WRONG_PARAMETER_ID permId]
        | _ \<Rightarrow> Inr [])
      am handler gmLowerSecurity fromTarget account permId realmId w"

definition HandleRBACPermDenyCommand where
  "HandleRBACPermDenyCommand am handler gmLowerSecurity fromTarget account permId realmId w =
    rbac_command (DenyPermission am)
      (\<lambda>result realmId account. case result of
          RBAC_CANT_ADD_ALREADY_ADDED \<Rightarrow> report am permId realmId account LANG_RBAC_PERM_DENIED_IN_LIST
        | RBAC_IN_GRANTED_LIST \<Rightarrow> report am permId realmId account LANG_RBAC_PERM_DENIED_IN_GRANTED_LIST
        | RBAC_OK \<Rightarrow> report am permId realmId account LANG_RBAC_PERM_DENIED
        | RBAC_ID_DOES_NOT_EXISTS \<Rightarrow> Inr [LANG_RBAC_WRONG_PARAMETER_ID permId]
        | _ \<Rightarrow> Inr [])
      am handler gmLowerSecurity fromTarget account permId realmId w"

definition HandleRBACPermRevokeCommand where
  "HandleRBACPermRevokeCommand am handler gmLowerSecurity fromTarget account permId realmId w =
    rbac_command (RevokePermission am)
      (\<lambda>result realmId account. case result of
          RBAC_CANT_REVOKE_NOT_IN_LIST \<Rightarrow> report am permId realmId account LANG_RBAC_PERM_REVOKED_NOT_IN_LIST
        | RBAC_OK \<Rightarrow> report am permId realmId account LANG_RBAC_PERM_REVOKED
        | RBAC_ID_DOES_NOT_EXISTS \<Rightarrow> Inr [LANG_RBAC_WRONG_PARAMETER_ID permId]
        | _ \<Rightarrow> Inr [])
      am handler gmLowerSecurity fromTarget account permId realmId w"

section \<open>Expanding permissions\<close>

text \<open>The reference definition: the known permissions reached from a set through links between known
  permissions.\<close>

definition known :: "AccountMgr \<Rightarrow> u32 set" where
  "known am = {p. GetRBACPermission am p \<noteq> None}"

definition links :: "AccountMgr \<Rightarrow> u32 \<Rightarrow> u32 set" where
  "links am p = (case GetRBACPermission am p of None \<Rightarrow> {} | Some q \<Rightarrow> perm_links q)"

inductive_set inherited :: "AccountMgr \<Rightarrow> u32 set \<Rightarrow> u32 set" for am S where
  own: "p \<in> S \<Longrightarrow> p \<in> known am \<Longrightarrow> p \<in> inherited am S"
| link: "p \<in> inherited am S \<Longrightarrow> l \<in> links am p \<Longrightarrow> l \<in> known am \<Longrightarrow> l \<in> inherited am S"

lemma inherited_known: "inherited am S \<subseteq> known am"
  by (auto elim: inherited.cases)

lemma inherited_mono: "S \<subseteq> T \<Longrightarrow> inherited am S \<subseteq> inherited am T"
proof
  fix p assume "S \<subseteq> T" "p \<in> inherited am S"
  from this(2,1) show "p \<in> inherited am T"
    by induction (auto intro: inherited.intros)
qed

lemma finite_perms [simp]: "finite (S :: u32 set)"
  by (rule finite_subset [OF subset_UNIV finite])

definition expand_inv :: "AccountMgr \<Rightarrow> u32 set \<Rightarrow> expand_state \<Rightarrow> bool" where
  "expand_inv am S s \<longleftrightarrow>
    fst s \<inter> snd s = {} \<and> snd s \<subseteq> inherited am S \<and> fst s \<inter> known am \<subseteq> inherited am S \<and>
    S \<inter> known am \<subseteq> fst s \<union> snd s \<and> (\<forall>p\<in>snd s. links am p \<inter> known am \<subseteq> fst s \<union> snd s)"

lemma expand_body_cases:
  assumes "expand_cond s"
  obtains (unknown) p where "p \<in> fst s" "p \<notin> known am" "expand_body am s = (fst s - {p}, snd s)"
    | (known) p where "p \<in> fst s" "p \<in> known am"
        "expand_body am s = (fst s - {p} \<union> (links am p - insert p (snd s)), insert p (snd s))"
proof (cases "GetRBACPermission am (Min (fst s))")
  case None
  moreover have "Min (fst s) \<in> fst s" using assms by (simp add: expand_cond_def)
  ultimately show ?thesis using unknown [of "Min (fst s)"] by (simp add: known_def expand_body_def)
next
  case (Some q)
  moreover have "Min (fst s) \<in> fst s" using assms by (simp add: expand_cond_def)
  moreover have "Set.filter (\<lambda>l. l \<notin> insert (Min (fst s)) (snd s)) (perm_links q) = perm_links q - insert (Min (fst s)) (snd s)"
    by auto
  ultimately show ?thesis using known [of "Min (fst s)"] by (simp add: known_def links_def expand_body_def Let_def)
qed

lemma expand_inv_body: "expand_inv am S s \<Longrightarrow> expand_cond s \<Longrightarrow> expand_inv am S (expand_body am s)"
  by (cases rule: expand_body_cases [where am = am and s = s]) (auto simp: expand_inv_def intro: inherited.intros)

lemma expand_measure:
  assumes "expand_inv am S s" "expand_cond s"
  shows "(expand_body am s, s) \<in> inv_image (less_than <*lex*> less_than) (\<lambda>s. (card (- snd s), card (fst s)))"
  using assms(2)
proof (cases rule: expand_body_cases [where am = am])
  case (unknown p)
  then have "card (fst s) > 0" by (metis card_gt_0_iff empty_iff finite_perms)
  with unknown show ?thesis by simp
next
  case (known p)
  with assms(1) have "p \<notin> snd s" by (auto simp: expand_inv_def)
  then have "- insert p (snd s) \<subset> - snd s" by auto
  then have "card (- insert p (snd s)) < card (- snd s)" by (rule psubset_card_mono [rotated]) simp
  with known show ?thesis by simp
qed

lemma expand_terminates: "\<exists>t. while_option expand_cond (expand_body am) (S, {}) = Some t"
proof (rule wf_while_option_Some [where P = "expand_inv am S"])
  show "wf {(t, s). (expand_inv am S s \<and> expand_cond s) \<and> t = expand_body am s}"
    by (rule wf_subset [OF wf_inv_image [OF wf_lex_prod [OF wf_less_than wf_less_than]],
          where f1 = "\<lambda>s. (card (- snd s), card (fst s))"]) (use expand_measure in blast)
  show "expand_inv am S (S, {})" by (auto simp: expand_inv_def intro: inherited.own)
qed (rule expand_inv_body)

lemma expand_inv_final:
  assumes "expand_inv am S s" "\<not> expand_cond s"
  shows "snd s = inherited am S"
proof
  show "snd s \<subseteq> inherited am S" using assms by (simp add: expand_inv_def)
  show "inherited am S \<subseteq> snd s"
  proof
    fix p assume "p \<in> inherited am S"
    then show "p \<in> snd s"
      using assms by induction (auto simp: expand_inv_def expand_cond_def)
  qed
qed

lemma ExpandPermissions_inherited: "ExpandPermissions am S = inherited am S"
proof -
  obtain t where t: "while_option expand_cond (expand_body am) (S, {}) = Some t"
    using expand_terminates by blast
  have "expand_inv am S (S, {})" by (auto simp: expand_inv_def intro: inherited.own)
  then have "expand_inv am S t"
    using while_option_rule [where P = "expand_inv am S", OF expand_inv_body t] by blast
  moreover have "\<not> expand_cond t" using while_option_stop [OF t] .
  ultimately show ?thesis
    using t by (simp add: ExpandPermissions_def while_def expand_inv_final)
qed

lemma fold_remove: "fold (\<lambda>p s. s - {p}) ps s = s - set ps"
  by (induction ps arbitrary: s) auto

lemma RemovePermissions_diff [simp]: "RemovePermissions A B = A - B"
  by (simp add: RemovePermissions_def fold_remove)

definition effective :: "AccountMgr \<Rightarrow> RBACData \<Rightarrow> u32 set" where
  "effective am rb = inherited am (grantedPerms rb) - inherited am (deniedPerms rb)"

lemma CalculateNewPermissions_effective: "CalculateNewPermissions am rb = rb\<lparr>globalPerms := effective am rb\<rparr>"
  by (simp add: CalculateNewPermissions_def effective_def ExpandPermissions_inherited)

section \<open>Loading the rows of an account\<close>

text \<open>The first row of a permission decides: later rows for it find it granted or denied already.\<close>

definition first_row :: "u32 \<Rightarrow> rbac_row list \<Rightarrow> bool option" where
  "first_row p rs = map_option row_granted (find (\<lambda>r. row_permission r = p) rs)"

lemma first_row_simps [simp]:
  "first_row p [] = None"
  "first_row p (r # rs) = (if row_permission r = p then Some (row_granted r) else first_row p rs)"
  by (simp_all add: first_row_def)

definition decided :: "AccountMgr \<Rightarrow> rbac_row list \<Rightarrow> bool \<Rightarrow> u32 set" where
  "decided am rs g = {p \<in> known am. first_row p rs = Some g}"

definition loaded :: "AccountMgr \<Rightarrow> rbac_row list \<Rightarrow> RBACData \<Rightarrow> RBACData" where
  "loaded am rs rb = (let old = grantedPerms rb \<union> deniedPerms rb
    in rb\<lparr>grantedPerms := grantedPerms rb \<union> (decided am rs True - old),
          deniedPerms := deniedPerms rb \<union> (decided am rs False - old)\<rparr>)"

lemmas rbac_ops = HasGrantedPermission_def HasDeniedPermission_def AddGrantedPermission_def AddDeniedPermission_def
  RemoveGrantedPermission_def RemoveDeniedPermission_def SavePermission_def

lemma GetRBACPermission_None [simp]: "GetRBACPermission am p = None \<longleftrightarrow> p \<notin> known am"
  by (simp add: known_def)

lemma load_row_loaded: "load_row am r s = (loaded am [r] (fst s), snd s)"
proof (rule prod_eqI)
  show "fst (load_row am r s) = fst (loaded am [r] (fst s), snd s)"
    by (rule RBACData.equality)
      (auto simp: load_row_def GrantPermission_def DenyPermission_def rbac_ops loaded_def decided_def Let_def
        split: if_splits)
qed (auto simp: load_row_def GrantPermission_def DenyPermission_def rbac_ops Let_def)

lemma loaded_append: "loaded am rs (loaded am [r] rb) = loaded am (r # rs) rb"
proof -
  let ?old = "grantedPerms rb \<union> deniedPerms rb"
  have "grantedPerms (loaded am rs (loaded am [r] rb)) = grantedPerms rb \<union> (decided am (r # rs) True - ?old)"
    "deniedPerms (loaded am rs (loaded am [r] rb)) = deniedPerms rb \<union> (decided am (r # rs) False - ?old)"
    by (auto simp: loaded_def decided_def Let_def split: if_splits)
  then show ?thesis by (simp add: loaded_def Let_def)
qed

lemma load_rows_loaded: "fold (load_row am) rs s = (loaded am rs (fst s), snd s)"
proof (induction rs arbitrary: s)
  case Nil
  show ?case by (simp add: loaded_def decided_def)
next
  case (Cons r rs)
  have "fold (load_row am) (r # rs) s = fold (load_row am) rs (loaded am [r] (fst s), snd s)"
    by (simp add: load_row_loaded [of am r s])
  then show ?case by (simp only: Cons.IH loaded_append fst_conv snd_conv)
qed

lemma load_defaults_granted:
  "fold (\<lambda>p s. snd (GrantPermission am p 0 s)) ps s =
     ((fst s)\<lparr>grantedPerms := grantedPerms (fst s) \<union> (set ps \<inter> known am - deniedPerms (fst s))\<rparr>, snd s)"
proof (induction ps arbitrary: s)
  case Nil
  show ?case by simp
next
  case (Cons p ps)
  have step: "snd (GrantPermission am p 0 s) =
      ((fst s)\<lparr>grantedPerms := grantedPerms (fst s) \<union> ({p} \<inter> known am - deniedPerms (fst s))\<rparr>, snd s)"
    by (auto simp: GrantPermission_def rbac_ops Let_def prod_eq_iff intro!: RBACData.equality)
  have "fold (\<lambda>p s. snd (GrantPermission am p 0 s)) (p # ps) s =
      fold (\<lambda>p s. snd (GrantPermission am p 0 s)) ps
        ((fst s)\<lparr>grantedPerms := grantedPerms (fst s) \<union> ({p} \<inter> known am - deniedPerms (fst s))\<rparr>, snd s)"
    using step by simp
  then show ?case
    unfolding Cons.IH by (auto intro!: RBACData.equality)
qed

text \<open>What an account loads from its rows and the defaults of its level.\<close>

definition account_rows :: "rbac_state \<Rightarrow> rbac_row list" where
  "account_rows s = SEL_RBAC_ACCOUNT_PERMISSIONS (rb_id (fst s)) (rb_realmId (fst s)) (snd s)"

definition stored_denied :: "AccountMgr \<Rightarrow> rbac_state \<Rightarrow> u32 set" where
  "stored_denied am s = decided am (account_rows s) False"

definition stored_granted :: "AccountMgr \<Rightarrow> rbac_state \<Rightarrow> u32 set" where
  "stored_granted am s = decided am (account_rows s) True \<union>
     (GetRBACDefaultPermissions am (secLevel (fst s)) \<inter> known am - stored_denied am s)"

lemma LoadFromDB_stored:
  "LoadFromDB am s = (CalculateNewPermissions am
     ((fst s)\<lparr>grantedPerms := stored_granted am s, deniedPerms := stored_denied am s\<rparr>), snd s)"
  by (simp add: LoadFromDB_def LoadFromDBCallback_def Let_def load_rows_loaded load_defaults_granted ClearData_def loaded_def
      stored_granted_def stored_denied_def account_rows_def CalculateNewPermissions_effective effective_def)

lemma LoadFromDB_fixpoint:
  "LoadFromDB am s = s \<longleftrightarrow>
     grantedPerms (fst s) = stored_granted am s \<and> deniedPerms (fst s) = stored_denied am s \<and> globalPerms (fst s) = effective am (fst s)"
  (is "?L \<longleftrightarrow> ?R")
proof
  assume ?L
  then have eq: "fst s = CalculateNewPermissions am ((fst s)\<lparr>grantedPerms := stored_granted am s, deniedPerms := stored_denied am s\<rparr>)"
    by (metis LoadFromDB_stored fst_conv)
  have "grantedPerms (fst s) = stored_granted am s" "deniedPerms (fst s) = stored_denied am s"
    by (subst eq, simp add: CalculateNewPermissions_effective)+
  moreover from this have "globalPerms (fst s) = effective am (fst s)"
    by (subst eq) (simp add: CalculateNewPermissions_effective effective_def)
  ultimately show ?R by simp
next
  assume ?R
  then show ?L
    by (auto simp: LoadFromDB_stored CalculateNewPermissions_effective effective_def prod_eq_iff intro!: RBACData.equality)
qed

subsection \<open>The rows of one permission\<close>

definition rows_of :: "u32 \<Rightarrow> u32 \<Rightarrow> u32 \<Rightarrow> rbac_table \<Rightarrow> rbac_row list" where
  "rows_of a realm p t = filter (\<lambda>r. row_account r = a \<and> (row_realm r = realm \<or> row_realm r = - 1) \<and> row_permission r = p) t"

lemma first_row_filter: "first_row p rs = first_row p (filter (\<lambda>r. row_permission r = p) rs)"
  by (induction rs) auto

lemma first_row_SEL:
  "first_row p (SEL_RBAC_ACCOUNT_PERMISSIONS a realm t) =
     first_row p (sort_key (\<lambda>r. (row_permission r, sint (row_realm r))) (rows_of a realm p t))"
proof -
  have "filter (\<lambda>r. row_permission r = p) (filter (\<lambda>r. row_account r = a \<and> (row_realm r = realm \<or> row_realm r = - 1)) t) =
      rows_of a realm p t"
    unfolding rows_of_def filter_filter by (rule filter_cong) auto
  then show ?thesis
    using first_row_filter [of p "SEL_RBAC_ACCOUNT_PERMISSIONS a realm t"]
    by (simp only: SEL_RBAC_ACCOUNT_PERMISSIONS_def filter_sort)
qed

lemma first_row_None: "first_row p (SEL_RBAC_ACCOUNT_PERMISSIONS a realm t) = None \<longleftrightarrow> rows_of a realm p t = []"
proof -
  have "first_row p rs = None \<longleftrightarrow> (\<forall>r\<in>set rs. row_permission r \<noteq> p)" for rs
    by (induction rs) auto
  moreover have "(\<forall>r\<in>set (rows_of a realm p t). row_permission r \<noteq> p) \<longleftrightarrow> rows_of a realm p t = []"
    unfolding rows_of_def by (auto simp: filter_empty_conv)
  ultimately show ?thesis
    by (simp only: first_row_SEL set_sort)
qed

lemma first_row_cong:
  "rows_of a realm p t = rows_of a realm p t' \<Longrightarrow>
     first_row p (SEL_RBAC_ACCOUNT_PERMISSIONS a realm t) = first_row p (SEL_RBAC_ACCOUNT_PERMISSIONS a realm t')"
  by (simp add: first_row_SEL)

lemma rows_of_INS:
  assumes "rows_of a realm p t = []" "r = realm \<or> r = - 1"
  shows "rows_of a realm q (INS_RBAC_ACCOUNT_PERMISSION a p g r t) =
    (if q = p then [\<lparr>row_account = a, row_permission = p, row_granted = g, row_realm = r\<rparr>] else rows_of a realm q t)"
proof -
  have "\<not> list_ex (\<lambda>x. row_account x = a \<and> row_permission x = p \<and> row_realm x = r) t"
    using assms by (auto simp: rows_of_def filter_empty_conv list_ex_iff)
  then show ?thesis
    using assms by (auto simp: INS_RBAC_ACCOUNT_PERMISSION_def Let_def rows_of_def)
qed

lemma rows_of_DEL:
  "rows_of a realm q (DEL_RBAC_ACCOUNT_PERMISSION a p realm t) = (if q = p then [] else rows_of a realm q t)"
  by (auto simp: DEL_RBAC_ACCOUNT_PERMISSION_def rows_of_def filter_empty_conv intro: filter_cong)

lemma first_row_INS:
  assumes "rows_of a realm p t = []" "r = realm \<or> r = - 1"
  shows "first_row q (SEL_RBAC_ACCOUNT_PERMISSIONS a realm (INS_RBAC_ACCOUNT_PERMISSION a p g r t)) =
    (if q = p then Some g else first_row q (SEL_RBAC_ACCOUNT_PERMISSIONS a realm t))"
  by (simp add: first_row_SEL rows_of_INS [OF assms])

lemma first_row_DEL:
  "first_row q (SEL_RBAC_ACCOUNT_PERMISSIONS a realm (DEL_RBAC_ACCOUNT_PERMISSION a p realm t)) =
    (if q = p then None else first_row q (SEL_RBAC_ACCOUNT_PERMISSIONS a realm t))"
  by (simp add: first_row_SEL rows_of_DEL)

section \<open>Operations keep memory and table in step\<close>

lemma stored_undecided:
  assumes "LoadFromDB am s = s" "p \<in> known am" "p \<notin> grantedPerms (fst s)" "p \<notin> deniedPerms (fst s)"
  shows "rows_of (rb_id (fst s)) (rb_realmId (fst s)) p (snd s) = []"
    and "p \<notin> GetRBACDefaultPermissions am (secLevel (fst s))"
proof -
  have "first_row p (account_rows s) \<noteq> Some g" for g
    using assms by (cases g) (auto simp: LoadFromDB_fixpoint stored_granted_def stored_denied_def decided_def)
  then have "first_row p (account_rows s) = None"
    by (cases "first_row p (account_rows s)") auto
  then show "rows_of (rb_id (fst s)) (rb_realmId (fst s)) p (snd s) = []"
    by (simp add: account_rows_def first_row_None)
  show "p \<notin> GetRBACDefaultPermissions am (secLevel (fst s))"
    using assms by (auto simp: LoadFromDB_fixpoint stored_granted_def)
qed

lemma decided_INS:
  assumes "p \<in> known am" "rows_of (rb_id rb) (rb_realmId rb) p t = []" "r = rb_realmId rb \<or> r = - 1"
  shows "decided am (account_rows (rb, INS_RBAC_ACCOUNT_PERMISSION (rb_id rb) p g r t)) g' =
    (if g = g' then insert p (decided am (account_rows (rb, t)) g') else decided am (account_rows (rb, t)) g')"
  using assms first_row_None [of p "rb_id rb" "rb_realmId rb" t]
  by (auto simp: decided_def account_rows_def first_row_INS)

lemma decided_DEL:
  "decided am (account_rows (rb, DEL_RBAC_ACCOUNT_PERMISSION (rb_id rb) p (rb_realmId rb) t)) g =
    decided am (account_rows (rb, t)) g - {p}"
  by (auto simp: decided_def account_rows_def first_row_DEL)

lemma sync_sets:
  assumes "LoadFromDB am s = s"
  shows "grantedPerms (fst s) = decided am (account_rows s) True \<union>
      (GetRBACDefaultPermissions am (secLevel (fst s)) \<inter> known am - decided am (account_rows s) False)"
    and "deniedPerms (fst s) = decided am (account_rows s) False"
  using assms by (simp_all add: LoadFromDB_fixpoint stored_granted_def stored_denied_def)

lemma GrantPermission_reload:
  assumes sync: "LoadFromDB am s = s" and "realmId \<noteq> 0" "realmId = rb_realmId (fst s) \<or> realmId = - 1"
  shows "LoadFromDB am (snd (GrantPermission am p realmId s)) = snd (GrantPermission am p realmId s)"
proof (cases "p \<in> known am \<and> p \<notin> grantedPerms (fst s) \<and> p \<notin> deniedPerms (fst s)")
  case True
  let ?rb = "fst s" and ?t = "INS_RBAC_ACCOUNT_PERMISSION (rb_id (fst s)) p True realmId (snd s)"
  let ?s = "(CalculateNewPermissions am (AddGrantedPermission p ?rb), ?t)"
  have res: "snd (GrantPermission am p realmId s) = ?s"
    using True assms by (simp add: GrantPermission_def rbac_ops Let_def apfst_def map_prod_def split: prod.split)
  have rows: "account_rows ?s = account_rows (?rb, ?t)"
    by (simp add: account_rows_def CalculateNewPermissions_def rbac_ops)
  have "p \<notin> GetRBACDefaultPermissions am (secLevel ?rb)"
    and dec: "decided am (account_rows ?s) g = (if g = True then insert p (decided am (account_rows s) g) else decided am (account_rows s) g)" for g
    using True assms(3) stored_undecided [OF sync, of p] decided_INS [of p am ?rb "snd s" realmId]
    by (simp_all add: rows)
  then have "grantedPerms (fst ?s) = stored_granted am ?s" "deniedPerms (fst ?s) = stored_denied am ?s"
    using sync_sets [OF sync] by (auto simp: stored_granted_def stored_denied_def dec CalculateNewPermissions_def rbac_ops)
  then show ?thesis
    unfolding res LoadFromDB_fixpoint by (simp add: CalculateNewPermissions_effective effective_def)
next
  case False
  then show ?thesis using sync by (auto simp: GrantPermission_def rbac_ops)
qed

lemma DenyPermission_reload:
  assumes sync: "LoadFromDB am s = s" and "realmId \<noteq> 0" "realmId = rb_realmId (fst s) \<or> realmId = - 1"
  shows "LoadFromDB am (snd (DenyPermission am p realmId s)) = snd (DenyPermission am p realmId s)"
proof (cases "p \<in> known am \<and> p \<notin> grantedPerms (fst s) \<and> p \<notin> deniedPerms (fst s)")
  case True
  let ?rb = "fst s" and ?t = "INS_RBAC_ACCOUNT_PERMISSION (rb_id (fst s)) p False realmId (snd s)"
  let ?s = "(CalculateNewPermissions am (AddDeniedPermission p ?rb), ?t)"
  have res: "snd (DenyPermission am p realmId s) = ?s"
    using True assms by (simp add: DenyPermission_def rbac_ops Let_def apfst_def map_prod_def split: prod.split)
  have rows: "account_rows ?s = account_rows (?rb, ?t)"
    by (simp add: account_rows_def CalculateNewPermissions_def rbac_ops)
  have "p \<notin> GetRBACDefaultPermissions am (secLevel ?rb)"
    and dec: "decided am (account_rows ?s) g = (if g = False then insert p (decided am (account_rows s) g) else decided am (account_rows s) g)" for g
    using True assms(3) stored_undecided [OF sync, of p] decided_INS [of p am ?rb "snd s" realmId]
    by (simp_all add: rows)
  then have "grantedPerms (fst ?s) = stored_granted am ?s" "deniedPerms (fst ?s) = stored_denied am ?s"
    using sync_sets [OF sync] by (auto simp: stored_granted_def stored_denied_def dec CalculateNewPermissions_def rbac_ops)
  then show ?thesis
    unfolding res LoadFromDB_fixpoint by (simp add: CalculateNewPermissions_effective effective_def)
next
  case False
  then show ?thesis using sync by (auto simp: DenyPermission_def rbac_ops)
qed

lemma RevokePermission_reload:
  assumes sync: "LoadFromDB am s = s" and "rb_realmId (fst s) \<noteq> 0"
    and "p \<notin> GetRBACDefaultPermissions am (secLevel (fst s))"
  shows "LoadFromDB am (snd (RevokePermission am p (rb_realmId (fst s)) s)) = snd (RevokePermission am p (rb_realmId (fst s)) s)"
proof (cases "p \<in> grantedPerms (fst s) \<or> p \<in> deniedPerms (fst s)")
  case True
  let ?rb = "fst s" and ?t = "DEL_RBAC_ACCOUNT_PERMISSION (rb_id (fst s)) p (rb_realmId (fst s)) (snd s)"
  let ?s = "(CalculateNewPermissions am (RemoveDeniedPermission p (RemoveGrantedPermission p ?rb)), ?t)"
  have res: "snd (RevokePermission am p (rb_realmId (fst s)) s) = ?s"
    using True assms by (auto simp: RevokePermission_def rbac_ops Let_def)
  have rows: "account_rows ?s = account_rows (?rb, ?t)"
    by (simp add: account_rows_def CalculateNewPermissions_def rbac_ops)
  have "grantedPerms (fst ?s) = stored_granted am ?s \<and> deniedPerms (fst ?s) = stored_denied am ?s"
    using assms sync [unfolded LoadFromDB_fixpoint]
    unfolding stored_granted_def stored_denied_def rows
    by (auto simp: decided_DEL CalculateNewPermissions_def rbac_ops)
  then show ?thesis
    unfolding res LoadFromDB_fixpoint by (simp add: CalculateNewPermissions_effective effective_def)
next
  case False
  then show ?thesis using sync by (auto simp: RevokePermission_def rbac_ops)
qed

section \<open>The permissions of the connected sessions\<close>

definition rbac_ok :: "AccountMgr \<Rightarrow> RBACData \<Rightarrow> bool" where
  "rbac_ok am rb \<longleftrightarrow> grantedPerms rb \<inter> deniedPerms rb = {} \<and> grantedPerms rb \<union> deniedPerms rb \<subseteq> known am
     \<and> globalPerms rb = effective am rb"

lemma rbac_ok_LoadFromDB: "rbac_ok am (fst (LoadFromDB am s))"
  by (auto simp: LoadFromDB_stored rbac_ok_def CalculateNewPermissions_effective effective_def stored_granted_def
      stored_denied_def decided_def)

lemma rbac_ok_calculate:
  "grantedPerms rb \<inter> deniedPerms rb = {} \<Longrightarrow> grantedPerms rb \<union> deniedPerms rb \<subseteq> known am \<Longrightarrow>
     rbac_ok am (CalculateNewPermissions am rb)"
  by (simp add: rbac_ok_def CalculateNewPermissions_effective effective_def)

lemma rbac_ok_ops:
  assumes "rbac_ok am (fst s)" "realmId \<noteq> 0"
  shows "rbac_ok am (fst (snd (GrantPermission am p realmId s)))"
    and "rbac_ok am (fst (snd (DenyPermission am p realmId s)))"
    and "rbac_ok am (fst (snd (RevokePermission am p realmId s)))"
proof -
  have "grantedPerms (fst s) \<inter> deniedPerms (fst s) = {}" "grantedPerms (fst s) \<union> deniedPerms (fst s) \<subseteq> known am"
    using assms(1) by (simp_all add: rbac_ok_def)
  then show "rbac_ok am (fst (snd (GrantPermission am p realmId s)))"
    "rbac_ok am (fst (snd (DenyPermission am p realmId s)))" "rbac_ok am (fst (snd (RevokePermission am p realmId s)))"
    using assms by (auto simp: GrantPermission_def DenyPermission_def RevokePermission_def rbac_ops Let_def
        intro!: rbac_ok_calculate)
qed

lemma rbac_ops_identity:
  shows "rb_id (fst (snd (GrantPermission am p realmId s))) = rb_id (fst s)"
    and "rb_id (fst (snd (DenyPermission am p realmId s))) = rb_id (fst s)"
    and "rb_id (fst (snd (RevokePermission am p realmId s))) = rb_id (fst s)"
  by (auto simp: GrantPermission_def DenyPermission_def RevokePermission_def rbac_ops Let_def CalculateNewPermissions_def)

text \<open>What happens to the permission data of a running server: sessions log in (their permissions are
  loaded) and out, the commands run for any realm but 0, levels change.\<close>

inductive rbac_step :: "AccountMgr \<Rightarrow> rbac_world \<Rightarrow> rbac_world \<Rightarrow> bool" for am where
  login: "rbac_step am w (LoadPermissions am i n lvl w)"
| logout: "rbac_step am w (InvalidateRBACData i w)"
| grant: "HandleRBACPermGrantCommand am h c tgt a p r w = Inr (ok, msgs, w') \<Longrightarrow> r \<noteq> Some 0 \<Longrightarrow> rbac_step am w w'"
| deny: "HandleRBACPermDenyCommand am h c tgt a p r w = Inr (ok, msgs, w') \<Longrightarrow> r \<noteq> Some 0 \<Longrightarrow> rbac_step am w w'"
| revoke: "HandleRBACPermRevokeCommand am h c tgt a p r w = Inr (ok, msgs, w') \<Longrightarrow> r \<noteq> Some 0 \<Longrightarrow> rbac_step am w w'"
| level: "UpdateAccountAccess am (sessions w i) i lvl r (account_permissions w, account_access w) = (rb, acc) \<Longrightarrow>
    rbac_step am w (w\<lparr>sessions := (sessions w)(i := rb), account_access := acc\<rparr>)"

definition rbac_inv :: "AccountMgr \<Rightarrow> rbac_world \<Rightarrow> bool" where
  "rbac_inv am w \<longleftrightarrow> (\<forall>i rb. sessions w i = Some rb \<longrightarrow> rbac_ok am rb \<and> rb_id rb = i)"

lemma rbac_inv_update: "rbac_inv am w \<Longrightarrow> rbac_ok am rb \<Longrightarrow> rb_id rb = i \<Longrightarrow> rbac_inv am (w\<lparr>sessions := (sessions w)(i \<mapsto> rb)\<rparr>)"
  by (simp add: rbac_inv_def)

lemma rbac_inv_cong: "sessions w' = sessions w \<Longrightarrow> rbac_inv am w' = rbac_inv am w"
  by (simp add: rbac_inv_def)

lemma GetRBACData_ok: "rbac_inv am w \<Longrightarrow> rbac_ok am (GetRBACData am account w)"
  by (auto simp: GetRBACData_def rbac_inv_def rbac_ok_LoadFromDB split: option.split)

lemma LoadFromDB_id [simp]: "rb_id (fst (LoadFromDB am s)) = rb_id (fst s)"
  by (simp add: LoadFromDB_stored CalculateNewPermissions_def)

lemma GetRBACData_id: "rbac_inv am w \<Longrightarrow> rb_id (GetRBACData am account w) = ai_id account"
  by (auto simp: GetRBACData_def rbac_inv_def new_RBACData_def split: option.split)

text \<open>A command leaves the world alone, or it runs its operation on the data of one account.\<close>

lemma rbac_command_cases:
  assumes "rbac_command op rep am h c tgt a p r w = Inr (ok, msgs, w')"
  obtains (refused) "w' = w" "\<not> ok"
  | (ran) account realmId where "realmId = (case r of None \<Rightarrow> - 1 | Some r \<Rightarrow> r)" "ok"
      "\<not> fst (HasLowerSecurityAccount h c None (ai_id account) True w)"
      "account_permissions w' = snd (snd (op p realmId (GetRBACData am account w, account_permissions w)))"
      "sessions w' = (if sessions w (ai_id account) = None then sessions w
         else (sessions w)(ai_id account \<mapsto> fst (snd (op p realmId (GetRBACData am account w, account_permissions w)))))"
proof (cases "case a of None \<Rightarrow> tgt | Some a \<Rightarrow> Some a")
  case None
  then show ?thesis using assms refused by (simp add: rbac_command_def)
next
  case (Some account)
  show ?thesis
  proof (cases "fst (HasLowerSecurityAccount h c None (ai_id account) True w)")
    case True
    then show ?thesis using assms Some refused by (auto simp: rbac_command_def split: prod.splits)
  next
    case False
    let ?realm = "case r of None \<Rightarrow> - 1 | Some r \<Rightarrow> r"
    obtain result rb t where op: "op p ?realm (GetRBACData am account w, account_permissions w) = (result, rb, t)"
      by (cases "op p ?realm (GetRBACData am account w, account_permissions w)") auto
    let ?w = "w\<lparr>account_permissions := t, sessions := (if sessions w (ai_id account) = None then sessions w
        else (sessions w)(ai_id account \<mapsto> rb))\<rparr>"
    have "map_sum id (\<lambda>msgs. (True, msgs, ?w)) (rep result ?realm account) = Inr (ok, msgs, w')"
      using assms Some False op by (auto simp: rbac_command_def Let_def split: prod.splits if_splits)
    then have "ok" "w' = ?w" by (cases "rep result ?realm account"; simp)+
    with False op show ?thesis by (intro ran [of ?realm account]) simp_all
  qed
qed

lemma rbac_command_inv:
  assumes "rbac_command op rep am h c tgt a p r w = Inr (ok, msgs, w')" "r \<noteq> Some 0" "rbac_inv am w"
    and ok: "\<And>realmId s. realmId \<noteq> 0 \<Longrightarrow> rbac_ok am (fst s) \<Longrightarrow> rbac_ok am (fst (snd (op p realmId s)))"
    and same: "\<And>realmId s. rb_id (fst (snd (op p realmId s))) = rb_id (fst s)"
  shows "rbac_inv am w'"
  using assms(1)
proof (cases rule: rbac_command_cases)
  case (ran account realmId)
  then have "realmId \<noteq> 0" using assms(2) by (auto split: option.splits)
  let ?rb = "fst (snd (op p realmId (GetRBACData am account w, account_permissions w)))"
  have "rbac_ok am ?rb" "rb_id ?rb = ai_id account"
    using ok [OF \<open>realmId \<noteq> 0\<close>] same GetRBACData_ok [OF assms(3)] GetRBACData_id [OF assms(3)] by simp_all
  then have "rbac_inv am (w\<lparr>sessions := (sessions w)(ai_id account \<mapsto> ?rb)\<rparr>)"
    by (rule rbac_inv_update [OF assms(3)])
  moreover have "sessions w' = sessions w \<or> sessions w' = sessions (w\<lparr>sessions := (sessions w)(ai_id account \<mapsto> ?rb)\<rparr>)"
    using ran(5) by simp
  ultimately show ?thesis
    using assms(3) rbac_inv_cong [of w' w am]
      rbac_inv_cong [of w' "w\<lparr>sessions := (sessions w)(ai_id account \<mapsto> ?rb)\<rparr>" am] by argo
qed (use assms in simp)

lemma rbac_step_inv:
  assumes "rbac_inv am w" "rbac_step am w w'"
  shows "rbac_inv am w'"
  using assms(2,1)
proof cases
  case (login i n lvl)
  then show ?thesis using assms(1) by (simp add: LoadPermissions_def rbac_inv_update rbac_ok_LoadFromDB new_RBACData_def)
next
  case (level i lvl r rb acc)
  have "rb = None \<or> (\<exists>d. rb = Some d \<and> rbac_ok am d \<and> rb_id d = i)"
    using level(2) assms(1)
    by (auto simp: UpdateAccountAccess_def SetSecurityLevel_def rbac_inv_def rbac_ok_LoadFromDB split: option.splits if_splits)
  then show ?thesis using level(1) assms(1) by (auto simp: rbac_inv_def)
next
  case logout
  then show ?thesis using assms(1) by (auto simp: InvalidateRBACData_def rbac_inv_def)
qed (unfold HandleRBACPermGrantCommand_def HandleRBACPermDenyCommand_def HandleRBACPermRevokeCommand_def,
    (erule rbac_command_inv [OF _ _ assms(1)], assumption, rule rbac_ok_ops, assumption+, rule rbac_ops_identity)+)

definition rbac_init :: "rbac_world \<Rightarrow> bool" where
  "rbac_init w \<longleftrightarrow> sessions w = Map.empty"

interpretation rbac: invariant_system rbac_init "rbac_step am" "rbac_inv am"
  by unfold_locales (simp add: rbac_init_def rbac_inv_def, rule rbac_step_inv)

text \<open>The answer to a permission query is that of the data the session holds afterwards, which is that of a
  reachable state.\<close>

lemma rbac_ok_iff: "rbac_ok am rb \<Longrightarrow> HasPermission rb p \<longleftrightarrow> p \<in> inherited am (grantedPerms rb) \<and> p \<notin> inherited am (deniedPerms rb)"
  by (simp add: rbac_ok_def effective_def HasPermission_def)

lemma rbac_inv_ok: "rbac_inv am w \<Longrightarrow> sessions w i = Some rb \<Longrightarrow> rbac_ok am rb"
  by (simp add: rbac_inv_def)

lemma WorldSession_HasPermission_inv:
  assumes "rbac_init w" "(rbac_step am)\<^sup>*\<^sup>* w w'"
    and "WorldSession_HasPermission am i n lvl p w' = (ok, w'')"
  shows "\<exists>rb. sessions w'' i = Some rb \<and> rbac_ok am rb \<and> ok = HasPermission rb p"
proof -
  have inv: "rbac_inv am w'" by (rule rbac.invar_reachable [OF assms(1,2)])
  then have "rbac_inv am (LoadPermissions am i n lvl w')" by (rule rbac_step_inv) (rule rbac_step.login)
  moreover define w1 where "w1 = (if sessions w' i = None then LoadPermissions am i n lvl w' else w')"
  ultimately have "rbac_inv am w1" using inv by simp
  moreover obtain rb where rb: "sessions w1 i = Some rb" by (cases "sessions w' i") (simp_all add: w1_def LoadPermissions_def)
  ultimately have "rbac_ok am rb" by (simp add: rbac_inv_ok)
  moreover have "w'' = w1" "ok = HasPermission rb p"
    using assms(3) rb by (simp_all add: WorldSession_HasPermission_def w1_def [symmetric] Let_def)
  ultimately show ?thesis using rb by blast
qed

section \<open>The permission tables\<close>

definition pointer_ok :: "u32 \<Rightarrow> u32 option \<Rightarrow> (u32 \<times> u32) list \<Rightarrow> bool" where
  "pointer_ok permissionId permission rows \<longleftrightarrow>
    permission = Some permissionId \<or> permission = None \<and> permissionId \<notin> fst ` set rows"

lemma known_update [simp]: "q \<noteq> None \<Longrightarrow> known (am\<lparr>permissions := (permissions am)(k \<mapsto> q)\<rparr>) = insert k (known am)"
  by (auto simp: known_def GetRBACPermission_def)

lemma links_add:
  assumes "k \<in> known am"
  shows "links (am\<lparr>permissions := (permissions am)(k \<mapsto> map_option (AddLinkedPermission l) (GetRBACPermission am k))\<rparr>) p =
    links am p \<union> (if p = k then {l} else {})"
  using assms by (auto simp: links_def known_def GetRBACPermission_def AddLinkedPermission_def)

lemma load_links_spec:
  assumes "fst ` set rows \<subseteq> known am" "pointer_ok permissionId permission rows" "permission = Some permissionId \<Longrightarrow> permissionId \<in> known am"
  shows "\<exists>am'. load_links permissionId permission rows am = Inr am' \<and> known am' = known am \<and>
    defaultPermissions am' = defaultPermissions am \<and> (\<forall>p. links am' p = links am p \<union> {l. (p, l) \<in> set rows \<and> l \<noteq> p})"
  using assms
proof (induction rows arbitrary: permissionId permission am)
  case (Cons row rows)
  obtain newId l where row: "row = (newId, l)" by (cases row)
  have new: "newId \<in> known am" and sub: "fst ` set rows \<subseteq> known am" using Cons.prems(1) row by auto
  then obtain q where nn: "permissions am newId = Some (Some q)" "GetRBACPermission am newId = Some q"
    by (auto simp: known_def GetRBACPermission_def split: option.splits)
  have ptr: "permission = Some permissionId" if "permissionId = newId"
    using Cons.prems(2) that row by (auto simp: pointer_ok_def)
  have IH: "fst ` set rows \<subseteq> known am' \<Longrightarrow> newId \<in> known am' \<Longrightarrow>
      \<exists>am''. load_links newId (Some newId) rows am' = Inr am'' \<and> known am'' = known am' \<and>
        defaultPermissions am'' = defaultPermissions am' \<and> (\<forall>p. links am'' p = links am' p \<union> {l. (p, l) \<in> set rows \<and> l \<noteq> p})" for am'
    using Cons.IH [of am' newId "Some newId"] by (simp add: pointer_ok_def)
  show ?case
  proof (cases "l = newId")
    case True
    have "load_links permissionId permission (row # rows) am = load_links newId (Some newId) rows am"
      using nn ptr True row by auto
    then show ?thesis using IH [OF sub new] True row by auto
  next
    case False
    let ?am = "am\<lparr>permissions := (permissions am)(newId \<mapsto> map_option (AddLinkedPermission l) (GetRBACPermission am newId))\<rparr>"
    have eq: "load_links permissionId permission (row # rows) am = load_links newId (Some newId) rows ?am"
      using nn ptr False row by auto
    have k: "known ?am = known am" using nn new by auto
    then show ?thesis
      unfolding eq using IH [of ?am] sub new False row by (auto simp: links_add [OF new])
  qed
qed auto

lemma load_defaults_spec:
  "permissions (load_defaults rows am) = permissions am \<and>
   GetRBACDefaultPermissions (load_defaults rows am) lvl = GetRBACDefaultPermissions am lvl \<union> {p. \<exists>n. (n, p) \<in> set rows \<and> ucast n = lvl}"
proof (induction rows am rule: load_defaults.induct)
  case (2 newId p rows am)
  then show ?case by (auto simp: Let_def GetRBACDefaultPermissions_def)
qed auto

section \<open>Properties\<close>

text \<open>Claim C17: expanding a set of permissions always ends, whatever cycles the links have, and gives exactly
  the known permissions reached from the set through links between known permissions.\<close>

theorem ExpandPermissions_closure:
  "(\<exists>s. while_option expand_cond (expand_body am) (S, {}) = Some s) \<and> ExpandPermissions am S = inherited am S"
  using expand_terminates ExpandPermissions_inherited by blast


text \<open>A server with the permissions 1, 2 and 3, where 1 leads to 2 and 2 to 1 and 3, and level 0 has 1.\<close>

definition demo_am :: AccountMgr where
  "demo_am = \<lparr>permissions = [1 \<mapsto> Some \<lparr>perm_id = 1, perm_name = ''Player'', perm_links = {2}\<rparr>,
      2 \<mapsto> Some \<lparr>perm_id = 2, perm_name = ''Moderator'', perm_links = {1, 3}\<rparr>,
      3 \<mapsto> Some \<lparr>perm_id = 3, perm_name = ''npc delete'', perm_links = {}\<rparr>],
    defaultPermissions = [0 \<mapsto> {1}]\<rparr>"

definition demo_realm :: rbac_world where
  "demo_realm = \<lparr>sessions = Map.empty, account_permissions = [\<lparr>row_account = 7, row_permission = 3, row_granted = False, row_realm = - 1\<rparr>],
     account_access = [], realm_id = 5\<rparr>"

definition demo_account :: RBACData where
  "demo_account = \<lparr>rb_id = 7, rb_name = ''A'', rb_realmId = 5, secLevel = 0, grantedPerms = {1}, deniedPerms = {3},
     globalPerms = {1, 2}\<rparr>"

lemma demo_known: "known demo_am = {1, 2, 3}"
  by (auto simp: known_def GetRBACPermission_def demo_am_def split: if_splits)

lemma demo_links: "links demo_am p = (if p = 1 then {2} else if p = 2 then {1, 3} else {})"
  by (simp add: links_def GetRBACPermission_def demo_am_def)

lemma demo_inherited: "inherited demo_am {1} = {1, 2, 3}" "inherited demo_am {3} = {3}"
proof -
  have 1: "1 \<in> inherited demo_am {1}" by (rule inherited.own) (simp_all add: demo_known)
  have 2: "2 \<in> inherited demo_am {1}" by (rule inherited.link [OF 1]) (simp_all add: demo_known demo_links)
  have 3: "3 \<in> inherited demo_am {1}" by (rule inherited.link [OF 2]) (simp_all add: demo_known demo_links)
  show "inherited demo_am {1} = {1, 2, 3}" using 1 2 3 inherited_known [of demo_am "{1}"] by (auto simp: demo_known)
  have "p = 3" if "p \<in> inherited demo_am {3}" for p
    using that by induction (simp_all add: demo_links)
  then show "inherited demo_am {3} = {3}" using inherited.own [of 3 "{3}" demo_am] by (auto simp: demo_known)
qed

lemma demo_account_loaded:
  "LoadFromDB demo_am (new_RBACData 7 ''A'' 5 0, account_permissions demo_realm) = (demo_account, account_permissions demo_realm)"
proof -
  let ?s = "(new_RBACData 7 ''A'' 5 0, account_permissions demo_realm)"
  have rows: "account_rows ?s = account_permissions demo_realm"
    by (simp add: account_rows_def SEL_RBAC_ACCOUNT_PERMISSIONS_def demo_realm_def new_RBACData_def)
  have denied: "stored_denied demo_am ?s = {3}"
    unfolding stored_denied_def rows by (auto simp: decided_def demo_known demo_realm_def)
  have granted: "stored_granted demo_am ?s = {1}"
    unfolding stored_granted_def rows denied
    using demo_known by (auto simp: decided_def demo_realm_def GetRBACDefaultPermissions_def demo_am_def new_RBACData_def)
  show ?thesis
    unfolding LoadFromDB_stored denied granted
    by (simp add: CalculateNewPermissions_effective effective_def demo_inherited demo_account_def new_RBACData_def insert_Diff_if)
qed

lemma demo_login: "(rbac_step demo_am)\<^sup>*\<^sup>* demo_realm (demo_realm\<lparr>sessions := [7 \<mapsto> demo_account]\<rparr>)"
  using rbac_step.login [of demo_am demo_realm 7 "''A''" 0] demo_account_loaded
  by (simp add: LoadPermissions_def demo_realm_def r_into_rtranclp)



lemma demo_synced:
  "LoadFromDB demo_am (demo_account, account_permissions demo_realm) = (demo_account, account_permissions demo_realm)"
proof -
  have "LoadFromDB am (fst (LoadFromDB am (rb, t)), t) = LoadFromDB am (rb, t)" for am rb t
    by (simp add: LoadFromDB_stored stored_granted_def stored_denied_def account_rows_def CalculateNewPermissions_effective effective_def)
  from this [of demo_am "new_RBACData 7 ''A'' 5 0" "account_permissions demo_realm"] show ?thesis
    by (simp add: demo_account_loaded)
qed


text \<open>The level written for a realm or for all realms is the level read back for that realm, and a
  connected account holds the new level with the permissions it loads.\<close>

theorem security_level_roundtrip:
  assumes "UpdateAccountAccess am rbac accountId lvl realmId db = (rbac', t')" "realmId = realm \<or> realmId = - 1"
  shows "GetSecurity accountId realm t' = lvl \<and> (\<forall>rb. rbac' = Some rb \<longrightarrow> secLevel rb = lvl)"
proof
  let ?q = "\<lambda>t. filter (\<lambda>r. acc_account r = accountId \<and> (acc_realm r = realm \<or> acc_realm r = - 1)) t"
  let ?t = "if realmId = - 1 then DEL_ACCOUNT_ACCESS accountId (snd db) else DEL_ACCOUNT_ACCESS_BY_REALM accountId realmId (snd db)"
  have "?q ?t = []"
    using assms(2) by (auto simp: DEL_ACCOUNT_ACCESS_def DEL_ACCOUNT_ACCESS_BY_REALM_def filter_empty_conv)
  moreover have "t' = (if lvl \<noteq> 0 then INS_ACCOUNT_ACCESS accountId lvl realmId ?t else ?t)"
    using assms(1) by (auto simp: UpdateAccountAccess_def Let_def)
  ultimately have "?q t' = (if lvl \<noteq> 0 then [\<lparr>acc_account = accountId, acc_level = lvl, acc_realm = realmId\<rparr>] else [])"
    using assms(2) by (simp only: INS_ACCOUNT_ACCESS_def filter_append) (auto split: if_splits)
  then show "GetSecurity accountId realm t' = lvl"
    by (simp add: GetSecurity_def GET_GMLEVEL_BY_REALMID_def)
  show "\<forall>rb. rbac' = Some rb \<longrightarrow> secLevel rb = lvl"
    using assms(1) by (auto simp: UpdateAccountAccess_def SetSecurityLevel_def LoadFromDB_stored CalculateNewPermissions_def split: option.splits)
qed

theorem security_level_roundtrip_witness:
  "\<exists>rb t. UpdateAccountAccess demo_am (Some demo_account) 7 3 (- 1) (account_permissions demo_realm, []) = (Some rb, t) \<and>
     GetSecurity 7 5 t = 3 \<and> secLevel rb = 3"
proof -
  obtain rb t where u: "UpdateAccountAccess demo_am (Some demo_account) 7 3 (- 1) (account_permissions demo_realm, []) = (Some rb, t)"
    by (simp add: UpdateAccountAccess_def)
  with security_level_roundtrip [OF u, of 5] show ?thesis by simp
qed

lemma report_unknown: "p \<notin> known am \<Longrightarrow> report am p realmId account msg = Inl NullDereference"
  using GetRBACPermission_None [of am p] by (simp only: report_def simp_thms option.case)

lemma map_sum_Inl: "map_sum id f x = Inl e \<longleftrightarrow> x = Inl e"
  by (cases x) auto

lemma rbac_command_console:
  "rbac_command op rep am None c tgt (Some account) p r w = Inl e \<longleftrightarrow>
     (let realmId = (case r of None \<Rightarrow> - 1 | Some r \<Rightarrow> r)
      in rep (fst (op p realmId (GetRBACData am account w, account_permissions w))) realmId account = Inl e)"
  by (simp add: rbac_command_def HasLowerSecurityAccount_def Let_def map_sum_Inl split: prod.split)

text \<open>Granting and denying report an id that no permission has; revoking such an id from the console
  dereferences a null pointer, because \<open>RevokePermission\<close> answers that it is in no list and the report of
  this answer asks the missing permission for its name.\<close>

theorem revoke_unknown_crashes:
  assumes "rbac_inv am w" "p \<notin> known am"
  shows "HandleRBACPermRevokeCommand am None c tgt (Some account) p r w = Inl NullDereference \<and>
    HandleRBACPermGrantCommand am None c tgt (Some account) p r w \<noteq> Inl NullDereference \<and>
    HandleRBACPermDenyCommand am None c tgt (Some account) p r w \<noteq> Inl NullDereference"
proof -
  have "rbac_ok am (GetRBACData am account w)" by (rule GetRBACData_ok [OF assms(1)])
  with assms(2) have "p \<notin> grantedPerms (GetRBACData am account w)" "p \<notin> deniedPerms (GetRBACData am account w)"
    by (auto simp: rbac_ok_def)
  then show ?thesis
    using assms(2)
    by (simp add: HandleRBACPermRevokeCommand_def HandleRBACPermGrantCommand_def HandleRBACPermDenyCommand_def
        rbac_command_console RevokePermission_def GrantPermission_def DenyPermission_def rbac_ops report_unknown)
qed

theorem revoke_unknown_crashes_witness:
  "HandleRBACPermRevokeCommand demo_am None False None (Some \<lparr>ai_id = 7, ai_name = ''A''\<rparr>) 999 None demo_realm = Inl NullDereference"
  using revoke_unknown_crashes [of demo_am demo_realm 999] by (simp add: demo_known) (simp add: rbac_inv_def demo_realm_def)

text \<open>When every link starts from a permission of the table and none from the id 0, loading the tables
  succeeds and gives the permissions of the first table with the links of the second, links of a
  permission to itself left out; the defaults of the third table are loaded when there is a link at all.\<close>

theorem LoadRBAC_tables:
  assumes "perm_rows \<noteq> []" "fst ` set link_rows \<subseteq> fst ` set perm_rows" "0 \<notin> fst ` set link_rows"
  shows "\<exists>am. LoadRBAC perm_rows link_rows default_rows = Inr am \<and> known am = fst ` set perm_rows \<and>
    (\<forall>p. links am p = {l. (p, l) \<in> set link_rows \<and> l \<noteq> p}) \<and>
    (\<forall>lvl. GetRBACDefaultPermissions am lvl =
      (if link_rows = [] then {} else {p. \<exists>n. (n, p) \<in> set default_rows \<and> ucast n = lvl}))"
proof -
  let ?m = "fold (\<lambda>(i, n) m. m(i \<mapsto> Some \<lparr>perm_id = i, perm_name = n, perm_links = {}\<rparr>)) perm_rows"
  have known0: "known (ClearRBAC\<lparr>permissions := ?m m\<rparr>) = known (ClearRBAC\<lparr>permissions := m\<rparr>) \<union> fst ` set perm_rows" for m
    by (induction perm_rows arbitrary: m) (auto simp: known_def GetRBACPermission_def split: if_splits)
  have links0: "links (ClearRBAC\<lparr>permissions := ?m m\<rparr>) p = {}" if "links (ClearRBAC\<lparr>permissions := m\<rparr>) p = {}" for m p
    using that
  proof (induction perm_rows arbitrary: m)
    case (Cons row rows)
    then show ?case by (cases row) (simp add: links_def GetRBACPermission_def)
  qed simp
  let ?am = "ClearRBAC\<lparr>permissions := ?m Map.empty\<rparr>"
  have k: "known ?am = fst ` set perm_rows" using known0 [of Map.empty] by (simp add: known_def GetRBACPermission_def)
  have l: "links ?am p = {}" for p by (rule links0) (simp add: links_def GetRBACPermission_def)
  have d: "defaultPermissions ?am = Map.empty" by (simp add: ClearRBAC_def)
  show ?thesis
  proof (cases "link_rows = []")
    case True
    then show ?thesis using assms k l d by (simp add: LoadRBAC_def Let_def GetRBACDefaultPermissions_def)
  next
    case False
    obtain am where am: "load_links 0 None (sort_key fst link_rows) ?am = Inr am" "known am = known ?am"
        "defaultPermissions am = defaultPermissions ?am" "\<And>p. links am p = {l. (p, l) \<in> set link_rows \<and> l \<noteq> p}"
      using load_links_spec [of "sort_key fst link_rows" ?am 0 None] assms k l by (auto simp: pointer_ok_def)
    let ?am' = "if default_rows = [] then am else load_defaults (sort_key fst default_rows) am"
    have "LoadRBAC perm_rows link_rows default_rows = Inr ?am'"
      using assms(1) False am(1) by (simp add: LoadRBAC_def Let_def)
    moreover have "permissions ?am' = permissions am" using load_defaults_spec by simp
    then have "known ?am' = known am" "\<And>p. links ?am' p = links am p"
      by (simp_all add: known_def links_def GetRBACPermission_def)
    moreover have "GetRBACDefaultPermissions ?am' lvl = {p. \<exists>n. (n, p) \<in> set default_rows \<and> ucast n = lvl}" for lvl
      using load_defaults_spec [of "sort_key fst default_rows" am lvl] am(3) d by (auto simp: GetRBACDefaultPermissions_def)
    ultimately show ?thesis using am k False by simp
  qed
qed

theorem LoadRBAC_tables_witness:
  "\<exists>am. LoadRBAC [(1, ''a''), (2, ''b'')] [(1, 2), (1, 1)] [(0, 1)] = Inr am \<and> links am 1 = {2} \<and> GetRBACDefaultPermissions am 0 = {1}"
  using LoadRBAC_tables [of "[(1, ''a''), (2, ''b'')]" "[(1, 2), (1, 1)]" "[(0, 1)]"] by fastforce

end
