(* ===== verification/Task_Scheduler.thy ===== *)
theory Task_Scheduler
  imports Prelude "HOL-Library.Multiset_Order"
begin

text \<open>
  The task scheduler of the creature scripts, \<open>src/common/Utilities/TaskScheduler.h\<close> and \<open>.cpp\<close>.
  Tasks are shared objects: a context keeps the task it runs while the queue may hold it again. So
  tasks live in a store, a list indexed by their address, and the queue, a \<open>std::multiset\<close> ordered by
  the end of the tasks, holds addresses. Times and durations count milliseconds. What a handler does is
  a parameter: from the task and the state of the world it gives the calls it makes, in order.
\<close>

section \<open>State\<close>

record 'h task =
  t_end :: nat
  t_duration :: nat
  t_group :: "u32 option"
  t_repeated :: u32
  t_handler :: 'h

text \<open>\<open>executed\<close> records the end of each task that ran, latest first; the program does not keep it.\<close>

record ('h, 'w) scheduler =
  now :: nat
  store :: "'h task list"
  task_holder :: "nat list"
  asyncHolder :: "'h list"
  predicate :: "'w \<Rightarrow> bool"
  world :: 'w
  executed :: "nat list"

datatype sched_error = AssertionFailed | PopOnEmptyQueue

definition EmptyValidator :: "'w \<Rightarrow> bool" where
  "EmptyValidator w = True"

definition new_TaskScheduler :: "nat \<Rightarrow> 'w \<Rightarrow> ('h, 'w) scheduler" where
  "new_TaskScheduler t w = \<lparr>now = t, store = [], task_holder = [], asyncHolder = [], predicate = EmptyValidator, world = w, executed = []\<rparr>"

definition SetValidator :: "('w \<Rightarrow> bool) \<Rightarrow> ('h, 'w) scheduler \<Rightarrow> ('h, 'w) scheduler" where
  "SetValidator p s = s\<lparr>predicate := p\<rparr>"

definition ClearValidator :: "('h, 'w) scheduler \<Rightarrow> ('h, 'w) scheduler" where
  "ClearValidator s = s\<lparr>predicate := EmptyValidator\<rparr>"

definition IsInGroup :: "'h task \<Rightarrow> u32 \<Rightarrow> bool" where
  "IsInGroup t g = (t_group t = Some g)"

section \<open>The queue\<close>

definition end_of :: "('h, 'w) scheduler \<Rightarrow> nat \<Rightarrow> nat" where
  "end_of s i = t_end (store s ! i)"

text \<open>An insertion into the multiset goes behind the tasks with the same end.\<close>

definition Push :: "nat \<Rightarrow> ('h, 'w) scheduler \<Rightarrow> ('h, 'w) scheduler" where
  "Push i s = s\<lparr>task_holder :=
     takeWhile (\<lambda>j. end_of s j \<le> end_of s i) (task_holder s) @ i # dropWhile (\<lambda>j. end_of s j \<le> end_of s i) (task_holder s)\<rparr>"

definition Clear :: "('h, 'w) scheduler \<Rightarrow> ('h, 'w) scheduler" where
  "Clear s = s\<lparr>task_holder := []\<rparr>"

definition RemoveIf :: "('h task \<Rightarrow> bool) \<Rightarrow> ('h, 'w) scheduler \<Rightarrow> ('h, 'w) scheduler" where
  "RemoveIf flt s = s\<lparr>task_holder := filter (\<lambda>i. \<not> flt (store s ! i)) (task_holder s)\<rparr>"

text \<open>\<open>ModifyIf\<close>: the filter changes the tasks it accepts; these leave the queue and are inserted again.\<close>

definition ModifyIf :: "('h task \<Rightarrow> 'h task option) \<Rightarrow> ('h, 'w) scheduler \<Rightarrow> ('h, 'w) scheduler" where
  "ModifyIf flt s =
    (let accepted = (\<lambda>i. flt (store s ! i) \<noteq> None);
         cache = filter accepted (task_holder s);
         rest = filter (\<lambda>i. \<not> accepted i) (task_holder s);
         st = fold (\<lambda>i st. st[i := the (flt (store s ! i))]) cache (store s)
     in fold Push cache (s\<lparr>store := st, task_holder := rest\<rparr>))"

section \<open>Operations of the scheduler\<close>

definition InsertTask :: "nat \<Rightarrow> ('h, 'w) scheduler \<Rightarrow> ('h, 'w) scheduler" where
  "InsertTask i s = Push i s"

definition ScheduleAt :: "nat \<Rightarrow> nat \<Rightarrow> u32 option \<Rightarrow> 'h \<Rightarrow> ('h, 'w) scheduler \<Rightarrow> ('h, 'w) scheduler" where
  "ScheduleAt e time g h s = InsertTask (length (store s))
     (s\<lparr>store := store s @ [\<lparr>t_end = e + time, t_duration = time, t_group = g, t_repeated = 0, t_handler = h\<rparr>]\<rparr>)"

definition Schedule :: "nat \<Rightarrow> u32 option \<Rightarrow> 'h \<Rightarrow> ('h, 'w) scheduler \<Rightarrow> ('h, 'w) scheduler" where
  "Schedule time g h s = ScheduleAt (now s) time g h s"

definition Async :: "'h \<Rightarrow> ('h, 'w) scheduler \<Rightarrow> ('h, 'w) scheduler" where
  "Async h s = s\<lparr>asyncHolder := asyncHolder s @ [h]\<rparr>"

definition CancelAll :: "('h, 'w) scheduler \<Rightarrow> ('h, 'w) scheduler" where
  "CancelAll s = (Clear s)\<lparr>asyncHolder := []\<rparr>"

definition CancelGroup :: "u32 \<Rightarrow> ('h, 'w) scheduler \<Rightarrow> ('h, 'w) scheduler" where
  "CancelGroup g s = RemoveIf (\<lambda>t. IsInGroup t g) s"

definition CancelGroupsOf :: "u32 list \<Rightarrow> ('h, 'w) scheduler \<Rightarrow> ('h, 'w) scheduler" where
  "CancelGroupsOf gs s = fold CancelGroup gs s"

definition DelayAll :: "nat \<Rightarrow> ('h, 'w) scheduler \<Rightarrow> ('h, 'w) scheduler" where
  "DelayAll d s = ModifyIf (\<lambda>t. Some (t\<lparr>t_end := t_end t + d\<rparr>)) s"

definition DelayGroup :: "u32 \<Rightarrow> nat \<Rightarrow> ('h, 'w) scheduler \<Rightarrow> ('h, 'w) scheduler" where
  "DelayGroup g d s = ModifyIf (\<lambda>t. if IsInGroup t g then Some (t\<lparr>t_end := t_end t + d\<rparr>) else None) s"

definition RescheduleAll :: "nat \<Rightarrow> ('h, 'w) scheduler \<Rightarrow> ('h, 'w) scheduler" where
  "RescheduleAll d s = ModifyIf (\<lambda>t. Some (t\<lparr>t_end := now s + d\<rparr>)) s"

definition RescheduleGroup :: "u32 \<Rightarrow> nat \<Rightarrow> ('h, 'w) scheduler \<Rightarrow> ('h, 'w) scheduler" where
  "RescheduleGroup g d s = ModifyIf (\<lambda>t. if IsInGroup t g then Some (t\<lparr>t_end := now s + d\<rparr>) else None) s"

text \<open>The calls a handler can make on the scheduler; a context schedules from the end of its task.\<close>

datatype 'h sched_op = OpSchedule nat "u32 option" 'h | OpAsync 'h | OpCancelAll | OpCancelGroup u32
  | OpCancelGroupsOf "u32 list" | OpDelayAll nat | OpDelayGroup u32 nat | OpRescheduleAll nat | OpRescheduleGroup u32 nat

fun sched_call :: "nat \<Rightarrow> 'h sched_op \<Rightarrow> ('h, 'w) scheduler \<Rightarrow> ('h, 'w) scheduler" where
  "sched_call from (OpSchedule time g h) s = ScheduleAt from time g h s"
| "sched_call from (OpAsync h) s = Async h s"
| "sched_call from OpCancelAll s = CancelAll s"
| "sched_call from (OpCancelGroup g) s = CancelGroup g s"
| "sched_call from (OpCancelGroupsOf gs) s = CancelGroupsOf gs s"
| "sched_call from (OpDelayAll d) s = DelayAll d s"
| "sched_call from (OpDelayGroup g d) s = DelayGroup g d s"
| "sched_call from (OpRescheduleAll d) s = RescheduleAll d s"
| "sched_call from (OpRescheduleGroup g d) s = RescheduleGroup g d s"

section \<open>Contexts\<close>

datatype 'h ctx_op = CtxRepeat nat | CtxRepeatSame | CtxSetGroup u32 | CtxClearGroup | CtxCall "'h sched_op"

definition update_task :: "nat \<Rightarrow> ('h task \<Rightarrow> 'h task) \<Rightarrow> ('h, 'w) scheduler \<Rightarrow> ('h, 'w) scheduler" where
  "update_task i f s = s\<lparr>store := (store s)[i := f (store s ! i)]\<rparr>"

text \<open>\<open>TaskContext::Repeat\<close>; the flag is \<open>_consumed\<close>.\<close>

definition Repeat :: "nat \<Rightarrow> nat \<Rightarrow> bool \<times> ('h, 'w) scheduler \<Rightarrow> sched_error + bool \<times> ('h, 'w) scheduler" where
  "Repeat i d cs =
    (if fst cs then Inl AssertionFailed
     else Inr (True, InsertTask i (update_task i
       (\<lambda>t. t\<lparr>t_duration := d, t_end := t_end t + d, t_repeated := t_repeated t + 1\<rparr>) (snd cs))))"

fun ctx_call :: "nat \<Rightarrow> 'h ctx_op \<Rightarrow> bool \<times> ('h, 'w) scheduler \<Rightarrow> sched_error + bool \<times> ('h, 'w) scheduler" where
  "ctx_call i (CtxRepeat d) cs = Repeat i d cs"
| "ctx_call i CtxRepeatSame cs = Repeat i (t_duration (store (snd cs) ! i)) cs"
| "ctx_call i (CtxSetGroup g) cs = Inr (fst cs, update_task i (\<lambda>t. t\<lparr>t_group := Some g\<rparr>) (snd cs))"
| "ctx_call i CtxClearGroup cs = Inr (fst cs, update_task i (\<lambda>t. t\<lparr>t_group := None\<rparr>) (snd cs))"
| "ctx_call i (CtxCall op) cs = Inr (fst cs, sched_call (end_of (snd cs) i) op (snd cs))"

fun ctx_calls :: "nat \<Rightarrow> 'h ctx_op list \<Rightarrow> bool \<times> ('h, 'w) scheduler \<Rightarrow> sched_error + bool \<times> ('h, 'w) scheduler" where
  "ctx_calls i [] cs = Inr cs"
| "ctx_calls i (op # ops) cs = (case ctx_call i op cs of Inl e \<Rightarrow> Inl e | Inr cs' \<Rightarrow> ctx_calls i ops cs')"

section \<open>Dispatching\<close>

record ('h, 'w) scripts =
  run_task :: "'h \<Rightarrow> 'h task \<Rightarrow> 'w \<Rightarrow> 'h ctx_op list \<times> 'w"
  run_async :: "'h \<Rightarrow> 'w \<Rightarrow> 'h sched_op list \<times> 'w"

definition Invoke :: "('h, 'w) scripts \<Rightarrow> nat \<Rightarrow> ('h, 'w) scheduler \<Rightarrow> sched_error + ('h, 'w) scheduler" where
  "Invoke sc i s =
    (let t = store s ! i; (ops, w) = run_task sc (t_handler t) t (world s)
     in map_sum id snd (ctx_calls i ops (False, s\<lparr>world := w, executed := t_end t # executed s\<rparr>)))"

text \<open>The callable runs while it is the front of the queue; then the queue is popped, which needs an
  element.\<close>

definition run_front :: "('h, 'w) scripts \<Rightarrow> ('h, 'w) scheduler \<Rightarrow> sched_error + ('h, 'w) scheduler" where
  "run_front sc s =
    (let (ops, w) = run_async sc (hd (asyncHolder s)) (world s);
         s = fold (\<lambda>op s. sched_call (now s) op s) ops (s\<lparr>world := w\<rparr>)
     in if asyncHolder s = [] then Inl PopOnEmptyQueue else Inr (s\<lparr>asyncHolder := tl (asyncHolder s)\<rparr>))"

text \<open>The two loops of \<open>Dispatch\<close>. \<open>None\<close> is a loop that does not end; the flag says that no validation
  failed.\<close>

partial_function (option) dispatch_asyncs ::
    "('h, 'w) scripts \<Rightarrow> ('h, 'w) scheduler \<Rightarrow> (sched_error + bool \<times> ('h, 'w) scheduler) option" where
  "dispatch_asyncs sc s =
    (if asyncHolder s = [] then Some (Inr (True, s))
     else case run_front sc s of
         Inl e \<Rightarrow> Some (Inl e)
       | Inr s' \<Rightarrow> if \<not> predicate s' (world s') then Some (Inr (False, s')) else dispatch_asyncs sc s')"

partial_function (option) dispatch_tasks ::
    "('h, 'w) scripts \<Rightarrow> ('h, 'w) scheduler \<Rightarrow> (sched_error + bool \<times> ('h, 'w) scheduler) option" where
  "dispatch_tasks sc s =
    (if task_holder s = [] then Some (Inr (True, s))
     else if now s < end_of s (hd (task_holder s)) then Some (Inr (True, s))
     else case Invoke sc (hd (task_holder s)) (s\<lparr>task_holder := tl (task_holder s)\<rparr>) of
         Inl e \<Rightarrow> Some (Inl e)
       | Inr s' \<Rightarrow> if \<not> predicate s' (world s') then Some (Inr (False, s')) else dispatch_tasks sc s')"

text \<open>\<open>Dispatch\<close>; the flag of the result says whether the final callback is called.\<close>

definition Dispatch :: "('h, 'w) scripts \<Rightarrow> ('h, 'w) scheduler \<Rightarrow> (sched_error + bool \<times> ('h, 'w) scheduler) option" where
  "Dispatch sc s =
    (if \<not> predicate s (world s) then Some (Inr (False, s))
     else Option.bind (dispatch_asyncs sc s)
       (\<lambda>r. case r of Inl e \<Rightarrow> Some (Inl e)
          | Inr (go, s') \<Rightarrow> if go then dispatch_tasks sc s' else Some (Inr (False, s'))))"

definition Update :: "('h, 'w) scripts \<Rightarrow> nat \<Rightarrow> ('h, 'w) scheduler \<Rightarrow> (sched_error + bool \<times> ('h, 'w) scheduler) option" where
  "Update sc difftime s = Dispatch sc (s\<lparr>now := now s + difftime\<rparr>)"

section \<open>The order of the queue\<close>

definition sched_inv :: "('h, 'w) scheduler \<Rightarrow> bool" where
  "sched_inv s \<longleftrightarrow> distinct (task_holder s) \<and> (\<forall>i\<in>set (task_holder s). i < length (store s)) \<and>
     sorted (map (end_of s) (task_holder s))"

lemma end_of_update [simp]:
  "end_of (s\<lparr>task_holder := q\<rparr>) = end_of s" "end_of (s\<lparr>asyncHolder := a\<rparr>) = end_of s" "end_of (s\<lparr>world := w\<rparr>) = end_of s"
  "end_of (s\<lparr>executed := x\<rparr>) = end_of s" "end_of (s\<lparr>now := n\<rparr>) = end_of s"
  by (simp_all add: end_of_def fun_eq_iff)

lemma Push_simps [simp]:
  "store (Push i s) = store s" "now (Push i s) = now s" "asyncHolder (Push i s) = asyncHolder s"
  "predicate (Push i s) = predicate s" "world (Push i s) = world s" "executed (Push i s) = executed s"
  "end_of (Push i s) = end_of s" "mset (task_holder (Push i s)) = add_mset i (mset (task_holder s))"
  by (simp_all add: Push_def end_of_def fun_eq_iff) (metis mset_append takeWhile_dropWhile_id union_mset_add_mset_right)

lemma Push_set [simp]: "set (task_holder (Push i s)) = insert i (set (task_holder s))"
  by (metis Push_simps(8) set_mset_add_mset_insert set_mset_mset)

lemma sorted_insert_upper:
  "sorted (map f xs) \<Longrightarrow> sorted (map f (takeWhile (\<lambda>j. f j \<le> f i) xs @ i # dropWhile (\<lambda>j. f j \<le> f i) xs))"
  by (induction xs) (auto dest: set_takeWhileD set_dropWhileD)

lemma sched_inv_Push: "sched_inv s \<Longrightarrow> i < length (store s) \<Longrightarrow> i \<notin> set (task_holder s) \<Longrightarrow> sched_inv (Push i s)"
proof -
  assume s: "sched_inv s" "i < length (store s)" "i \<notin> set (task_holder s)"
  have "distinct (task_holder (Push i s))"
    using s mset_eq_imp_distinct_iff [of "task_holder (Push i s)" "i # task_holder s"] by (simp add: sched_inv_def)
  moreover have "sorted (map (end_of s) (task_holder (Push i s)))"
    using sorted_insert_upper [of "end_of s" "task_holder s" i] s(1) by (simp add: sched_inv_def Push_def)
  ultimately show ?thesis using s by (simp add: sched_inv_def)
qed

lemma fold_Push_simps [simp]:
  "store (fold Push is s) = store s" "now (fold Push is s) = now s" "asyncHolder (fold Push is s) = asyncHolder s"
  "predicate (fold Push is s) = predicate s" "world (fold Push is s) = world s" "executed (fold Push is s) = executed s"
  "mset (task_holder (fold Push is s)) = mset is + mset (task_holder s)"
  by (induction "is" arbitrary: s) simp_all

lemma fold_Push_end [simp]: "end_of (fold Push is s) = end_of s"
  by (simp add: end_of_def fun_eq_iff)

lemma fold_Push_set [simp]: "set (task_holder (fold Push is s)) = set is \<union> set (task_holder s)"
  by (metis fold_Push_simps(7) set_mset_mset set_mset_union)

lemma sched_inv_fold_Push:
  "sched_inv s \<Longrightarrow> distinct is \<Longrightarrow> \<forall>i\<in>set is. i < length (store s) \<and> i \<notin> set (task_holder s) \<Longrightarrow> sched_inv (fold Push is s)"
proof (induction "is" arbitrary: s)
  case (Cons i "is")
  have "sched_inv (Push i s)" using Cons.prems by (auto intro: sched_inv_Push)
  with Cons.prems have "sched_inv (fold Push is (Push i s))" by (intro Cons.IH) auto
  then show ?case by simp
qed simp

lemma nth_fold_update:
  "j < length xs \<Longrightarrow> fold (\<lambda>i st. st[i := f i]) is xs ! j = (if j \<in> set is then f j else xs ! j)"
  by (induction "is" arbitrary: xs) (auto simp: nth_list_update)

lemma length_fold_update [simp]: "length (fold (\<lambda>i st. st[i := f i]) is xs) = length xs"
  by (induction "is" arbitrary: xs) auto

lemma sched_inv_filter: "sched_inv s \<Longrightarrow> sched_inv (s\<lparr>task_holder := filter P (task_holder s)\<rparr>)"
proof -
  assume "sched_inv s"
  then have "sorted (map (end_of s) (filter P (task_holder s)))" by (simp add: sched_inv_def sorted_filter)
  with \<open>sched_inv s\<close> show ?thesis by (simp add: sched_inv_def)
qed

text \<open>What \<open>ModifyIf\<close> does: the queue keeps its tasks and its order, the accepted tasks are changed.\<close>

lemma ModifyIf_simps [simp]:
  "now (ModifyIf f s) = now s" "asyncHolder (ModifyIf f s) = asyncHolder s" "predicate (ModifyIf f s) = predicate s"
  "world (ModifyIf f s) = world s" "executed (ModifyIf f s) = executed s"
  "length (store (ModifyIf f s)) = length (store s)"
  "mset (task_holder (ModifyIf f s)) = mset (task_holder s)"
  by (simp_all add: ModifyIf_def Let_def)

lemma ModifyIf_set [simp]: "set (task_holder (ModifyIf f s)) = set (task_holder s)"
  by (metis ModifyIf_simps(7) set_mset_mset)

lemma ModifyIf_store:
  "j < length (store s) \<Longrightarrow> store (ModifyIf f s) ! j =
     (if j \<in> set (task_holder s) \<and> f (store s ! j) \<noteq> None then the (f (store s ! j)) else store s ! j)"
  by (auto simp: ModifyIf_def Let_def nth_fold_update)

lemma sched_inv_ModifyIf:
  assumes "sched_inv s"
  shows "sched_inv (ModifyIf f s)"
proof -
  let ?acc = "\<lambda>i. f (store s ! i) \<noteq> None"
  let ?st = "fold (\<lambda>i st. st[i := the (f (store s ! i))]) (filter ?acc (task_holder s)) (store s)"
  let ?rest = "filter (\<lambda>i. \<not> ?acc i) (task_holder s)"
  have "map (\<lambda>i. t_end (?st ! i)) ?rest = map (end_of s) ?rest"
    using assms by (auto simp: nth_fold_update sched_inv_def end_of_def)
  moreover have "sorted (map (end_of s) ?rest)" using assms by (simp add: sched_inv_def sorted_filter)
  ultimately have "sorted (map (\<lambda>i. t_end (?st ! i)) ?rest)" by (simp only:)
  then have "sched_inv (s\<lparr>store := ?st, task_holder := ?rest\<rparr>)"
    using assms by (simp add: sched_inv_def end_of_def [abs_def])
  then have "sched_inv (fold Push (filter ?acc (task_holder s)) (s\<lparr>store := ?st, task_holder := ?rest\<rparr>))"
    by (rule sched_inv_fold_Push) (use assms in \<open>auto simp: sched_inv_def\<close>)
  then show ?thesis by (simp add: ModifyIf_def Let_def)
qed

section \<open>Calls move tasks forward\<close>

text \<open>
  The measure of the dispatch loop: for each queued task how far its end lies behind the clock. A call
  is forward when it only makes tasks due later than the one that runs.
\<close>

definition weights :: "('h, 'w) scheduler \<Rightarrow> nat multiset" where
  "weights s = image_mset (\<lambda>i. Suc (now s) - end_of s i) (mset (task_holder s))"

fun forward_call :: "'h sched_op \<Rightarrow> bool" where
  "forward_call (OpSchedule time g h) = (0 < time)"
| "forward_call (OpRescheduleAll d) = (0 < d)"
| "forward_call (OpRescheduleGroup g d) = (0 < d)"
| "forward_call op = True"

fun forward_ctx :: "'h ctx_op \<Rightarrow> bool" where
  "forward_ctx (CtxRepeat d) = (0 < d)"
| "forward_ctx (CtxCall op) = forward_call op"
| "forward_ctx op = True"

definition sched_ok :: "('h, 'w) scheduler \<Rightarrow> bool" where
  "sched_ok s \<longleftrightarrow> sched_inv s \<and> (\<forall>t\<in>set (store s). 0 < t_duration t)"

definition late :: "nat \<Rightarrow> ('h, 'w) scheduler \<Rightarrow> bool" where
  "late e s \<longleftrightarrow> (\<forall>j\<in>set (task_holder s). e \<le> end_of s j)"

definition descends :: "nat \<Rightarrow> ('h, 'w) scheduler \<Rightarrow> ('h, 'w) scheduler \<Rightarrow> bool" where
  "descends e s s' \<longleftrightarrow> now s' = now s \<and> predicate s' = predicate s \<and> executed s' = executed s \<and> world s' = world s \<and>
     (\<exists>D. (\<forall>x\<in>#D. x < Suc (now s) - e) \<and> weights s' \<le> weights s + D)"

definition advances :: "nat \<Rightarrow> ('h, 'w) scheduler \<Rightarrow> ('h, 'w) scheduler \<Rightarrow> bool" where
  "advances e s s' \<longleftrightarrow> sched_ok s' \<and> late e s' \<and> descends e s s' \<and> length (store s) \<le> length (store s') \<and>
     (\<forall>j<length (store s). e \<le> end_of s j \<longrightarrow> e \<le> end_of s' j) \<and>
     (\<forall>j\<in>set (task_holder s'). j \<in> set (task_holder s) \<or> length (store s) \<le> j)"

lemma descends_trans:
  assumes "descends e s t" "descends e t u"
  shows "descends e s u"
proof -
  from assms obtain D D' where D: "\<forall>x\<in>#D. x < Suc (now s) - e" "weights t \<le> weights s + D"
    and D': "\<forall>x\<in>#D'. x < Suc (now t) - e" "weights u \<le> weights t + D'"
    by (auto simp: descends_def)
  have "weights u \<le> weights s + (D + D')"
    using D(2) D'(2) by (metis add.assoc add_right_mono order_trans)
  moreover have "\<forall>x\<in>#D + D'. x < Suc (now s) - e" using D(1) D'(1) assms(1) by (auto simp: descends_def)
  ultimately have "\<exists>D. (\<forall>x\<in>#D. x < Suc (now s) - e) \<and> weights u \<le> weights s + D" by blast
  then show ?thesis using assms by (simp add: descends_def)
qed

lemma descends_le: "now s' = now s \<Longrightarrow> predicate s' = predicate s \<Longrightarrow> executed s' = executed s \<Longrightarrow> world s' = world s \<Longrightarrow>
    weights s' \<le> weights s \<Longrightarrow> descends e s s'"
  by (auto simp: descends_def intro!: exI [of _ "{#}"])

lemma advances_trans:
  assumes "advances e s t" "advances e t u"
  shows "advances e s u"
proof -
  have "descends e s u" using assms descends_trans unfolding advances_def by blast
  moreover have "\<forall>j\<in>set (task_holder u). j \<in> set (task_holder s) \<or> length (store s) \<le> j"
    using assms unfolding advances_def by (meson order_trans)
  moreover have "\<forall>j<length (store s). e \<le> end_of s j \<longrightarrow> e \<le> end_of u j"
    using assms unfolding advances_def by (meson less_le_trans)
  ultimately show ?thesis using assms by (auto simp: advances_def)
qed

lemma advances_refl: "sched_ok s \<Longrightarrow> late e s \<Longrightarrow> advances e s s"
  by (auto simp: advances_def intro!: descends_le)

lemma image_mset_mono: "(\<And>i. i \<in># M \<Longrightarrow> f i \<le> g i) \<Longrightarrow> image_mset f M \<le> image_mset g (M :: 'a multiset)" for f g :: "'a \<Rightarrow> nat"
proof (induction M)
  case (add x M)
  have "f x \<le> g x" using add.prems by simp
  then have "{#f x#} \<le> {#g x#}" by (cases "f x = g x") (auto simp: less_eq_multiset_def)
  moreover have "image_mset f M \<le> image_mset g M" using add by simp
  ultimately have "{#f x#} + image_mset f M \<le> {#g x#} + image_mset g M" by (rule add_mono)
  then show ?case by simp
qed simp

lemma advances_filter:
  assumes "sched_ok s" "late e s"
  shows "advances e s (s\<lparr>task_holder := filter P (task_holder s)\<rparr>)"
proof -
  have "weights (s\<lparr>task_holder := filter P (task_holder s)\<rparr>) \<le> weights s"
    unfolding weights_def by (simp add: subset_eq_imp_le_multiset image_mset_subseteq_mono)
  then show ?thesis
    using assms by (auto simp: advances_def sched_ok_def sched_inv_filter late_def intro!: descends_le)
qed

lemma advances_async: "sched_ok s \<Longrightarrow> late e s \<Longrightarrow> advances e s (s\<lparr>asyncHolder := a\<rparr>)"
  by (auto simp: advances_def sched_ok_def sched_inv_def late_def weights_def intro!: descends_le)

lemma advances_ModifyIf:
  assumes "sched_ok s" "late e s"
    and f: "\<And>t t'. f t = Some t' \<Longrightarrow> t_duration t' = t_duration t \<and> (t_end t \<le> t_end t' \<or> now s < t_end t')" and "e \<le> now s"
  shows "advances e s (ModifyIf f s)"
proof -
  have later: "end_of s j \<le> end_of (ModifyIf f s) j \<or> now s < end_of (ModifyIf f s) j" if "j < length (store s)" for j
    using f that by (auto simp: end_of_def ModifyIf_store split: option.splits)
  have "t_duration (store (ModifyIf f s) ! j) = t_duration (store s ! j)" if "j < length (store s)" for j
    using f that by (auto simp: ModifyIf_store split: option.splits)
  then have "\<forall>t\<in>set (store (ModifyIf f s)). 0 < t_duration t"
    using assms(1) by (simp add: sched_ok_def all_set_conv_all_nth)
  then have ok: "sched_ok (ModifyIf f s)" using assms(1) by (simp add: sched_ok_def sched_inv_ModifyIf)
  have bound: "\<forall>j\<in>set (task_holder s). j < length (store s)" using assms(1) by (simp add: sched_ok_def sched_inv_def)
  have "weights (ModifyIf f s) \<le> weights s"
    unfolding weights_def by (simp, rule image_mset_mono) (use later bound in fastforce)
  moreover have "late e (ModifyIf f s)" using assms(2,4) later bound by (fastforce simp: late_def)
  moreover have "\<forall>j<length (store s). e \<le> end_of s j \<longrightarrow> e \<le> end_of (ModifyIf f s) j" using later assms(4) by fastforce
  ultimately show ?thesis using ok by (auto simp: advances_def intro!: descends_le)
qed

lemma weights_Push: "weights (Push i s) = add_mset (Suc (now s) - end_of s i) (weights s)"
  by (simp add: weights_def)

lemma advances_ScheduleAt:
  assumes "sched_ok s" "late e s" "e \<le> from" "0 < time" "e \<le> now s"
  shows "advances e s (ScheduleAt from time g h s)"
proof -
  let ?t = "\<lparr>t_end = from + time, t_duration = time, t_group = g, t_repeated = 0, t_handler = h\<rparr>"
  let ?s = "s\<lparr>store := store s @ [?t]\<rparr>" and ?n = "length (store s)"
  have old: "end_of ?s j = end_of s j" if "j < ?n" for j using that by (simp add: end_of_def nth_append)
  have new: "end_of ?s ?n = from + time" by (simp add: end_of_def)
  have bound: "\<forall>j\<in>set (task_holder s). j < ?n" using assms(1) by (simp add: sched_ok_def sched_inv_def)
  have same: "map (end_of ?s) (task_holder s) = map (end_of s) (task_holder s)" using old bound by simp
  have "sorted (map (end_of ?s) (task_holder s))"
    unfolding same using assms(1) by (simp add: sched_ok_def sched_inv_def)
  then have "sched_inv ?s"
    using assms(1) by (simp add: sched_ok_def sched_inv_def less_Suc_eq)
  then have "sched_inv (Push ?n ?s)" by (rule sched_inv_Push) (use bound in auto)
  then have ok: "sched_ok (Push ?n ?s)" using assms(1,4) by (simp add: sched_ok_def)
  have "weights ?s = weights s" unfolding weights_def using old bound by (auto intro!: image_mset_cong)
  then have w: "weights (Push ?n ?s) \<le> weights s + {#Suc (now s) - (from + time)#}"
    by (simp add: weights_Push new [simplified])
  moreover have "Suc (now s) - (from + time) < Suc (now s) - e" using assms(3,4,5) by simp
  ultimately have "\<exists>D. (\<forall>x\<in>#D. x < Suc (now s) - e) \<and> weights (Push ?n ?s) \<le> weights s + D"
    by (intro exI [of _ "{#Suc (now s) - (from + time)#}"]) simp
  moreover have "late e (Push ?n ?s)"
    using assms(2,3,4) old bound new by (auto simp: late_def)
  moreover have "\<forall>j<?n. e \<le> end_of s j \<longrightarrow> e \<le> end_of (Push ?n ?s) j" using old by simp
  ultimately show ?thesis
    using ok by (simp add: advances_def descends_def ScheduleAt_def InsertTask_def)
qed

lemma advances_CancelAll: "sched_ok s \<Longrightarrow> late e s \<Longrightarrow> advances e s (CancelAll s)"
proof -
  assume s: "sched_ok s" "late e s"
  have "advances e s (s\<lparr>task_holder := filter (\<lambda>_. False) (task_holder s)\<rparr>)" by (rule advances_filter [OF s])
  then have a: "advances e s (s\<lparr>task_holder := []\<rparr>)" by simp
  then have "advances e (s\<lparr>task_holder := []\<rparr>) (s\<lparr>task_holder := [], asyncHolder := []\<rparr>)"
    using advances_async [of "s\<lparr>task_holder := []\<rparr>" e "[]"] by (simp add: advances_def)
  with a show ?thesis by (auto simp: CancelAll_def Clear_def intro: advances_trans)
qed

lemma advances_CancelGroupsOf: "sched_ok s \<Longrightarrow> late e s \<Longrightarrow> advances e s (CancelGroupsOf gs s)"
proof (induction gs arbitrary: s)
  case Nil
  then show ?case by (simp add: CancelGroupsOf_def advances_refl)
next
  case (Cons g gs)
  have a: "advances e s (CancelGroup g s)"
    unfolding CancelGroup_def RemoveIf_def by (rule advances_filter [OF Cons.prems])
  then have "advances e (CancelGroup g s) (CancelGroupsOf gs (CancelGroup g s))"
    by (intro Cons.IH) (auto simp: advances_def)
  with a show ?case by (simp add: CancelGroupsOf_def) (rule advances_trans)
qed

lemma advances_call:
  assumes "sched_ok s" "late e s" "e \<le> from" "e \<le> now s" "forward_call op"
  shows "advances e s (sched_call from op s)"
proof (cases op)
  case (OpSchedule time g h)
  then show ?thesis using assms by (simp add: advances_ScheduleAt)
next
  case (OpAsync h)
  then show ?thesis using assms by (simp add: Async_def advances_async)
next
  case OpCancelAll
  then show ?thesis using assms by (simp add: advances_CancelAll)
next
  case (OpCancelGroup g)
  then show ?thesis using assms by (simp add: CancelGroup_def RemoveIf_def advances_filter)
next
  case (OpCancelGroupsOf gs)
  then show ?thesis using assms by (simp add: advances_CancelGroupsOf)
qed (use assms in \<open>auto simp: DelayAll_def DelayGroup_def RescheduleAll_def RescheduleGroup_def
    intro!: advances_ModifyIf split: if_splits\<close>)

section \<open>Running a task\<close>

text \<open>What a running task with end \<open>e\<close> keeps: its own task is not queued before it is repeated.\<close>

definition ctx_ok :: "nat \<Rightarrow> nat \<Rightarrow> bool \<times> ('h, 'w) scheduler \<Rightarrow> bool" where
  "ctx_ok e i cs \<longleftrightarrow> sched_ok (snd cs) \<and> late e (snd cs) \<and> e \<le> now (snd cs) \<and> i < length (store (snd cs)) \<and>
     e \<le> end_of (snd cs) i \<and> (\<not> fst cs \<longrightarrow> i \<notin> set (task_holder (snd cs)))"

lemma update_task_fields [simp]:
  "task_holder (update_task i f s) = task_holder s" "now (update_task i f s) = now s"
  "asyncHolder (update_task i f s) = asyncHolder s" "predicate (update_task i f s) = predicate s"
  "world (update_task i f s) = world s" "executed (update_task i f s) = executed s"
  "length (store (update_task i f s)) = length (store s)"
  by (simp_all add: update_task_def)

lemma end_of_update_task: "j < length (store s) \<Longrightarrow> end_of (update_task i f s) j = (if j = i then t_end (f (store s ! i)) else end_of s j)"
  by (simp add: end_of_def update_task_def nth_list_update)

definition is_repeat :: "'h ctx_op \<Rightarrow> bool" where
  "is_repeat op = (case op of CtxRepeat _ \<Rightarrow> True | CtxRepeatSame \<Rightarrow> True | _ \<Rightarrow> False)"

lemma update_task_ok:
  assumes "sched_ok s" "late e s" "i < length (store s)"
    and queued: "i \<in> set (task_holder s) \<Longrightarrow> t_end (f (store s ! i)) = t_end (store s ! i)"
    and "0 < t_duration (f (store s ! i))"
  shows "sched_ok (update_task i f s)" "late e (update_task i f s)" "weights (update_task i f s) = weights s"
proof -
  have same: "end_of (update_task i f s) j = end_of s j" if "j \<in> set (task_holder s)" for j
    using assms(1) that queued by (auto simp: end_of_update_task sched_ok_def sched_inv_def) (simp add: end_of_def)
  then have "map (end_of (update_task i f s)) (task_holder s) = map (end_of s) (task_holder s)" by simp
  then have "sched_inv (update_task i f s)" using assms(1) by (auto simp only: sched_ok_def sched_inv_def update_task_fields)
  moreover have "\<forall>t\<in>set (store (update_task i f s)). 0 < t_duration t"
    using assms(1,5) by (auto simp: sched_ok_def update_task_def dest: set_update_subset_insert [THEN subsetD])
  ultimately show "sched_ok (update_task i f s)" by (simp add: sched_ok_def)
  show "late e (update_task i f s)" using assms(2) same by (simp add: late_def)
  show "weights (update_task i f s) = weights s" using same by (auto simp: weights_def intro!: image_mset_cong)
qed

lemma Repeat_ok:
  assumes "ctx_ok e i (False, s)" "0 < d"
  shows "\<exists>s'. Repeat i d (False, s) = Inr (True, s') \<and> ctx_ok e i (True, s') \<and> descends e s s'"
proof -
  let ?f = "\<lambda>t. t\<lparr>t_duration := d, t_end := t_end t + d, t_repeated := t_repeated t + 1\<rparr>"
  let ?u = "update_task i ?f s"
  have s: "sched_ok s" "late e s" "e \<le> now s" "i < length (store s)" "e \<le> end_of s i" "i \<notin> set (task_holder s)"
    using assms(1) by (simp_all add: ctx_ok_def)
  have u: "sched_ok ?u" "late e ?u" "weights ?u = weights s"
    using update_task_ok [OF s(1,2,4), of ?f] s(6) assms(2) by simp_all
  have e: "end_of ?u i = end_of s i + d" using s(4) by (simp add: end_of_update_task) (simp add: end_of_def)
  have "sched_ok (Push i ?u)" using u(1) s by (simp add: sched_ok_def sched_inv_Push)
  moreover have "late e (Push i ?u)" using u(2) s e by (simp add: late_def)
  moreover have "weights (Push i ?u) \<le> weights s + {#Suc (now s) - (end_of s i + d)#}"
    by (simp add: weights_Push u(3) e)
  then have "\<exists>D. (\<forall>x\<in>#D. x < Suc (now s) - e) \<and> weights (Push i ?u) \<le> weights s + D"
    using s(3,5) assms(2) by (intro exI [of _ "{#Suc (now s) - (end_of s i + d)#}"]) auto
  ultimately show ?thesis
    using s e by (simp add: Repeat_def InsertTask_def ctx_ok_def descends_def)
qed

lemma ctx_call_ok:
  assumes ok: "ctx_ok e i (c, s)" and "forward_ctx op" and rep: "is_repeat op \<Longrightarrow> \<not> c"
  shows "\<exists>s'. ctx_call i op (c, s) = Inr (c \<or> is_repeat op, s') \<and> ctx_ok e i (c \<or> is_repeat op, s') \<and> descends e s s'"
proof -
  have s: "sched_ok s" "late e s" "e \<le> now s" "i < length (store s)" "e \<le> end_of s i" "\<not> c \<Longrightarrow> i \<notin> set (task_holder s)"
    using ok by (simp_all add: ctx_ok_def)
  have dur: "0 < t_duration (store s ! i)" using s(1,4) by (simp add: sched_ok_def)
  have upd: "ctx_ok e i (c, update_task i f s) \<and> descends e s (update_task i f s)"
    if "\<And>t. t_end (f t) = t_end t" "\<And>t. t_duration (f t) = t_duration t" for f
  proof -
    note u = update_task_ok [OF s(1,2,4), of f]
    have "end_of (update_task i f s) i = end_of s i" using s(4) that by (simp add: end_of_update_task) (simp add: end_of_def)
    then show ?thesis
      using s u that dur by (auto simp: ctx_ok_def intro!: descends_le)
  qed
  show ?thesis
  proof (cases op)
    case (CtxRepeat d)
    then show ?thesis using Repeat_ok [of e i s d] ok assms(2) rep by (simp add: is_repeat_def)
  next
    case CtxRepeatSame
    then show ?thesis using Repeat_ok [OF _ dur, of e] ok rep by (simp add: is_repeat_def)
  next
    case (CtxSetGroup g)
    then show ?thesis using upd [of "\<lambda>t. t\<lparr>t_group := Some g\<rparr>"] by (simp add: is_repeat_def)
  next
    case CtxClearGroup
    then show ?thesis using upd [of "\<lambda>t. t\<lparr>t_group := None\<rparr>"] by (simp add: is_repeat_def)
  next
    case (CtxCall call)
    have "advances e s (sched_call (end_of s i) call s)"
      using s CtxCall assms(2) by (intro advances_call) simp_all
    then show ?thesis
      using CtxCall s by (fastforce simp: is_repeat_def advances_def ctx_ok_def descends_def)
  qed
qed

definition forward_ops :: "bool \<Rightarrow> 'h ctx_op list \<Rightarrow> bool" where
  "forward_ops c ops \<longleftrightarrow> list_all forward_ctx ops \<and> length (filter is_repeat ops) + of_bool c \<le> 1"

lemma ctx_calls_ok:
  "ctx_ok e i (c, s) \<Longrightarrow> forward_ops c ops \<Longrightarrow>
     \<exists>c' s'. ctx_calls i ops (c, s) = Inr (c', s') \<and> ctx_ok e i (c', s') \<and> descends e s s'"
proof (induction ops arbitrary: c s)
  case Nil
  then show ?case by (auto intro!: descends_le)
next
  case (Cons op ops)
  have "is_repeat op \<Longrightarrow> \<not> c" "forward_ctx op" using Cons.prems(2) by (auto simp: forward_ops_def)
  from ctx_call_ok [OF Cons.prems(1) this(2,1)] obtain s' where s': "ctx_call i op (c, s) = Inr (c \<or> is_repeat op, s')"
      "ctx_ok e i (c \<or> is_repeat op, s')" "descends e s s'"
    by blast
  have "forward_ops (c \<or> is_repeat op) ops" using Cons.prems(2) by (auto simp: forward_ops_def split: if_splits)
  from Cons.IH [OF s'(2) this] s'(1,3) show ?case by (auto intro: descends_trans)
qed

section \<open>The dispatch loops\<close>

fun calm_async :: "'h sched_op \<Rightarrow> bool" where
  "calm_async (OpAsync h) = False"
| "calm_async OpCancelAll = False"
| "calm_async op = forward_call op"

definition forward_scripts :: "('h, 'w) scripts \<Rightarrow> bool" where
  "forward_scripts sc \<longleftrightarrow> (\<forall>h t w. forward_ops False (fst (run_task sc h t w))) \<and>
     (\<forall>h w. list_all calm_async (fst (run_async sc h w)))"

text \<open>The end of the task that ran last, and what the record of the tasks that ran satisfies.\<close>

definition last_end :: "('h, 'w) scheduler \<Rightarrow> nat" where
  "last_end s = (case executed s of [] \<Rightarrow> 0 | e # _ \<Rightarrow> e)"

definition trace_ok :: "('h, 'w) scheduler \<Rightarrow> bool" where
  "trace_ok s \<longleftrightarrow> late (last_end s) s \<and> last_end s \<le> now s \<and> sorted_wrt (\<ge>) (executed s)"

definition none_due :: "('h, 'w) scheduler \<Rightarrow> bool" where
  "none_due s \<longleftrightarrow> (\<forall>i\<in>set (task_holder s). now s < end_of s i)"

lemma sched_call_async: "calm_async op \<Longrightarrow> asyncHolder (sched_call from op s) = asyncHolder s"
proof (cases op)
  case (OpCancelGroupsOf gs)
  have "asyncHolder (CancelGroupsOf gs s) = asyncHolder s" for s
    unfolding CancelGroupsOf_def by (induction gs arbitrary: s) (simp_all add: CancelGroup_def RemoveIf_def)
  then show ?thesis using OpCancelGroupsOf by simp
qed (simp_all add: ScheduleAt_def InsertTask_def CancelGroup_def RemoveIf_def DelayAll_def DelayGroup_def RescheduleAll_def RescheduleGroup_def)

lemma calm_forward: "calm_async op \<Longrightarrow> forward_call op"
  by (cases op) auto

lemma async_calls_advance:
  assumes "sched_ok s" "late e s" "e \<le> now s" "list_all calm_async ops"
  shows "advances e s (fold (\<lambda>op s. sched_call (now s) op s) ops s) \<and>
    asyncHolder (fold (\<lambda>op s. sched_call (now s) op s) ops s) = asyncHolder s"
  using assms
proof (induction ops arbitrary: s)
  case Nil
  then show ?case by (simp add: advances_refl)
next
  case (Cons op ops)
  let ?s = "sched_call (now s) op s"
  have a: "advances e s ?s" using Cons.prems by (intro advances_call) (simp_all add: calm_forward)
  then have "sched_ok ?s" "late e ?s" "e \<le> now ?s" using Cons.prems(3) by (simp_all add: advances_def descends_def)
  from Cons.IH [OF this] Cons.prems(4) have
    "advances e ?s (fold (\<lambda>op s. sched_call (now s) op s) ops ?s)" "asyncHolder (fold (\<lambda>op s. sched_call (now s) op s) ops ?s) = asyncHolder ?s"
    by simp_all
  with a Cons.prems(4) show ?case by (auto simp: sched_call_async intro: advances_trans)
qed

lemma run_front_ok:
  assumes "forward_scripts sc" "sched_ok s" "trace_ok s" "asyncHolder s \<noteq> []"
  shows "\<exists>s'. run_front sc s = Inr s' \<and> sched_ok s' \<and> trace_ok s' \<and> now s' = now s \<and> predicate s' = predicate s \<and> asyncHolder s' = tl (asyncHolder s)"
proof -
  obtain ops w where run: "run_async sc (hd (asyncHolder s)) (world s) = (ops, w)" by (cases "run_async sc (hd (asyncHolder s)) (world s)")
  let ?s = "s\<lparr>world := w\<rparr>" and ?e = "last_end s"
  let ?t = "fold (\<lambda>op s. sched_call (now s) op s) ops ?s"
  have "list_all calm_async ops" using assms(1) run by (metis forward_scripts_def fst_conv)
  moreover have "sched_ok ?s" "late ?e ?s" "?e \<le> now ?s" using assms(2,3) by (simp_all add: sched_ok_def sched_inv_def late_def trace_ok_def)
  ultimately have t: "advances ?e ?s ?t" "asyncHolder ?t = asyncHolder s" using async_calls_advance [of ?s ?e ops] by auto
  have "run_front sc s = Inr (?t\<lparr>asyncHolder := tl (asyncHolder ?t)\<rparr>)"
    using assms(4) t(2) run by (simp add: run_front_def Let_def)
  then show ?thesis
    using t assms(3) by (auto simp: advances_def descends_def sched_ok_def sched_inv_def trace_ok_def last_end_def late_def)
qed

lemma dispatch_asyncs_returns:
  assumes "forward_scripts sc" "sched_ok s" "trace_ok s"
  shows "\<exists>b s'. dispatch_asyncs sc s = Some (Inr (b, s')) \<and> sched_ok s' \<and> trace_ok s' \<and> now s' = now s \<and>
    predicate s' = predicate s \<and> ((\<forall>w. predicate s w) \<longrightarrow> b)"
  using assms(2,3)
proof (induction "length (asyncHolder s)" arbitrary: s rule: less_induct)
  case less
  show ?case
  proof (cases "asyncHolder s = []")
    case True
    then show ?thesis using less.prems by (simp add: dispatch_asyncs.simps) blast
  next
    case False
    from run_front_ok [OF assms(1) less.prems False] obtain s' where s': "run_front sc s = Inr s'" "sched_ok s'" "trace_ok s'"
        "now s' = now s" "predicate s' = predicate s" "asyncHolder s' = tl (asyncHolder s)" by blast
    show ?thesis
    proof (cases "predicate s' (world s')")
      case True
      have "\<exists>b t. dispatch_asyncs sc s' = Some (Inr (b, t)) \<and> sched_ok t \<and> trace_ok t \<and> now t = now s' \<and>
          predicate t = predicate s' \<and> ((\<forall>w. predicate s' w) \<longrightarrow> b)"
        by (rule less.hyps) (use False s' in auto)
      then show ?thesis using s' True False by (simp add: dispatch_asyncs.simps [of sc s])
    next
      case fail: False
      then show ?thesis using s' False by (simp add: dispatch_asyncs.simps [of sc s]) blast
    qed
  qed
qed

text \<open>One round of the second loop: the task runs, and the measure falls.\<close>

lemma Invoke_ok:
  assumes "forward_scripts sc" "sched_ok s" "task_holder s = i # q" "end_of s i \<le> now s" "trace_ok s"
  shows "\<exists>s'. Invoke sc i (s\<lparr>task_holder := q\<rparr>) = Inr s' \<and> sched_ok s' \<and> trace_ok s' \<and> now s' = now s \<and> predicate s' = predicate s \<and> weights s' < weights s \<and>
    executed s' = end_of s i # executed s"
proof -
  let ?e = "end_of s i" and ?t = "store s ! i"
  obtain ops w where run: "run_task sc (t_handler ?t) ?t (world s) = (ops, w)"
    by (cases "run_task sc (t_handler ?t) ?t (world s)")
  let ?s = "s\<lparr>task_holder := q, world := w, executed := ?e # executed s\<rparr>"
  have inv: "distinct (i # q)" "\<forall>j\<in>set (i # q). j < length (store s)" "sorted (map (end_of s) (i # q))"
    using assms(2,3) by (simp_all add: sched_ok_def sched_inv_def)
  have "ctx_ok ?e i (False, ?s)"
    using assms(2,4) inv by (simp add: ctx_ok_def sched_ok_def sched_inv_def late_def)
  moreover have "forward_ops False ops" using assms(1) run by (metis forward_scripts_def fst_conv)
  ultimately obtain c s' where s': "ctx_calls i ops (False, ?s) = Inr (c, s')" "ctx_ok ?e i (c, s')" "descends ?e ?s s'"
    using ctx_calls_ok by blast
  then obtain D where D: "\<forall>x\<in>#D. x < Suc (now s) - ?e" "weights s' \<le> weights ?s + D" by (auto simp: descends_def)
  have "D < {#Suc (now s) - ?e#}" using D(1) by (simp add: mset_lt_single_right_iff)
  then have "weights ?s + D < weights ?s + {#Suc (now s) - ?e#}" by (rule add_strict_left_mono)
  also have "weights ?s + {#Suc (now s) - ?e#} = weights s" using assms(3) by (simp add: weights_def)
  finally have "weights s' < weights s" using D(2) by simp
  moreover have "executed s' = ?e # executed s" "now s' = now s" "predicate s' = predicate s" using s'(3) by (simp_all add: descends_def)
  moreover have "last_end s \<le> ?e" using assms(3,5) by (simp add: trace_ok_def late_def)
  then have "sorted_wrt (\<ge>) (?e # executed s)"
    using assms(5) by (cases "executed s") (auto simp: trace_ok_def last_end_def)
  ultimately have "trace_ok s'" using s'(2) assms(4) by (simp add: trace_ok_def last_end_def ctx_ok_def)
  moreover have "Invoke sc i (s\<lparr>task_holder := q\<rparr>) = Inr s'"
    using run s'(1) by (simp add: Invoke_def Let_def end_of_def)
  ultimately show ?thesis
    using s'(2) \<open>weights s' < weights s\<close> \<open>executed s' = ?e # executed s\<close> \<open>now s' = now s\<close> \<open>predicate s' = predicate s\<close> by (auto simp: ctx_ok_def)
qed

lemma dispatch_tasks_returns:
  assumes "forward_scripts sc" "sched_ok s" "trace_ok s"
  shows "\<exists>b s'. dispatch_tasks sc s = Some (Inr (b, s')) \<and> sched_ok s' \<and> trace_ok s' \<and> now s' = now s \<and>
    predicate s' = predicate s \<and> ((\<forall>w. predicate s w) \<longrightarrow> b) \<and> (b \<longrightarrow> none_due s')"
  using assms(2,3)
proof (induction "weights s" arbitrary: s rule: less_induct)
  case less
  show ?case
  proof (cases "task_holder s")
    case Nil
    then show ?thesis using less.prems by (simp add: dispatch_tasks.simps none_due_def) blast
  next
    case (Cons i q)
    show ?thesis
    proof (cases "now s < end_of s i")
      case True
      have "sorted (map (end_of s) (i # q))" using less.prems(1) Cons by (simp add: sched_ok_def sched_inv_def)
      then have "none_due s" using True Cons by (auto simp: none_due_def)
      then show ?thesis using less.prems True Cons by (simp add: dispatch_tasks.simps) blast
    next
      case False
      from Invoke_ok [OF assms(1) less.prems(1) Cons _ less.prems(2)] False
      obtain s' where s': "Invoke sc i (s\<lparr>task_holder := q\<rparr>) = Inr s'" "sched_ok s'" "trace_ok s'" "now s' = now s" "weights s' < weights s"
          "predicate s' = predicate s"
        by auto
      show ?thesis
      proof (cases "predicate s' (world s')")
        case True
        then show ?thesis
          using less.hyps [OF s'(5,2,3)] s' False Cons by (simp add: dispatch_tasks.simps [of sc s])
      next
        case fail: False
        then show ?thesis using s' False Cons by (simp add: dispatch_tasks.simps [of sc s]) blast
      qed
    qed
  qed
qed

lemma Update_returns:
  assumes "forward_scripts sc" "sched_ok s" "trace_ok s"
  shows "\<exists>b s'. Update sc d s = Some (Inr (b, s')) \<and> sched_ok s' \<and> trace_ok s' \<and> now s' = now s + d \<and>
    predicate s' = predicate s \<and> ((\<forall>w. predicate s w) \<longrightarrow> b) \<and> (b \<longrightarrow> none_due s')"
proof -
  let ?s = "s\<lparr>now := now s + d\<rparr>"
  have s: "sched_ok ?s" "trace_ok ?s"
    using assms(2,3) by (auto simp: sched_ok_def sched_inv_def trace_ok_def late_def last_end_def split: list.splits)
  show ?thesis
  proof (cases "predicate ?s (world ?s)")
    case True
    obtain b t where t: "dispatch_asyncs sc ?s = Some (Inr (b, t))" "sched_ok t" "trace_ok t" "now t = now ?s"
        "predicate t = predicate s" "(\<forall>w. predicate s w) \<longrightarrow> b"
      using dispatch_asyncs_returns [OF assms(1) s] by auto
    show ?thesis
    proof (cases b)
      case True
      with t dispatch_tasks_returns [OF assms(1) t(2,3)] \<open>predicate ?s (world ?s)\<close> show ?thesis
        by (auto simp: Update_def Dispatch_def)
    next
      case False
      with t \<open>predicate ?s (world ?s)\<close> show ?thesis by (simp add: Update_def Dispatch_def) blast
    qed
  next
    case False
    with s show ?thesis by (simp add: Update_def Dispatch_def) blast
  qed
qed

section \<open>Reachable schedulers\<close>

text \<open>A scheduler as its owner uses it: made at some time, changed by forward calls, given validators, updated.\<close>

inductive sched_step :: "('h, 'w) scripts \<Rightarrow> ('h, 'w) scheduler \<Rightarrow> ('h, 'w) scheduler \<Rightarrow> bool" for sc where
  call: "forward_call op \<Longrightarrow> sched_step sc s (sched_call (now s) op s)"
| validator: "sched_step sc s (SetValidator p s)"
| no_validator: "sched_step sc s (ClearValidator s)"
| update: "Update sc d s = Some (Inr (b, s')) \<Longrightarrow> sched_step sc s s'"
| outside: "sched_step sc s (s\<lparr>world := w\<rparr>)"

definition sched_init :: "('h, 'w) scheduler \<Rightarrow> bool" where
  "sched_init s \<longleftrightarrow> (\<exists>t w. s = new_TaskScheduler t w)"

definition sched_good :: "('h, 'w) scripts \<Rightarrow> ('h, 'w) scheduler \<Rightarrow> bool" where
  "sched_good sc s \<longleftrightarrow> (forward_scripts sc \<longrightarrow> sched_ok s \<and> trace_ok s)"

lemma sched_good_cong:
  "sched_good sc s \<Longrightarrow> sched_good sc (s\<lparr>world := w\<rparr>)" "sched_good sc s \<Longrightarrow> sched_good sc (s\<lparr>predicate := p\<rparr>)"
  by (simp_all add: sched_good_def sched_ok_def sched_inv_def trace_ok_def late_def last_end_def end_of_def [abs_def])

lemma sched_good_step: "sched_good sc s \<Longrightarrow> sched_step sc s s' \<Longrightarrow> sched_good sc s'"
proof (erule sched_step.cases)
  fix op t
  assume good: "sched_good sc s" and "s = t" "s' = sched_call (now t) op t" "forward_call op"
  then have "forward_scripts sc \<Longrightarrow> advances (last_end s) s s'"
    by (auto simp: sched_good_def trace_ok_def intro!: advances_call)
  with good show "sched_good sc s'" by (auto simp: sched_good_def advances_def descends_def trace_ok_def last_end_def)
next
  fix d t b t'
  assume "sched_good sc s" "s = t" "s' = t'" "Update sc d t = Some (Inr (b, t'))"
  then show "sched_good sc s'" using Update_returns [of sc t d] by (auto simp: sched_good_def)
qed (auto simp: SetValidator_def ClearValidator_def sched_good_cong)

interpretation tasks: invariant_system sched_init "sched_step sc" "sched_good sc"
proof
  show "sched_good sc s" if "sched_init s" for s
    using that by (auto simp: sched_init_def sched_good_def new_TaskScheduler_def sched_ok_def sched_inv_def trace_ok_def
        late_def last_end_def)
qed (rule sched_good_step)

section \<open>Properties\<close>



text \<open>A script whose task repeats itself every 2 ms and whose callables schedule one more task.\<close>

definition demo_scripts :: "(nat, unit) scripts" where
  "demo_scripts = \<lparr>run_task = (\<lambda>h t w. (if h = 0 then [CtxRepeat 2] else [], w)), run_async = (\<lambda>h w. ([OpSchedule 1 None 1], w))\<rparr>"

definition demo_scheduler :: "(nat, unit) scheduler" where
  "demo_scheduler = sched_call 0 (OpAsync 0) (sched_call 0 (OpSchedule 3 (Some 7) 0) (new_TaskScheduler 0 ()))"

lemma demo_forward: "forward_scripts demo_scripts"
  by (simp add: forward_scripts_def demo_scripts_def forward_ops_def is_repeat_def)

lemma demo_reach: "(sched_step demo_scripts)\<^sup>*\<^sup>* (new_TaskScheduler 0 ()) demo_scheduler"
proof -
  let ?s = "sched_call 0 (OpSchedule 3 (Some 7) 0) (new_TaskScheduler 0 ())"
  have "sched_step demo_scripts (new_TaskScheduler 0 ()) ?s" "sched_step demo_scripts ?s demo_scheduler"
    using sched_step.call [of "OpSchedule 3 (Some 7) 0" demo_scripts "new_TaskScheduler 0 ()"]
      sched_step.call [of "OpAsync 0" demo_scripts ?s]
    by (simp_all add: new_TaskScheduler_def demo_scheduler_def ScheduleAt_def InsertTask_def Push_def)
  then show ?thesis by (auto intro: converse_rtranclp_into_rtranclp)
qed



text \<open>Claim C37: an asynchronous callable that cancels everything empties the queue it is the front of, so
  that the scheduler pops an empty queue.\<close>

theorem async_cancel_all:
  assumes "run_async sc h (world s) = (ops @ [OpCancelAll], w)" "asyncHolder s = h # hs" "predicate s (world s)"
  shows "Dispatch sc s = Some (Inl PopOnEmptyQueue)"
proof -
  have "run_front sc s = Inl PopOnEmptyQueue"
    using assms by (simp add: run_front_def Let_def CancelAll_def Clear_def)
  then have "dispatch_asyncs sc s = Some (Inl PopOnEmptyQueue)"
    using assms(2) by (simp add: dispatch_asyncs.simps)
  then show ?thesis using assms(3) by (simp add: Dispatch_def)
qed

theorem async_cancel_all_witness:
  "Dispatch \<lparr>run_task = (\<lambda>h t w. ([], w)), run_async = (\<lambda>h w. ([OpCancelAll], w))\<rparr> demo_scheduler = Some (Inl PopOnEmptyQueue)"
  by (rule async_cancel_all [where ops = "[]" and h = 0 and hs = "[]" and w = "()"])
    (simp_all add: demo_scheduler_def new_TaskScheduler_def EmptyValidator_def ScheduleAt_def InsertTask_def Push_def Async_def)

end
