(* ===== verification/Lfg_Roles.thy ===== *)
theory Lfg_Roles
  imports Object_Guid
begin

text \<open>
  The dungeon finder, part one: roles, group and player data, \<open>src/server/game/DungeonFinding/LFG.h\<close>,
  \<open>LFGGroupData.cpp\<close>, \<open>LFGPlayerData.cpp\<close> and \<open>LFGMgr::CheckGroupRoles\<close> of \<open>LFGMgr.cpp\<close>. A roles map
  is the list of its entries in the order of the keys.
\<close>

section \<open>Roles\<close>

definition LFG_TANKS_NEEDED :: u8 where "LFG_TANKS_NEEDED = 1"
definition LFG_HEALERS_NEEDED :: u8 where "LFG_HEALERS_NEEDED = 1"
definition LFG_DPS_NEEDED :: u8 where "LFG_DPS_NEEDED = 3"

definition PLAYER_ROLE_NONE :: u8 where "PLAYER_ROLE_NONE = 0"
definition PLAYER_ROLE_LEADER :: u8 where "PLAYER_ROLE_LEADER = 1"
definition PLAYER_ROLE_TANK :: u8 where "PLAYER_ROLE_TANK = 2"
definition PLAYER_ROLE_HEALER :: u8 where "PLAYER_ROLE_HEALER = 4"
definition PLAYER_ROLE_DAMAGE :: u8 where "PLAYER_ROLE_DAMAGE = 8"

lemmas role_defs = LFG_TANKS_NEEDED_def LFG_HEALERS_NEEDED_def LFG_DPS_NEEDED_def PLAYER_ROLE_NONE_def PLAYER_ROLE_LEADER_def
  PLAYER_ROLE_TANK_def PLAYER_ROLE_HEALER_def PLAYER_ROLE_DAMAGE_def

type_synonym LfgRolesMap = "(ObjectGuid \<times> u8) list"

text \<open>One of the three blocks of the loop of \<open>CheckGroupRoles\<close>, for the role \<open>x\<close> of which \<open>needed\<close> are
  needed and \<open>c\<close> counted: \<open>Inl\<close> is a return from the function, \<open>Inr\<close> the counter and the map with which
  the loop goes on. The recursive call is an argument.\<close>

definition role_block ::
    "u8 \<Rightarrow> u8 \<Rightarrow> u8 \<Rightarrow> u8 \<Rightarrow> nat \<Rightarrow> LfgRolesMap \<Rightarrow> (LfgRolesMap \<Rightarrow> (bool \<times> LfgRolesMap) option) \<Rightarrow>
     (bool \<times> LfgRolesMap + u8 \<times> LfgRolesMap) option" where
  "role_block x needed c role i m check =
    (if role AND x \<noteq> 0 then
       if role \<noteq> x then
         Option.bind (check (m[i := (fst (m ! i), snd (m ! i) - x)]))
           (\<lambda>(ok, m'). Some (if ok then Inl (True, m') else Inr (c, m'[i := (fst (m' ! i), snd (m' ! i) + x)])))
       else if c = needed then Some (Inl (False, m))
       else Some (Inr (c + 1, m))
     else Some (Inr (c, m)))"

lemma role_block_mono [partial_function_mono]:
  assumes "\<And>m. mono_option (\<lambda>f. check f m)"
  shows "mono_option (\<lambda>f. role_block x needed c role i m (check f))"
  unfolding role_block_def by (intro partial_function_mono assms)

partial_function (option) roles_loop :: "nat \<Rightarrow> u8 \<Rightarrow> u8 \<Rightarrow> u8 \<Rightarrow> LfgRolesMap \<Rightarrow> (bool \<times> LfgRolesMap) option" where
  "roles_loop i damage tank healer m =
    (if length m \<le> i then Some (tank + healer + damage = of_nat (length m), m)
     else let role = snd (m ! i) AND NOT PLAYER_ROLE_LEADER in
       if role = PLAYER_ROLE_NONE then Some (False, m)
       else Option.bind (role_block PLAYER_ROLE_DAMAGE LFG_DPS_NEEDED damage role i m (roles_loop 0 0 0 0)) (\<lambda>d.
         case d of Inl r \<Rightarrow> Some r | Inr (damage, m) \<Rightarrow>
       Option.bind (role_block PLAYER_ROLE_HEALER LFG_HEALERS_NEEDED healer role i m (roles_loop 0 0 0 0)) (\<lambda>h.
         case h of Inl r \<Rightarrow> Some r | Inr (healer, m) \<Rightarrow>
       Option.bind (role_block PLAYER_ROLE_TANK LFG_TANKS_NEEDED tank role i m (roles_loop 0 0 0 0)) (\<lambda>t.
         case t of Inl r \<Rightarrow> Some r | Inr (tank, m) \<Rightarrow> roles_loop (Suc i) damage tank healer m))))"

text \<open>The recursive calls of the function pass a map that is not empty, so the test at its start is made
  once, here.\<close>

definition CheckGroupRoles :: "LfgRolesMap \<Rightarrow> (bool \<times> LfgRolesMap) option" where
  "CheckGroupRoles groles = (if groles = [] then Some (False, groles) else roles_loop 0 0 0 0 groles)"

declare roles_loop.simps [code]

section \<open>Assignments\<close>

text \<open>The reference: every member gets one of the roles he chose and keeps his leader mark, and the group has
  at most one tank, one healer and three damage dealers.\<close>

definition plain :: "u8 \<Rightarrow> u8" where
  "plain r = r AND NOT PLAYER_ROLE_LEADER"

definition role_bits :: "u8 list" where
  "role_bits = [PLAYER_ROLE_DAMAGE, PLAYER_ROLE_HEALER, PLAYER_ROLE_TANK]"

definition narrowed :: "u8 \<Rightarrow> u8 \<Rightarrow> bool" where
  "narrowed r r' \<longleftrightarrow> list_ex (\<lambda>x. r AND x \<noteq> 0 \<and> r' = (r AND PLAYER_ROLE_LEADER) OR x) role_bits"

definition role_count :: "u8 \<Rightarrow> LfgRolesMap \<Rightarrow> nat" where
  "role_count x m = length (filter (\<lambda>e. plain (snd e) = x) m)"

definition fits :: "LfgRolesMap \<Rightarrow> bool" where
  "fits m \<longleftrightarrow> role_count PLAYER_ROLE_TANK m \<le> unat LFG_TANKS_NEEDED \<and> role_count PLAYER_ROLE_HEALER m \<le> unat LFG_HEALERS_NEEDED
     \<and> role_count PLAYER_ROLE_DAMAGE m \<le> unat LFG_DPS_NEEDED"

definition assigned :: "LfgRolesMap \<Rightarrow> LfgRolesMap \<Rightarrow> bool" where
  "assigned m m' \<longleftrightarrow> list_all2 (\<lambda>e e'. fst e' = fst e \<and> narrowed (snd e) (snd e')) m m'"

definition assignable :: "LfgRolesMap \<Rightarrow> bool" where
  "assignable m \<longleftrightarrow> (\<exists>m'. assigned m m' \<and> fits m')"

definition several :: "u8 \<Rightarrow> bool" where
  "several r \<longleftrightarrow> plain r \<noteq> PLAYER_ROLE_NONE \<and> plain r \<notin> set role_bits"

definition choices :: "u8 \<Rightarrow> nat" where
  "choices r = length (filter (\<lambda>x. r AND x \<noteq> 0) role_bits)"

text \<open>The roles a client sends are reduced to the four bits by \<open>FilterClassRoles\<close>. Facts on such a role,
  checked for each of the sixteen.\<close>

lemma small_role: "list_all P (map of_nat [0..<16]) \<Longrightarrow> r < 16 \<Longrightarrow> P (r :: u8)"
proof -
  assume "list_all P (map of_nat [0..<16])" "r < 16"
  moreover from \<open>r < 16\<close> have "unat r < 16" by (simp add: word_less_nat_alt)
  then have "r \<in> set (map of_nat [0..<16])" by (auto simp: image_iff intro!: bexI [of _ "unat r"])
  ultimately show ?thesis by (simp only: list_all_iff)
qed

definition role_facts :: "u8 \<Rightarrow> bool" where
  "role_facts r \<longleftrightarrow>
    list_all (\<lambda>x. (plain r AND x \<noteq> 0 \<longleftrightarrow> r AND x \<noteq> 0) \<and>
      (plain r = x \<longrightarrow> (r AND PLAYER_ROLE_LEADER) OR x = r \<and> list_all (\<lambda>y. r AND y \<noteq> 0 \<longleftrightarrow> y = x) role_bits) \<and>
      (r AND x \<noteq> 0 \<longrightarrow> plain r \<noteq> x \<longrightarrow>
        several r \<and> choices (r - x) < choices r \<and> (r - x) AND PLAYER_ROLE_LEADER = r AND PLAYER_ROLE_LEADER \<and> r - x < 16 \<and>
        list_all (\<lambda>y. (r - x) AND y \<noteq> 0 \<longleftrightarrow> y \<noteq> x \<and> r AND y \<noteq> 0) role_bits)) role_bits \<and>
    (plain r = 0 \<longrightarrow> list_all (\<lambda>x. r AND x = 0) role_bits) \<and>
    (several r \<longrightarrow> list_all (\<lambda>y. list_ex (\<lambda>x. x \<noteq> y \<and> r AND x \<noteq> 0) role_bits) role_bits)"

lemma role_facts_all: "list_all role_facts (map of_nat [0..<16])"
  by code_simp

lemma role_facts: "r < 16 \<Longrightarrow> role_facts r"
  by (rule small_role [OF role_facts_all])

lemma narrowed_iff: "narrowed r r' \<longleftrightarrow> (\<exists>x\<in>set role_bits. r AND x \<noteq> 0 \<and> r' = (r AND PLAYER_ROLE_LEADER) OR x)"
  by (auto simp: narrowed_def list_ex_iff)

lemma plain_and: "r < 16 \<Longrightarrow> x \<in> set role_bits \<Longrightarrow> plain r AND x \<noteq> 0 \<longleftrightarrow> r AND x \<noteq> 0"
  using role_facts [of r] unfolding role_facts_def list_all_iff by blast

lemma single_role:
  assumes "r < 16" "x \<in> set role_bits" "plain r = x"
  shows "(r AND PLAYER_ROLE_LEADER) OR x = r" "y \<in> set role_bits \<Longrightarrow> r AND y \<noteq> 0 \<longleftrightarrow> y = x"
  using role_facts [OF assms(1)] assms(2,3) unfolding role_facts_def list_all_iff by blast+

lemma drop_role:
  assumes "r < 16" "x \<in> set role_bits" "r AND x \<noteq> 0" "plain r \<noteq> x"
  shows "several r" "choices (r - x) < choices r" "(r - x) AND PLAYER_ROLE_LEADER = r AND PLAYER_ROLE_LEADER" "r - x < 16"
    "y \<in> set role_bits \<Longrightarrow> (r - x) AND y \<noteq> 0 \<longleftrightarrow> y \<noteq> x \<and> r AND y \<noteq> 0"
  using role_facts [OF assms(1)] assms(2-4) unfolding role_facts_def list_all_iff by blast+

lemma other_role:
  assumes "r < 16" "several r" "y \<in> set role_bits"
  shows "\<exists>x\<in>set role_bits. x \<noteq> y \<and> r AND x \<noteq> 0"
  using role_facts [OF assms(1)] assms(2,3) unfolding role_facts_def list_all_iff list_ex_iff by blast

lemma no_role: "r < 16 \<Longrightarrow> plain r = 0 \<Longrightarrow> \<not> narrowed r r'"
  using role_facts [of r] unfolding role_facts_def list_all_iff narrowed_iff by blast

lemma narrowed_single: "r < 16 \<Longrightarrow> plain r \<in> set role_bits \<Longrightarrow> narrowed r r' \<longleftrightarrow> r' = r"
  unfolding narrowed_iff using single_role [of r "plain r"] by metis

lemma narrowed_drop:
  assumes "r < 16" "x \<in> set role_bits" "r AND x \<noteq> 0" "plain r \<noteq> x" "narrowed (r - x) r'"
  shows "narrowed r r'"
  using assms(5) drop_role [OF assms(1-4)] unfolding narrowed_iff by metis

lemma narrowed_several:
  assumes "r < 16" "several r" "narrowed r r'"
  obtains x where "x \<in> set role_bits" "r AND x \<noteq> 0" "narrowed (r - x) r'"
proof -
  obtain y where y: "y \<in> set role_bits" "r AND y \<noteq> 0" "r' = (r AND PLAYER_ROLE_LEADER) OR y"
    using assms(3) unfolding narrowed_iff by blast
  obtain x where x: "x \<in> set role_bits" "x \<noteq> y" "r AND x \<noteq> 0" using other_role [OF assms(1,2) y(1)] by blast
  have "plain r \<noteq> x" using assms(2) x(1) by (auto simp: several_def)
  from drop_role [OF assms(1) x(1,3) this] x y have "narrowed (r - x) r'" unfolding narrowed_iff by metis
  with x show thesis using that by blast
qed

section \<open>Assignments of a group\<close>

definition roles_ok :: "LfgRolesMap \<Rightarrow> bool" where
  "roles_ok m \<longleftrightarrow> (\<forall>e\<in>set m. snd e < 16)"

definition drop_at :: "nat \<Rightarrow> u8 \<Rightarrow> LfgRolesMap \<Rightarrow> LfgRolesMap" where
  "drop_at i x m = m[i := (fst (m ! i), snd (m ! i) - x)]"

lemma length_drop_at [simp]: "length (drop_at i x m) = length m"
  by (simp add: drop_at_def)

lemma nth_drop_at: "j < length m \<Longrightarrow> drop_at i x m ! j = (if j = i then (fst (m ! i), snd (m ! i) - x) else m ! j)"
  by (simp add: drop_at_def nth_list_update)

lemma roles_ok_nth: "roles_ok m \<Longrightarrow> i < length m \<Longrightarrow> snd (m ! i) < 16"
  by (simp add: roles_ok_def)

lemma assigned_nth: "assigned m m' \<longleftrightarrow> length m' = length m \<and> (\<forall>i<length m. fst (m' ! i) = fst (m ! i) \<and> narrowed (snd (m ! i)) (snd (m' ! i)))"
  by (auto simp: assigned_def list_all2_conv_all_nth)

lemma roles_ok_drop:
  assumes "roles_ok m" "i < length m" "x \<in> set role_bits" "snd (m ! i) AND x \<noteq> 0" "plain (snd (m ! i)) \<noteq> x"
  shows "roles_ok (drop_at i x m)"
proof -
  have "snd (m ! i) - x < 16" using drop_role(4) [OF roles_ok_nth [OF assms(1,2)] assms(3-5)] .
  then have "\<forall>j<length m. snd (drop_at i x m ! j) < 16" using assms(1) by (simp add: nth_drop_at roles_ok_nth)
  then show ?thesis by (simp add: roles_ok_def all_set_conv_all_nth)
qed

lemma assigned_drop:
  assumes "roles_ok m" "i < length m" "x \<in> set role_bits" "snd (m ! i) AND x \<noteq> 0" "plain (snd (m ! i)) \<noteq> x"
    and "assigned (drop_at i x m) m'"
  shows "assigned m m'"
  using assms(6) narrowed_drop [OF roles_ok_nth [OF assms(1,2)] assms(3-5)]
  by (auto simp: assigned_nth nth_drop_at split: if_splits)

lemma assignable_several:
  assumes "roles_ok m" "i < length m" "several (snd (m ! i))" "assignable m"
  shows "\<exists>x\<in>set role_bits. snd (m ! i) AND x \<noteq> 0 \<and> assignable (drop_at i x m)"
proof -
  obtain m' where m': "assigned m m'" "fits m'" using assms(4) by (auto simp: assignable_def)
  then have "narrowed (snd (m ! i)) (snd (m' ! i))" using assms(2) by (simp add: assigned_nth)
  then obtain x where x: "x \<in> set role_bits" "snd (m ! i) AND x \<noteq> 0" "narrowed (snd (m ! i) - x) (snd (m' ! i))"
    by (rule narrowed_several [OF roles_ok_nth [OF assms(1,2)] assms(3)])
  have "assigned (drop_at i x m) m'" using m'(1) x(3) by (simp add: assigned_nth nth_drop_at)
  with m'(2) x show ?thesis by (auto simp: assignable_def)
qed

lemma role_count_assigned:
  assumes "roles_ok m" "assigned m m'" "x \<in> set role_bits"
  shows "role_count x m \<le> role_count x m'"
  using assms(2) assms(1) unfolding assigned_def role_count_def
proof (induction rule: list_all2_induct)
  case (Cons e m e' m')
  then show ?case
    using narrowed_single [of "snd e" "snd e'"] assms(3) by (auto simp: roles_ok_def)
qed simp

lemma role_count_simps [simp]:
  "role_count x [] = 0" "role_count x (e # m) = (if plain (snd e) = x then Suc (role_count x m) else role_count x m)"
  "role_count x (m @ m') = role_count x m + role_count x m'"
  by (simp_all add: role_count_def)

lemma role_count_take_Suc:
  "i < length m \<Longrightarrow> role_count x (take (Suc i) m) = role_count x (take i m) + of_bool (plain (snd (m ! i)) = x)"
  by (simp add: take_Suc_conv_app_nth)

lemma role_count_take: "role_count x (take i m) \<le> role_count x m"
  by (metis append_take_drop_id le_add1 role_count_simps(3))

section \<open>The loop decides whether the roles can be assigned\<close>

definition decides :: "LfgRolesMap \<Rightarrow> (bool \<times> LfgRolesMap) option \<Rightarrow> bool" where
  "decides m res \<longleftrightarrow> (\<exists>m'. res = Some (assignable m, m') \<and> (if assignable m then assigned m m' \<and> fits m' else m' = m))"

lemma decides_True: "assigned m m' \<Longrightarrow> fits m' \<Longrightarrow> decides m (Some (True, m'))"
  by (auto simp: decides_def assignable_def)

lemma decides_False: "\<not> assignable m \<Longrightarrow> decides m (Some (False, m))"
  by (simp add: decides_def)

lemma block_several:
  assumes ok: "roles_ok m" "i < length m" "x \<in> set role_bits" and several: "several (snd (m ! i))"
    and check: "snd (m ! i) AND x \<noteq> 0 \<Longrightarrow> decides (drop_at i x m) (check (drop_at i x m))"
  shows "role_block x needed c (plain (snd (m ! i))) i m check = Some (Inr (c, m)) \<and>
      \<not> (snd (m ! i) AND x \<noteq> 0 \<and> assignable (drop_at i x m)) \<or>
    (\<exists>m'. role_block x needed c (plain (snd (m ! i))) i m check = Some (Inl (True, m')) \<and> assigned m m' \<and> fits m')"
proof (cases "snd (m ! i) AND x = 0")
  case True
  then show ?thesis using plain_and [OF roles_ok_nth [OF ok(1,2)] ok(3)] by (simp add: role_block_def)
next
  case False
  have ne: "plain (snd (m ! i)) \<noteq> x" "plain (snd (m ! i)) AND x \<noteq> 0"
    using several ok(3) False plain_and [OF roles_ok_nth [OF ok(1,2)] ok(3)] by (auto simp: several_def)
  from check [OF False] obtain m' where m': "check (drop_at i x m) = Some (assignable (drop_at i x m), m')"
      "if assignable (drop_at i x m) then assigned (drop_at i x m) m' \<and> fits m' else m' = drop_at i x m"
    by (auto simp: decides_def)
  show ?thesis
  proof (cases "assignable (drop_at i x m)")
    case True
    with m' ne have "role_block x needed c (plain (snd (m ! i))) i m check = Some (Inl (True, m'))"
      by (simp add: role_block_def drop_at_def)
    moreover have "assigned m m'" "fits m'" using m'(2) True assigned_drop [OF ok(1,2,3) False ne(1)] by auto
    ultimately show ?thesis by blast
  next
    case no: False
    with m' ne ok(2) have "role_block x needed c (plain (snd (m ! i))) i m check = Some (Inr (c, m))"
      by (simp add: role_block_def drop_at_def)
    with no show ?thesis by blast
  qed
qed

lemma block_single:
  assumes "roles_ok m" "i < length m" "x \<in> set role_bits" "plain (snd (m ! i)) \<in> set role_bits"
  shows "role_block x needed c (plain (snd (m ! i))) i m check =
    Some (if plain (snd (m ! i)) = x then if c = needed then Inl (False, m) else Inr (c + 1, m) else Inr (c, m))"
proof -
  have "plain (snd (m ! i)) AND x \<noteq> 0 \<longleftrightarrow> plain (snd (m ! i)) = x"
    using single_role(2) [OF roles_ok_nth [OF assms(1,2)] assms(4) refl assms(3)] plain_and [OF roles_ok_nth [OF assms(1,2)] assms(3)]
    by auto
  then show ?thesis by (auto simp: role_block_def)
qed

text \<open>What holds when the loop reaches entry \<open>i\<close>.\<close>

definition seen :: "nat \<Rightarrow> u8 \<Rightarrow> u8 \<Rightarrow> u8 \<Rightarrow> LfgRolesMap \<Rightarrow> bool" where
  "seen i d t h m \<longleftrightarrow> i \<le> length m \<and>
    role_count PLAYER_ROLE_DAMAGE (take i m) = unat d \<and> unat d \<le> 3 \<and>
    role_count PLAYER_ROLE_TANK (take i m) = unat t \<and> unat t \<le> 1 \<and>
    role_count PLAYER_ROLE_HEALER (take i m) = unat h \<and> unat h \<le> 1 \<and>
    (\<forall>j<i. plain (snd (m ! j)) \<noteq> 0 \<and> (several (snd (m ! j)) \<longrightarrow> \<not> assignable m))"

lemma not_fits:
  assumes "roles_ok m" "i < length m" "x \<in> set role_bits" "plain (snd (m ! i)) = x" "role_count x (take i m) = n"
    and "\<And>m'. fits m' \<Longrightarrow> role_count x m' \<le> n"
  shows "\<not> assignable m"
proof
  assume "assignable m"
  then obtain m' where m': "assigned m m'" "fits m'" by (auto simp: assignable_def)
  have "Suc n = role_count x (take (Suc i) m)" using assms(2,4,5) by (simp add: role_count_take_Suc)
  also have "\<dots> \<le> role_count x m" by (rule role_count_take)
  also have "\<dots> \<le> role_count x m'" by (rule role_count_assigned [OF assms(1) m'(1) assms(3)])
  finally show False using assms(6) [OF m'(2)] by simp
qed

lemma role_partition:
  assumes "\<forall>e\<in>set m. plain (snd e) \<noteq> 0"
  shows "role_count PLAYER_ROLE_DAMAGE m + role_count PLAYER_ROLE_TANK m + role_count PLAYER_ROLE_HEALER m +
    length (filter (\<lambda>e. several (snd e)) m) = length m"
  using assms by (induction m) (auto simp: several_def role_bits_def role_defs)

lemma seen_end:
  assumes "roles_ok m" "m \<noteq> []" "length m < 256" "seen (length m) d t h m"
  shows "decides m (Some (t + h + d = of_nat (length m), m))"
proof -
  have s: "role_count PLAYER_ROLE_DAMAGE m = unat d" "role_count PLAYER_ROLE_TANK m = unat t" "role_count PLAYER_ROLE_HEALER m = unat h"
    "unat d \<le> 3" "unat t \<le> 1" "unat h \<le> 1" using assms(4) by (simp_all add: seen_def)
  have nz: "\<forall>e\<in>set m. plain (snd e) \<noteq> 0" using assms(4) by (simp add: seen_def all_set_conv_all_nth)
  have "unat (t + h + d) = unat t + unat h + unat d" using s(4-6) by (simp add: unat_word_ariths)
  then have eq: "t + h + d = of_nat (length m) \<longleftrightarrow> unat t + unat h + unat d = length m"
    using assms(3) by (simp add: word_unat_eq_iff unat_of_nat take_bit_nat_eq_self)
  show ?thesis
  proof (cases "\<exists>e\<in>set m. several (snd e)")
    case True
    then obtain i where "i < length m" "several (snd (m ! i))" by (metis in_set_conv_nth)
    then have "\<not> assignable m" using assms(4) by (auto simp: seen_def)
    moreover have "filter (\<lambda>e. several (snd e)) m \<noteq> []" using True by (auto simp: filter_empty_conv)
    then have "unat t + unat h + unat d < length m"
      using role_partition [OF nz] s by (cases "filter (\<lambda>e. several (snd e)) m") auto
    ultimately show ?thesis by (simp add: eq decides_False)
  next
    case False
    then have "filter (\<lambda>e. several (snd e)) m = []" by (auto simp: filter_empty_conv)
    then have "unat t + unat h + unat d = length m" using role_partition [OF nz] s by simp
    moreover have "assigned m m"
      using False nz assms(1) by (auto simp: assigned_nth several_def role_defs roles_ok_nth narrowed_single)
    moreover have "fits m" using s by (simp add: fits_def) (simp add: role_defs)
    ultimately show ?thesis by (simp add: eq decides_True)
  qed
qed

definition total_choices :: "LfgRolesMap \<Rightarrow> nat" where
  "total_choices m = (\<Sum>e\<leftarrow>m. choices (snd e))"

lemma total_choices_drop:
  assumes "roles_ok m" "i < length m" "x \<in> set role_bits" "snd (m ! i) AND x \<noteq> 0" "plain (snd (m ! i)) \<noteq> x"
  shows "total_choices (drop_at i x m) < total_choices m"
proof -
  have "m = take i m @ m ! i # drop (Suc i) m" using assms(2) by (rule id_take_nth_drop)
  then have "total_choices m = total_choices (take i m) + choices (snd (m ! i)) + total_choices (drop (Suc i) m)"
    by (metis (no_types, lifting) add.assoc list.simps(9) map_append sum_list.Cons sum_list_append total_choices_def)
  moreover have "total_choices (drop_at i x m) =
      total_choices (take i m) + choices (snd (m ! i) - x) + total_choices (drop (Suc i) m)"
    using assms(2) by (simp add: drop_at_def upd_conv_take_nth_drop total_choices_def)
  ultimately show ?thesis using drop_role(2) [OF roles_ok_nth [OF assms(1,2)] assms(3-5)] by simp
qed

lemma seen_several:
  assumes "seen i d t h m" "i < length m" "several (snd (m ! i))" "\<not> assignable m"
  shows "seen (Suc i) d t h m"
proof -
  have "plain (snd (m ! i)) \<notin> set role_bits" "plain (snd (m ! i)) \<noteq> 0"
    using assms(3) by (auto simp: several_def role_defs)
  then show ?thesis
    using assms by (auto simp: seen_def role_count_take_Suc role_bits_def less_Suc_eq)
qed

lemma u8_Suc: "unat (c :: u8) < 255 \<Longrightarrow> unat (c + 1) = Suc (unat c)"
  by (simp add: unat_word_ariths)

lemma seen_single:
  assumes "seen i d t h m" "i < length m" "plain (snd (m ! i)) \<in> set role_bits"
  shows "plain (snd (m ! i)) = PLAYER_ROLE_DAMAGE \<Longrightarrow> d \<noteq> LFG_DPS_NEEDED \<Longrightarrow> seen (Suc i) (d + 1) t h m"
    and "plain (snd (m ! i)) = PLAYER_ROLE_HEALER \<Longrightarrow> h \<noteq> LFG_HEALERS_NEEDED \<Longrightarrow> seen (Suc i) d t (h + 1) m"
    and "plain (snd (m ! i)) = PLAYER_ROLE_TANK \<Longrightarrow> t \<noteq> LFG_TANKS_NEEDED \<Longrightarrow> seen (Suc i) d (t + 1) h m"
proof -
  have bound: "unat c \<le> n \<Longrightarrow> c \<noteq> of_nat n \<Longrightarrow> n < 256 \<Longrightarrow> unat c < n" for c :: u8 and n
    by (auto simp: word_unat_eq_iff unat_of_nat take_bit_nat_eq_self)
  have "\<not> several (snd (m ! i))" "plain (snd (m ! i)) \<noteq> 0"
    using assms(3) by (auto simp: several_def role_bits_def role_defs)
  note s = assms(1) [unfolded seen_def] assms(2) this
  show "seen (Suc i) (d + 1) t h m" if "plain (snd (m ! i)) = PLAYER_ROLE_DAMAGE" "d \<noteq> LFG_DPS_NEEDED"
    using s that bound [of d 3] by (auto simp: seen_def role_count_take_Suc u8_Suc less_Suc_eq role_defs)
  show "seen (Suc i) d t (h + 1) m" if "plain (snd (m ! i)) = PLAYER_ROLE_HEALER" "h \<noteq> LFG_HEALERS_NEEDED"
    using s that bound [of h 1] by (auto simp: seen_def role_count_take_Suc u8_Suc less_Suc_eq role_defs)
  show "seen (Suc i) d (t + 1) h m" if "plain (snd (m ! i)) = PLAYER_ROLE_TANK" "t \<noteq> LFG_TANKS_NEEDED"
    using s that bound [of t 1] by (auto simp: seen_def role_count_take_Suc u8_Suc less_Suc_eq role_defs)
qed

lemma full_role:
  assumes "roles_ok m" "i < length m" "seen i d t h m"
  shows "plain (snd (m ! i)) = PLAYER_ROLE_DAMAGE \<Longrightarrow> d = LFG_DPS_NEEDED \<Longrightarrow> \<not> assignable m"
    and "plain (snd (m ! i)) = PLAYER_ROLE_HEALER \<Longrightarrow> h = LFG_HEALERS_NEEDED \<Longrightarrow> \<not> assignable m"
    and "plain (snd (m ! i)) = PLAYER_ROLE_TANK \<Longrightarrow> t = LFG_TANKS_NEEDED \<Longrightarrow> \<not> assignable m"
  using not_fits [OF assms(1,2), of PLAYER_ROLE_DAMAGE] not_fits [OF assms(1,2), of PLAYER_ROLE_HEALER]
    not_fits [OF assms(1,2), of PLAYER_ROLE_TANK] assms(3)
  by (auto simp: seen_def role_bits_def fits_def)

lemma roles_loop_decides:
  assumes rec: "\<And>m'. total_choices m' < total_choices m \<Longrightarrow> roles_ok m' \<Longrightarrow> length m' = length m \<Longrightarrow> decides m' (roles_loop 0 0 0 0 m')"
    and m: "roles_ok m" "m \<noteq> []" "length m < 256"
  shows "seen i d t h m \<Longrightarrow> decides m (roles_loop i d t h m)"
proof (induction "length m - i" arbitrary: i d t h)
  case 0
  then have "i = length m" by (simp add: seen_def)
  with 0 show ?case using seen_end [OF m] by (simp add: roles_loop.simps)
next
  case (Suc n)
  then have i: "i < length m" by simp
  let ?r = "snd (m ! i)" and ?f = "roles_loop 0 0 0 0"
  have next_step: "seen (Suc i) d' t' h' m \<Longrightarrow> decides m (roles_loop (Suc i) d' t' h' m)" for d' t' h'
    using Suc.hyps(1) [of "Suc i"] Suc.hyps(2) by simp
  note unfold = roles_loop.simps [of i d t h m, folded plain_def]
  consider "plain ?r = 0" | "several ?r" | "plain ?r \<in> set role_bits" by (auto simp: several_def role_defs)
  then show ?case
  proof cases
    case 1
    then have "\<not> assignable m" using no_role [OF roles_ok_nth [OF m(1) i]] i by (auto simp: assignable_def assigned_nth)
    with 1 i show ?thesis by (simp add: unfold role_defs decides_False)
  next
    case 2
    have b: "role_block x n c (plain ?r) i m ?f = Some (Inr (c, m)) \<and> \<not> (?r AND x \<noteq> 0 \<and> assignable (drop_at i x m)) \<or>
        (\<exists>m'. role_block x n c (plain ?r) i m ?f = Some (Inl (True, m')) \<and> assigned m m' \<and> fits m')"
      if "x \<in> set role_bits" for x n c
      by (rule block_several [OF m(1) i that 2], rule rec)
        (use 2 that total_choices_drop [OF m(1) i] roles_ok_drop [OF m(1) i] in \<open>auto simp: several_def\<close>)
    have nz: "plain ?r \<noteq> PLAYER_ROLE_NONE" using 2 by (simp add: several_def)
    note bs = b [of PLAYER_ROLE_DAMAGE LFG_DPS_NEEDED d] b [of PLAYER_ROLE_HEALER LFG_HEALERS_NEEDED h]
      b [of PLAYER_ROLE_TANK LFG_TANKS_NEEDED t]
    have "\<not> assignable m" if "\<forall>x\<in>set role_bits. \<not> (?r AND x \<noteq> 0 \<and> assignable (drop_at i x m))"
      using assignable_several [OF m(1) i 2] that by blast
    then show ?thesis
      using bs i nz next_step [OF seen_several [OF Suc.prems i 2]]
      by (fastforce simp: unfold role_bits_def intro: decides_True)
  next
    case 3
    then have nz: "plain ?r \<noteq> PLAYER_ROLE_NONE" by (auto simp: role_bits_def role_defs)
    have ne: "PLAYER_ROLE_DAMAGE \<noteq> PLAYER_ROLE_HEALER" "PLAYER_ROLE_DAMAGE \<noteq> PLAYER_ROLE_TANK" "PLAYER_ROLE_HEALER \<noteq> PLAYER_ROLE_TANK"
      by (simp_all add: role_defs)
    have b: "role_block x n c (plain ?r) i m ?f =
        Some (if plain ?r = x then if c = n then Inl (False, m) else Inr (c + 1, m) else Inr (c, m))" if "x \<in> set role_bits" for x n c
      by (rule block_single [OF m(1) i that 3])
    have step: "roles_loop i d t h m =
        (if plain ?r = PLAYER_ROLE_DAMAGE then if d = LFG_DPS_NEEDED then Some (False, m) else roles_loop (Suc i) (d + 1) t h m
         else if plain ?r = PLAYER_ROLE_HEALER then if h = LFG_HEALERS_NEEDED then Some (False, m) else roles_loop (Suc i) d t (h + 1) m
         else if t = LFG_TANKS_NEEDED then Some (False, m) else roles_loop (Suc i) d (t + 1) h m)"
      using i nz 3 ne unfold b [of PLAYER_ROLE_DAMAGE LFG_DPS_NEEDED d] b [of PLAYER_ROLE_HEALER LFG_HEALERS_NEEDED h]
        b [of PLAYER_ROLE_TANK LFG_TANKS_NEEDED t]
      by (auto simp: role_bits_def)
    show ?thesis
      using 3 ne seen_single [OF Suc.prems i 3] full_role [OF m(1) i Suc.prems]
      unfolding step by (auto simp: role_bits_def next_step decides_False)
  qed
qed

lemma roles_loop_total: "roles_ok m \<Longrightarrow> m \<noteq> [] \<Longrightarrow> length m < 256 \<Longrightarrow> decides m (roles_loop 0 0 0 0 m)"
proof (induction "total_choices m" arbitrary: m rule: less_induct)
  case less
  have "decides m' (roles_loop 0 0 0 0 m')"
    if "total_choices m' < total_choices m" "roles_ok m'" "length m' = length m" for m'
    by (rule less.hyps) (use that less.prems in auto)
  then show ?case
    by (rule roles_loop_decides) (use less.prems in \<open>auto simp: seen_def\<close>)
qed

lemma CheckGroupRoles_decides:
  assumes "roles_ok m" "length m < 256"
  shows "\<exists>ok m'. CheckGroupRoles m = Some (ok, m') \<and> (ok \<longleftrightarrow> m \<noteq> [] \<and> assignable m) \<and>
    (if ok then assigned m m' \<and> fits m' else m' = m)"
proof (cases "m = []")
  case True
  then show ?thesis by (simp add: CheckGroupRoles_def) blast
next
  case False
  then have "decides m (roles_loop 0 0 0 0 m)"
    using assms by (intro roles_loop_total) (simp_all add: roles_ok_def)
  then show ?thesis using False by (auto simp: CheckGroupRoles_def decides_def)
qed

lemma assigned_keys: "assigned m m' \<Longrightarrow> map fst m' = map fst m"
  by (auto simp: assigned_nth intro: nth_equalityI)

lemma assigned_from:
  assumes "assigned m m'" "(p, r') \<in> set m'"
  shows "\<exists>r. (p, r) \<in> set m \<and> narrowed r r'"
proof -
  obtain i where i: "i < length m'" "m' ! i = (p, r')" using assms(2) by (auto simp: in_set_conv_nth)
  then have "i < length m" "fst (m ! i) = p" "narrowed (snd (m ! i)) r'" using assms(1) by (auto simp: assigned_nth)
  then show ?thesis by (metis nth_mem prod.collapse)
qed

section \<open>Properties\<close>

text \<open>Claim C16: the role check of a group always ends. It succeeds exactly when every member can be given one
  of the roles he chose with at most one tank, one healer and three damage dealers; it then leaves such
  an assignment in the map, with the leader marks as they were, and otherwise the map as it was.\<close>

theorem CheckGroupRoles_assigns:
  assumes "\<forall>e\<in>set groles. snd e < 16" "length groles < 256"
  shows "\<exists>ok m'. CheckGroupRoles groles = Some (ok, m') \<and> (ok \<longleftrightarrow> groles \<noteq> [] \<and> assignable groles) \<and>
    (if ok then assigned groles m' \<and> fits m' else m' = groles)"
  by (rule CheckGroupRoles_decides) (use assms in \<open>simp_all add: roles_ok_def\<close>)

lemma demo_roles:
  "assigned [(1, 15), (2, 14), (3, 8)] [(1, 3), (2, 4), (3, 8)] \<and> fits [(1, 3), (2, 4), (3, 8)]"
  by (simp add: assigned_def narrowed_def role_bits_def fits_def role_count_def plain_def role_defs)

theorem CheckGroupRoles_assigns_witness:
  "\<exists>m'. CheckGroupRoles [(1, 15), (2, 14), (3, 8)] = Some (True, m') \<and> fits m'"
proof -
  have "assignable [(1, 15), (2, 14), (3, 8)]" using demo_roles by (auto simp: assignable_def)
  then show ?thesis using CheckGroupRoles_assigns [of "[(1, 15), (2, 14), (3, 8)]"] by auto
qed

end
