(* ===== verification/Lfg_Data.thy ===== *)
theory Lfg_Data
  imports Lfg_Roles
begin

text \<open>
  The dungeon finder, part two: what it keeps of players and groups, \<open>LFGPlayerData.cpp\<close>,
  \<open>LFGGroupData.cpp\<close>, and the functions of \<open>LFGMgr.cpp\<close> that read and write them. The stores are
  \<open>std::map\<close>s whose \<open>operator[]\<close> makes a missing entry, so a missing entry reads as a fresh one.
\<close>

section \<open>States\<close>

datatype LfgState = LFG_STATE_NONE | LFG_STATE_ROLECHECK | LFG_STATE_QUEUED | LFG_STATE_PROPOSAL
  | LFG_STATE_DUNGEON | LFG_STATE_FINISHED_DUNGEON | LFG_STATE_RAIDBROWSER

text \<open>The size of a party, of \<open>Group.h\<close>.\<close>

definition MAX_GROUP_SIZE :: nat where
  "MAX_GROUP_SIZE = 5"

definition LFG_GROUP_MAX_KICKS :: u8 where
  "LFG_GROUP_MAX_KICKS = 3"

record LfgGroupData =
  g_State :: LfgState
  g_OldState :: LfgState
  g_Leader :: ObjectGuid
  g_Players :: "ObjectGuid set"
  g_Dungeon :: u32
  g_KicksLeft :: u8
  g_VoteKickActive :: bool

record LfgPlayerData =
  p_State :: LfgState
  p_OldState :: LfgState
  p_Team :: u8
  p_Group :: ObjectGuid
  p_Roles :: u8
  p_SelectedDungeons :: "u32 set"
  p_Comment :: string
  p_NumberOfPartyMembersAtJoin :: u8

definition new_LfgGroupData :: LfgGroupData where
  "new_LfgGroupData = \<lparr>g_State = LFG_STATE_NONE, g_OldState = LFG_STATE_NONE, g_Leader = 0, g_Players = {},
     g_Dungeon = 0, g_KicksLeft = LFG_GROUP_MAX_KICKS, g_VoteKickActive = False\<rparr>"

definition new_LfgPlayerData :: LfgPlayerData where
  "new_LfgPlayerData = \<lparr>p_State = LFG_STATE_NONE, p_OldState = LFG_STATE_NONE, p_Team = 0, p_Group = 0, p_Roles = 0,
     p_SelectedDungeons = {}, p_Comment = [], p_NumberOfPartyMembersAtJoin = 0\<rparr>"

section \<open>Groups\<close>

definition Group_IsLfgGroup :: "LfgGroupData \<Rightarrow> bool" where
  "Group_IsLfgGroup d = (g_OldState d \<noteq> LFG_STATE_NONE)"

definition Group_SetState :: "LfgState \<Rightarrow> LfgGroupData \<Rightarrow> LfgGroupData" where
  "Group_SetState state d =
    (let d = (if state = LFG_STATE_NONE then d\<lparr>g_Dungeon := 0, g_KicksLeft := LFG_GROUP_MAX_KICKS\<rparr> else d);
         d = (if state \<in> {LFG_STATE_NONE, LFG_STATE_FINISHED_DUNGEON, LFG_STATE_DUNGEON} then d\<lparr>g_OldState := state\<rparr> else d)
     in d\<lparr>g_State := state\<rparr>)"

definition Group_RestoreState :: "LfgGroupData \<Rightarrow> LfgGroupData" where
  "Group_RestoreState d = d\<lparr>g_State := g_OldState d\<rparr>"

definition Group_AddPlayer :: "ObjectGuid \<Rightarrow> LfgGroupData \<Rightarrow> LfgGroupData" where
  "Group_AddPlayer guid d = d\<lparr>g_Players := insert guid (g_Players d)\<rparr>"

definition Group_RemovePlayer :: "ObjectGuid \<Rightarrow> LfgGroupData \<Rightarrow> u8 \<times> LfgGroupData" where
  "Group_RemovePlayer guid d = (of_nat (card (g_Players d - {guid})), d\<lparr>g_Players := g_Players d - {guid}\<rparr>)"

definition Group_RemoveAllPlayers :: "LfgGroupData \<Rightarrow> LfgGroupData" where
  "Group_RemoveAllPlayers d = d\<lparr>g_Players := {}\<rparr>"

definition Group_SetLeader :: "ObjectGuid \<Rightarrow> LfgGroupData \<Rightarrow> LfgGroupData" where
  "Group_SetLeader guid d = d\<lparr>g_Leader := guid\<rparr>"

definition Group_SetDungeon :: "u32 \<Rightarrow> LfgGroupData \<Rightarrow> LfgGroupData" where
  "Group_SetDungeon dungeon d = d\<lparr>g_Dungeon := dungeon\<rparr>"

definition Group_GetDungeon :: "bool \<Rightarrow> LfgGroupData \<Rightarrow> u32" where
  "Group_GetDungeon asId d = (if asId then g_Dungeon d AND 0x00FFFFFF else g_Dungeon d)"

definition Group_DecreaseKicksLeft :: "LfgGroupData \<Rightarrow> LfgGroupData" where
  "Group_DecreaseKicksLeft d = (if g_KicksLeft d \<noteq> 0 then d\<lparr>g_KicksLeft := g_KicksLeft d - 1\<rparr> else d)"

definition Group_GetPlayerCount :: "LfgGroupData \<Rightarrow> u8" where
  "Group_GetPlayerCount d = of_nat (card (g_Players d))"

definition Group_SetVoteKick :: "bool \<Rightarrow> LfgGroupData \<Rightarrow> LfgGroupData" where
  "Group_SetVoteKick active d = d\<lparr>g_VoteKickActive := active\<rparr>"

section \<open>Players\<close>

definition Player_SetState :: "LfgState \<Rightarrow> LfgPlayerData \<Rightarrow> LfgPlayerData" where
  "Player_SetState state d =
    (let d = (if state \<in> {LFG_STATE_NONE, LFG_STATE_FINISHED_DUNGEON}
              then d\<lparr>p_Roles := 0, p_SelectedDungeons := {}, p_Comment := []\<rparr> else d);
         d = (if state \<in> {LFG_STATE_NONE, LFG_STATE_FINISHED_DUNGEON, LFG_STATE_DUNGEON} then d\<lparr>p_OldState := state\<rparr> else d)
     in d\<lparr>p_State := state\<rparr>)"

definition Player_RestoreState :: "LfgPlayerData \<Rightarrow> LfgPlayerData" where
  "Player_RestoreState d =
    (let d = (if p_OldState d = LFG_STATE_NONE then d\<lparr>p_SelectedDungeons := {}, p_Roles := 0\<rparr> else d)
     in d\<lparr>p_State := p_OldState d\<rparr>)"

section \<open>The stores of the manager\<close>

record lfg_stores =
  PlayersStore :: "ObjectGuid \<rightharpoonup> LfgPlayerData"
  GroupsStore :: "ObjectGuid \<rightharpoonup> LfgGroupData"

definition player_data :: "lfg_stores \<Rightarrow> ObjectGuid \<Rightarrow> LfgPlayerData" where
  "player_data s guid = (case PlayersStore s guid of Some d \<Rightarrow> d | None \<Rightarrow> new_LfgPlayerData)"

definition group_data :: "lfg_stores \<Rightarrow> ObjectGuid \<Rightarrow> LfgGroupData" where
  "group_data s guid = (case GroupsStore s guid of Some d \<Rightarrow> d | None \<Rightarrow> new_LfgGroupData)"

definition update_player :: "ObjectGuid \<Rightarrow> (LfgPlayerData \<Rightarrow> LfgPlayerData) \<Rightarrow> lfg_stores \<Rightarrow> lfg_stores" where
  "update_player guid f s = s\<lparr>PlayersStore := (PlayersStore s)(guid \<mapsto> f (player_data s guid))\<rparr>"

definition update_group :: "ObjectGuid \<Rightarrow> (LfgGroupData \<Rightarrow> LfgGroupData) \<Rightarrow> lfg_stores \<Rightarrow> lfg_stores" where
  "update_group guid f s = s\<lparr>GroupsStore := (GroupsStore s)(guid \<mapsto> f (group_data s guid))\<rparr>"

definition IsGroup :: "ObjectGuid \<Rightarrow> bool" where
  "IsGroup g = (GetHigh g = HighGuid_Group)"

definition GetState :: "lfg_stores \<Rightarrow> ObjectGuid \<Rightarrow> LfgState" where
  "GetState s guid = (if IsGroup guid then g_State (group_data s guid) else p_State (player_data s guid))"

definition GetOldState :: "lfg_stores \<Rightarrow> ObjectGuid \<Rightarrow> LfgState" where
  "GetOldState s guid = (if IsGroup guid then g_OldState (group_data s guid) else p_OldState (player_data s guid))"

definition SetState :: "ObjectGuid \<Rightarrow> LfgState \<Rightarrow> lfg_stores \<Rightarrow> lfg_stores" where
  "SetState guid state s =
    (if IsGroup guid then update_group guid (Group_SetState state) s else update_player guid (Player_SetState state) s)"

definition RestoreState :: "ObjectGuid \<Rightarrow> lfg_stores \<Rightarrow> lfg_stores" where
  "RestoreState guid s =
    (if IsGroup guid then update_group guid Group_RestoreState s else update_player guid Player_RestoreState s)"

definition IsLfgGroup :: "lfg_stores \<Rightarrow> ObjectGuid \<Rightarrow> bool" where
  "IsLfgGroup s guid = (\<not> IsEmpty guid \<and> IsGroup guid \<and> Group_IsLfgGroup (group_data s guid))"

definition AllQueued :: "lfg_stores \<Rightarrow> ObjectGuid list \<Rightarrow> bool" where
  "AllQueued s check = (check \<noteq> [] \<and> list_all (\<lambda>g. GetState s g = LFG_STATE_QUEUED) check)"

definition SetGroup :: "ObjectGuid \<Rightarrow> ObjectGuid \<Rightarrow> lfg_stores \<Rightarrow> lfg_stores" where
  "SetGroup guid grp s = update_player guid (\<lambda>d. d\<lparr>p_Group := grp\<rparr>) s"

definition SetRoles :: "ObjectGuid \<Rightarrow> u8 \<Rightarrow> lfg_stores \<Rightarrow> lfg_stores" where
  "SetRoles guid roles s = update_player guid (\<lambda>d. d\<lparr>p_Roles := roles\<rparr>) s"

definition SetSelectedDungeons :: "ObjectGuid \<Rightarrow> u32 set \<Rightarrow> lfg_stores \<Rightarrow> lfg_stores" where
  "SetSelectedDungeons guid dungeons s = update_player guid (\<lambda>d. d\<lparr>p_SelectedDungeons := dungeons\<rparr>) s"

definition SetComment :: "ObjectGuid \<Rightarrow> string \<Rightarrow> lfg_stores \<Rightarrow> lfg_stores" where
  "SetComment guid c s = update_player guid (\<lambda>d. d\<lparr>p_Comment := c\<rparr>) s"

definition SetTeam :: "bool \<Rightarrow> ObjectGuid \<Rightarrow> u8 \<Rightarrow> lfg_stores \<Rightarrow> lfg_stores" where
  "SetTeam twoSideGroups guid team s = update_player guid (\<lambda>d. d\<lparr>p_Team := (if twoSideGroups then 0 else team)\<rparr>) s"

definition SetLeader :: "ObjectGuid \<Rightarrow> ObjectGuid \<Rightarrow> lfg_stores \<Rightarrow> lfg_stores" where
  "SetLeader gguid leader s = update_group gguid (Group_SetLeader leader) s"

definition SetDungeon :: "ObjectGuid \<Rightarrow> u32 \<Rightarrow> lfg_stores \<Rightarrow> lfg_stores" where
  "SetDungeon guid dungeon s = update_group guid (Group_SetDungeon dungeon) s"

definition DecreaseKicksLeft :: "ObjectGuid \<Rightarrow> lfg_stores \<Rightarrow> lfg_stores" where
  "DecreaseKicksLeft guid s = update_group guid Group_DecreaseKicksLeft s"

definition AddPlayerToGroup :: "ObjectGuid \<Rightarrow> ObjectGuid \<Rightarrow> lfg_stores \<Rightarrow> lfg_stores" where
  "AddPlayerToGroup gguid guid s = update_group gguid (Group_AddPlayer guid) s"

definition RemovePlayerFromGroup :: "ObjectGuid \<Rightarrow> ObjectGuid \<Rightarrow> lfg_stores \<Rightarrow> u8 \<times> lfg_stores" where
  "RemovePlayerFromGroup gguid guid s =
    (fst (Group_RemovePlayer guid (group_data s gguid)), update_group gguid (snd \<circ> Group_RemovePlayer guid) s)"

definition SetVoteKick :: "ObjectGuid \<Rightarrow> bool \<Rightarrow> lfg_stores \<Rightarrow> lfg_stores option" where
  "SetVoteKick gguid active s = (if IsGroup gguid then Some (update_group gguid (Group_SetVoteKick active) s) else None)"

definition SetupGroupMember :: "ObjectGuid \<Rightarrow> ObjectGuid \<Rightarrow> lfg_stores \<Rightarrow> lfg_stores" where
  "SetupGroupMember guid gguid s =
    (let s = SetSelectedDungeons guid {Group_GetDungeon True (group_data s gguid)} s;
         s = SetState guid (GetState s gguid) s;
         s = SetGroup guid gguid s
     in AddPlayerToGroup gguid guid s)"

definition RemovePlayerData :: "ObjectGuid \<Rightarrow> lfg_stores \<Rightarrow> lfg_stores" where
  "RemovePlayerData guid s = s\<lparr>PlayersStore := (PlayersStore s)(guid := None)\<rparr>"

definition RemoveGroupData :: "ObjectGuid \<Rightarrow> lfg_stores \<Rightarrow> lfg_stores" where
  "RemoveGroupData guid s =
    (case GroupsStore s guid of
       None \<Rightarrow> s
     | Some d \<Rightarrow>
         let state = GetState s guid;
             s = fold (\<lambda>p s. let s = SetGroup p 0 s
                             in if state \<noteq> LFG_STATE_PROPOSAL then SetState p LFG_STATE_NONE s else s)
                   (sorted_list_of_set (g_Players d)) s
         in s\<lparr>GroupsStore := (GroupsStore s)(guid := None)\<rparr>)"

section \<open>Well-formed states\<close>

text \<open>The old state is one a group or player can return to, the current state is the old one whenever it is
  such a state, and a group has at most three kicks.\<close>

definition resting :: "LfgState \<Rightarrow> bool" where
  "resting st \<longleftrightarrow> st \<in> {LFG_STATE_NONE, LFG_STATE_DUNGEON, LFG_STATE_FINISHED_DUNGEON}"

definition state_ok :: "LfgState \<Rightarrow> LfgState \<Rightarrow> bool" where
  "state_ok st old \<longleftrightarrow> resting old \<and> (resting st \<longrightarrow> st = old)"

definition group_ok :: "LfgGroupData \<Rightarrow> bool" where
  "group_ok d \<longleftrightarrow> state_ok (g_State d) (g_OldState d) \<and> g_KicksLeft d \<le> LFG_GROUP_MAX_KICKS"

definition player_ok :: "LfgPlayerData \<Rightarrow> bool" where
  "player_ok d \<longleftrightarrow> state_ok (p_State d) (p_OldState d)"

lemma group_ok_new: "group_ok new_LfgGroupData"
  by (simp add: group_ok_def new_LfgGroupData_def state_ok_def resting_def)

lemma player_ok_new: "player_ok new_LfgPlayerData"
  by (simp add: player_ok_def new_LfgPlayerData_def state_ok_def resting_def)

lemma kicks_decrease: "c \<le> 3 \<Longrightarrow> c \<noteq> 0 \<Longrightarrow> c - 1 \<le> (3 :: u8)"
proof -
  assume "c \<le> 3" "c \<noteq> 0"
  then have "unat c \<le> 3" "unat c \<noteq> 0" by (simp_all add: word_le_nat_alt unat_eq_0)
  moreover have "unat (c - 1) = unat c - 1" using \<open>c \<noteq> 0\<close> by (simp add: unat_minus_one)
  ultimately show ?thesis by (simp add: word_le_nat_alt)
qed

lemma group_ok_ops:
  assumes "group_ok d"
  shows "group_ok (Group_SetState st d)" "group_ok (Group_RestoreState d)" "group_ok (Group_AddPlayer g d)"
    "group_ok (snd (Group_RemovePlayer g d))" "group_ok (Group_RemoveAllPlayers d)" "group_ok (Group_SetLeader g d)"
    "group_ok (Group_SetDungeon n d)" "group_ok (Group_DecreaseKicksLeft d)" "group_ok (Group_SetVoteKick b d)"
  using assms kicks_decrease [of "g_KicksLeft d"]
  by (auto simp: group_ok_def state_ok_def resting_def Group_SetState_def Group_RestoreState_def Group_AddPlayer_def
      Group_RemovePlayer_def Group_RemoveAllPlayers_def Group_SetLeader_def Group_SetDungeon_def Group_DecreaseKicksLeft_def
      Group_SetVoteKick_def LFG_GROUP_MAX_KICKS_def)

lemma player_ok_ops:
  assumes "player_ok d"
  shows "player_ok (Player_SetState st d)" "player_ok (Player_RestoreState d)" "player_ok (d\<lparr>p_Group := g\<rparr>)"
    "player_ok (d\<lparr>p_Roles := r\<rparr>)" "player_ok (d\<lparr>p_SelectedDungeons := D\<rparr>)" "player_ok (d\<lparr>p_Comment := c\<rparr>)"
    "player_ok (d\<lparr>p_Team := t\<rparr>)"
  using assms by (auto simp: player_ok_def state_ok_def resting_def Player_SetState_def Player_RestoreState_def Let_def)

definition stores_ok :: "lfg_stores \<Rightarrow> bool" where
  "stores_ok s \<longleftrightarrow> (\<forall>g. group_ok (group_data s g) \<and> player_ok (player_data s g))"

lemma data_update [simp]:
  "group_data (update_group guid h s) g = (if g = guid then h (group_data s g) else group_data s g)"
  "player_data (update_player guid f s) g = (if g = guid then f (player_data s g) else player_data s g)"
  "group_data (update_player guid f s) g = group_data s g" "player_data (update_group guid h s) g = player_data s g"
  by (auto simp: update_player_def update_group_def player_data_def group_data_def)

lemma stores_ok_update:
  "stores_ok s \<Longrightarrow> (\<And>d. player_ok d \<Longrightarrow> player_ok (f d)) \<Longrightarrow> stores_ok (update_player guid f s)"
  "stores_ok s \<Longrightarrow> (\<And>d. group_ok d \<Longrightarrow> group_ok (h d)) \<Longrightarrow> stores_ok (update_group guid h s)"
  by (auto simp: stores_ok_def)

lemma stores_ok_ops:
  assumes "stores_ok s"
  shows "stores_ok (SetState guid st s)" "stores_ok (RestoreState guid s)" "stores_ok (SetGroup guid g s)"
    "stores_ok (SetRoles guid r s)" "stores_ok (SetSelectedDungeons guid D s)" "stores_ok (SetComment guid c s)"
    "stores_ok (SetTeam two guid t s)" "stores_ok (SetLeader guid g s)" "stores_ok (SetDungeon guid n s)"
    "stores_ok (DecreaseKicksLeft guid s)" "stores_ok (AddPlayerToGroup guid g s)"
    "stores_ok (snd (RemovePlayerFromGroup guid g s))" "SetVoteKick guid b s = Some s' \<Longrightarrow> stores_ok s'"
  using assms
  by (auto simp: SetState_def RestoreState_def SetGroup_def SetRoles_def SetSelectedDungeons_def SetComment_def SetTeam_def
      SetLeader_def SetDungeon_def DecreaseKicksLeft_def AddPlayerToGroup_def RemovePlayerFromGroup_def SetVoteKick_def
      intro!: stores_ok_update group_ok_ops player_ok_ops split: if_splits)

lemma stores_ok_SetupGroupMember: "stores_ok s \<Longrightarrow> stores_ok (SetupGroupMember guid gguid s)"
  by (simp add: SetupGroupMember_def Let_def stores_ok_ops)

lemma stores_ok_RemovePlayerData: "stores_ok s \<Longrightarrow> stores_ok (RemovePlayerData guid s)"
  by (auto simp: RemovePlayerData_def stores_ok_def player_data_def group_data_def player_ok_new split: option.splits)

lemma stores_ok_RemoveGroupData:
  assumes "stores_ok s"
  shows "stores_ok (RemoveGroupData guid s)"
proof (cases "GroupsStore s guid")
  case None
  then show ?thesis using assms by (simp add: RemoveGroupData_def)
next
  case (Some d)
  let ?f = "\<lambda>p t. let t = SetGroup p 0 t in if GetState s guid \<noteq> LFG_STATE_PROPOSAL then SetState p LFG_STATE_NONE t else t"
  have "stores_ok t \<Longrightarrow> stores_ok (fold ?f ps t)" for ps t
    by (induction ps arbitrary: t) (simp_all add: Let_def stores_ok_ops)
  from this [OF assms] have "stores_ok (fold ?f (sorted_list_of_set (g_Players d)) s)" .
  then show ?thesis
    using Some by (simp add: RemoveGroupData_def Let_def)
      (auto simp: stores_ok_def player_data_def group_data_def group_ok_new split: option.splits)
qed

text \<open>The manager's own steps on its stores.\<close>

inductive lfg_step :: "lfg_stores \<Rightarrow> lfg_stores \<Rightarrow> bool" where
  "lfg_step s (SetState guid st s)"
| "lfg_step s (RestoreState guid s)"
| "lfg_step s (SetGroup guid g s)"
| "lfg_step s (SetRoles guid r s)"
| "lfg_step s (SetSelectedDungeons guid D s)"
| "lfg_step s (SetComment guid c s)"
| "lfg_step s (SetTeam two guid t s)"
| "lfg_step s (SetLeader guid g s)"
| "lfg_step s (SetDungeon guid n s)"
| "lfg_step s (DecreaseKicksLeft guid s)"
| "lfg_step s (AddPlayerToGroup guid g s)"
| "lfg_step s (snd (RemovePlayerFromGroup guid g s))"
| "SetVoteKick guid b s = Some s' \<Longrightarrow> lfg_step s s'"
| "lfg_step s (SetupGroupMember guid g s)"
| "lfg_step s (RemovePlayerData guid s)"
| "lfg_step s (RemoveGroupData guid s)"

definition lfg_init :: "lfg_stores \<Rightarrow> bool" where
  "lfg_init s \<longleftrightarrow> PlayersStore s = Map.empty \<and> GroupsStore s = Map.empty"

lemma stores_ok_step: "stores_ok s \<Longrightarrow> lfg_step s s' \<Longrightarrow> stores_ok s'"
  by (erule lfg_step.cases)
    (auto intro: stores_ok_ops stores_ok_SetupGroupMember stores_ok_RemovePlayerData stores_ok_RemoveGroupData)

interpretation lfg_data: invariant_system lfg_init lfg_step stores_ok
  by unfold_locales
    (simp add: lfg_init_def stores_ok_def group_data_def player_data_def group_ok_new player_ok_new, rule stores_ok_step)

section \<open>Properties\<close>

text \<open>Claim C34: in every state the dungeon finder's data can reach, a player or group has an old state it can
  return to (none, in a dungeon, dungeon finished), its state is the old one whenever it is one of
  these, restoring leaves it in such a state, and no group has more than three kicks.\<close>

theorem lfg_states_typed:
  assumes "lfg_init s" "lfg_step\<^sup>*\<^sup>* s t"
  shows "resting (GetOldState t guid) \<and> (resting (GetState t guid) \<longrightarrow> GetState t guid = GetOldState t guid) \<and>
    resting (GetState (RestoreState guid t) guid) \<and> g_KicksLeft (group_data t guid) \<le> LFG_GROUP_MAX_KICKS"
proof -
  have ok: "stores_ok t" using lfg_data.invar_reachable [OF assms] .
  have "GetState (RestoreState guid t) guid = GetOldState t guid"
    by (simp add: GetState_def GetOldState_def RestoreState_def Group_RestoreState_def Player_RestoreState_def Let_def)
  then show ?thesis
    using ok by (auto simp: stores_ok_def group_ok_def player_ok_def state_ok_def GetOldState_def GetState_def)
qed

theorem lfg_states_typed_witness:
  "resting (GetState (RestoreState 5 (SetState 5 LFG_STATE_QUEUED \<lparr>PlayersStore = Map.empty, GroupsStore = Map.empty\<rparr>)) 5)"
proof -
  let ?s = "\<lparr>PlayersStore = Map.empty, GroupsStore = Map.empty\<rparr>"
  have "lfg_init ?s" "lfg_step\<^sup>*\<^sup>* ?s (SetState 5 LFG_STATE_QUEUED ?s)"
    by (simp add: lfg_init_def) (rule r_into_rtranclp, rule lfg_step.intros)
  from lfg_states_typed [OF this, of 5] show ?thesis by blast
qed

end
