(* ===== verification/Lfg_Queue.thy ===== *)
theory Lfg_Queue
  imports Lfg_Data Text_Util "HOL-Library.List_Lexorder" "HOL-Library.Char_ord"
begin

text \<open>
  The dungeon finder, part three: the queue that forms groups, \<open>LFGQueue.cpp\<close>. A \<open>std::map\<close> is the list
  of its entries in the order of the keys. Players who ignore each other, the clock and the random
  choices are arguments; the states of players and groups are those of \<open>Lfg_Data\<close>.
\<close>

section \<open>Ordered maps\<close>

fun mput :: "'k::linorder \<Rightarrow> 'v \<Rightarrow> ('k \<times> 'v) list \<Rightarrow> ('k \<times> 'v) list" where
  "mput k v [] = [(k, v)]"
| "mput k v ((k', v') # m) =
    (if k < k' then (k, v) # (k', v') # m else if k = k' then (k, v) # m else (k', v') # mput k v m)"

definition mdel :: "'k \<Rightarrow> ('k \<times> 'v) list \<Rightarrow> ('k \<times> 'v) list" where
  "mdel k m = filter (\<lambda>e. fst e \<noteq> k) m"

definition mupdate :: "'k \<Rightarrow> ('v \<Rightarrow> 'v) \<Rightarrow> ('k \<times> 'v) list \<Rightarrow> ('k \<times> 'v) list" where
  "mupdate k f m = map (\<lambda>e. if fst e = k then (k, f (snd e)) else e) m"

section \<open>Data\<close>

datatype LfgCompatibility = LFG_COMPATIBILITY_PENDING | LFG_INCOMPATIBLES_WRONG_GROUP_SIZE
  | LFG_INCOMPATIBLES_TOO_MUCH_PLAYERS | LFG_INCOMPATIBLES_MULTIPLE_LFG_GROUPS | LFG_INCOMPATIBLES_HAS_IGNORES
  | LFG_INCOMPATIBLES_NO_ROLES | LFG_INCOMPATIBLES_NO_DUNGEONS | LFG_COMPATIBLES_WITH_LESS_PLAYERS
  | LFG_COMPATIBLES_BAD_STATES | LFG_COMPATIBLES_MATCH

text \<open>The comparison \<open>compatibles < LFG_COMPATIBLES_WITH_LESS_PLAYERS\<close> on the values of the enumeration.\<close>

definition not_compatible :: "LfgCompatibility \<Rightarrow> bool" where
  "not_compatible c \<longleftrightarrow> c \<notin> {LFG_COMPATIBLES_WITH_LESS_PLAYERS, LFG_COMPATIBLES_BAD_STATES, LFG_COMPATIBLES_MATCH}"

record LfgCompatibilityData =
  compatibility :: LfgCompatibility
  c_roles :: LfgRolesMap

record LfgQueueData =
  joinTime :: int
  q_tanks :: u8
  q_healers :: u8
  q_dps :: u8
  q_dungeons :: "u32 set"
  q_roles :: LfgRolesMap
  bestCompatible :: string

definition new_LfgQueueData :: "int \<Rightarrow> u32 set \<Rightarrow> LfgRolesMap \<Rightarrow> LfgQueueData" where
  "new_LfgQueueData t dungeons roles = \<lparr>joinTime = t, q_tanks = LFG_TANKS_NEEDED, q_healers = LFG_HEALERS_NEEDED,
     q_dps = LFG_DPS_NEEDED, q_dungeons = dungeons, q_roles = roles, bestCompatible = []\<rparr>"

datatype LfgAnswer = LFG_ANSWER_PENDING | LFG_ANSWER_DENY | LFG_ANSWER_AGREE

record LfgProposalPlayer =
  pp_role :: u8
  pp_accept :: LfgAnswer
  pp_group :: ObjectGuid

record LfgProposal =
  pr_id :: u32
  pr_dungeonId :: u32
  pr_group :: ObjectGuid
  pr_leader :: ObjectGuid
  pr_cancelTime :: int
  pr_isNew :: bool
  pr_queues :: "ObjectGuid list"
  pr_players :: "(ObjectGuid \<times> LfgProposalPlayer) list"

record LFGQueue =
  QueueDataStore :: "(ObjectGuid \<times> LfgQueueData) list"
  CompatibleMapStore :: "(string \<times> LfgCompatibilityData) list"
  currentQueueStore :: "ObjectGuid list"
  newToQueueStore :: "ObjectGuid list"

text \<open>The queue with what \<open>LFGMgr\<close> keeps of proposals.\<close>

record lfg_state = LFGQueue +
  ProposalsStore :: "(u32 \<times> LfgProposal) list"
  lfgProposalId :: u32

text \<open>The random numbers may differ from one proposal to the next.\<close>

record lfg_env =
  stores :: lfg_stores
  HasIgnore :: "ObjectGuid \<Rightarrow> ObjectGuid \<Rightarrow> bool"
  gameTime :: int
  pickDungeon :: "u32 \<Rightarrow> u32 set \<Rightarrow> u32"
  urand01 :: "u32 \<Rightarrow> ObjectGuid \<Rightarrow> bool"

definition LFG_TIME_PROPOSAL :: int where
  "LFG_TIME_PROPOSAL = 45"

section \<open>Keys\<close>

definition raw_text :: "ObjectGuid \<Rightarrow> string" where
  "raw_text g = digits_of 10 (unat g)"

definition ConcatenateGuids :: "ObjectGuid list \<Rightarrow> string" where
  "ConcatenateGuids check =
    (case sorted_list_of_set (set check) of
       [] \<Rightarrow> []
     | g # gs \<Rightarrow> raw_text g @ concat (map (\<lambda>h. CHR ''|'' # raw_text h) gs))"

text \<open>\<open>std::string::npos != s.find(t)\<close>.\<close>

fun str_contains :: "string \<Rightarrow> string \<Rightarrow> bool" where
  "str_contains [] t = (t = [])"
| "str_contains (c # s) t = (take (length t) (c # s) = t \<or> str_contains s t)"

section \<open>The lists and the cache\<close>

definition AddToNewQueue where
  "AddToNewQueue guid s = s\<lparr>newToQueueStore := newToQueueStore s @ [guid]\<rparr>"

definition RemoveFromNewQueue where
  "RemoveFromNewQueue guid s = s\<lparr>newToQueueStore := filter (\<lambda>g. g \<noteq> guid) (newToQueueStore s)\<rparr>"

definition AddToCurrentQueue where
  "AddToCurrentQueue guid s = s\<lparr>currentQueueStore := currentQueueStore s @ [guid]\<rparr>"

definition AddToFrontCurrentQueue where
  "AddToFrontCurrentQueue guid s = s\<lparr>currentQueueStore := guid # currentQueueStore s\<rparr>"

definition RemoveFromCurrentQueue where
  "RemoveFromCurrentQueue guid s = s\<lparr>currentQueueStore := filter (\<lambda>g. g \<noteq> guid) (currentQueueStore s)\<rparr>"

definition AddToQueue where
  "AddToQueue guid reAdd s =
    (if map_of (QueueDataStore s) guid = None then s
     else if reAdd then AddToFrontCurrentQueue guid s else AddToNewQueue guid s)"

definition AddQueueData where
  "AddQueueData guid t dungeons rolesMap s =
    AddToQueue guid False (s\<lparr>QueueDataStore := mput guid (new_LfgQueueData t dungeons rolesMap) (QueueDataStore s)\<rparr>)"

definition RemoveQueueData where
  "RemoveQueueData guid s = s\<lparr>QueueDataStore := mdel guid (QueueDataStore s)\<rparr>"

definition GetJoinTime where
  "GetJoinTime guid s = (case map_of (QueueDataStore s) guid of Some d \<Rightarrow> joinTime d | None \<Rightarrow> 0)"

definition RemoveFromCompatibles where
  "RemoveFromCompatibles guid s =
    s\<lparr>CompatibleMapStore := filter (\<lambda>e. \<not> str_contains (fst e) (raw_text guid)) (CompatibleMapStore s)\<rparr>"

definition SetCompatibles where
  "SetCompatibles key compatibles s =
    (let data = (case map_of (CompatibleMapStore s) key of Some d \<Rightarrow> d
                 | None \<Rightarrow> \<lparr>compatibility = LFG_COMPATIBILITY_PENDING, c_roles = []\<rparr>)
     in s\<lparr>CompatibleMapStore := mput key (data\<lparr>compatibility := compatibles\<rparr>) (CompatibleMapStore s)\<rparr>)"

definition SetCompatibilityData where
  "SetCompatibilityData key data s = s\<lparr>CompatibleMapStore := mput key data (CompatibleMapStore s)\<rparr>"

definition GetCompatibles where
  "GetCompatibles key s =
    (case map_of (CompatibleMapStore s) key of Some d \<Rightarrow> compatibility d | None \<Rightarrow> LFG_COMPATIBILITY_PENDING)"

definition bars :: "string \<Rightarrow> u8" where
  "bars key = of_nat (length (filter (\<lambda>c. c = CHR ''|'') key) + 1)"

text \<open>The loop that counts down what the group still needs.\<close>

definition need_less :: "LfgRolesMap \<Rightarrow> LfgQueueData \<Rightarrow> LfgQueueData" where
  "need_less roles d = fold (\<lambda>e d.
     if snd e AND PLAYER_ROLE_TANK \<noteq> 0 then d\<lparr>q_tanks := q_tanks d - 1\<rparr>
     else if snd e AND PLAYER_ROLE_HEALER \<noteq> 0 then d\<lparr>q_healers := q_healers d - 1\<rparr>
     else d\<lparr>q_dps := q_dps d - 1\<rparr>) roles d"

definition update_best :: "string \<Rightarrow> LfgRolesMap \<Rightarrow> LfgQueueData \<Rightarrow> LfgQueueData" where
  "update_best key roles d =
    (let storedSize = (if bestCompatible d = [] then 0 else bars (bestCompatible d))
     in if bars key \<le> storedSize then d
        else need_less roles (d\<lparr>bestCompatible := key, q_tanks := LFG_TANKS_NEEDED, q_healers := LFG_HEALERS_NEEDED, q_dps := LFG_DPS_NEEDED\<rparr>))"

definition UpdateBestCompatibleInQueue where
  "UpdateBestCompatibleInQueue guid key roles s = s\<lparr>QueueDataStore := mupdate guid (update_best key roles) (QueueDataStore s)\<rparr>"

definition find_best :: "(string \<times> LfgCompatibilityData) list \<Rightarrow> ObjectGuid \<Rightarrow> LfgQueueData \<Rightarrow> LfgQueueData" where
  "find_best cache guid d = fold (\<lambda>e d.
     if compatibility (snd e) = LFG_COMPATIBLES_WITH_LESS_PLAYERS \<and> str_contains (fst e) (raw_text guid)
     then update_best (fst e) (c_roles (snd e)) d else d) cache d"

definition FindBestCompatibleInQueue where
  "FindBestCompatibleInQueue guid s = s\<lparr>QueueDataStore := mupdate guid (find_best (CompatibleMapStore s) guid) (QueueDataStore s)\<rparr>"

definition RemoveFromQueue where
  "RemoveFromQueue guid s =
    (let s = RemoveFromCompatibles guid (RemoveFromCurrentQueue guid (RemoveFromNewQueue guid s));
         store = map (\<lambda>e. if fst e \<noteq> guid \<and> str_contains (bestCompatible (snd e)) (raw_text guid)
                          then (fst e, find_best (CompatibleMapStore s) (fst e) ((snd e)\<lparr>bestCompatible := []\<rparr>)) else e) (QueueDataStore s)
     in s\<lparr>QueueDataStore := mdel guid store\<rparr>)"

section \<open>Compatibility of queued groups\<close>

text \<open>The first loop of \<open>CheckCompatibility\<close>: the groups of the players, their number, the number of dungeon
  finder groups and the first of these. \<open>Inl\<close> is a guid that is not queued.\<close>

record scan_result =
  sc_groups :: "(ObjectGuid \<times> ObjectGuid) list"
  numPlayers :: u8
  numLfgGroups :: u8
  sc_group :: ObjectGuid

fun scan :: "lfg_stores \<Rightarrow> (ObjectGuid \<times> LfgQueueData) list \<Rightarrow> ObjectGuid list \<Rightarrow> scan_result \<Rightarrow> ObjectGuid + scan_result" where
  "scan st q [] r = Inr r"
| "scan st q (g # gs) r =
    (if numLfgGroups r < 2 \<and> numPlayers r \<le> of_nat MAX_GROUP_SIZE then
       case map_of q g of
         None \<Rightarrow> Inl g
       | Some d \<Rightarrow>
           let r = r\<lparr>sc_groups := fold (\<lambda>e. mput (fst e) (if IsGroup g then g else 0)) (q_roles d) (sc_groups r),
                     numPlayers := numPlayers r + of_nat (length (q_roles d))\<rparr>;
               r = (if IsLfgGroup st g
                    then r\<lparr>sc_group := (if numLfgGroups r = 0 then g else sc_group r), numLfgGroups := numLfgGroups r + 1\<rparr> else r)
           in scan st q gs r
     else Inr r)"

definition scan_start :: scan_result where
  "scan_start = \<lparr>sc_groups = [], numPlayers = 0, numLfgGroups = 0, sc_group = 0\<rparr>"

text \<open>Where the code reads the queue data of a guid after that loop, the loop has found it.\<close>

definition queue_data :: "(ObjectGuid \<times> LfgQueueData) list \<Rightarrow> ObjectGuid \<Rightarrow> LfgQueueData" where
  "queue_data q g = (case map_of q g of Some d \<Rightarrow> d | None \<Rightarrow> new_LfgQueueData 0 {} [])"

text \<open>The players of the groups, without those who ignore, or are ignored by, a player taken before.\<close>

definition add_player :: "lfg_env \<Rightarrow> ObjectGuid \<times> u8 \<Rightarrow> LfgRolesMap \<Rightarrow> LfgRolesMap" where
  "add_player env e m = (if list_ex (\<lambda>p. fst e \<noteq> fst p \<and> HasIgnore env (fst e) (fst p)) m then m else mput (fst e) (snd e) m)"

definition merge_roles :: "lfg_env \<Rightarrow> (ObjectGuid \<times> LfgQueueData) list \<Rightarrow> ObjectGuid list \<Rightarrow> LfgRolesMap" where
  "merge_roles env q check = fold (\<lambda>g. fold (add_player env) (q_roles (queue_data q g))) check []"

definition common_dungeons :: "(ObjectGuid \<times> LfgQueueData) list \<Rightarrow> ObjectGuid list \<Rightarrow> u32 set" where
  "common_dungeons q check =
    fold (\<lambda>g D. D \<inter> q_dungeons (queue_data q g)) (tl check) (q_dungeons (queue_data q (hd check)))"

text \<open>The loop that chooses the leader: the marks of players who want to lead, then chance.\<close>

fun choose_leader :: "(ObjectGuid \<Rightarrow> bool) \<Rightarrow> LfgRolesMap \<Rightarrow> bool \<Rightarrow> ObjectGuid \<Rightarrow> ObjectGuid" where
  "choose_leader coin [] leader l = l"
| "choose_leader coin ((p, r) # m) leader l =
    (if r AND PLAYER_ROLE_LEADER \<noteq> 0
     then choose_leader coin m True (if \<not> leader \<or> IsEmpty l \<or> coin p then p else l)
     else choose_leader coin m leader (if \<not> leader \<and> (IsEmpty l \<or> coin p) then p else l))"

definition proposal_player :: "bool \<Rightarrow> ObjectGuid \<Rightarrow> (ObjectGuid \<times> ObjectGuid) list \<Rightarrow> ObjectGuid \<times> u8 \<Rightarrow> ObjectGuid \<times> LfgProposalPlayer" where
  "proposal_player isNew grp groups e =
    (let g = (case map_of groups (fst e) of Some g \<Rightarrow> g | None \<Rightarrow> 0)
     in (fst e, \<lparr>pp_role = snd e,
                 pp_accept = (if \<not> isNew \<and> \<not> IsEmpty g \<and> g = grp then LFG_ANSWER_AGREE else LFG_ANSWER_PENDING),
                 pp_group = g\<rparr>))"

definition AddProposal where
  "AddProposal p s = (let i = lfgProposalId s + 1
     in s\<lparr>lfgProposalId := i, ProposalsStore := mput i (p\<lparr>pr_id := i\<rparr>) (ProposalsStore s)\<rparr>)"

text \<open>From the test for enough players on: the last part of \<open>CheckCompatibility\<close>.\<close>

definition conclude :: "lfg_env \<Rightarrow> ObjectGuid list \<Rightarrow> scan_result \<Rightarrow> LfgRolesMap \<Rightarrow> u32 set \<Rightarrow> lfg_state \<Rightarrow> LfgCompatibility \<times> lfg_state" where
  "conclude env check r proposalRoles proposalDungeons s =
    (let strGuids = ConcatenateGuids check in
     if numPlayers r \<noteq> of_nat MAX_GROUP_SIZE then
       (LFG_COMPATIBLES_WITH_LESS_PLAYERS,
        SetCompatibilityData strGuids \<lparr>compatibility = LFG_COMPATIBLES_WITH_LESS_PLAYERS, c_roles = proposalRoles\<rparr>
          (fold (\<lambda>g. UpdateBestCompatibleInQueue g strGuids proposalRoles) check s))
     else if \<not> AllQueued (stores env) check then
       (LFG_COMPATIBLES_BAD_STATES, SetCompatibles strGuids LFG_COMPATIBLES_BAD_STATES s)
     else
       let isNew = (numLfgGroups r \<noteq> 1 \<or> GetOldState (stores env) (hd check) \<noteq> LFG_STATE_DUNGEON);
           i = lfgProposalId s + 1;
           proposal = \<lparr>pr_id = 0, pr_dungeonId = pickDungeon env i proposalDungeons, pr_group = sc_group r,
             pr_leader = choose_leader (urand01 env i) proposalRoles False 0, pr_cancelTime = gameTime env + LFG_TIME_PROPOSAL,
             pr_isNew = isNew, pr_queues = check,
             pr_players = map (proposal_player isNew (sc_group r) (sc_groups r)) proposalRoles\<rparr>;
           s = fold (\<lambda>g s. RemoveFromCurrentQueue g (RemoveFromNewQueue g s)) check s
       in (LFG_COMPATIBLES_MATCH, SetCompatibles strGuids LFG_COMPATIBLES_MATCH (AddProposal proposal s)))"

text \<open>\<open>CheckCompatibility\<close> behind the check of all but the first.\<close>

definition check_groups :: "lfg_env \<Rightarrow> ObjectGuid list \<Rightarrow> lfg_state \<Rightarrow> (LfgCompatibility \<times> lfg_state) option" where
  "check_groups env check s =
    (let strGuids = ConcatenateGuids check; q = QueueDataStore s in
     case scan (stores env) q check scan_start of
       Inl g \<Rightarrow> Some (LFG_COMPATIBILITY_PENDING, RemoveFromQueue g s)
     | Inr r \<Rightarrow>
         if length check = 1 \<and> numPlayers r \<noteq> of_nat MAX_GROUP_SIZE then
           Option.bind (CheckGroupRoles (q_roles (queue_data q (hd check)))) (\<lambda>(_, roles).
             Some (LFG_COMPATIBLES_WITH_LESS_PLAYERS,
               SetCompatibilityData strGuids \<lparr>compatibility = LFG_COMPATIBLES_WITH_LESS_PLAYERS, c_roles = roles\<rparr>
                 (UpdateBestCompatibleInQueue (hd check) strGuids roles s)))
         else if 1 < numLfgGroups r then
           Some (LFG_INCOMPATIBLES_MULTIPLE_LFG_GROUPS, SetCompatibles strGuids LFG_INCOMPATIBLES_MULTIPLE_LFG_GROUPS s)
         else if of_nat MAX_GROUP_SIZE < numPlayers r then
           Some (LFG_INCOMPATIBLES_TOO_MUCH_PLAYERS, SetCompatibles strGuids LFG_INCOMPATIBLES_TOO_MUCH_PLAYERS s)
         else if 1 < length check then
           let proposalRoles = merge_roles env q check in
           if numPlayers r - of_nat (length proposalRoles) \<noteq> 0 then
             Some (LFG_INCOMPATIBLES_HAS_IGNORES, SetCompatibles strGuids LFG_INCOMPATIBLES_HAS_IGNORES s)
           else Option.bind (CheckGroupRoles proposalRoles) (\<lambda>(ok, proposalRoles).
             if \<not> ok then Some (LFG_INCOMPATIBLES_NO_ROLES, SetCompatibles strGuids LFG_INCOMPATIBLES_NO_ROLES s)
             else let proposalDungeons = common_dungeons q check in
               if proposalDungeons = {} then
                 Some (LFG_INCOMPATIBLES_NO_DUNGEONS, SetCompatibles strGuids LFG_INCOMPATIBLES_NO_DUNGEONS s)
               else Some (conclude env check r proposalRoles proposalDungeons s))
         else Option.bind (CheckGroupRoles (q_roles (queue_data q (hd check)))) (\<lambda>(_, proposalRoles).
             Some (conclude env check r proposalRoles (q_dungeons (queue_data q (hd check))) s)))"

fun CheckCompatibility :: "lfg_env \<Rightarrow> ObjectGuid list \<Rightarrow> lfg_state \<Rightarrow> (LfgCompatibility \<times> lfg_state) option" where
  "CheckCompatibility env [] s = Some (LFG_INCOMPATIBLES_WRONG_GROUP_SIZE, s)"
| "CheckCompatibility env (frontGuid # rest) s =
    (if MAX_GROUP_SIZE < length (frontGuid # rest) then Some (LFG_INCOMPATIBLES_WRONG_GROUP_SIZE, s)
     else if 2 < length (frontGuid # rest) then
       Option.bind (CheckCompatibility env rest s) (\<lambda>(child_compatibles, s).
         if not_compatible child_compatibles
         then Some (child_compatibles, SetCompatibles (ConcatenateGuids (frontGuid # rest)) child_compatibles s)
         else check_groups env (frontGuid # rest) s)
     else check_groups env (frontGuid # rest) s)"

section \<open>Looking for groups\<close>

text \<open>The first part of \<open>FindNewGroups\<close>, up to the loop: the cached or computed compatibility.\<close>

definition known_compatibility :: "lfg_env \<Rightarrow> ObjectGuid list \<Rightarrow> lfg_state \<Rightarrow> (LfgCompatibility \<times> lfg_state) option" where
  "known_compatibility env check s =
    (let strGuids = ConcatenateGuids check; c = GetCompatibles strGuids s in
     Option.bind (if c = LFG_COMPATIBILITY_PENDING then CheckCompatibility env check s else Some (c, s)) (\<lambda>(c, s).
       if c = LFG_COMPATIBLES_BAD_STATES \<and> AllQueued (stores env) check
       then Some (LFG_COMPATIBLES_MATCH, SetCompatibles strGuids LFG_COMPATIBLES_MATCH s)
       else Some (c, s)))"

text \<open>The loop. Both lists are references, so what the recursive call takes from \<open>all\<close> is gone.\<close>

partial_function (option) find_loop ::
    "lfg_env \<Rightarrow> LfgCompatibility \<Rightarrow> ObjectGuid list \<Rightarrow> ObjectGuid list \<Rightarrow> lfg_state \<Rightarrow>
     (LfgCompatibility \<times> ObjectGuid list \<times> ObjectGuid list \<times> lfg_state) option" where
  "find_loop env compatibles check all s =
    (if all = [] then Some (compatibles, check, all, s)
     else Option.bind (known_compatibility env (check @ [hd all]) s) (\<lambda>(c, s).
       Option.bind (if c \<noteq> LFG_COMPATIBLES_WITH_LESS_PLAYERS then Some (c, check @ [hd all], tl all, s)
                    else find_loop env c (check @ [hd all]) (tl all) s) (\<lambda>(sub, check', all', s).
         if sub = LFG_COMPATIBLES_MATCH then Some (sub, check', all', s)
         else find_loop env compatibles (butlast check') all' s)))"

definition FindNewGroups ::
    "lfg_env \<Rightarrow> ObjectGuid list \<Rightarrow> ObjectGuid list \<Rightarrow> lfg_state \<Rightarrow>
     (LfgCompatibility \<times> ObjectGuid list \<times> ObjectGuid list \<times> lfg_state) option" where
  "FindNewGroups env check all s =
    Option.bind (known_compatibility env check s) (\<lambda>(c, s).
      if c \<noteq> LFG_COMPATIBLES_WITH_LESS_PLAYERS then Some (c, check, all, s) else find_loop env c check all s)"

partial_function (option) find_groups :: "lfg_env \<Rightarrow> u8 \<Rightarrow> lfg_state \<Rightarrow> (u8 \<times> lfg_state) option" where
  "find_groups env proposals s =
    (if newToQueueStore s = [] then Some (proposals, s)
     else let frontguid = hd (newToQueueStore s); s = RemoveFromNewQueue frontguid s in
       Option.bind (FindNewGroups env [frontguid] (currentQueueStore s) s) (\<lambda>(c, check, all, s).
         if c = LFG_COMPATIBLES_MATCH then find_groups env (proposals + 1) s
         else find_groups env proposals (AddToCurrentQueue frontguid s)))"

definition FindGroups :: "lfg_env \<Rightarrow> lfg_state \<Rightarrow> (u8 \<times> lfg_state) option" where
  "FindGroups env s = find_groups env 0 s"

declare find_loop.simps [code] find_groups.simps [code]

section \<open>Ordered maps: facts\<close>

definition mkeys :: "('k \<times> 'v) list \<Rightarrow> 'k set" where
  "mkeys m = fst ` set m"

definition msorted :: "('k::linorder \<times> 'v) list \<Rightarrow> bool" where
  "msorted m = sorted_wrt (<) (map fst m)"

lemma set_mput: "set (mput k v m) \<subseteq> insert (k, v) (set m)"
  by (induction k v m rule: mput.induct) auto

lemma mkeys_mput [simp]: "mkeys (mput k v m) = insert k (mkeys m)"
  by (induction k v m rule: mput.induct) (auto simp: mkeys_def)

lemma msorted_mput: "msorted m \<Longrightarrow> msorted (mput k v m)"
proof (induction k v m rule: mput.induct)
  case (2 k v k' v' m)
  have "\<forall>x\<in>mkeys (mput k v m). k' < x" if "k' < k"
    using 2(2) that unfolding mkeys_mput by (auto simp: msorted_def mkeys_def)
  then show ?case using 2 by (auto simp: msorted_def mkeys_def)
qed (simp add: msorted_def)

lemma mput_fresh: "k \<notin> mkeys m \<Longrightarrow> length (mput k v m) = Suc (length m) \<and> set (mput k v m) = insert (k, v) (set m)"
  by (induction k v m rule: mput.induct) (auto simp: mkeys_def)

lemma length_mput: "length (mput k v m) \<le> Suc (length m)"
  by (induction k v m rule: mput.induct) auto

lemma length_mput_eq: "msorted m \<Longrightarrow> k \<in> mkeys m \<Longrightarrow> length (mput k v m) = length m"
proof (induction k v m rule: mput.induct)
  case (2 k v k' v' m)
  then have "k' \<le> k" by (auto simp: msorted_def mkeys_def intro: less_imp_le)
  with 2 show ?case by (auto simp: msorted_def mkeys_def)
qed (simp add: mkeys_def)

lemma map_of_mupdate: "map_of (mupdate k f m) k' = (if k' = k then map_option f (map_of m k') else map_of m k')"
  by (induction m) (auto simp: mupdate_def)

lemma map_of_mdel: "map_of (mdel k m) k' = (if k' = k then None else map_of m k')"
  by (induction m) (auto simp: mdel_def)

section \<open>What no step of the queue changes\<close>

text \<open>The roles and dungeons with which a guid is queued.\<close>

type_synonym queue_core = "ObjectGuid \<rightharpoonup> LfgRolesMap \<times> u32 set"

definition core :: "lfg_state \<Rightarrow> queue_core" where
  "core s g = map_option (\<lambda>d. (q_roles d, q_dungeons d)) (map_of (QueueDataStore s) g)"

lemma need_less_core [simp]: "q_roles (need_less roles d) = q_roles d" "q_dungeons (need_less roles d) = q_dungeons d"
proof -
  have "q_roles (need_less roles d) = q_roles d \<and> q_dungeons (need_less roles d) = q_dungeons d"
    unfolding need_less_def by (induction roles arbitrary: d) auto
  then show "q_roles (need_less roles d) = q_roles d" "q_dungeons (need_less roles d) = q_dungeons d" by auto
qed

lemma update_best_core [simp]: "q_roles (update_best key roles d) = q_roles d" "q_dungeons (update_best key roles d) = q_dungeons d"
  by (simp_all add: update_best_def Let_def)

lemma find_best_core [simp]: "q_roles (find_best cache g d) = q_roles d" "q_dungeons (find_best cache g d) = q_dungeons d"
proof -
  have "q_roles (find_best cache g d) = q_roles d \<and> q_dungeons (find_best cache g d) = q_dungeons d"
    unfolding find_best_def by (induction cache arbitrary: d) auto
  then show "q_roles (find_best cache g d) = q_roles d" "q_dungeons (find_best cache g d) = q_dungeons d" by auto
qed

lemma core_UpdateBest [simp]: "core (UpdateBestCompatibleInQueue g key roles s) = core s"
  by (auto simp: core_def UpdateBestCompatibleInQueue_def map_of_mupdate fun_eq_iff option.map_comp comp_def)

lemma core_SetCompatibles [simp]: "core (SetCompatibles key c s) = core s"
  by (simp add: core_def SetCompatibles_def fun_eq_iff Let_def)

lemma core_SetCompatibilityData [simp]: "core (SetCompatibilityData key c s) = core s"
  by (simp add: core_def SetCompatibilityData_def fun_eq_iff)

lemma core_lists [simp]:
  "core (RemoveFromNewQueue g s) = core s" "core (RemoveFromCurrentQueue g s) = core s" "core (AddToCurrentQueue g s) = core s"
  by (simp_all add: core_def RemoveFromNewQueue_def RemoveFromCurrentQueue_def AddToCurrentQueue_def fun_eq_iff)

lemma core_AddProposal [simp]: "core (AddProposal p s) = core s"
  by (simp add: core_def AddProposal_def fun_eq_iff Let_def)

lemma core_RemoveFromQueue: "core (RemoveFromQueue g s) = (core s)(g := None)"
proof -
  have "map_option (\<lambda>d. (q_roles d, q_dungeons d)) (map_of (map (\<lambda>e. if P e then (fst e, find_best c (fst e) ((snd e)\<lparr>bestCompatible := []\<rparr>)) else e) q) h)
      = map_option (\<lambda>d. (q_roles d, q_dungeons d)) (map_of q h)" for P c q h
    by (induction q) auto
  then show ?thesis
    by (auto simp: core_def RemoveFromQueue_def Let_def map_of_mdel fun_eq_iff RemoveFromCompatibles_def
        RemoveFromCurrentQueue_def RemoveFromNewQueue_def)
qed

section \<open>Proposals\<close>

definition core_ok :: "queue_core \<Rightarrow> bool" where
  "core_ok c \<longleftrightarrow> (\<forall>g roles D. c g = Some (roles, D) \<longrightarrow>
     msorted roles \<and> roles_ok roles \<and> length roles \<le> MAX_GROUP_SIZE \<and> assignable roles \<and> D \<noteq> {})"

definition core_roles :: "queue_core \<Rightarrow> ObjectGuid \<Rightarrow> LfgRolesMap" where
  "core_roles c g = (case c g of Some (roles, D) \<Rightarrow> roles | None \<Rightarrow> [])"

definition core_dungeons :: "queue_core \<Rightarrow> ObjectGuid \<Rightarrow> u32 set" where
  "core_dungeons c g = (case c g of Some (roles, D) \<Rightarrow> D | None \<Rightarrow> {})"

definition assigned_roles :: "LfgProposal \<Rightarrow> LfgRolesMap" where
  "assigned_roles pr = map (\<lambda>e. (fst e, pp_role (snd e))) (pr_players pr)"

text \<open>What a group proposed for a dungeon must be.\<close>

definition proposal_ok :: "lfg_env \<Rightarrow> queue_core \<Rightarrow> LfgProposal \<Rightarrow> bool" where
  "proposal_ok env c pr \<longleftrightarrow>
    set (pr_queues pr) \<subseteq> dom c \<and>
    length (pr_players pr) = MAX_GROUP_SIZE \<and> distinct (map fst (pr_players pr)) \<and>
    mkeys (pr_players pr) = (\<Union>g\<in>set (pr_queues pr). mkeys (core_roles c g)) \<and>
    (\<forall>(p, r')\<in>set (assigned_roles pr). \<exists>g\<in>set (pr_queues pr). \<exists>r. (p, r) \<in> set (core_roles c g) \<and> narrowed r r') \<and>
    fits (assigned_roles pr) \<and>
    (\<forall>g\<in>set (pr_queues pr). pr_dungeonId pr \<in> core_dungeons c g \<and> GetState (stores env) g = LFG_STATE_QUEUED) \<and>
    (1 < length (pr_queues pr) \<longrightarrow> (\<forall>p\<in>mkeys (pr_players pr). \<forall>p'\<in>mkeys (pr_players pr). p \<noteq> p' \<longrightarrow> \<not> HasIgnore env p p')) \<and>
    length (filter (IsLfgGroup (stores env)) (pr_queues pr)) \<le> 1 \<and>
    pr_leader pr \<in> mkeys (pr_players pr)"

lemma core_mono:
  assumes "c \<subseteq>\<^sub>m c'" "g \<in> dom c"
  shows "core_roles c' g = core_roles c g" "core_dungeons c' g = core_dungeons c g"
proof -
  have "c' g = c g" using assms by (auto simp: map_le_def)
  then show "core_roles c' g = core_roles c g" "core_dungeons c' g = core_dungeons c g"
    by (simp_all add: core_roles_def core_dungeons_def)
qed

lemma proposal_ok_mono:
  assumes "proposal_ok env c pr" "c \<subseteq>\<^sub>m c'"
  shows "proposal_ok env c' pr"
proof -
  let ?Q = "set (pr_queues pr)"
  have sub: "?Q \<subseteq> dom c" using assms(1) by (simp add: proposal_ok_def)
  then have eq: "\<forall>g\<in>?Q. core_roles c' g = core_roles c g \<and> core_dungeons c' g = core_dungeons c g"
    using core_mono [OF assms(2)] by blast
  have 0: "?Q \<subseteq> dom c'" using sub map_le_implies_dom_le [OF assms(2)] by blast
  have 1: "(\<Union>g\<in>?Q. mkeys (core_roles c' g)) = (\<Union>g\<in>?Q. mkeys (core_roles c g))" using eq by simp
  have 2: "(\<exists>g\<in>?Q. \<exists>r. (p, r) \<in> set (core_roles c' g) \<and> narrowed r r') \<longleftrightarrow>
      (\<exists>g\<in>?Q. \<exists>r. (p, r) \<in> set (core_roles c g) \<and> narrowed r r')" for p r'
    using eq by auto
  have 3: "(\<forall>g\<in>?Q. n \<in> core_dungeons c' g \<and> P g) \<longleftrightarrow> (\<forall>g\<in>?Q. n \<in> core_dungeons c g \<and> P g)" for n P
    using eq by auto
  show ?thesis
    using assms(1) 0 unfolding proposal_ok_def 1 2 3 by (elim conjE, intro conjI)
qed

lemma core_ok_mono: "core_ok c' \<Longrightarrow> c \<subseteq>\<^sub>m c' \<Longrightarrow> core_ok c"
  unfolding core_ok_def map_le_def by (metis domI)

section \<open>Players taken from the queue\<close>

lemma length_add_players: "length (fold (add_player env) L m) \<le> length m + length L"
proof (induction L arbitrary: m)
  case (Cons e L)
  have "length (add_player env e m) \<le> Suc (length m)" by (simp add: add_player_def length_mput)
  then show ?case using Cons [of "add_player env e m"] by simp
qed simp

definition no_ignores :: "lfg_env \<Rightarrow> LfgRolesMap \<Rightarrow> bool" where
  "no_ignores env m \<longleftrightarrow> (\<forall>p\<in>mkeys m. \<forall>p'\<in>mkeys m. p \<noteq> p' \<longrightarrow> \<not> HasIgnore env p p')"

text \<open>When as many players were taken as were queued, nobody was left out and nobody counted twice.\<close>

lemma add_players_all:
  assumes sym: "\<And>p p'. HasIgnore env p p' = HasIgnore env p' p"
  shows "length (fold (add_player env) L m) = length m + length L \<Longrightarrow> msorted m \<Longrightarrow> no_ignores env m \<Longrightarrow>
    msorted (fold (add_player env) L m) \<and> set (fold (add_player env) L m) = set m \<union> set L \<and> no_ignores env (fold (add_player env) L m)"
proof (induction L arbitrary: m)
  case (Cons e L)
  let ?m = "add_player env e m"
  have "length ?m \<le> Suc (length m)" by (simp add: add_player_def length_mput)
  then have len: "length ?m = Suc (length m)"
    using Cons.prems(1) length_add_players [of env L ?m] by simp
  then have none: "\<not> list_ex (\<lambda>p. fst e \<noteq> fst p \<and> HasIgnore env (fst e) (fst p)) m" "?m = mput (fst e) (snd e) m"
    by (auto simp: add_player_def split: if_splits)
  have fresh: "fst e \<notin> mkeys m" using len none(2) length_mput_eq [OF Cons.prems(2)] by fastforce
  have "set ?m = insert e (set m)" using mput_fresh [OF fresh, of "snd e"] none(2) by simp
  moreover have "msorted ?m" using msorted_mput [OF Cons.prems(2)] none(2) by simp
  moreover have "\<forall>p\<in>mkeys m. fst e \<noteq> p \<longrightarrow> \<not> HasIgnore env (fst e) p" using none(1) by (auto simp: list_ex_iff mkeys_def)
  moreover from this have "\<forall>p\<in>mkeys m. p \<noteq> fst e \<longrightarrow> \<not> HasIgnore env p (fst e)" by (metis sym)
  ultimately have "set ?m = insert e (set m)" "msorted ?m" "no_ignores env ?m"
    using Cons.prems(3) by (auto simp: no_ignores_def none(2) mkeys_mput)
  then show ?case using Cons.IH [of ?m] Cons.prems(1) len by auto
qed simp

lemma merge_roles_flat: "merge_roles env q check = fold (add_player env) (concat (map (\<lambda>g. q_roles (queue_data q g)) check)) []"
proof -
  have "fold (\<lambda>g. fold (add_player env) (q_roles (queue_data q g))) check m =
      fold (add_player env) (concat (map (\<lambda>g. q_roles (queue_data q g)) check)) m" for m
    by (induction check arbitrary: m) simp_all
  then show ?thesis by (simp add: merge_roles_def)
qed

lemma set_common_dungeons: "check \<noteq> [] \<Longrightarrow> common_dungeons q check = (\<Inter>g\<in>set check. q_dungeons (queue_data q g))"
proof -
  have "fold (\<lambda>g D. D \<inter> q_dungeons (queue_data q g)) gs D = D \<inter> (\<Inter>g\<in>set gs. q_dungeons (queue_data q g))" for gs D
    by (induction gs arbitrary: D) auto
  then show "check \<noteq> [] \<Longrightarrow> ?thesis" by (cases check) (simp_all add: common_dungeons_def)
qed

lemma choose_leader_member: "choose_leader coin m b l \<in> insert l (mkeys m)"
  by (induction coin m b l rule: choose_leader.induct) (auto simp: mkeys_def)

lemma choose_leader_first: "m \<noteq> [] \<Longrightarrow> choose_leader coin m False 0 \<in> mkeys m"
proof (cases m)
  case (Cons e m')
  obtain p r where "e = (p, r)" by (cases e)
  then show ?thesis
    using Cons choose_leader_member [of coin m' True p] choose_leader_member [of coin m' False p]
    by (auto simp: mkeys_def IsEmpty_def)
qed simp

section \<open>The scan\<close>

definition queued_roles :: "(ObjectGuid \<times> LfgQueueData) list \<Rightarrow> ObjectGuid list \<Rightarrow> LfgRolesMap" where
  "queued_roles q check = concat (map (\<lambda>g. q_roles (queue_data q g)) check)"

lemma u8_add: "unat (a :: u8) + n < 256 \<Longrightarrow> unat (a + of_nat n) = unat a + n"
  by (simp add: unat_word_ariths unat_of_nat take_bit_nat_eq_self)

definition scan_entry :: "lfg_stores \<Rightarrow> ObjectGuid \<Rightarrow> LfgQueueData \<Rightarrow> scan_result \<Rightarrow> scan_result" where
  "scan_entry st g d r =
    (let r = r\<lparr>sc_groups := fold (\<lambda>e. mput (fst e) (if IsGroup g then g else 0)) (q_roles d) (sc_groups r),
               numPlayers := numPlayers r + of_nat (length (q_roles d))\<rparr>
     in if IsLfgGroup st g
        then r\<lparr>sc_group := (if numLfgGroups r = 0 then g else sc_group r), numLfgGroups := numLfgGroups r + 1\<rparr> else r)"

lemma scan_Cons:
  "scan st q (g # gs) r =
    (if numLfgGroups r < 2 \<and> numPlayers r \<le> of_nat MAX_GROUP_SIZE
     then case map_of q g of None \<Rightarrow> Inl g | Some d \<Rightarrow> scan st q gs (scan_entry st g d r) else Inr r)"
  by (simp add: scan_entry_def Let_def split: option.split)

declare scan.simps(2) [simp del]

lemma scan_entry_counts:
  assumes "unat (numPlayers r) \<le> 5" "unat (numLfgGroups r) < 2" "length (q_roles d) \<le> 5"
  shows "unat (numPlayers (scan_entry st g d r)) = unat (numPlayers r) + length (q_roles d)"
    and "unat (numLfgGroups (scan_entry st g d r)) = unat (numLfgGroups r) + of_bool (IsLfgGroup st g)"
  using assms u8_add [of "numPlayers r" "length (q_roles d)"] u8_add [of "numLfgGroups r" 1]
  by (simp_all add: scan_entry_def Let_def)

lemma scan_spec:
  assumes q: "\<And>g d. map_of q g = Some d \<Longrightarrow> length (q_roles d) \<le> 5"
  shows "scan st q gs r = Inr r' \<Longrightarrow> unat (numLfgGroups r') < 2 \<Longrightarrow> unat (numPlayers r') \<le> 5 \<Longrightarrow>
    (\<forall>g\<in>set gs. map_of q g \<noteq> None) \<and> unat (numPlayers r') = unat (numPlayers r) + length (queued_roles q gs) \<and>
    unat (numLfgGroups r') = unat (numLfgGroups r) + length (filter (IsLfgGroup st) gs)"
proof (induction gs arbitrary: r)
  case Nil
  then show ?case by (simp add: queued_roles_def)
next
  case (Cons g gs)
  have go: "numLfgGroups r < 2 \<and> numPlayers r \<le> of_nat MAX_GROUP_SIZE"
    using Cons.prems by (auto simp: scan_Cons MAX_GROUP_SIZE_def word_less_nat_alt word_le_nat_alt split: if_splits)
  then obtain d where d: "map_of q g = Some d" "scan st q gs (scan_entry st g d r) = Inr r'"
    using Cons.prems(1) by (cases "map_of q g") (auto simp: scan_Cons)
  from go have "unat (numPlayers r) \<le> 5" "unat (numLfgGroups r) < 2"
    by (simp_all add: MAX_GROUP_SIZE_def word_less_nat_alt word_le_nat_alt)
  note counts = scan_entry_counts [OF this q [OF d(1)]]
  from Cons.IH [OF d(2) Cons.prems(2,3)] show ?case
    using d(1) by (auto simp: counts queued_roles_def queue_data_def)
qed

section \<open>Steps of the queue\<close>

definition env_ok :: "lfg_env \<Rightarrow> bool" where
  "env_ok env \<longleftrightarrow> (\<forall>p p'. HasIgnore env p p' = HasIgnore env p' p) \<and> (\<forall>i D. D \<noteq> {} \<longrightarrow> pickDungeon env i D \<in> D)"

definition proposals :: "lfg_state \<Rightarrow> LfgProposal set" where
  "proposals s = snd ` set (ProposalsStore s)"

definition good_step :: "lfg_env \<Rightarrow> lfg_state \<Rightarrow> lfg_state \<Rightarrow> bool" where
  "good_step env s s' \<longleftrightarrow> core s' \<subseteq>\<^sub>m core s \<and> length (newToQueueStore s') \<le> length (newToQueueStore s) \<and>
     (\<forall>pr\<in>proposals s'. pr \<in> proposals s \<or> proposal_ok env (core s) pr)"

lemma good_step_trans: "good_step env s t \<Longrightarrow> good_step env t u \<Longrightarrow> good_step env s u"
  unfolding good_step_def by (meson map_le_trans order_trans proposal_ok_mono)

lemma good_step_refl: "good_step env s s"
  by (simp add: good_step_def)

lemma good_step_core: "core s' \<subseteq>\<^sub>m core s \<Longrightarrow> newToQueueStore s' = newToQueueStore s \<Longrightarrow> ProposalsStore s' = ProposalsStore s \<Longrightarrow> good_step env s s'"
  by (simp add: good_step_def proposals_def)

lemma queue_ops_fields [simp]:
  "newToQueueStore (SetCompatibles key c s) = newToQueueStore s" "ProposalsStore (SetCompatibles key c s) = ProposalsStore s"
  "newToQueueStore (SetCompatibilityData key d s) = newToQueueStore s" "ProposalsStore (SetCompatibilityData key d s) = ProposalsStore s"
  "newToQueueStore (UpdateBestCompatibleInQueue g key roles s) = newToQueueStore s"
  "ProposalsStore (UpdateBestCompatibleInQueue g key roles s) = ProposalsStore s"
  "newToQueueStore (AddToCurrentQueue g s) = newToQueueStore s" "ProposalsStore (AddToCurrentQueue g s) = ProposalsStore s"
  "newToQueueStore (RemoveFromCurrentQueue g s) = newToQueueStore s" "ProposalsStore (RemoveFromCurrentQueue g s) = ProposalsStore s"
  "ProposalsStore (RemoveFromNewQueue g s) = ProposalsStore s"
  by (simp_all add: SetCompatibles_def SetCompatibilityData_def UpdateBestCompatibleInQueue_def AddToCurrentQueue_def
      RemoveFromCurrentQueue_def RemoveFromNewQueue_def Let_def)

lemma good_step_ops:
  "good_step env s (SetCompatibles key c s)" "good_step env s (SetCompatibilityData key d s)"
  "good_step env s (UpdateBestCompatibleInQueue g key roles s)" "good_step env s (AddToCurrentQueue g s)"
  "good_step env s (RemoveFromCurrentQueue g s)"
  by (simp_all add: good_step_core)

lemma good_step_RemoveFromNewQueue: "good_step env s (RemoveFromNewQueue g s)"
  by (simp add: good_step_def proposals_def) (simp add: RemoveFromNewQueue_def)

lemma good_step_RemoveFromQueue: "good_step env s (RemoveFromQueue g s)"
proof -
  have "ProposalsStore (RemoveFromQueue g s) = ProposalsStore s"
    "newToQueueStore (RemoveFromQueue g s) = filter (\<lambda>h. h \<noteq> g) (newToQueueStore s)"
    by (simp_all add: RemoveFromQueue_def RemoveFromCompatibles_def RemoveFromCurrentQueue_def RemoveFromNewQueue_def Let_def)
  then show ?thesis
    by (simp add: good_step_def proposals_def core_RemoveFromQueue)
qed

lemma good_step_fold: "(\<And>g t. good_step env t (f g t)) \<Longrightarrow> good_step env s (fold f gs s)"
  by (induction gs arbitrary: s) (auto intro: good_step_trans good_step_refl)

lemma queue_data_core:
  "q_roles (queue_data (QueueDataStore s) g) = core_roles (core s) g"
  "q_dungeons (queue_data (QueueDataStore s) g) = core_dungeons (core s) g"
  by (simp_all add: queue_data_def core_roles_def core_dungeons_def core_def new_LfgQueueData_def split: option.split)

lemma core_fold_remove [simp]: "core (fold (\<lambda>g s. RemoveFromCurrentQueue g (RemoveFromNewQueue g s)) gs s) = core s"
  by (induction gs arbitrary: s) simp_all

lemma proposals_AddProposal: "proposals (AddProposal p s) \<subseteq> insert (p\<lparr>pr_id := lfgProposalId s + 1\<rparr>) (proposals s)"
  using set_mput [of "lfgProposalId s + 1" "p\<lparr>pr_id := lfgProposalId s + 1\<rparr>" "ProposalsStore s"]
  by (auto simp: proposals_def AddProposal_def Let_def)

lemma proposal_player_simps [simp]:
  "fst (proposal_player b grp groups e) = fst e" "pp_role (snd (proposal_player b grp groups e)) = snd e"
  by (simp_all add: proposal_player_def Let_def)

lemma proposal_players_map [simp]:
  "mkeys (map (proposal_player b grp groups) m) = mkeys m"
  "map (fst \<circ> proposal_player b grp groups) m = map fst m"
  by (simp_all add: mkeys_def image_image comp_def)

lemma conclude_good:
  assumes env: "env_ok env" and "check \<noteq> []" "set check \<subseteq> dom (core s)"
    and five: "numPlayers r = of_nat MAX_GROUP_SIZE \<Longrightarrow> length roles = MAX_GROUP_SIZE"
    and "distinct (map fst roles)" "mkeys roles = (\<Union>g\<in>set check. mkeys (core_roles (core s) g))"
    and "\<forall>(p, r')\<in>set roles. \<exists>g\<in>set check. \<exists>r. (p, r) \<in> set (core_roles (core s) g) \<and> narrowed r r'"
    and "fits roles" "D \<noteq> {}" "\<forall>g\<in>set check. D \<subseteq> core_dungeons (core s) g"
    and "1 < length check \<longrightarrow> no_ignores env roles" "length (filter (IsLfgGroup (stores env)) check) \<le> 1"
  shows "good_step env s (snd (conclude env check r roles D s))"
proof -
  consider (less) "numPlayers r \<noteq> of_nat MAX_GROUP_SIZE" | (bad) "numPlayers r = of_nat MAX_GROUP_SIZE" "\<not> AllQueued (stores env) check"
    | (match) "numPlayers r = of_nat MAX_GROUP_SIZE" "AllQueued (stores env) check" by blast
  then show ?thesis
  proof cases
    case less
    have "good_step env s (fold (\<lambda>g. UpdateBestCompatibleInQueue g key roles) check s)" for key
      by (rule good_step_fold) (rule good_step_ops)
    then show ?thesis using less by (simp add: conclude_def Let_def) (rule good_step_trans, assumption, rule good_step_ops)
  next
    case bad
    then show ?thesis by (simp add: conclude_def Let_def good_step_ops)
  next
    case match
    let ?isNew = "numLfgGroups r \<noteq> 1 \<or> GetOldState (stores env) (hd check) \<noteq> LFG_STATE_DUNGEON"
    let ?i = "lfgProposalId s + 1"
    let ?pr = "\<lparr>pr_id = 0, pr_dungeonId = pickDungeon env ?i D, pr_group = sc_group r,
      pr_leader = choose_leader (urand01 env ?i) roles False 0, pr_cancelTime = gameTime env + LFG_TIME_PROPOSAL,
      pr_isNew = ?isNew, pr_queues = check, pr_players = map (proposal_player ?isNew (sc_group r) (sc_groups r)) roles\<rparr>"
    let ?s = "fold (\<lambda>g s. RemoveFromCurrentQueue g (RemoveFromNewQueue g s)) check s"
    have len: "length roles = MAX_GROUP_SIZE" by (rule five) (rule match)
    then have "roles \<noteq> []" by (auto simp: MAX_GROUP_SIZE_def)
    then have leader: "choose_leader (urand01 env ?i) roles False 0 \<in> mkeys roles" by (rule choose_leader_first)
    have ar: "assigned_roles (?pr\<lparr>pr_id := i\<rparr>) = roles" for i
      by (simp add: assigned_roles_def comp_def)
    have pick: "pickDungeon env ?i D \<in> D" using env assms(9) by (simp add: env_ok_def)
    have ok: "proposal_ok env (core s) (?pr\<lparr>pr_id := i\<rparr>)" for i
      unfolding proposal_ok_def ar
      using assms match len leader pick
      by (simp add: no_ignores_def AllQueued_def list_all_iff) blast
    have "good_step env s ?s" by (rule good_step_fold) (blast intro: good_step_trans good_step_ops good_step_RemoveFromNewQueue)
    moreover have "good_step env ?s (AddProposal ?pr ?s)"
      using ok proposals_AddProposal [of ?pr ?s]
      by (auto simp: good_step_def) (simp_all add: AddProposal_def Let_def)
    ultimately have "good_step env s (SetCompatibles (ConcatenateGuids check) LFG_COMPATIBLES_MATCH (AddProposal ?pr ?s))"
      by (blast intro: good_step_trans good_step_ops)
    then show ?thesis using match by (simp add: conclude_def Let_def)
  qed
qed

section \<open>Compatibility checks create good proposals only\<close>

lemma core_roles_ok: "core_ok c \<Longrightarrow> msorted (core_roles c g) \<and> roles_ok (core_roles c g) \<and> length (core_roles c g) \<le> 5"
proof (cases "c g")
  case None
  then show ?thesis by (simp add: core_roles_def msorted_def roles_ok_def)
next
  case (Some e)
  moreover assume "core_ok c"
  ultimately show ?thesis by (cases e) (simp add: core_roles_def core_ok_def MAX_GROUP_SIZE_def)
qed

lemma msorted_distinct: "msorted m \<Longrightarrow> distinct (map fst m)"
  unfolding msorted_def by (induction m) auto

lemma queued_roles_core: "queued_roles (QueueDataStore s) check = concat (map (core_roles (core s)) check)"
  by (simp add: queued_roles_def queue_data_core)

lemma several_groups_good:
  assumes env: "env_ok env" and ok: "core_ok (core s)" and check: "1 < length check" "set check \<subseteq> dom (core s)"
    and count: "unat (numPlayers r) = length (queued_roles (QueueDataStore s) check)" "unat (numPlayers r) \<le> 5"
    and lfg: "length (filter (IsLfgGroup (stores env)) check) \<le> 1"
    and all: "numPlayers r - of_nat (length (merge_roles env (QueueDataStore s) check)) = 0"
    and roles: "CheckGroupRoles (merge_roles env (QueueDataStore s) check) = Some (True, roles)"
    and D: "common_dungeons (QueueDataStore s) check \<noteq> {}"
  shows "good_step env s (snd (conclude env check r roles (common_dungeons (QueueDataStore s) check) s))"
proof -
  let ?L = "queued_roles (QueueDataStore s) check" and ?m = "merge_roles env (QueueDataStore s) check"
  have flat: "?m = fold (add_player env) ?L []" by (simp add: merge_roles_flat queued_roles_def)
  then have "length ?m \<le> length ?L" using length_add_players [of env ?L "[]"] by simp
  moreover have "numPlayers r = of_nat (length ?m)" using all by simp
  then have "unat (numPlayers r) = length ?m"
    using \<open>length ?m \<le> length ?L\<close> count by (simp add: unat_of_nat take_bit_nat_eq_self)
  ultimately have len: "length ?m = length ?L" using count(1) by simp
  have m: "msorted ?m" "set ?m = set ?L" "no_ignores env ?m"
    using add_players_all [of env ?L "[]"] env len by (simp_all add: flat env_ok_def msorted_def no_ignores_def mkeys_def)
  have setL: "set ?L = (\<Union>g\<in>set check. set (core_roles (core s) g))" by (simp add: queued_roles_core)
  have "roles_ok ?m" using core_roles_ok [OF ok] by (auto simp: roles_ok_def m(2) setL)
  moreover have "length ?m < 256" using len count by simp
  ultimately have a: "assigned ?m roles" "fits roles" using CheckGroupRoles_decides [of ?m] roles by auto
  have keys: "map fst roles = map fst ?m" using assigned_keys [OF a(1)] .
  then have mk: "mkeys roles = mkeys ?m" unfolding mkeys_def by (metis list.set_map)
  show ?thesis
  proof (rule conclude_good [OF env])
    show "length roles = MAX_GROUP_SIZE" if "numPlayers r = of_nat MAX_GROUP_SIZE"
      using that len count(1) arg_cong [OF keys, of length] by (simp add: MAX_GROUP_SIZE_def)
    show "distinct (map fst roles)" unfolding keys using m(1) by (rule msorted_distinct)
    show "mkeys roles = (\<Union>g\<in>set check. mkeys (core_roles (core s) g))"
      by (auto simp: mk) (auto simp: mkeys_def m(2) setL image_iff)
    show "\<forall>(p, r')\<in>set roles. \<exists>g\<in>set check. \<exists>r. (p, r) \<in> set (core_roles (core s) g) \<and> narrowed r r'"
      using assigned_from [OF a(1)] by (fastforce simp: m(2) setL)
    show "1 < length check \<longrightarrow> no_ignores env roles" using m(3) by (simp add: no_ignores_def mk)
    show "\<forall>g\<in>set check. common_dungeons (QueueDataStore s) check \<subseteq> core_dungeons (core s) g"
      using check(1) by (subst set_common_dungeons) (auto simp: queue_data_core)
  qed (use a check lfg D in auto)
qed

lemma single_group_good:
  assumes env: "env_ok env" and ok: "core_ok (core s)" and g: "g \<in> dom (core s)"
    and count: "unat (numPlayers r) = length (core_roles (core s) g)" "numPlayers r = of_nat MAX_GROUP_SIZE"
    and roles: "CheckGroupRoles (core_roles (core s) g) = Some (b, roles)"
  shows "good_step env s (snd (conclude env [g] r roles (core_dungeons (core s) g) s))"
proof -
  let ?m = "core_roles (core s) g"
  have len: "length ?m = 5" using count by (simp add: MAX_GROUP_SIZE_def)
  have facts: "assignable ?m" "core_dungeons (core s) g \<noteq> {}"
    using ok g by (auto simp: core_ok_def core_roles_def core_dungeons_def split: option.splits)
  have a: "assigned ?m roles" "fits roles"
    using CheckGroupRoles_decides [of ?m] core_roles_ok [OF ok, of g] roles facts(1) len by auto
  have keys: "map fst roles = map fst ?m" using assigned_keys [OF a(1)] .
  then have mk: "mkeys roles = mkeys ?m" unfolding mkeys_def by (metis list.set_map)
  show ?thesis
  proof (rule conclude_good [OF env])
    show "length roles = MAX_GROUP_SIZE"
      using len arg_cong [OF keys, of length] by (simp add: MAX_GROUP_SIZE_def)
    show "distinct (map fst roles)" unfolding keys using core_roles_ok [OF ok] by (blast intro: msorted_distinct)
    show "\<forall>(p, r')\<in>set roles. \<exists>h\<in>set [g]. \<exists>r. (p, r) \<in> set (core_roles (core s) h) \<and> narrowed r r'"
      using assigned_from [OF a(1)] by fastforce
    have "length (filter (IsLfgGroup (stores env)) [g]) \<le> length [g]" by (rule length_filter_le)
    then show "length (filter (IsLfgGroup (stores env)) [g]) \<le> 1" by simp
  qed (use a facts g in \<open>auto simp: mk\<close>)
qed

lemma merge_roles_ok:
  assumes "core_ok (core s)"
  shows "roles_ok (merge_roles env (QueueDataStore s) check) \<and>
    length (merge_roles env (QueueDataStore s) check) \<le> length (queued_roles (QueueDataStore s) check)"
proof
  let ?L = "queued_roles (QueueDataStore s) check"
  have flat: "merge_roles env (QueueDataStore s) check = fold (add_player env) ?L []"
    by (simp add: merge_roles_flat queued_roles_def)
  have "set (fold (add_player env) L m) \<subseteq> set m \<union> set L" for L m
  proof (induction L arbitrary: m)
    case (Cons e L)
    have "set (add_player env e m) \<subseteq> insert e (set m)"
      using set_mput [of "fst e" "snd e" m] by (auto simp: add_player_def)
    then show ?case using Cons [of "add_player env e m"] by auto
  qed simp
  from this [of ?L "[]"] show "roles_ok (merge_roles env (QueueDataStore s) check)"
    using core_roles_ok [OF assms] by (fastforce simp: flat roles_ok_def queued_roles_core)
  show "length (merge_roles env (QueueDataStore s) check) \<le> length ?L"
    using length_add_players [of env ?L "[]"] by (simp add: flat)
qed

lemma check_groups_good:
  assumes env: "env_ok env" and ok: "core_ok (core s)" and "check \<noteq> []"
  shows "\<exists>c s'. check_groups env check s = Some (c, s') \<and> good_step env s s'"
proof (cases "scan (stores env) (QueueDataStore s) check scan_start")
  case (Inl g)
  then show ?thesis by (simp add: check_groups_def good_step_RemoveFromQueue)
next
  case (Inr r)
  let ?q = "QueueDataStore s" and ?g = "hd check"
  have five: "of_nat MAX_GROUP_SIZE = (5 :: u8)" by (simp add: MAX_GROUP_SIZE_def)
  have roles: "\<exists>b m'. CheckGroupRoles (core_roles (core s) g) = Some (b, m')" for g
    using CheckGroupRoles_decides [of "core_roles (core s) g"] core_roles_ok [OF ok, of g] by fastforce
  have small: "length (q_roles d) \<le> 5" if "map_of ?q g = Some d" for g d
    using core_roles_ok [OF ok, of g] that by (simp add: core_roles_def core_def)
  show ?thesis
  proof (cases "length check = 1 \<and> numPlayers r \<noteq> 5 \<or> 1 < numLfgGroups r \<or> 5 < numPlayers r")
    case True
    obtain b m' where "CheckGroupRoles (core_roles (core s) ?g) = Some (b, m')" using roles by blast
    then show ?thesis
      using True Inr unfolding check_groups_def
      by (auto simp: five queue_data_core Let_def intro: good_step_trans [OF good_step_ops(3) good_step_ops(2)] good_step_ops)
  next
    case False
    then have "unat (numLfgGroups r) < 2" "unat (numPlayers r) \<le> 5"
      by (auto simp: word_less_nat_alt word_le_nat_alt not_less)
    from scan_spec [OF small Inr this] have sc: "set check \<subseteq> dom (core s)" "unat (numPlayers r) = length (queued_roles ?q check)"
        "length (filter (IsLfgGroup (stores env)) check) \<le> 1"
      using \<open>unat (numLfgGroups r) < 2\<close> by (auto simp: scan_start_def core_def)
    show ?thesis
    proof (cases "1 < length check")
      case True
      let ?m = "merge_roles env ?q check"
      have "roles_ok ?m \<and> length ?m < 256"
        using merge_roles_ok [OF ok, of env check] sc(2) \<open>unat (numPlayers r) \<le> 5\<close> by simp
      then obtain b m' where m': "CheckGroupRoles ?m = Some (b, m')" using CheckGroupRoles_decides by blast
      have "good_step env s (snd (conclude env check r m' (common_dungeons ?q check) s))"
        if "numPlayers r - of_nat (length ?m) = 0" b "common_dungeons ?q check \<noteq> {}"
        using several_groups_good [OF env ok True sc(1,2) \<open>unat (numPlayers r) \<le> 5\<close> sc(3) that(1)] m' that by simp
      then show ?thesis
        using True False Inr m' unfolding check_groups_def
        by (cases "conclude env check r m' (common_dungeons ?q check) s") (auto simp: five Let_def intro: good_step_ops)
    next
      case single: False
      then obtain g where g: "check = [g]" using assms(3) by (cases check) auto
      obtain b m' where m': "CheckGroupRoles (core_roles (core s) g) = Some (b, m')" using roles by blast
      have "good_step env s (snd (conclude env [g] r m' (core_dungeons (core s) g) s))"
        by (rule single_group_good [OF env ok _ _ _ m']) (use False g sc in \<open>auto simp: five queued_roles_core\<close>)
      then show ?thesis
        using False Inr m' g unfolding check_groups_def
        by (cases "conclude env [g] r m' (core_dungeons (core s) g) s") (auto simp: five queue_data_core Let_def)
    qed
  qed
qed

lemma good_step_ok: "good_step env s s' \<Longrightarrow> core_ok (core s) \<Longrightarrow> core_ok (core s')"
  by (auto simp: good_step_def intro: core_ok_mono)

lemma CheckCompatibility_good:
  assumes env: "env_ok env"
  shows "core_ok (core s) \<Longrightarrow> \<exists>c s'. CheckCompatibility env check s = Some (c, s') \<and> good_step env s s'"
proof (induction check)
  case Nil
  then show ?case by (simp add: good_step_refl)
next
  case (Cons g gs)
  show ?case
  proof (cases "2 < length (g # gs) \<and> length (g # gs) \<le> MAX_GROUP_SIZE")
    case True
    obtain c s' where child: "CheckCompatibility env gs s = Some (c, s')" "good_step env s s'" using Cons by blast
    obtain d s'' where rest: "check_groups env (g # gs) s' = Some (d, s'')" "good_step env s' s''"
      using check_groups_good [OF env good_step_ok [OF child(2) Cons.prems], of "g # gs"] by auto
    show ?thesis
      using True child rest by (auto intro: good_step_trans good_step_ops)
  next
    case False
    then show ?thesis
      using check_groups_good [OF env Cons.prems, of "g # gs"] by (auto simp: good_step_refl)
  qed
qed

lemma known_compatibility_good:
  assumes "env_ok env" "core_ok (core s)"
  shows "\<exists>c s'. known_compatibility env check s = Some (c, s') \<and> good_step env s s'"
proof -
  obtain c s' where "(if GetCompatibles (ConcatenateGuids check) s = LFG_COMPATIBILITY_PENDING then CheckCompatibility env check s
      else Some (GetCompatibles (ConcatenateGuids check) s, s)) = Some (c, s')" "good_step env s s'"
    using CheckCompatibility_good [OF assms, of check] good_step_refl by (cases "GetCompatibles (ConcatenateGuids check) s = LFG_COMPATIBILITY_PENDING") auto
  then show ?thesis
    by (auto simp: known_compatibility_def Let_def intro: good_step_trans good_step_ops)
qed

lemma find_loop_good:
  assumes env: "env_ok env"
  shows "core_ok (core s) \<Longrightarrow> \<exists>c check' all' s'. find_loop env c0 check all s = Some (c, check', all', s') \<and>
    length all' \<le> length all \<and> good_step env s s'"
proof (induction "length all" arbitrary: c0 check all s rule: less_induct)
  case less
  show ?case
  proof (cases all)
    case Nil
    then show ?thesis by (simp add: find_loop.simps good_step_refl)
  next
    case (Cons a rest)
    obtain c t where k: "known_compatibility env (check @ [a]) s = Some (c, t)" "good_step env s t"
      using known_compatibility_good [OF env less.prems] by blast
    have ok: "core_ok (core t)" using good_step_ok [OF k(2) less.prems] .
    obtain sub check' all' u where sub: "(if c \<noteq> LFG_COMPATIBLES_WITH_LESS_PLAYERS then Some (c, check @ [a], rest, t)
        else find_loop env c (check @ [a]) rest t) = Some (sub, check', all', u)" "length all' \<le> length rest" "good_step env t u"
      using less.hyps [OF _ ok, of rest c "check @ [a]"] Cons good_step_refl by (cases "c = LFG_COMPATIBLES_WITH_LESS_PLAYERS") auto
    have su: "good_step env s u" by (rule good_step_trans [OF k(2) sub(3)])
    show ?thesis
    proof (cases "sub = LFG_COMPATIBLES_MATCH")
      case True
      then show ?thesis using Cons k sub su by (subst find_loop.simps) auto
    next
      case False
      obtain d check'' all'' v where v: "find_loop env c0 (butlast check') all' u = Some (d, check'', all'', v)"
          "length all'' \<le> length all'" "good_step env u v"
        using less.hyps [OF _ good_step_ok [OF su less.prems], of all' c0 "butlast check'"] Cons sub(2) by auto
      show ?thesis
        using False Cons k sub v good_step_trans [OF su v(3)] by (subst find_loop.simps) auto
    qed
  qed
qed

lemma FindNewGroups_good:
  assumes "env_ok env" "core_ok (core s)"
  shows "\<exists>c check' all' s'. FindNewGroups env check all s = Some (c, check', all', s') \<and> good_step env s s'"
proof -
  obtain c t where k: "known_compatibility env check s = Some (c, t)" "good_step env s t"
    using known_compatibility_good [OF assms] by blast
  then show ?thesis
    using find_loop_good [OF assms(1) good_step_ok [OF k(2) assms(2)], of c check all]
    by (auto simp: FindNewGroups_def intro: good_step_trans)
qed

lemma find_groups_good:
  assumes env: "env_ok env"
  shows "core_ok (core s) \<Longrightarrow> \<exists>n' s'. find_groups env n s = Some (n', s') \<and> newToQueueStore s' = [] \<and> good_step env s s'"
proof (induction "length (newToQueueStore s)" arbitrary: n s rule: less_induct)
  case less
  show ?case
  proof (cases "newToQueueStore s")
    case Nil
    then show ?thesis by (simp add: find_groups.simps good_step_refl)
  next
    case (Cons g gs)
    let ?s = "RemoveFromNewQueue g s"
    have short: "length (newToQueueStore ?s) < length (newToQueueStore s)"
      using Cons by (simp add: RemoveFromNewQueue_def le_imp_less_Suc)
    have rm: "good_step env s ?s" by (rule good_step_RemoveFromNewQueue)
    obtain c ch al t where t: "FindNewGroups env [g] (currentQueueStore ?s) ?s = Some (c, ch, al, t)" "good_step env ?s t"
      using FindNewGroups_good [OF env good_step_ok [OF rm less.prems]] by blast
    have st: "good_step env s t" by (rule good_step_trans [OF rm t(2)])
    have lt: "length (newToQueueStore t) < length (newToQueueStore s)" using short t(2) by (simp add: good_step_def)
    have go: "\<exists>n' s'. find_groups env m u = Some (n', s') \<and> newToQueueStore s' = [] \<and> good_step env s s'"
      if "good_step env t u" "newToQueueStore u = newToQueueStore t" for m u
    proof -
      have su: "good_step env s u" by (rule good_step_trans [OF st that(1)])
      have "\<exists>n' s'. find_groups env m u = Some (n', s') \<and> newToQueueStore s' = [] \<and> good_step env u s'"
        by (rule less.hyps) (use lt that(2) good_step_ok [OF su less.prems] in simp_all)
      then show ?thesis using su by (blast intro: good_step_trans)
    qed
    show ?thesis
      using Cons t(1) go [OF good_step_refl refl, of "n + 1"] go [of "AddToCurrentQueue g t" n]
      by (subst find_groups.simps) (auto simp: Let_def good_step_ops)
  qed
qed

lemma narrowed_plain:
  assumes "narrowed r r'"
  shows "plain r' \<in> set role_bits"
proof -
  obtain x where x: "x \<in> set role_bits" "r' = (r AND PLAYER_ROLE_LEADER) OR x" using assms by (auto simp: narrowed_iff)
  have "r AND 1 = 0 \<or> r AND 1 = (1 :: u8)" by (simp add: and_one_eq mod2_eq_if)
  then have "plain r' = x" using x by (auto simp: plain_def role_bits_def role_defs)
  then show ?thesis using x(1) by simp
qed

lemma proposal_role_counts:
  assumes "proposal_ok env c pr"
  shows "role_count PLAYER_ROLE_TANK (assigned_roles pr) = 1 \<and> role_count PLAYER_ROLE_HEALER (assigned_roles pr) = 1 \<and>
    role_count PLAYER_ROLE_DAMAGE (assigned_roles pr) = 3"
proof -
  let ?m = "assigned_roles pr"
  have "\<forall>e\<in>set ?m. plain (snd e) \<in> set role_bits" using assms narrowed_plain unfolding proposal_ok_def by fastforce
  then have "\<forall>e\<in>set ?m. plain (snd e) \<noteq> 0" "filter (\<lambda>e. several (snd e)) ?m = []"
    by (auto simp: role_bits_def role_defs several_def filter_empty_conv)
  then have "role_count PLAYER_ROLE_DAMAGE ?m + role_count PLAYER_ROLE_TANK ?m + role_count PLAYER_ROLE_HEALER ?m = length ?m"
    using role_partition by fastforce
  moreover have "length ?m = 5" using assms by (simp add: proposal_ok_def assigned_roles_def MAX_GROUP_SIZE_def)
  moreover have "fits ?m" using assms by (simp add: proposal_ok_def)
  then have "role_count PLAYER_ROLE_TANK ?m \<le> 1 \<and> role_count PLAYER_ROLE_HEALER ?m \<le> 1 \<and> role_count PLAYER_ROLE_DAMAGE ?m \<le> 3"
    unfolding fits_def by (simp add: LFG_TANKS_NEEDED_def LFG_HEALERS_NEEDED_def LFG_DPS_NEEDED_def)
  ultimately show ?thesis by linarith
qed

section \<open>Properties\<close>


text \<open>Six players: 1 and 2 are damage dealers who can do dungeon 20 together, and 1, 3, 4, 5, 6 can form a full
  group for dungeon 10.\<close>

definition demo_env :: lfg_env where
  "demo_env = \<lparr>stores = \<lparr>PlayersStore = (\<lambda>_. Some (new_LfgPlayerData\<lparr>p_State := LFG_STATE_QUEUED\<rparr>)), GroupsStore = Map.empty\<rparr>,
     HasIgnore = (\<lambda>_ _. False), gameTime = 0, pickDungeon = (\<lambda>_ D. Min D), urand01 = (\<lambda>_ _. False)\<rparr>"

definition demo_queue :: "ObjectGuid list \<Rightarrow> lfg_state" where
  "demo_queue current = \<lparr>QueueDataStore = [(1, new_LfgQueueData 0 {10, 20} [(1, 8)]), (2, new_LfgQueueData 0 {20} [(2, 8)]),
       (3, new_LfgQueueData 0 {10} [(3, 2)]), (4, new_LfgQueueData 0 {10} [(4, 4)]), (5, new_LfgQueueData 0 {10} [(5, 8)]),
       (6, new_LfgQueueData 0 {10} [(6, 8)])],
     CompatibleMapStore = [], currentQueueStore = current, newToQueueStore = [1], ProposalsStore = [], lfgProposalId = 0\<rparr>"

lemma demo_env_ok: "env_ok demo_env"
  by (auto simp: env_ok_def demo_env_def)

lemma single_assignable: "x \<in> {2, 4, 8} \<Longrightarrow> assignable [(p, x)]"
  unfolding assignable_def
  by (rule exI [of _ "[(p, x)]"]) (auto simp: assigned_def narrowed_def role_bits_def fits_def plain_def role_defs)

lemma demo_core_ok: "core_ok (core (demo_queue current))"
  unfolding core_ok_def
proof (intro allI impI)
  fix g roles D
  assume "core (demo_queue current) g = Some (roles, D)"
  then have "\<exists>p. \<exists>x\<in>{2, 4, 8}. roles = [(p, x)] \<and> D \<noteq> {}"
    by (auto simp: core_def demo_queue_def new_LfgQueueData_def split: if_splits)
  then show "msorted roles \<and> roles_ok roles \<and> length roles \<le> MAX_GROUP_SIZE \<and> assignable roles \<and> D \<noteq> {}"
    using single_assignable by (auto simp: msorted_def roles_ok_def MAX_GROUP_SIZE_def)
qed

lemma demo_found:
  "map_option (\<lambda>(n, s). (n, currentQueueStore s, map (\<lambda>e. (pr_queues (snd e), pr_dungeonId (snd e))) (ProposalsStore s)))
     (FindGroups demo_env (demo_queue [3, 4, 5, 6, 2])) = Some (1, [2], [([1, 3, 4, 5, 6], 10)])"
  by code_simp


text \<open>The search misses groups. The recursive call takes its candidates out of the caller's list, so a
  first candidate that is compatible but leads nowhere hides all others: with player 2 ahead in the
  queue no proposal is made for 1, who together with 3, 4, 5 and 6 is a full group, and is found when 2
  stands behind them.\<close>

theorem FindNewGroups_misses_match:
  "map_option (\<lambda>(n, s). (n, currentQueueStore s, ProposalsStore s)) (FindGroups demo_env (demo_queue [2, 3, 4, 5, 6])) =
     Some (0, [2, 3, 4, 5, 6, 1], []) \<and>
   map_option (\<lambda>(n, s). (n, currentQueueStore s, map (pr_queues \<circ> snd) (ProposalsStore s)))
     (FindGroups demo_env (demo_queue [3, 4, 5, 6, 2])) = Some (1, [2], [[1, 3, 4, 5, 6]])"
  by code_simp

text \<open>An entry whose cached compatibility is a match in bad states, found when the states have become
  good, is counted as a match without a proposal, and is in neither list afterwards.\<close>

theorem bad_states_lost:
  assumes "newToQueueStore s = [g]" "GetCompatibles (ConcatenateGuids [g]) s = LFG_COMPATIBLES_BAD_STATES"
    and "AllQueued (stores env) [g]"
  shows "\<exists>s'. FindGroups env s = Some (1, s') \<and> ProposalsStore s' = ProposalsStore s \<and> newToQueueStore s' = [] \<and>
    currentQueueStore s' = currentQueueStore s"
proof -
  let ?s = "RemoveFromNewQueue g s"
  have "GetCompatibles (ConcatenateGuids [g]) ?s = LFG_COMPATIBLES_BAD_STATES"
    using assms(2) by (simp add: GetCompatibles_def RemoveFromNewQueue_def)
  then have "FindNewGroups env [g] (currentQueueStore ?s) ?s =
      Some (LFG_COMPATIBLES_MATCH, [g], currentQueueStore ?s, SetCompatibles (ConcatenateGuids [g]) LFG_COMPATIBLES_MATCH ?s)"
    using assms(3) by (simp add: FindNewGroups_def known_compatibility_def Let_def)
  moreover have "newToQueueStore ?s = []" using assms(1) by (simp add: RemoveFromNewQueue_def)
  ultimately have "FindGroups env s = Some (1, SetCompatibles (ConcatenateGuids [g]) LFG_COMPATIBLES_MATCH ?s)"
    using assms(1) by (simp add: FindGroups_def find_groups.simps Let_def)
  then show ?thesis using \<open>newToQueueStore ?s = []\<close> by (simp add: SetCompatibles_def RemoveFromNewQueue_def Let_def)
qed

theorem bad_states_lost_witness:
  "\<exists>s'. FindGroups demo_env (SetCompatibles (ConcatenateGuids [1]) LFG_COMPATIBLES_BAD_STATES (demo_queue [])) = Some (1, s') \<and>
     newToQueueStore s' = [] \<and> currentQueueStore s' = []"
proof -
  let ?s = "SetCompatibles (ConcatenateGuids [1]) LFG_COMPATIBLES_BAD_STATES (demo_queue [])"
  have "newToQueueStore ?s = [1]" by (simp add: demo_queue_def)
  moreover have "GetCompatibles (ConcatenateGuids [1]) ?s = LFG_COMPATIBLES_BAD_STATES"
    by (simp add: GetCompatibles_def SetCompatibles_def demo_queue_def Let_def)
  moreover have "AllQueued (stores demo_env) [1]"
    by (simp add: AllQueued_def demo_env_def GetState_def player_data_def IsGroup_def GetHigh_def)
  ultimately show ?thesis
    using bad_states_lost [of ?s 1 demo_env] by (auto simp: SetCompatibles_def demo_queue_def Let_def)
qed

text \<open>The best combination of a queued player is looked for as text: player 1 gets one he is not part of.\<close>

theorem best_compatible_confused:
  "bestCompatible (find_best [(ConcatenateGuids [10, 11], \<lparr>compatibility = LFG_COMPATIBLES_WITH_LESS_PLAYERS, c_roles = [(10, 2), (11, 4)]\<rparr>)]
     1 (new_LfgQueueData 0 {10} [(1, 8)])) = ''10|11''"
  by code_simp

end
