(* ===== verification/Player_Group.thy ===== *)
theory Player_Group
  imports Lfg_Data
begin

text \<open>
  Groups of players, \<open>Groups/Group.cpp\<close>, with the rows they keep in the character database and the
  requests of clients, \<open>Handlers/GroupHandler.cpp\<close>. The state is one group and the two tables; calls of
  the group scripts are recorded in order. Who is connected, the names of characters and what
  the map of a dungeon finder group says are arguments. Loot rounds, instance bindings, difficulties and
  packets to the members are left out.
\<close>

section \<open>Data\<close>

definition MAX_RAID_SIZE :: nat where
  "MAX_RAID_SIZE = 40"

definition MAX_RAID_SUBGROUPS :: nat where
  "MAX_RAID_SUBGROUPS = MAX_RAID_SIZE div MAX_GROUP_SIZE"

definition TARGET_ICONS_COUNT :: nat where
  "TARGET_ICONS_COUNT = 8"

abbreviation (input) MEMBER_FLAG_ASSISTANT :: u8 where "MEMBER_FLAG_ASSISTANT \<equiv> 1"
abbreviation (input) MEMBER_FLAG_MAINTANK :: u8 where "MEMBER_FLAG_MAINTANK \<equiv> 2"
abbreviation (input) MEMBER_FLAG_MAINASSIST :: u8 where "MEMBER_FLAG_MAINASSIST \<equiv> 4"

abbreviation (input) GROUPTYPE_NORMAL :: u8 where "GROUPTYPE_NORMAL \<equiv> 0"
abbreviation (input) GROUPTYPE_RAID :: u8 where "GROUPTYPE_RAID \<equiv> 2"
abbreviation (input) GROUPTYPE_BGRAID :: u8 where "GROUPTYPE_BGRAID \<equiv> 3"
abbreviation (input) GROUPTYPE_LFG_RESTRICTED :: u8 where "GROUPTYPE_LFG_RESTRICTED \<equiv> 4"
abbreviation (input) GROUPTYPE_LFG :: u8 where "GROUPTYPE_LFG \<equiv> 8"

datatype RemoveMethod = GROUP_REMOVEMETHOD_DEFAULT | GROUP_REMOVEMETHOD_KICK | GROUP_REMOVEMETHOD_LEAVE
  | GROUP_REMOVEMETHOD_KICK_LFG

record MemberSlot =
  ms_guid :: ObjectGuid
  ms_name :: string
  ms_group :: u8
  ms_flags :: u8
  ms_roles :: u8

text \<open>\<open>m_memberMgr\<close> holds the references of the members who are online; a pointer to a battleground or
  battlefield is whether there is one.\<close>

record Group =
  m_memberSlots :: "MemberSlot list"
  m_memberMgr :: "ObjectGuid list"
  m_invitees :: "ObjectGuid set"
  m_leaderGuid :: ObjectGuid
  m_leaderName :: string
  m_groupType :: u8
  m_bgGroup :: bool
  m_bfGroup :: bool
  m_targetIcons :: "ObjectGuid list"
  m_lootMethod :: u8
  m_lootThreshold :: u8
  m_looterGuid :: ObjectGuid
  m_masterLooterGuid :: ObjectGuid
  m_subGroupsCounts :: "u8 list option"
  m_guid :: ObjectGuid
  m_dbStoreId :: u32
  m_isLeaderOffline :: bool
  m_leaderOfflineTimer :: int

definition new_Group :: Group where
  "new_Group = \<lparr>m_memberSlots = [], m_memberMgr = [], m_invitees = {}, m_leaderGuid = 0, m_leaderName = [],
     m_groupType = GROUPTYPE_NORMAL, m_bgGroup = False, m_bfGroup = False, m_targetIcons = replicate TARGET_ICONS_COUNT 0,
     m_lootMethod = 0, m_lootThreshold = 2, m_looterGuid = 0, m_masterLooterGuid = 0, m_subGroupsCounts = None,
     m_guid = 0, m_dbStoreId = 0, m_isLeaderOffline = False, m_leaderOfflineTimer = 0\<rparr>"

text \<open>The rows of the tables \<open>groups\<close> and \<open>group_member\<close>; players are stored by the counter of their guid.\<close>

record groups_row =
  gr_guid :: u32
  gr_leaderGuid :: u32
  gr_lootMethod :: u8
  gr_looterGuid :: u32
  gr_lootThreshold :: u8
  gr_icons :: "u64 list"
  gr_groupType :: u8
  gr_masterLooterGuid :: u32

record member_row =
  mr_guid :: u32
  mr_memberGuid :: u32
  mr_memberFlags :: u8
  mr_subgroup :: u8
  mr_roles :: u8

text \<open>The calls of \<open>sScriptMgr\<close> a group makes.\<close>

datatype group_call = OnGroupAddMember ObjectGuid | OnGroupInviteMember ObjectGuid
  | OnGroupRemoveMember ObjectGuid RemoveMethod | OnGroupChangeLeader ObjectGuid ObjectGuid | OnGroupDisband

record group_state = Group +
  groups_table :: "groups_row list"
  member_table :: "member_row list"
  script_calls :: "group_call list"
  deleted :: bool

text \<open>A write behind the eight counters of the subgroups, or a failed assertion.\<close>

datatype group_error = OutOfBounds | AssertFailed

record group_env =
  FindConnectedPlayer :: "ObjectGuid \<Rightarrow> bool"
  FindPlayer :: "ObjectGuid \<Rightarrow> bool"
  GetName :: "ObjectGuid \<Rightarrow> string"
  GetCharacterNameByGuid :: "ObjectGuid \<Rightarrow> string option"
  GetDungeonMapId :: u32
  IsAlive :: "ObjectGuid \<Rightarrow> bool"
  GetMapId :: "ObjectGuid \<Rightarrow> u32"

definition andThen :: "group_error + 'a \<Rightarrow> ('a \<Rightarrow> group_error + 'b) \<Rightarrow> group_error + 'b" where
  "andThen r f = (case r of Inl e \<Rightarrow> Inl e | Inr x \<Rightarrow> f x)"

lemma andThen_simps [simp]: "andThen (Inl e) f = Inl e" "andThen (Inr x) f = f x"
  by (simp_all add: andThen_def)

section \<open>Statements of the character database\<close>

text \<open>\<open>memberGuid\<close> is the key of \<open>group_member\<close>, so an insertion of a key that is there fails.\<close>

definition INS_GROUP :: "groups_row \<Rightarrow> groups_row list \<Rightarrow> groups_row list" where
  "INS_GROUP row t = (if \<exists>r\<in>set t. gr_guid r = gr_guid row then t else t @ [row])"

definition INS_GROUP_MEMBER :: "member_row \<Rightarrow> member_row list \<Rightarrow> member_row list" where
  "INS_GROUP_MEMBER row t = (if \<exists>r\<in>set t. mr_memberGuid r = mr_memberGuid row then t else t @ [row])"

definition DEL_GROUP_MEMBER :: "u32 \<Rightarrow> member_row list \<Rightarrow> member_row list" where
  "DEL_GROUP_MEMBER c t = filter (\<lambda>r. mr_memberGuid r \<noteq> c) t"

definition UPD_GROUP_LEADER :: "u32 \<Rightarrow> u32 \<Rightarrow> groups_row list \<Rightarrow> groups_row list" where
  "UPD_GROUP_LEADER leader guid t = map (\<lambda>r. if gr_guid r = guid then r\<lparr>gr_leaderGuid := leader\<rparr> else r) t"

definition UPD_GROUP_TYPE :: "u8 \<Rightarrow> u32 \<Rightarrow> groups_row list \<Rightarrow> groups_row list" where
  "UPD_GROUP_TYPE type guid t = map (\<lambda>r. if gr_guid r = guid then r\<lparr>gr_groupType := type\<rparr> else r) t"

definition UPD_GROUP_MEMBER_SUBGROUP :: "u8 \<Rightarrow> u32 \<Rightarrow> member_row list \<Rightarrow> member_row list" where
  "UPD_GROUP_MEMBER_SUBGROUP sub c t = map (\<lambda>r. if mr_memberGuid r = c then r\<lparr>mr_subgroup := sub\<rparr> else r) t"

definition UPD_GROUP_MEMBER_FLAG :: "u8 \<Rightarrow> u32 \<Rightarrow> member_row list \<Rightarrow> member_row list" where
  "UPD_GROUP_MEMBER_FLAG flags c t = map (\<lambda>r. if mr_memberGuid r = c then r\<lparr>mr_memberFlags := flags\<rparr> else r) t"

definition DEL_GROUP :: "u32 \<Rightarrow> groups_row list \<Rightarrow> groups_row list" where
  "DEL_GROUP guid t = filter (\<lambda>r. gr_guid r \<noteq> guid) t"

definition DEL_GROUP_MEMBER_ALL :: "u32 \<Rightarrow> member_row list \<Rightarrow> member_row list" where
  "DEL_GROUP_MEMBER_ALL guid t = filter (\<lambda>r. mr_guid r \<noteq> guid) t"

section \<open>Operations of a group\<close>

definition isRaidGroup where "isRaidGroup s = (m_groupType s AND GROUPTYPE_RAID \<noteq> 0)"

definition isLFGGroup where "isLFGGroup s = (m_groupType s AND GROUPTYPE_LFG \<noteq> 0)"

definition isBGGroup where "isBGGroup s = m_bgGroup s"

definition isBFGroup where "isBFGroup s = m_bfGroup s"

definition IsCreated where "IsCreated s = (m_memberSlots s \<noteq> [])"

definition GetMembersCount where "GetMembersCount s = length (m_memberSlots s)"

definition IsFull where
  "IsFull s = (if isRaidGroup s then GetMembersCount s \<ge> MAX_RAID_SIZE else GetMembersCount s \<ge> MAX_GROUP_SIZE)"

definition IsLeader where "IsLeader g s = (m_leaderGuid s = g)"

definition getMemberSlot :: "ObjectGuid \<Rightarrow> ('a) Group_scheme \<Rightarrow> MemberSlot option" where
  "getMemberSlot g s = find (\<lambda>m. ms_guid m = g) (m_memberSlots s)"

definition IsMember where "IsMember g s = (getMemberSlot g s \<noteq> None)"

definition GetMemberFlags where
  "GetMemberFlags g s = (case getMemberSlot g s of None \<Rightarrow> 0 | Some m \<Rightarrow> ms_flags m)"

definition IsAssistant where
  "IsAssistant g s = (GetMemberFlags g s AND MEMBER_FLAG_ASSISTANT = MEMBER_FLAG_ASSISTANT)"

definition GetMemberGroup where
  "GetMemberGroup g s = (case getMemberSlot g s of None \<Rightarrow> of_nat (MAX_RAID_SUBGROUPS + 1) | Some m \<Rightarrow> ms_group m)"

definition HasFreeSlotSubGroup :: "u8 \<Rightarrow> ('a) Group_scheme \<Rightarrow> bool" where
  "HasFreeSlotSubGroup subgroup s =
    (case m_subGroupsCounts s of None \<Rightarrow> False | Some c \<Rightarrow> c ! unat subgroup < of_nat MAX_GROUP_SIZE)"

text \<open>A change through the iterator to the slot of a member.\<close>

primrec update_slot :: "ObjectGuid \<Rightarrow> (MemberSlot \<Rightarrow> MemberSlot) \<Rightarrow> MemberSlot list \<Rightarrow> MemberSlot list" where
  "update_slot g f [] = []"
| "update_slot g f (m # ms) = (if ms_guid m = g then f m # ms else m # update_slot g f ms)"

primrec erase_slot :: "ObjectGuid \<Rightarrow> MemberSlot list \<Rightarrow> MemberSlot list" where
  "erase_slot g [] = []"
| "erase_slot g (m # ms) = (if ms_guid m = g then ms else m # erase_slot g ms)"

text \<open>The counters of the subgroups, an array of eight when the group is a raid.\<close>

definition bump :: "(u8 \<Rightarrow> u8) \<Rightarrow> u8 \<Rightarrow> u8 list \<Rightarrow> group_error + u8 list" where
  "bump f i c = (if unat i < length c then Inr (c[unat i := f (c ! unat i)]) else Inl OutOfBounds)"

definition update_counts :: "(u8 \<Rightarrow> u8) \<Rightarrow> u8 \<Rightarrow> group_state \<Rightarrow> group_error + group_state" where
  "update_counts f i s =
    (case m_subGroupsCounts s of None \<Rightarrow> Inr s
     | Some c \<Rightarrow> map_sum id (\<lambda>c. s\<lparr>m_subGroupsCounts := Some c\<rparr>) (bump f i c))"

definition SubGroupCounterIncrease :: "u8 \<Rightarrow> group_state \<Rightarrow> group_error + group_state" where
  "SubGroupCounterIncrease subgroup s = update_counts (\<lambda>n. n + 1) subgroup s"

definition SubGroupCounterDecrease :: "u8 \<Rightarrow> group_state \<Rightarrow> group_error + group_state" where
  "SubGroupCounterDecrease subgroup s = update_counts (\<lambda>n. n - 1) subgroup s"

primrec count_slots :: "MemberSlot list \<Rightarrow> u8 list \<Rightarrow> group_error + u8 list" where
  "count_slots [] c = Inr c"
| "count_slots (m # ms) c = andThen (bump (\<lambda>n. n + 1) (ms_group m) c) (count_slots ms)"

definition initRaidSubGroupsCounter :: "group_state \<Rightarrow> group_error + group_state" where
  "initRaidSubGroupsCounter s =
    map_sum id (\<lambda>c. s\<lparr>m_subGroupsCounts := Some c\<rparr>) (count_slots (m_memberSlots s) (replicate MAX_RAID_SUBGROUPS 0))"

definition ToggleGroupMemberFlag :: "u8 \<Rightarrow> bool \<Rightarrow> MemberSlot \<Rightarrow> MemberSlot" where
  "ToggleGroupMemberFlag flag apply m =
    m\<lparr>ms_flags := (if apply then ms_flags m OR flag else ms_flags m AND NOT flag)\<rparr>"

definition call :: "group_call \<Rightarrow> group_state \<Rightarrow> group_state" where
  "call c s = s\<lparr>script_calls := script_calls s @ [c]\<rparr>"

text \<open>A group with database rows is one that is neither of a battleground nor of a battlefield.\<close>

definition stored where "stored s = (\<not> isBGGroup s \<and> \<not> isBFGroup s)"

definition AddMember :: "group_env \<Rightarrow> ObjectGuid \<Rightarrow> group_state \<Rightarrow> group_error + bool \<times> group_state" where
  "AddMember env player s =
    (case (case m_subGroupsCounts s of None \<Rightarrow> Some 0
           | Some c \<Rightarrow> find (\<lambda>i. c ! i < of_nat MAX_GROUP_SIZE) [0..<MAX_RAID_SUBGROUPS]) of
       None \<Rightarrow> Inr (False, s)
     | Some subGroup \<Rightarrow>
         let member = \<lparr>ms_guid = player, ms_name = GetName env player, ms_group = of_nat subGroup, ms_flags = 0, ms_roles = 0\<rparr>
         in andThen (SubGroupCounterIncrease (of_nat subGroup) (s\<lparr>m_memberSlots := m_memberSlots s @ [member]\<rparr>)) (\<lambda>s.
           let s = s\<lparr>m_memberMgr := player # m_memberMgr s\<rparr>;
               s = (if isRaidGroup s then s else s\<lparr>m_targetIcons := replicate TARGET_ICONS_COUNT 0\<rparr>);
               s = (if stored s
                    then s\<lparr>member_table := INS_GROUP_MEMBER \<lparr>mr_guid = m_dbStoreId s, mr_memberGuid = GetCounter (ms_guid member),
                             mr_memberFlags = ms_flags member, mr_subgroup = ms_group member, mr_roles = ms_roles member\<rparr> (member_table s)\<rparr>
                    else s)
           in Inr (True, call (OnGroupAddMember player) s)))"

definition ChangeLeader :: "group_env \<Rightarrow> ObjectGuid \<Rightarrow> group_state \<Rightarrow> group_state" where
  "ChangeLeader env newLeaderGuid s =
    (if getMemberSlot newLeaderGuid s = None \<or> \<not> FindConnectedPlayer env newLeaderGuid then s
     else let s = call (OnGroupChangeLeader newLeaderGuid (m_leaderGuid s)) s;
              s = (if stored s then s\<lparr>groups_table := UPD_GROUP_LEADER (GetCounter newLeaderGuid) (m_dbStoreId s) (groups_table s)\<rparr> else s)
          in s\<lparr>m_leaderGuid := newLeaderGuid, m_leaderName := GetName env newLeaderGuid,
               m_memberSlots := update_slot newLeaderGuid (ToggleGroupMemberFlag MEMBER_FLAG_ASSISTANT False) (m_memberSlots s)\<rparr>)"

definition Disband :: "group_env \<Rightarrow> group_state \<Rightarrow> group_state" where
  "Disband env s =
    (let s = call OnGroupDisband s;
         s = s\<lparr>m_memberMgr := filter (\<lambda>g. \<not> (g \<in> ms_guid ` set (m_memberSlots s) \<and> FindConnectedPlayer env g)) (m_memberMgr s)\<rparr>;
         s = s\<lparr>m_memberSlots := [], m_invitees := {}\<rparr>;
         s = (if stored s then s\<lparr>groups_table := DEL_GROUP (m_dbStoreId s) (groups_table s),
                                 member_table := DEL_GROUP_MEMBER_ALL (m_dbStoreId s) (member_table s)\<rparr> else s)
     in s\<lparr>deleted := True\<rparr>)"

text \<open>The part of \<open>RemoveMember\<close> behind its tests: the references, the row, the slot and the counter, the
  leader.\<close>

definition remove_member :: "group_env \<Rightarrow> ObjectGuid \<Rightarrow> group_state \<Rightarrow> group_error + group_state" where
  "remove_member env guid s =
    (let s = (if FindConnectedPlayer env guid then s\<lparr>m_memberMgr := remove1 guid (m_memberMgr s)\<rparr> else s);
         s = (if stored s then s\<lparr>m_memberMgr := remove1 guid (m_memberMgr s),
                                 member_table := DEL_GROUP_MEMBER (GetCounter guid) (member_table s)\<rparr> else s)
     in andThen (case getMemberSlot guid s of None \<Rightarrow> Inr s
                  | Some slot \<Rightarrow> map_sum id (\<lambda>s. s\<lparr>m_memberSlots := erase_slot guid (m_memberSlots s)\<rparr>)
                                   (SubGroupCounterDecrease (ms_group slot) s)) (\<lambda>s.
        Inr (if m_leaderGuid s = guid
             then case find (\<lambda>m. FindConnectedPlayer env (ms_guid m)) (m_memberSlots s) of
                    None \<Rightarrow> s | Some m \<Rightarrow> ChangeLeader env (ms_guid m) s
             else s)))"

definition RemoveMember :: "group_env \<Rightarrow> ObjectGuid \<Rightarrow> RemoveMethod \<Rightarrow> group_state \<Rightarrow> group_error + bool \<times> group_state" where
  "RemoveMember env guid method s =
    (let s = call (OnGroupRemoveMember guid method) s
     in if isLFGGroup s \<and> method = GROUP_REMOVEMETHOD_KICK then Inr (m_memberSlots s \<noteq> [], s)
        else if GetMembersCount s > (if isBGGroup s \<or> isLFGGroup s \<or> isBFGroup s then 1 else 2) then
          andThen (remove_member env guid s) (\<lambda>s.
            if isLFGGroup s \<and> GetMembersCount s = 1 \<and>
               (GetDungeonMapId env = 0 \<or> \<not> FindConnectedPlayer env (m_leaderGuid s) \<or>
                IsAlive env (m_leaderGuid s) \<and> GetMapId env (m_leaderGuid s) \<noteq> GetDungeonMapId env)
            then Inr (False, Disband env s)
            else if length (m_memberMgr s) < (if isLFGGroup s \<or> isBGGroup s then 1 else 2) then Inr (True, Disband env s)
            else Inr (True, s))
        else Inr (False, Disband env s))"

definition ConvertToLFG :: "group_state \<Rightarrow> group_state" where
  "ConvertToLFG s =
    (let s = s\<lparr>m_groupType := m_groupType s OR GROUPTYPE_LFG OR GROUPTYPE_LFG_RESTRICTED, m_lootMethod := 4\<rparr>
     in if stored s then s\<lparr>groups_table := UPD_GROUP_TYPE (m_groupType s) (m_dbStoreId s) (groups_table s)\<rparr> else s)"

definition ConvertToRaid :: "group_state \<Rightarrow> group_error + group_state" where
  "ConvertToRaid s =
    andThen (initRaidSubGroupsCounter (s\<lparr>m_groupType := m_groupType s OR GROUPTYPE_RAID\<rparr>)) (\<lambda>s.
      Inr (if stored s then s\<lparr>groups_table := UPD_GROUP_TYPE (m_groupType s) (m_dbStoreId s) (groups_table s)\<rparr> else s))"

text \<open>\<open>Create\<close>; the guid and the database id come from \<open>GroupMgr\<close>.\<close>

definition Create :: "group_env \<Rightarrow> ObjectGuid \<Rightarrow> u32 \<Rightarrow> ObjectGuid \<Rightarrow> group_state \<Rightarrow> group_error + bool \<times> group_state" where
  "Create env guid dbStoreId leader s =
    (let s = s\<lparr>m_guid := guid, m_leaderGuid := leader, m_leaderName := GetName env leader\<rparr>;
         s = (if isBGGroup s \<or> isBFGroup s then s\<lparr>m_groupType := GROUPTYPE_BGRAID\<rparr> else s)
     in andThen (if isRaidGroup s then initRaidSubGroupsCounter s else Inr s) (\<lambda>s.
        let s = (if isLFGGroup s then s else s\<lparr>m_lootMethod := 3\<rparr>);
            s = s\<lparr>m_lootThreshold := 2, m_looterGuid := leader, m_masterLooterGuid := 0\<rparr>
        in if stored s
           then let s = s\<lparr>m_dbStoreId := dbStoreId\<rparr>;
                    s = s\<lparr>groups_table := INS_GROUP \<lparr>gr_guid = dbStoreId, gr_leaderGuid = GetCounter leader,
                      gr_lootMethod = m_lootMethod s, gr_looterGuid = GetCounter (m_looterGuid s), gr_lootThreshold = m_lootThreshold s,
                      gr_icons = m_targetIcons s, gr_groupType = m_groupType s,
                      gr_masterLooterGuid = GetCounter (m_masterLooterGuid s)\<rparr> (groups_table s)\<rparr>
                in andThen (AddMember env leader s) (\<lambda>(ok, s). if ok then Inr (True, s) else Inl AssertFailed)
           else AddMember env leader s))"

definition RemoveUniqueGroupMemberFlag :: "u8 \<Rightarrow> group_state \<Rightarrow> group_state" where
  "RemoveUniqueGroupMemberFlag flag s =
    s\<lparr>m_memberSlots := map (\<lambda>m. if ms_flags m AND flag \<noteq> 0 then m\<lparr>ms_flags := ms_flags m AND NOT flag\<rparr> else m) (m_memberSlots s)\<rparr>"

definition SetGroupMemberFlag :: "ObjectGuid \<Rightarrow> bool \<Rightarrow> u8 \<Rightarrow> group_state \<Rightarrow> group_state" where
  "SetGroupMemberFlag guid apply flag s =
    (if \<not> isRaidGroup s \<or> getMemberSlot guid s = None then s
     else if flag \<notin> {MEMBER_FLAG_MAINASSIST, MEMBER_FLAG_MAINTANK, MEMBER_FLAG_ASSISTANT} then s
     else let s = (if flag = MEMBER_FLAG_ASSISTANT then s else RemoveUniqueGroupMemberFlag flag s);
              s = s\<lparr>m_memberSlots := update_slot guid (ToggleGroupMemberFlag flag apply) (m_memberSlots s)\<rparr>
          in s\<lparr>member_table := UPD_GROUP_MEMBER_FLAG (GetMemberFlags guid s) (GetCounter guid) (member_table s)\<rparr>)"

definition ChangeMembersGroup :: "ObjectGuid \<Rightarrow> u8 \<Rightarrow> group_state \<Rightarrow> group_error + group_state" where
  "ChangeMembersGroup guid grp s =
    (if \<not> isRaidGroup s \<or> getMemberSlot guid s = None then Inr s
     else let prevSubGroup = GetMemberGroup guid s in
       if prevSubGroup = grp then Inr s
       else andThen (SubGroupCounterIncrease grp (s\<lparr>m_memberSlots := update_slot guid (\<lambda>m. m\<lparr>ms_group := grp\<rparr>) (m_memberSlots s)\<rparr>))
         (\<lambda>s. andThen (SubGroupCounterDecrease prevSubGroup s) (\<lambda>s.
            Inr (if stored s then s\<lparr>member_table := UPD_GROUP_MEMBER_SUBGROUP grp (GetCounter guid) (member_table s)\<rparr> else s))))"

definition SetLfgRoles :: "ObjectGuid \<Rightarrow> u8 \<Rightarrow> group_state \<Rightarrow> group_state" where
  "SetLfgRoles guid roles s = s\<lparr>m_memberSlots := update_slot guid (\<lambda>m. m\<lparr>ms_roles := roles\<rparr>) (m_memberSlots s)\<rparr>"

definition SetTargetIcon :: "nat \<Rightarrow> ObjectGuid \<Rightarrow> group_state \<Rightarrow> group_state" where
  "SetTargetIcon i targetGuid s =
    (if i \<ge> TARGET_ICONS_COUNT then s
     else let icons = (if IsEmpty targetGuid then m_targetIcons s
                       else map (\<lambda>t. if t = targetGuid then 0 else t) (m_targetIcons s))
          in s\<lparr>m_targetIcons := icons[i := targetGuid]\<rparr>)"

definition SelectNewPartyOrRaidLeader :: "group_env \<Rightarrow> group_state \<Rightarrow> group_state" where
  "SelectNewPartyOrRaidLeader env s =
    (let assistant = (if m_groupType s = GROUPTYPE_RAID
           then find (\<lambda>m. ms_flags m AND MEMBER_FLAG_ASSISTANT = MEMBER_FLAG_ASSISTANT \<and> FindPlayer env (ms_guid m)) (m_memberSlots s)
           else None);
         newLeader = (case assistant of Some m \<Rightarrow> Some m | None \<Rightarrow> find (\<lambda>m. FindPlayer env (ms_guid m)) (m_memberSlots s))
     in case newLeader of None \<Rightarrow> s | Some m \<Rightarrow> ChangeLeader env (ms_guid m) s)"

definition StartLeaderOfflineTimer :: "group_state \<Rightarrow> group_state" where
  "StartLeaderOfflineTimer s = s\<lparr>m_isLeaderOffline := True, m_leaderOfflineTimer := 120000\<rparr>"

definition StopLeaderOfflineTimer :: "group_state \<Rightarrow> group_state" where
  "StopLeaderOfflineTimer s = s\<lparr>m_isLeaderOffline := False\<rparr>"

definition Group_Update :: "group_env \<Rightarrow> int \<Rightarrow> group_state \<Rightarrow> group_state" where
  "Group_Update env diff s =
    (if m_isLeaderOffline s \<and> m_groupType s \<in> {GROUPTYPE_NORMAL, GROUPTYPE_RAID} then
       let s = s\<lparr>m_leaderOfflineTimer := m_leaderOfflineTimer s - diff\<rparr>
       in if m_leaderOfflineTimer s \<le> 0 then (SelectNewPartyOrRaidLeader env s)\<lparr>m_isLeaderOffline := False\<rparr> else s
     else s)"

text \<open>The invitations of a group, on its side.\<close>

definition RemoveInvite :: "ObjectGuid \<Rightarrow> group_state \<Rightarrow> group_state" where
  "RemoveInvite player s = s\<lparr>m_invitees := m_invitees s - {player}\<rparr>"

definition RemoveAllInvites :: "group_state \<Rightarrow> group_state" where
  "RemoveAllInvites s = s\<lparr>m_invitees := {}\<rparr>"

definition AddInvite :: "bool \<Rightarrow> bool \<Rightarrow> ObjectGuid \<Rightarrow> group_state \<Rightarrow> bool \<times> group_state" where
  "AddInvite invited grouped player s =
    (if invited \<or> grouped then (False, s)
     else (True, call (OnGroupInviteMember player) (s\<lparr>m_invitees := insert player (m_invitees s - {player})\<rparr>)))"

definition AddLeaderInvite :: "group_env \<Rightarrow> bool \<Rightarrow> bool \<Rightarrow> ObjectGuid \<Rightarrow> group_state \<Rightarrow> bool \<times> group_state" where
  "AddLeaderInvite env invited grouped player s =
    (case AddInvite invited grouped player s of
       (False, s) \<Rightarrow> (False, s)
     | (True, s) \<Rightarrow> (True, s\<lparr>m_leaderGuid := player, m_leaderName := GetName env player\<rparr>))"

section \<open>Loading\<close>

definition LoadGroupFromDB :: "group_env \<Rightarrow> ObjectGuid \<Rightarrow> groups_row \<Rightarrow> group_state \<Rightarrow> group_error + group_state" where
  "LoadGroupFromDB env guid row s =
    (let leader = Create_counter HighGuid_Player (gr_leaderGuid row);
         s = s\<lparr>m_dbStoreId := gr_guid row, m_guid := guid, m_leaderGuid := leader\<rparr>
     in case GetCharacterNameByGuid env leader of
          None \<Rightarrow> Inr s
        | Some name \<Rightarrow>
            let s = s\<lparr>m_leaderName := name, m_lootMethod := gr_lootMethod row,
                      m_looterGuid := Create_counter HighGuid_Player (gr_looterGuid row), m_lootThreshold := gr_lootThreshold row,
                      m_targetIcons := gr_icons row, m_groupType := gr_groupType row\<rparr>
            in andThen (if isRaidGroup s then initRaidSubGroupsCounter s else Inr s) (\<lambda>s.
               Inr (s\<lparr>m_masterLooterGuid := (if gr_masterLooterGuid row \<noteq> 0
                        then Create_counter HighGuid_Player (gr_masterLooterGuid row) else 0)\<rparr>)))"

definition LoadMemberFromDB :: "group_env \<Rightarrow> member_row \<Rightarrow> group_state \<Rightarrow> group_error + group_state" where
  "LoadMemberFromDB env row s =
    (let guid = Create_counter HighGuid_Player (mr_memberGuid row)
     in case GetCharacterNameByGuid env guid of
          None \<Rightarrow> Inr (s\<lparr>member_table := DEL_GROUP_MEMBER (mr_memberGuid row) (member_table s)\<rparr>)
        | Some name \<Rightarrow>
            SubGroupCounterIncrease (mr_subgroup row) (s\<lparr>m_memberSlots := m_memberSlots s @
              [\<lparr>ms_guid = guid, ms_name = name, ms_group = mr_subgroup row, ms_flags = mr_memberFlags row, ms_roles = mr_roles row\<rparr>]\<rparr>))"

primrec load_members :: "group_env \<Rightarrow> member_row list \<Rightarrow> group_state \<Rightarrow> group_error + group_state" where
  "load_members env [] s = Inr s"
| "load_members env (r # rs) s = andThen (LoadMemberFromDB env r s) (load_members env rs)"

text \<open>What \<open>GroupMgr::LoadGroups\<close> makes of the rows of one group.\<close>

definition load_group :: "group_env \<Rightarrow> ObjectGuid \<Rightarrow> u32 \<Rightarrow> groups_row list \<Rightarrow> member_row list \<Rightarrow> group_error + group_state option" where
  "load_group env guid storeId groups members =
    (case find (\<lambda>r. gr_guid r = storeId) groups of
       None \<Rightarrow> Inr None
     | Some row \<Rightarrow>
         let s = Group.extend new_Group (group_state.fields groups members [] False)
         in map_sum id Some (andThen (LoadGroupFromDB env guid row s)
              (load_members env (filter (\<lambda>r. mr_guid r = storeId) members))))"

section \<open>Requests of clients\<close>

text \<open>\<open>HandleGroupAcceptOpcode\<close> for a player invited by the group.\<close>

definition HandleGroupAcceptOpcode :: "group_env \<Rightarrow> ObjectGuid \<Rightarrow> u32 \<Rightarrow> ObjectGuid \<Rightarrow> group_state \<Rightarrow> group_error + group_state" where
  "HandleGroupAcceptOpcode env guid storeId player s =
    (let s = RemoveInvite player s
     in if IsLeader player s then Inr s
        else if IsFull s then Inr s
        else if \<not> IsCreated s \<and> \<not> FindPlayer env (m_leaderGuid s) then Inr (RemoveAllInvites s)
        else andThen (if IsCreated s then Inr s
                      else map_sum id snd (Create env guid storeId (m_leaderGuid s) (RemoveInvite (m_leaderGuid s) s)))
               (\<lambda>s. map_sum id snd (AddMember env player s)))"

text \<open>\<open>sameGroup\<close>: the group of the player is this one.\<close>

definition HandleGroupSetLeaderOpcode :: "group_env \<Rightarrow> bool \<Rightarrow> ObjectGuid \<Rightarrow> ObjectGuid \<Rightarrow> group_state \<Rightarrow> group_state" where
  "HandleGroupSetLeaderOpcode env sameGroup sender guid s =
    (if \<not> FindConnectedPlayer env guid then s
     else if \<not> IsLeader sender s \<or> \<not> sameGroup then s
     else ChangeLeader env guid s)"

definition HandleGroupRaidConvertOpcode :: "bool \<Rightarrow> ObjectGuid \<Rightarrow> group_state \<Rightarrow> group_error + group_state" where
  "HandleGroupRaidConvertOpcode inBattleground sender s =
    (if inBattleground \<or> \<not> IsLeader sender s \<or> GetMembersCount s < 2 then Inr s else ConvertToRaid s)"

text \<open>The names sent by the client are resolved to the guid of a character before.\<close>

definition HandleGroupChangeSubGroupOpcode :: "ObjectGuid \<Rightarrow> ObjectGuid \<Rightarrow> u8 \<Rightarrow> group_state \<Rightarrow> group_error + group_state" where
  "HandleGroupChangeSubGroupOpcode sender guid groupNr s =
    (if unat groupNr \<ge> MAX_RAID_SUBGROUPS then Inr s
     else if \<not> IsLeader sender s \<and> \<not> IsAssistant sender s then Inr s
     else if \<not> HasFreeSlotSubGroup groupNr s then Inr s
     else if IsEmpty guid then Inr s
     else ChangeMembersGroup guid groupNr s)"

definition HandleGroupAssistantLeaderOpcode :: "ObjectGuid \<Rightarrow> ObjectGuid \<Rightarrow> bool \<Rightarrow> group_state \<Rightarrow> group_state" where
  "HandleGroupAssistantLeaderOpcode sender guid apply s =
    (if \<not> IsLeader sender s then s else SetGroupMemberFlag guid apply MEMBER_FLAG_ASSISTANT s)"

datatype GroupMemberAssignment = GROUP_ASSIGN_MAINTANK | GROUP_ASSIGN_MAINASSIST

definition HandlePartyAssignmentOpcode :: "ObjectGuid \<Rightarrow> GroupMemberAssignment \<Rightarrow> bool \<Rightarrow> ObjectGuid \<Rightarrow> group_state \<Rightarrow> group_state" where
  "HandlePartyAssignmentOpcode sender assignment apply guid s =
    (if \<not> IsLeader sender s \<and> \<not> IsAssistant sender s then s
     else case assignment of
         GROUP_ASSIGN_MAINASSIST \<Rightarrow> SetGroupMemberFlag guid apply MEMBER_FLAG_MAINASSIST (RemoveUniqueGroupMemberFlag MEMBER_FLAG_MAINASSIST s)
       | GROUP_ASSIGN_MAINTANK \<Rightarrow> SetGroupMemberFlag guid apply MEMBER_FLAG_MAINTANK (RemoveUniqueGroupMemberFlag MEMBER_FLAG_MAINTANK s))"


text \<open>The results of invitations and removals that are sent to the client.\<close>

datatype PartyResult = ERR_PARTY_RESULT_OK | ERR_BAD_PLAYER_NAME_S | ERR_TARGET_NOT_IN_GROUP_S | ERR_GROUP_FULL
  | ERR_ALREADY_IN_GROUP_S | ERR_NOT_LEADER | ERR_INVITE_RESTRICTED | ERR_PARTY_LFG_BOOT

text \<open>\<open>HandleGroupInviteOpcode\<close> behind its tests of the two players: \<open>inGroup\<close> and \<open>invited\<close> are what the
  target's group and invitation are, \<open>grouped\<close> whether \<open>AddInvite\<close> finds the target in a group; the
  group of the inviting player is the last argument. The group is new when there was none.\<close>

definition HandleGroupInviteOpcode ::
    "group_env \<Rightarrow> bool \<Rightarrow> bool \<Rightarrow> bool \<Rightarrow> ObjectGuid \<Rightarrow> ObjectGuid \<Rightarrow> group_state \<Rightarrow> group_state option \<Rightarrow> PartyResult option \<times> group_state option" where
  "HandleGroupInviteOpcode env inGroup invited grouped invitingPlayer invitedPlayer fresh grp =
    (if inGroup \<or> invited then (Some ERR_ALREADY_IN_GROUP_S, grp)
     else case grp of
         Some s \<Rightarrow>
           if \<not> IsLeader invitingPlayer s \<and> \<not> IsAssistant invitingPlayer s then (if IsCreated s then Some ERR_NOT_LEADER else None, grp)
           else if IsFull s then (Some ERR_GROUP_FULL, grp)
           else (case AddInvite invited grouped invitedPlayer s of
                   (False, s) \<Rightarrow> (None, Some s)
                 | (True, s) \<Rightarrow> (Some ERR_PARTY_RESULT_OK, Some s))
       | None \<Rightarrow>
           (case AddLeaderInvite env False False invitingPlayer fresh of
              (False, _) \<Rightarrow> (None, None)
            | (True, s) \<Rightarrow>
                (case AddInvite invited grouped invitedPlayer s of
                   (False, _) \<Rightarrow> (None, None)
                 | (True, s) \<Rightarrow> (Some ERR_PARTY_RESULT_OK, Some s))))"

text \<open>\<open>Player::UninviteFromGroup\<close> of a player the group has invited; \<open>None\<close> when the group, which was never created,
  is deleted.\<close>

definition UninviteFromGroup :: "group_env \<Rightarrow> ObjectGuid \<Rightarrow> group_state \<Rightarrow> group_state option" where
  "UninviteFromGroup env player s =
    (let s = RemoveInvite player s
     in if IsCreated s then Some (if GetMembersCount s \<le> 1 then Disband env s else s)
        else if card (m_invitees s) \<le> 1 then None else Some s)"

definition HandleGroupDeclineOpcode :: "group_env \<Rightarrow> ObjectGuid \<Rightarrow> group_state \<Rightarrow> group_state option" where
  "HandleGroupDeclineOpcode env player s = UninviteFromGroup env player s"

text \<open>\<open>Player::CanUninviteFromGroup\<close>: \<open>lfgRefuses\<close> is what the dungeon finder, the rolls and the fights of the
  members say against a removal from a group of the dungeon finder.\<close>

definition LFG_GROUP_KICK_VOTES_NEEDED :: nat where
  "LFG_GROUP_KICK_VOTES_NEEDED = 3"

definition CanUninviteFromGroup :: "bool \<Rightarrow> bool \<Rightarrow> ObjectGuid \<Rightarrow> ObjectGuid \<Rightarrow> group_state \<Rightarrow> PartyResult" where
  "CanUninviteFromGroup lfgRefuses inBattleground sender guidMember s =
    (if isLFGGroup s then (if lfgRefuses \<or> GetMembersCount s \<le> LFG_GROUP_KICK_VOTES_NEEDED then ERR_PARTY_LFG_BOOT else ERR_PARTY_RESULT_OK)
     else if \<not> IsLeader sender s \<and> \<not> IsAssistant sender s then ERR_NOT_LEADER
     else if inBattleground then ERR_INVITE_RESTRICTED
     else if IsLeader guidMember s then ERR_NOT_LEADER
     else ERR_PARTY_RESULT_OK)"

definition GetInvited :: "ObjectGuid \<Rightarrow> group_state \<Rightarrow> bool" where
  "GetInvited guid s = (guid \<in> m_invitees s)"

definition HandleGroupUninviteGuidOpcode ::
    "group_env \<Rightarrow> bool \<Rightarrow> bool \<Rightarrow> ObjectGuid \<Rightarrow> ObjectGuid \<Rightarrow> group_state \<Rightarrow> group_error + PartyResult option \<times> group_state option" where
  "HandleGroupUninviteGuidOpcode env lfgRefuses inBattleground sender guid s =
    (if guid = sender then Inr (None, Some s)
     else let res = CanUninviteFromGroup lfgRefuses inBattleground sender guid s
       in if res \<noteq> ERR_PARTY_RESULT_OK then Inr (Some res, Some s)
          else if IsMember guid s then map_sum id (\<lambda>(b, s). (None, Some s)) (RemoveMember env guid GROUP_REMOVEMETHOD_KICK s)
          else if GetInvited guid s then Inr (None, UninviteFromGroup env guid s)
          else Inr (Some ERR_TARGET_NOT_IN_GROUP_S, Some s))"

definition GetMemberGUID :: "string \<Rightarrow> group_state \<Rightarrow> ObjectGuid" where
  "GetMemberGUID name s = (case find (\<lambda>m. ms_name m = name) (m_memberSlots s) of None \<Rightarrow> 0 | Some m \<Rightarrow> ms_guid m)"

text \<open>The name has been normalised; the player's own name has been refused.\<close>

definition HandleGroupUninviteOpcode ::
    "group_env \<Rightarrow> bool \<Rightarrow> bool \<Rightarrow> ObjectGuid \<Rightarrow> string \<Rightarrow> group_state \<Rightarrow> group_error + PartyResult option \<times> group_state option" where
  "HandleGroupUninviteOpcode env lfgRefuses inBattleground sender membername s =
    (let res = CanUninviteFromGroup lfgRefuses inBattleground sender 0 s
     in if GetName env sender = membername then Inr (None, Some s)
        else if res \<noteq> ERR_PARTY_RESULT_OK then Inr (Some res, Some s)
        else let guid = GetMemberGUID membername s
          in if \<not> IsEmpty guid then map_sum id (\<lambda>(b, s). (None, Some s)) (RemoveMember env guid GROUP_REMOVEMETHOD_KICK s)
             else if GetInvited guid s then Inr (None, UninviteFromGroup env guid s)
             else Inr (Some ERR_TARGET_NOT_IN_GROUP_S, Some s))"

text \<open>\<open>inGroup\<close>: the player is in the group, otherwise only invited to it.\<close>

definition HandleGroupDisbandOpcode :: "group_env \<Rightarrow> bool \<Rightarrow> bool \<Rightarrow> ObjectGuid \<Rightarrow> group_state \<Rightarrow> group_error + group_state" where
  "HandleGroupDisbandOpcode env inGroup inBattleground sender s =
    (if inBattleground then Inr s
     else if inGroup then map_sum id snd (RemoveMember env sender GROUP_REMOVEMETHOD_LEAVE s)
     else if IsLeader sender s then Inr (Disband env s)
     else Inr s)"

definition HandleLootMethodOpcode :: "ObjectGuid \<Rightarrow> u32 \<Rightarrow> ObjectGuid \<Rightarrow> u32 \<Rightarrow> group_state \<Rightarrow> group_state" where
  "HandleLootMethodOpcode sender lootMethod lootMaster lootThreshold s =
    (if \<not> IsLeader sender s \<or> isLFGGroup s then s
     else if lootMethod > 4 \<or> lootThreshold < 2 \<or> lootThreshold > 6 then s
     else if lootMethod = 2 \<and> \<not> IsMember lootMaster s then s
     else s\<lparr>m_lootMethod := ucast lootMethod, m_masterLooterGuid := lootMaster, m_lootThreshold := ucast lootThreshold\<rparr>)"

definition HandleRaidTargetUpdateOpcode :: "group_env \<Rightarrow> (ObjectGuid \<Rightarrow> bool) \<Rightarrow> ObjectGuid \<Rightarrow> u8 \<Rightarrow> ObjectGuid \<Rightarrow> group_state \<Rightarrow> group_state" where
  "HandleRaidTargetUpdateOpcode env hostile sender x guid s =
    (if x = 0xFF then s
     else if isRaidGroup s \<and> \<not> IsLeader sender s \<and> \<not> IsAssistant sender s then s
     else if IsPlayer guid \<and> (\<not> FindConnectedPlayer env guid \<or> hostile guid) then s
     else SetTargetIcon (unat x) guid s)"

text \<open>\<open>Player::_LoadGroup\<close> and the group's part of login and logout; the group reference of a player goes with the player.\<close>

definition player_login :: "ObjectGuid \<Rightarrow> group_state \<Rightarrow> group_state" where
  "player_login guid s =
    (let s = s\<lparr>m_memberMgr := guid # m_memberMgr s\<rparr>
     in if m_leaderGuid s = guid then StopLeaderOfflineTimer s else s)"

definition player_logout :: "ObjectGuid \<Rightarrow> group_state \<Rightarrow> group_state" where
  "player_logout guid s =
    (let s = (if m_leaderGuid s = guid then StartLeaderOfflineTimer s else s)
     in s\<lparr>m_memberMgr := remove1 guid (m_memberMgr s)\<rparr>)"

end
