(* ===== verification/Group_Invariant.thy ===== *)
theory Group_Invariant
  imports Player_Group
begin

text \<open>
  The invariant of a group and that every operation of \<open>Player_Group\<close> keeps it: the counters of the subgroups agree with
  the members, nobody has two places, a created group is led by a member, and the rows in the character database
  are those of the members.
\<close>

section \<open>Seats in the subgroups\<close>

text \<open>The counters agree with the members' subgroups, taken as a multiset.\<close>

definition seats :: "('a) Group_scheme \<Rightarrow> u8 multiset" where
  "seats s = mset (map ms_group (m_memberSlots s))"

definition exact :: "u8 multiset \<Rightarrow> u8 list \<Rightarrow> bool" where
  "exact M c \<longleftrightarrow> length c = MAX_RAID_SUBGROUPS \<and> (\<forall>g\<in>#M. unat g < MAX_RAID_SUBGROUPS) \<and>
     (\<forall>g. unat g < MAX_RAID_SUBGROUPS \<longrightarrow> c ! unat g = of_nat (count M g))"

lemma nth_bump: "unat i < length c \<Longrightarrow> c[unat i := x] ! unat j = (if i = j then x else c ! unat j)" for i j :: u8
  by (metis nth_list_update word_unat_eq_iff)

lemma exact_inc:
  assumes "exact M c" "unat g < MAX_RAID_SUBGROUPS"
  shows "\<exists>c'. bump (\<lambda>n. n + 1) g c = Inr c' \<and> exact (add_mset g M) c'"
proof -
  have len: "unat g < length c" using assms by (simp add: exact_def)
  have "exact (add_mset g M) (c[unat g := c ! unat g + 1])"
    using assms unfolding exact_def by (simp add: nth_bump [OF len])
  then show ?thesis using len by (simp add: bump_def)
qed

lemma exact_dec:
  assumes "exact M c" "g \<in># M"
  shows "\<exists>c'. bump (\<lambda>n. n - 1) g c = Inr c' \<and> exact (M - {#g#}) c'"
proof -
  obtain M' where M: "M = add_mset g M'" using assms(2) by (metis insert_DiffM)
  then have len: "unat g < length c" using assms(1) by (simp add: exact_def)
  have "exact M' (c[unat g := c ! unat g - 1])"
    using assms(1) unfolding exact_def M by (simp add: nth_bump [OF len])
  then show ?thesis using len by (simp add: bump_def M)
qed

lemma exact_count_slots:
  "exact M c \<Longrightarrow> \<forall>m\<in>set ms. unat (ms_group m) < MAX_RAID_SUBGROUPS \<Longrightarrow>
    \<exists>c'. count_slots ms c = Inr c' \<and> exact (M + mset (map ms_group ms)) c'"
proof (induction ms arbitrary: M c)
  case (Cons m ms)
  obtain c1 where "bump (\<lambda>n. n + 1) (ms_group m) c = Inr c1" "exact (add_mset (ms_group m) M) c1"
    using exact_inc [of M c "ms_group m"] Cons.prems by auto
  then show ?case using Cons.IH [of "add_mset (ms_group m) M" c1] Cons.prems(2) by auto
qed simp

lemma exact_zero: "exact {#} (replicate MAX_RAID_SUBGROUPS 0)"
  by (simp add: exact_def)

definition seats_ok :: "('a) Group_scheme \<Rightarrow> bool" where
  "seats_ok s \<longleftrightarrow>
    (if isRaidGroup s
     then (\<exists>c. m_subGroupsCounts s = Some c \<and> exact (seats s) c) \<and> (\<forall>g. count (seats s) g \<le> MAX_GROUP_SIZE)
     else m_subGroupsCounts s = None \<and> set_mset (seats s) \<subseteq> {0} \<and> size (seats s) \<le> MAX_GROUP_SIZE)"

lemma seats_ok_cong:
  "m_groupType s' = m_groupType s \<Longrightarrow> m_subGroupsCounts s' = m_subGroupsCounts s \<Longrightarrow> seats s' = seats s \<Longrightarrow> seats_ok s' = seats_ok s"
  by (simp add: seats_ok_def isRaidGroup_def)

section \<open>Slots\<close>

definition member_guids :: "('a) Group_scheme \<Rightarrow> ObjectGuid set" where
  "member_guids s = ms_guid ` set (m_memberSlots s)"

lemma update_slot_id: "g \<notin> ms_guid ` set ms \<Longrightarrow> update_slot g f ms = ms"
  by (induction ms) auto

lemma update_slot_map: "distinct (map ms_guid ms) \<Longrightarrow> update_slot g f ms = map (\<lambda>m. if ms_guid m = g then f m else m) ms"
proof (induction ms)
  case (Cons m ms)
  have "\<forall>x\<in>set ms. ms_guid x \<noteq> ms_guid m" using Cons.prems by (metis distinct.simps(2) image_eqI list.map(2) set_map)
  then have "map (\<lambda>m. if ms_guid m = g then f m else m) ms = ms" if "ms_guid m = g"
    using that by (intro map_idI) simp
  with Cons show ?case by auto
qed simp

lemma erase_slot_filter: "distinct (map ms_guid ms) \<Longrightarrow> erase_slot g ms = filter (\<lambda>m. ms_guid m \<noteq> g) ms"
proof (induction ms)
  case (Cons m ms)
  have "\<forall>x\<in>set ms. ms_guid x \<noteq> ms_guid m" using Cons.prems by (metis distinct.simps(2) image_eqI list.map(2) set_map)
  then have "filter (\<lambda>m. ms_guid m \<noteq> g) ms = ms" if "ms_guid m = g"
    using that by (simp add: filter_id_conv)
  with Cons show ?case by auto
qed simp

lemma find_slot:
  "find (\<lambda>m. ms_guid m = g) ms = None \<longleftrightarrow> g \<notin> ms_guid ` set ms"
  "find (\<lambda>m. ms_guid m = g) ms = Some m \<Longrightarrow> m \<in> set ms \<and> ms_guid m = g"
  by (auto simp: find_None_iff find_Some_iff)

lemma getMemberSlot_None: "getMemberSlot g s = None \<longleftrightarrow> g \<notin> member_guids s"
  by (simp add: getMemberSlot_def member_guids_def find_slot(1))

lemma getMemberSlot_Some: "getMemberSlot g s = Some m \<Longrightarrow> m \<in> set (m_memberSlots s) \<and> ms_guid m = g"
  unfolding getMemberSlot_def by (rule find_slot(2))

lemma mset_erase_slot:
  "find (\<lambda>m. ms_guid m = g) ms = Some m \<Longrightarrow> mset (map ms_group (erase_slot g ms)) = mset (map ms_group ms) - {#ms_group m#}"
proof (induction ms)
  case (Cons m' ms)
  show ?case
  proof (cases "ms_guid m' = g")
    case False
    with Cons have IH: "mset (map ms_group (erase_slot g ms)) = mset (map ms_group ms) - {#ms_group m#}" by simp
    have "ms_group m \<in># mset (map ms_group ms)" using Cons.prems False find_slot(2) by fastforce
    then show ?thesis using False IH by simp
  qed (use Cons.prems in auto)
qed simp

lemma mset_update_slot:
  "find (\<lambda>m. ms_guid m = g) ms = Some m \<Longrightarrow>
    mset (map ms_group (update_slot g f ms)) = add_mset (ms_group (f m)) (mset (map ms_group ms) - {#ms_group m#})"
proof (induction ms)
  case (Cons m' ms)
  show ?case
  proof (cases "ms_guid m' = g")
    case False
    with Cons have IH: "mset (map ms_group (update_slot g f ms)) = add_mset (ms_group (f m)) (mset (map ms_group ms) - {#ms_group m#})"
      by simp
    have "ms_group m \<in># mset (map ms_group ms)" using Cons.prems False find_slot(2) by fastforce
    then show ?thesis using False IH by simp
  qed (use Cons.prems in auto)
qed simp

lemma update_slot_group [simp]:
  "(\<And>m. ms_group (f m) = ms_group m) \<Longrightarrow> map ms_group (update_slot g f ms) = map ms_group ms"
  by (induction ms) auto

lemma update_slot_guid [simp]:
  "(\<And>m. ms_guid (f m) = ms_guid m) \<Longrightarrow> map ms_guid (update_slot g f ms) = map ms_guid ms"
  by (induction ms) auto

lemma image_map_eq: "map f xs = map f ys \<Longrightarrow> f ` set xs = f ` set ys"
  by (metis set_map)

section \<open>Rows\<close>

definition player_guid :: "ObjectGuid \<Rightarrow> bool" where
  "player_guid g \<longleftrightarrow> Create_counter HighGuid_Player (GetCounter g) = g"

lemma player_guid_inj: "player_guid g \<Longrightarrow> player_guid h \<Longrightarrow> GetCounter g = GetCounter h \<longleftrightarrow> g = h"
  unfolding player_guid_def by metis

text \<open>Who is where, in the table and in memory.\<close>

definition member_view :: "u32 \<Rightarrow> member_row list \<Rightarrow> (u32 \<times> u8) set" where
  "member_view i t = (\<lambda>r. (mr_memberGuid r, mr_subgroup r)) ` set (filter (\<lambda>r. mr_guid r = i) t)"

definition slot_view :: "MemberSlot list \<Rightarrow> (u32 \<times> u8) set" where
  "slot_view ms = (\<lambda>m. (GetCounter (ms_guid m), ms_group m)) ` set ms"

definition key_ok :: "member_row list \<Rightarrow> bool" where
  "key_ok t \<longleftrightarrow> distinct (map mr_memberGuid t)"

lemma key_ok_ops:
  "key_ok t \<Longrightarrow> key_ok (INS_GROUP_MEMBER row t)" "key_ok t \<Longrightarrow> key_ok (DEL_GROUP_MEMBER c t)"
  "key_ok t \<Longrightarrow> key_ok (UPD_GROUP_MEMBER_SUBGROUP sub c t)" "key_ok t \<Longrightarrow> key_ok (UPD_GROUP_MEMBER_FLAG fl c t)"
  "key_ok t \<Longrightarrow> key_ok (DEL_GROUP_MEMBER_ALL i t)"
  by (auto simp: key_ok_def INS_GROUP_MEMBER_def DEL_GROUP_MEMBER_def UPD_GROUP_MEMBER_SUBGROUP_def
      UPD_GROUP_MEMBER_FLAG_def DEL_GROUP_MEMBER_ALL_def comp_def if_distrib distinct_filter_key cong: if_cong)

lemma image_restrict: "(\<And>x. x \<in> A \<Longrightarrow> P (f x) = Q x) \<Longrightarrow> {e \<in> f ` A. P e} = f ` {x \<in> A. Q x}"
  by blast

lemma member_view_INS:
  assumes "mr_memberGuid row \<notin> mr_memberGuid ` set t" "mr_guid row = i"
  shows "member_view i (INS_GROUP_MEMBER row t) = insert (mr_memberGuid row, mr_subgroup row) (member_view i t)"
proof -
  have "INS_GROUP_MEMBER row t = t @ [row]" using assms(1) unfolding INS_GROUP_MEMBER_def by (metis image_eqI)
  then show ?thesis using assms(2) by (simp add: member_view_def)
qed

lemma member_view_DEL: "member_view i (DEL_GROUP_MEMBER c t) = {e \<in> member_view i t. fst e \<noteq> c}"
proof -
  have "filter (\<lambda>r. mr_guid r = i) (DEL_GROUP_MEMBER c t) = filter (\<lambda>r. mr_memberGuid r \<noteq> c) (filter (\<lambda>r. mr_guid r = i) t)"
    unfolding DEL_GROUP_MEMBER_def by (simp add: conj_commute)
  then show ?thesis
    unfolding member_view_def by (simp only: set_filter [of "\<lambda>r. mr_memberGuid r \<noteq> c"]) (rule image_restrict [symmetric], simp)
qed

lemma filter_upd_member: "(\<And>r. mr_guid (f r) = mr_guid r) \<Longrightarrow>
    filter (\<lambda>r. mr_guid r = i) (map (\<lambda>r. if mr_memberGuid r = c then f r else r) t) =
    map (\<lambda>r. if mr_memberGuid r = c then f r else r) (filter (\<lambda>r. mr_guid r = i) t)"
  by (induction t) auto

lemma member_view_SUBGROUP:
  "member_view i (UPD_GROUP_MEMBER_SUBGROUP sub c t) = (\<lambda>e. if fst e = c then (c, sub) else e) ` member_view i t"
proof -
  have "filter (\<lambda>r. mr_guid r = i) (UPD_GROUP_MEMBER_SUBGROUP sub c t) =
      map (\<lambda>r. if mr_memberGuid r = c then r\<lparr>mr_subgroup := sub\<rparr> else r) (filter (\<lambda>r. mr_guid r = i) t)"
    unfolding UPD_GROUP_MEMBER_SUBGROUP_def by (rule filter_upd_member) simp
  then show ?thesis unfolding member_view_def by (simp only: set_map image_image) (rule image_cong, simp_all)
qed

lemma member_view_FLAG: "member_view i (UPD_GROUP_MEMBER_FLAG fl c t) = member_view i t"
proof -
  have "filter (\<lambda>r. mr_guid r = i) (UPD_GROUP_MEMBER_FLAG fl c t) =
      map (\<lambda>r. if mr_memberGuid r = c then r\<lparr>mr_memberFlags := fl\<rparr> else r) (filter (\<lambda>r. mr_guid r = i) t)"
    unfolding UPD_GROUP_MEMBER_FLAG_def by (rule filter_upd_member) simp
  then show ?thesis unfolding member_view_def by (simp only: set_map image_image) (rule image_cong, simp_all)
qed

lemma member_view_ALL: "member_view i (DEL_GROUP_MEMBER_ALL i t) = {}"
  by (simp add: member_view_def DEL_GROUP_MEMBER_ALL_def)

lemma slot_view_erase:
  assumes "distinct (map ms_guid ms)" "\<forall>m\<in>set ms. player_guid (ms_guid m)" "player_guid g"
  shows "slot_view (erase_slot g ms) = {e \<in> slot_view ms. fst e \<noteq> GetCounter g}"
proof -
  have "{m \<in> set ms. ms_guid m \<noteq> g} = {m \<in> set ms. GetCounter (ms_guid m) \<noteq> GetCounter g}"
    using assms(2,3) player_guid_inj by blast
  then show ?thesis
    unfolding slot_view_def erase_slot_filter [OF assms(1)] by (simp only: set_filter) (rule image_restrict [symmetric], simp)
qed

lemma slot_view_subgroup:
  assumes "distinct (map ms_guid ms)" "\<forall>m\<in>set ms. player_guid (ms_guid m)" "player_guid g"
  shows "slot_view (update_slot g (\<lambda>m. m\<lparr>ms_group := sub\<rparr>) ms) =
    (\<lambda>e. if fst e = GetCounter g then (GetCounter g, sub) else e) ` slot_view ms"
proof -
  have "(GetCounter (ms_guid m) = GetCounter g) = (ms_guid m = g)" if "m \<in> set ms" for m
    using assms player_guid_inj that by blast
  then show ?thesis
    unfolding slot_view_def update_slot_map [OF assms(1)] by (simp only: set_map image_image) (rule image_cong, simp_all)
qed

lemma slot_view_cong: "map ms_guid ms' = map ms_guid ms \<Longrightarrow> map ms_group ms' = map ms_group ms \<Longrightarrow> slot_view ms' = slot_view ms"
proof -
  have *: "map (\<lambda>m. (GetCounter (ms_guid m), ms_group m)) ms = zip (map GetCounter (map ms_guid ms)) (map ms_group ms)" for ms
    by (induction ms) simp_all
  show "map ms_guid ms' = map ms_guid ms \<Longrightarrow> map ms_group ms' = map ms_group ms \<Longrightarrow> slot_view ms' = slot_view ms"
    unfolding slot_view_def by (rule image_map_eq) (simp only: *)
qed

definition head_ok :: "u32 \<Rightarrow> u32 \<Rightarrow> u8 \<Rightarrow> groups_row list \<Rightarrow> bool" where
  "head_ok i leader type t \<longleftrightarrow> (\<exists>row. filter (\<lambda>r. gr_guid r = i) t = [row] \<and> gr_leaderGuid row = leader \<and> gr_groupType row = type)"

lemma filter_upd: "(\<And>r. gr_guid (f r) = gr_guid r) \<Longrightarrow>
    filter (\<lambda>r. gr_guid r = i) (map (\<lambda>r. if gr_guid r = i then f r else r) t) = map f (filter (\<lambda>r. gr_guid r = i) t)"
  by (induction t) auto

lemma head_ok_ops:
  "head_ok i leader type t \<Longrightarrow> head_ok i leader' type (UPD_GROUP_LEADER leader' i t)"
  "head_ok i leader type t \<Longrightarrow> head_ok i leader type' (UPD_GROUP_TYPE type' i t)"
  unfolding head_ok_def UPD_GROUP_LEADER_def UPD_GROUP_TYPE_def by (auto simp: filter_upd)

section \<open>The invariant\<close>

definition roster_ok :: "group_state \<Rightarrow> bool" where
  "roster_ok s \<longleftrightarrow> distinct (map ms_guid (m_memberSlots s)) \<and> (\<forall>m\<in>set (m_memberSlots s). player_guid (ms_guid m)) \<and>
     distinct (m_memberMgr s) \<and> set (m_memberMgr s) \<subseteq> member_guids s"

definition rows_ok :: "group_state \<Rightarrow> bool" where
  "rows_ok s \<longleftrightarrow> (stored s \<longrightarrow> member_view (m_dbStoreId s) (member_table s) = slot_view (m_memberSlots s) \<and>
     head_ok (m_dbStoreId s) (GetCounter (m_leaderGuid s)) (m_groupType s) (groups_table s))"

definition live_ok :: "group_state \<Rightarrow> bool" where
  "live_ok s \<longleftrightarrow> seats_ok s \<and> roster_ok s \<and> (IsCreated s \<longrightarrow> m_leaderGuid s \<in> member_guids s \<and> rows_ok s)"

definition rows_gone :: "group_state \<Rightarrow> bool" where
  "rows_gone s \<longleftrightarrow> (stored s \<longrightarrow> member_view (m_dbStoreId s) (member_table s) = {} \<and> m_dbStoreId s \<notin> gr_guid ` set (groups_table s))"

definition group_inv :: "group_state \<Rightarrow> bool" where
  "group_inv s \<longleftrightarrow> key_ok (member_table s) \<and> (if deleted s then rows_gone s else live_ok s)"

lemma stored_simps [simp]:
  "stored (s\<lparr>m_memberSlots := a\<rparr>) = stored s" "stored (s\<lparr>m_memberMgr := b\<rparr>) = stored s" "stored (s\<lparr>m_invitees := c\<rparr>) = stored s"
  "stored (s\<lparr>script_calls := d\<rparr>) = stored s" "stored (s\<lparr>groups_table := e\<rparr>) = stored s" "stored (s\<lparr>member_table := f\<rparr>) = stored s"
  "stored (s\<lparr>m_subGroupsCounts := h\<rparr>) = stored s" "stored (s\<lparr>m_targetIcons := i\<rparr>) = stored s" "stored (s\<lparr>m_groupType := j\<rparr>) = stored s"
  "stored (s\<lparr>m_dbStoreId := k\<rparr>) = stored s" "stored (s\<lparr>m_lootMethod := l\<rparr>) = stored s" "stored (s\<lparr>deleted := m\<rparr>) = stored s"
  "stored (s\<lparr>m_leaderGuid := n\<rparr>) = stored s" "stored (s\<lparr>m_leaderName := nn\<rparr>) = stored s" "stored (s\<lparr>m_guid := q\<rparr>) = stored s"
  "stored (s\<lparr>m_lootThreshold := r\<rparr>) = stored s" "stored (s\<lparr>m_looterGuid := t\<rparr>) = stored s" "stored (s\<lparr>m_masterLooterGuid := u\<rparr>) = stored s"
  "stored (s\<lparr>m_isLeaderOffline := v\<rparr>) = stored s" "stored (s\<lparr>m_leaderOfflineTimer := w\<rparr>) = stored s"
  by (simp_all add: stored_def isBGGroup_def isBFGroup_def)

text \<open>A raid that is not full has a subgroup that is not full.\<close>

lemma eight: "MAX_RAID_SUBGROUPS = 8"
  by (simp add: MAX_RAID_SUBGROUPS_def MAX_RAID_SIZE_def MAX_GROUP_SIZE_def)

lemma unat_of_nat_u8 [simp]: "n < 256 \<Longrightarrow> unat (of_nat n :: u8) = n"
  by (simp add: unat_of_nat take_bit_nat_eq_self)

lemma sum_count_le: "finite A \<Longrightarrow> sum (count M) A \<le> size M"
proof -
  assume "finite A"
  then have "sum (count M) A = sum (count M) (A \<inter> set_mset M)"
    by (intro sum.mono_neutral_right) (auto simp: count_eq_zero_iff)
  also have "\<dots> \<le> sum (count M) (set_mset M)" by (intro sum_mono2) auto
  finally show ?thesis by (simp add: size_multiset_overloaded_eq)
qed

lemma free_subgroup:
  assumes "exact M c" "\<forall>g. count M g \<le> MAX_GROUP_SIZE" "size M < MAX_RAID_SIZE"
  shows "\<exists>i. find (\<lambda>i. c ! i < of_nat MAX_GROUP_SIZE) [0..<MAX_RAID_SUBGROUPS] = Some i \<and> i < MAX_RAID_SUBGROUPS \<and>
    count M (of_nat i) < MAX_GROUP_SIZE"
proof -
  have c: "c ! i < of_nat MAX_GROUP_SIZE \<longleftrightarrow> count M (of_nat i) < 5" if "i < 8" for i
  proof -
    have u: "unat (of_nat i :: u8) = i" using that by simp
    have "\<forall>g. unat g < 8 \<longrightarrow> c ! unat g = of_nat (count M g)" using assms(1) by (simp add: exact_def eight)
    from this [rule_format, of "of_nat i"] u that have "c ! i = of_nat (count M (of_nat i))" by simp
    moreover have "count M (of_nat i) \<le> 5" using assms(2) by (simp add: MAX_GROUP_SIZE_def)
    ultimately show ?thesis by (simp add: word_less_nat_alt MAX_GROUP_SIZE_def)
  qed
  have "\<exists>i<8. count M (of_nat i) < 5"
  proof (rule ccontr)
    assume "\<not> (\<exists>i<8. count M (of_nat i) < 5)"
    then have "(\<Sum>i<8::nat. 5) \<le> (\<Sum>i<8. count M (of_nat i))" by (intro sum_mono) (metis lessThan_iff not_less)
    also have "\<dots> = sum (count M) (of_nat ` {..<8})"
      by (subst sum.reindex) (auto simp: inj_on_def dest: arg_cong [where f = unat])
    finally show False using sum_count_le [of "of_nat ` {..<8::nat}" M] assms(3) by (simp add: MAX_RAID_SIZE_def)
  qed
  then obtain i where "i < 8" "c ! i < of_nat MAX_GROUP_SIZE" using c by blast
  then obtain j where "find (\<lambda>i. c ! i < of_nat MAX_GROUP_SIZE) [0..<MAX_RAID_SUBGROUPS] = Some j"
    by (cases "find (\<lambda>i. c ! i < of_nat MAX_GROUP_SIZE) [0..<MAX_RAID_SUBGROUPS]") (auto simp: find_None_iff eight)
  moreover from this have "j < 8" "c ! j < of_nat MAX_GROUP_SIZE" by (auto simp: find_Some_iff eight)
  ultimately show ?thesis using c [of j] by (simp add: eight MAX_GROUP_SIZE_def)
qed

section \<open>Members come\<close>

text \<open>The state after a new member has been given a subgroup.\<close>

definition added :: "group_env \<Rightarrow> ObjectGuid \<Rightarrow> u8 \<Rightarrow> u8 list option \<Rightarrow> group_state \<Rightarrow> group_state" where
  "added env p sub counts s =
    (let s = s\<lparr>m_memberSlots := m_memberSlots s @ [\<lparr>ms_guid = p, ms_name = GetName env p, ms_group = sub, ms_flags = 0, ms_roles = 0\<rparr>],
               m_subGroupsCounts := counts, m_memberMgr := p # m_memberMgr s\<rparr>;
         s = (if isRaidGroup s then s else s\<lparr>m_targetIcons := replicate TARGET_ICONS_COUNT 0\<rparr>);
         s = (if stored s then s\<lparr>member_table := INS_GROUP_MEMBER \<lparr>mr_guid = m_dbStoreId s, mr_memberGuid = GetCounter p,
                mr_memberFlags = 0, mr_subgroup = sub, mr_roles = 0\<rparr> (member_table s)\<rparr> else s)
     in call (OnGroupAddMember p) s)"

lemma raid_simps [simp]:
  "isRaidGroup (s\<lparr>m_memberSlots := a\<rparr>) = isRaidGroup s" "isRaidGroup (s\<lparr>m_subGroupsCounts := b\<rparr>) = isRaidGroup s"
  "isRaidGroup (s\<lparr>m_memberMgr := c\<rparr>) = isRaidGroup s" "isRaidGroup (s\<lparr>script_calls := d\<rparr>) = isRaidGroup s"
  by (simp_all add: isRaidGroup_def)

lemma update_counts_None: "m_subGroupsCounts s = None \<Longrightarrow> update_counts f i s = Inr (s\<lparr>m_subGroupsCounts := None\<rparr>)"
  by (simp add: update_counts_def)

lemma AddMember_added:
  assumes ok: "seats_ok s" and free: "\<not> IsFull s"
  shows "\<exists>sub counts. AddMember env p s = Inr (True, added env p sub counts s) \<and> seats_ok (added env p sub counts s)"
proof (cases "isRaidGroup s")
  case False
  then have none: "m_subGroupsCounts s = None" "set_mset (seats s) \<subseteq> {0}" using ok by (simp_all add: seats_ok_def)
  have "size (seats s) < MAX_GROUP_SIZE" using False free by (simp add: IsFull_def GetMembersCount_def seats_def)
  then have "seats_ok (added env p 0 None s)"
    using False none by (simp add: seats_ok_def added_def Let_def call_def isRaidGroup_def seats_def)
  moreover have "AddMember env p s = Inr (True, added env p 0 None s)"
    using none(1) by (simp add: AddMember_def SubGroupCounterIncrease_def update_counts_None added_def Let_def)
  ultimately show ?thesis by blast
next
  case True
  then obtain c where c: "m_subGroupsCounts s = Some c" "exact (seats s) c" and five: "\<forall>g. count (seats s) g \<le> MAX_GROUP_SIZE"
    using ok by (auto simp: seats_ok_def)
  have "size (seats s) < MAX_RAID_SIZE" using True free by (simp add: IsFull_def GetMembersCount_def seats_def)
  then obtain i where i: "find (\<lambda>i. c ! i < of_nat MAX_GROUP_SIZE) [0..<MAX_RAID_SUBGROUPS] = Some i" "i < MAX_RAID_SUBGROUPS"
      "count (seats s) (of_nat i) < MAX_GROUP_SIZE"
    using free_subgroup [OF c(2) five] by blast
  then obtain c' where c': "bump (\<lambda>n. n + 1) (of_nat i) c = Inr c'" "exact (add_mset (of_nat i) (seats s)) c'"
    using exact_inc [OF c(2), of "of_nat i"] by (auto simp: eight)
  have "seats (added env p (of_nat i) (Some c') s) = add_mset (of_nat i) (seats s)"
    by (simp add: seats_def added_def Let_def call_def)
  then have "seats_ok (added env p (of_nat i) (Some c') s)"
    using True c' five i(3) by (simp add: seats_ok_def added_def Let_def call_def isRaidGroup_def)
  moreover have "AddMember env p s = Inr (True, added env p (of_nat i) (Some c') s)"
    using True i(1) c(1) c'(1) by (simp add: AddMember_def SubGroupCounterIncrease_def update_counts_def added_def Let_def)
  ultimately show ?thesis by blast
qed

lemma added_fields:
  "m_memberSlots (added env p sub counts s) = m_memberSlots s @ [\<lparr>ms_guid = p, ms_name = GetName env p, ms_group = sub, ms_flags = 0, ms_roles = 0\<rparr>]"
  "m_memberMgr (added env p sub counts s) = p # m_memberMgr s" "m_leaderGuid (added env p sub counts s) = m_leaderGuid s"
  "m_groupType (added env p sub counts s) = m_groupType s" "m_dbStoreId (added env p sub counts s) = m_dbStoreId s"
  "groups_table (added env p sub counts s) = groups_table s" "stored (added env p sub counts s) = stored s"
  "deleted (added env p sub counts s) = deleted s"
  "member_table (added env p sub counts s) = (if stored s then INS_GROUP_MEMBER \<lparr>mr_guid = m_dbStoreId s, mr_memberGuid = GetCounter p,
     mr_memberFlags = 0, mr_subgroup = sub, mr_roles = 0\<rparr> (member_table s) else member_table s)"
  by (simp_all add: added_def Let_def call_def)

text \<open>A player who is in no group of the table joins a group that is not full.\<close>

lemma AddMember_ok:
  assumes "seats_ok s" "\<not> IsFull s" "roster_ok s" "rows_ok s" "key_ok (member_table s)" "\<not> deleted s"
    and p: "player_guid p" "p \<notin> member_guids s" "stored s \<Longrightarrow> GetCounter p \<notin> mr_memberGuid ` set (member_table s)"
    and leader: "m_leaderGuid s \<in> insert p (member_guids s)"
  shows "\<exists>s'. AddMember env p s = Inr (True, s') \<and> group_inv s' \<and> \<not> deleted s' \<and> IsCreated s' \<and> stored s' = stored s \<and>
    member_guids s' = insert p (member_guids s) \<and> GetMembersCount s' = Suc (GetMembersCount s) \<and>
    mr_memberGuid ` set (member_table s') \<subseteq> insert (GetCounter p) (mr_memberGuid ` set (member_table s))"
proof -
  obtain sub counts where add: "AddMember env p s = Inr (True, added env p sub counts s)" and seats: "seats_ok (added env p sub counts s)"
    using AddMember_added [OF assms(1,2)] by blast
  let ?s = "added env p sub counts s"
  have guids: "member_guids ?s = insert p (member_guids s)" by (simp add: member_guids_def added_fields)
  have roster: "roster_ok ?s"
    using assms(3) p(1,2) unfolding roster_ok_def guids by (auto simp: added_fields member_guids_def)
  have "slot_view (m_memberSlots ?s) = insert (GetCounter p, sub) (slot_view (m_memberSlots s))"
    by (simp add: slot_view_def added_fields)
  then have "rows_ok ?s"
    using assms(4) p(3) by (simp add: rows_ok_def added_fields member_view_INS)
  moreover have "IsCreated ?s" by (simp add: IsCreated_def added_fields)
  moreover have "key_ok (member_table ?s)" using assms(5) by (simp add: added_fields key_ok_ops)
  moreover have "mr_memberGuid ` set (member_table ?s) \<subseteq> insert (GetCounter p) (mr_memberGuid ` set (member_table s))"
    by (auto simp: added_fields INS_GROUP_MEMBER_def)
  ultimately show ?thesis
    using add seats roster leader assms(6)
    by (simp add: group_inv_def live_ok_def guids added_fields GetMembersCount_def)
qed

section \<open>Leaders and departures\<close>

definition same_members :: "group_state \<Rightarrow> group_state \<Rightarrow> bool" where
  "same_members s s' \<longleftrightarrow> map ms_guid (m_memberSlots s') = map ms_guid (m_memberSlots s) \<and>
     map ms_group (m_memberSlots s') = map ms_group (m_memberSlots s) \<and> m_memberMgr s' = m_memberMgr s \<and>
     m_groupType s' = m_groupType s \<and> m_subGroupsCounts s' = m_subGroupsCounts s \<and> m_dbStoreId s' = m_dbStoreId s \<and>
     stored s' = stored s \<and> deleted s' = deleted s \<and> key_ok (member_table s') = key_ok (member_table s) \<and>
     member_view (m_dbStoreId s) (member_table s') = member_view (m_dbStoreId s) (member_table s)"

lemma same_members_facts:
  assumes "same_members s s'"
  shows "member_guids s' = member_guids s" "seats_ok s' = seats_ok s" "roster_ok s' = roster_ok s" "IsCreated s' = IsCreated s"
    "GetMembersCount s' = GetMembersCount s" "slot_view (m_memberSlots s') = slot_view (m_memberSlots s)"
proof -
  show guids: "member_guids s' = member_guids s"
    using assms unfolding same_members_def member_guids_def by (metis set_map)
  show "seats_ok s' = seats_ok s" using assms by (intro seats_ok_cong) (simp_all add: same_members_def seats_def)
  have "(\<forall>m\<in>set (m_memberSlots s'). player_guid (ms_guid m)) = (\<forall>m\<in>set (m_memberSlots s). player_guid (ms_guid m))"
  proof -
    have "(\<forall>m\<in>set (m_memberSlots t). player_guid (ms_guid m)) = (\<forall>g\<in>member_guids t. player_guid g)" for t :: group_state
      by (simp add: member_guids_def)
    then show ?thesis by (simp add: guids)
  qed
  then show "roster_ok s' = roster_ok s" using assms guids by (simp add: roster_ok_def same_members_def)
  have "length (m_memberSlots s') = length (m_memberSlots s)" using assms unfolding same_members_def by (metis length_map)
  then show "IsCreated s' = IsCreated s" "GetMembersCount s' = GetMembersCount s"
    by (auto simp: IsCreated_def GetMembersCount_def)
  show "slot_view (m_memberSlots s') = slot_view (m_memberSlots s)"
    using assms by (intro slot_view_cong) (simp_all add: same_members_def)
qed

text \<open>Operations that change neither members nor leader keep the invariant.\<close>

lemma live_ok_same:
  assumes "same_members s s'" "m_leaderGuid s' = m_leaderGuid s" "groups_table s' = groups_table s"
  shows "group_inv s' = group_inv s"
proof -
  have rows: "rows_ok s' = rows_ok s"
    using assms same_members_facts(6) [OF assms(1)] by (simp add: rows_ok_def same_members_def)
  have gone: "rows_gone s' = rows_gone s"
    using assms by (simp add: rows_gone_def same_members_def)
  show ?thesis
    unfolding group_inv_def live_ok_def same_members_facts [OF assms(1)] rows gone assms(2)
    using assms(1) by (simp add: same_members_def)
qed

lemma call_same: "same_members s (call c s)"
  by (simp add: same_members_def call_def)

lemma call_fields [simp]:
  "m_leaderGuid (call c s) = m_leaderGuid s" "groups_table (call c s) = groups_table s" "m_memberSlots (call c s) = m_memberSlots s"
  "m_memberMgr (call c s) = m_memberMgr s" "m_groupType (call c s) = m_groupType s" "m_subGroupsCounts (call c s) = m_subGroupsCounts s"
  "m_dbStoreId (call c s) = m_dbStoreId s" "member_table (call c s) = member_table s" "stored (call c s) = stored s"
  "deleted (call c s) = deleted s" "m_bgGroup (call c s) = m_bgGroup s" "m_bfGroup (call c s) = m_bfGroup s"
  "isLFGGroup (call c s) = isLFGGroup s" "isBGGroup (call c s) = isBGGroup s" "isBFGroup (call c s) = isBFGroup s"
  by (simp_all add: call_def isLFGGroup_def isBGGroup_def isBFGroup_def)

lemma group_inv_call: "group_inv (call c s) = group_inv s"
  by (rule live_ok_same [OF call_same]) simp_all

lemma toggle_fields [simp]:
  "ms_guid (ToggleGroupMemberFlag f b m) = ms_guid m" "ms_group (ToggleGroupMemberFlag f b m) = ms_group m"
  by (simp_all add: ToggleGroupMemberFlag_def)

lemma ChangeLeader_same: "same_members s (ChangeLeader env g s)"
  by (simp add: ChangeLeader_def same_members_def Let_def)

lemma ChangeLeader_leader:
  "m_leaderGuid (ChangeLeader env g s) = (if g \<in> member_guids s \<and> FindConnectedPlayer env g then g else m_leaderGuid s)"
  by (simp add: ChangeLeader_def Let_def getMemberSlot_None)

lemma ChangeLeader_rows: "rows_ok s \<Longrightarrow> rows_ok (ChangeLeader env g s)"
proof -
  have v: "slot_view (m_memberSlots (ChangeLeader env g s)) = slot_view (m_memberSlots s)"
    by (rule same_members_facts(6) [OF ChangeLeader_same])
  show "rows_ok s \<Longrightarrow> rows_ok (ChangeLeader env g s)"
    unfolding rows_ok_def v by (auto simp: ChangeLeader_def Let_def head_ok_ops)
qed

lemma ChangeLeader_inv: "group_inv s \<Longrightarrow> \<not> deleted s \<Longrightarrow> group_inv (ChangeLeader env g s)"
proof -
  note same = ChangeLeader_same [of s env g]
  have "deleted (ChangeLeader env g s) = deleted s" "key_ok (member_table (ChangeLeader env g s)) = key_ok (member_table s)"
    using same by (simp_all add: same_members_def)
  then show "group_inv s \<Longrightarrow> \<not> deleted s \<Longrightarrow> group_inv (ChangeLeader env g s)"
    using ChangeLeader_rows [of s env g] ChangeLeader_leader [of env g s]
    by (auto simp: group_inv_def live_ok_def same_members_facts [OF same])
qed

lemma Disband_inv: "key_ok (member_table s) \<Longrightarrow> group_inv (Disband env s) \<and> deleted (Disband env s)"
  by (auto simp: group_inv_def Disband_def Let_def key_ok_ops rows_gone_def member_view_ALL DEL_GROUP_def)

text \<open>Without its slot a member leaves the counters exact and the rows in step.\<close>

definition without :: "ObjectGuid \<Rightarrow> ObjectGuid list \<Rightarrow> u8 list option \<Rightarrow> group_state \<Rightarrow> group_state" where
  "without g mgr counts s =
    (if stored s then s\<lparr>m_memberMgr := mgr, member_table := DEL_GROUP_MEMBER (GetCounter g) (member_table s),
       m_subGroupsCounts := counts, m_memberSlots := erase_slot g (m_memberSlots s)\<rparr>
     else s\<lparr>m_memberMgr := mgr, m_subGroupsCounts := counts, m_memberSlots := erase_slot g (m_memberSlots s)\<rparr>)"

lemma without_fields:
  "m_memberSlots (without g mgr c s) = erase_slot g (m_memberSlots s)" "m_memberMgr (without g mgr c s) = mgr"
  "m_subGroupsCounts (without g mgr c s) = c" "m_groupType (without g mgr c s) = m_groupType s"
  "m_leaderGuid (without g mgr c s) = m_leaderGuid s" "m_dbStoreId (without g mgr c s) = m_dbStoreId s"
  "groups_table (without g mgr c s) = groups_table s" "stored (without g mgr c s) = stored s" "deleted (without g mgr c s) = deleted s"
  "member_table (without g mgr c s) = (if stored s then DEL_GROUP_MEMBER (GetCounter g) (member_table s) else member_table s)"
  by (simp_all add: without_def)

lemma seats_without:
  assumes "seats_ok s" "getMemberSlot g s = Some slot"
  shows "\<exists>c. (\<forall>t. m_subGroupsCounts t = m_subGroupsCounts s \<longrightarrow>
      SubGroupCounterDecrease (ms_group slot) t = Inr (t\<lparr>m_subGroupsCounts := c\<rparr>)) \<and> (\<forall>mgr. seats_ok (without g mgr c s))"
proof -
  have M: "seats (without g mgr c s) = seats s - {#ms_group slot#}" for mgr c
    using assms(2) mset_erase_slot by (simp add: seats_def without_fields getMemberSlot_def)
  have raid: "isRaidGroup (without g mgr c s) = isRaidGroup s" for mgr c by (simp add: isRaidGroup_def without_fields)
  show ?thesis
  proof (cases "isRaidGroup s")
    case True
    then obtain c where c: "m_subGroupsCounts s = Some c" "exact (seats s) c" and five: "\<forall>g. count (seats s) g \<le> MAX_GROUP_SIZE"
      using assms(1) by (auto simp: seats_ok_def)
    have "ms_group slot \<in># seats s" using getMemberSlot_Some [OF assms(2)] by (simp add: seats_def)
    then obtain c' where c': "bump (\<lambda>n. n - 1) (ms_group slot) c = Inr c'" "exact (seats s - {#ms_group slot#}) c'"
      using exact_dec [OF c(2)] by blast
    have "seats_ok (without g mgr (Some c') s)" for mgr
      using True c'(2) five unfolding seats_ok_def M raid by (auto simp: without_fields intro: le_trans [OF diff_le_self])
    then show ?thesis using c(1) c'(1) by (intro exI [of _ "Some c'"]) (simp add: SubGroupCounterDecrease_def update_counts_def)
  next
    case False
    then have "m_subGroupsCounts s = None" "set_mset (seats s) \<subseteq> {0}" "size (seats s) \<le> MAX_GROUP_SIZE"
      using assms(1) by (simp_all add: seats_ok_def)
    moreover from this have "set_mset (seats s - {#ms_group slot#}) \<subseteq> {0}" "size (seats s - {#ms_group slot#}) \<le> MAX_GROUP_SIZE"
      by (meson in_diffD subset_iff, meson size_Diff1_le le_trans)
    ultimately have "seats_ok (without g mgr None s)" for mgr
      using False unfolding seats_ok_def M raid by (simp add: without_fields)
    then show ?thesis
      using \<open>m_subGroupsCounts s = None\<close> by (intro exI [of _ None]) (simp add: SubGroupCounterDecrease_def update_counts_None)
  qed
qed

lemma remove_member_without:
  assumes "seats_ok s" "getMemberSlot g s = Some slot"
  shows "\<exists>mgr c. seats_ok (without g mgr c s) \<and>
    mgr = (if stored s then remove1 g else id) ((if FindConnectedPlayer env g then remove1 g else id) (m_memberMgr s)) \<and>
    remove_member env g s = Inr (let s = without g mgr c s in
      if m_leaderGuid s = g
      then case find (\<lambda>m. FindConnectedPlayer env (ms_guid m)) (m_memberSlots s) of None \<Rightarrow> s | Some m \<Rightarrow> ChangeLeader env (ms_guid m) s
      else s)"
proof -
  obtain c where c: "\<And>t. m_subGroupsCounts t = m_subGroupsCounts s \<Longrightarrow>
      SubGroupCounterDecrease (ms_group slot) t = Inr (t\<lparr>m_subGroupsCounts := c\<rparr>)" "\<And>mgr. seats_ok (without g mgr c s)"
    using seats_without [OF assms] by blast
  let ?mgr = "(if stored s then remove1 g else id) ((if FindConnectedPlayer env g then remove1 g else id) (m_memberMgr s))"
  have slot: "getMemberSlot g t = Some slot" if "m_memberSlots t = m_memberSlots s" for t :: group_state
    using assms(2) that by (simp add: getMemberSlot_def)
  have "remove_member env g s = Inr (let s = without g ?mgr c s in
      if m_leaderGuid s = g
      then case find (\<lambda>m. FindConnectedPlayer env (ms_guid m)) (m_memberSlots s) of None \<Rightarrow> s | Some m \<Rightarrow> ChangeLeader env (ms_guid m) s
      else s)"
    by (cases "stored s"; cases "FindConnectedPlayer env g") (simp_all add: remove_member_def Let_def slot c(1) without_def)
  then show ?thesis using c(2) by blast
qed

definition linked_ok :: "group_env \<Rightarrow> group_state \<Rightarrow> bool" where
  "linked_ok env s \<longleftrightarrow> (\<forall>g\<in>set (m_memberMgr s). FindConnectedPlayer env g)"

lemma without_ok:
  assumes "roster_ok s" "g \<in> member_guids s" "set mgr = set (m_memberMgr s) - {g}" "distinct mgr"
  shows "roster_ok (without g mgr c s)" "rows_ok s \<Longrightarrow> rows_ok (without g mgr c s)"
    "key_ok (member_table s) \<Longrightarrow> key_ok (member_table (without g mgr c s))" "member_guids (without g mgr c s) = member_guids s - {g}"
proof -
  have d: "distinct (map ms_guid (m_memberSlots s))" "\<forall>m\<in>set (m_memberSlots s). player_guid (ms_guid m)"
    "set (m_memberMgr s) \<subseteq> member_guids s"
    using assms(1) by (simp_all add: roster_ok_def)
  have pg: "player_guid g" using assms(2) d(2) by (auto simp: member_guids_def)
  show guids: "member_guids (without g mgr c s) = member_guids s - {g}"
    by (auto simp: member_guids_def without_fields erase_slot_filter [OF d(1)])
  have "set mgr \<subseteq> member_guids s - {g}" using assms(3) d(3) by blast
  then show "roster_ok (without g mgr c s)"
    using d assms(4) unfolding roster_ok_def guids
    by (simp add: without_fields erase_slot_filter [OF d(1)] distinct_filter_key)
  show "rows_ok s \<Longrightarrow> rows_ok (without g mgr c s)"
    by (simp add: rows_ok_def without_fields member_view_DEL slot_view_erase [OF d(1,2) pg])
  show "key_ok (member_table s) \<Longrightarrow> key_ok (member_table (without g mgr c s))" by (simp add: without_fields key_ok_ops)
qed

text \<open>A member who leaves takes his row, his seat and his reference with him, and the group gets a new
  leader when he was it and somebody is there.\<close>

lemma remove_member_ok:
  assumes live: "live_ok s" "key_ok (member_table s)" "\<not> deleted s" and g: "g \<in> member_guids s" and link: "linked_ok env s"
  shows "\<exists>s'. remove_member env g s = Inr s' \<and> seats_ok s' \<and> roster_ok s' \<and> rows_ok s' \<and> key_ok (member_table s') \<and>
    member_guids s' = member_guids s - {g} \<and> \<not> deleted s' \<and> stored s' = stored s \<and> m_groupType s' = m_groupType s \<and>
    m_dbStoreId s' = m_dbStoreId s \<and> (m_memberMgr s' = [] \<or> m_leaderGuid s' \<in> member_guids s')"
proof -
  have created: "IsCreated s" using g by (auto simp: IsCreated_def member_guids_def)
  have ok: "seats_ok s" "roster_ok s" "rows_ok s" "m_leaderGuid s \<in> member_guids s" using live(1) created by (simp_all add: live_ok_def)
  obtain slot where "getMemberSlot g s = Some slot" using g getMemberSlot_None by blast
  then obtain mgr c where mc: "seats_ok (without g mgr c s)"
      "mgr = (if stored s then remove1 g else id) ((if FindConnectedPlayer env g then remove1 g else id) (m_memberMgr s))"
      "remove_member env g s = Inr (let s = without g mgr c s in
        if m_leaderGuid s = g
        then case find (\<lambda>m. FindConnectedPlayer env (ms_guid m)) (m_memberSlots s) of None \<Rightarrow> s | Some m \<Rightarrow> ChangeLeader env (ms_guid m) s
        else s)"
    using remove_member_without [OF ok(1)] by blast
  have dm: "distinct (m_memberMgr s)" using ok(2) by (simp add: roster_ok_def)
  have "g \<notin> set (m_memberMgr s)" if "\<not> FindConnectedPlayer env g" using link that by (auto simp: linked_ok_def)
  then have mgr: "set mgr = set (m_memberMgr s) - {g}" "distinct mgr"
    unfolding mc(2) using dm by (auto simp: distinct_remove1 set_remove1_eq)
  let ?w = "without g mgr c s"
  note w = without_ok [OF ok(2) g mgr, of c]
  show ?thesis
  proof (cases "m_leaderGuid s = g \<and> find (\<lambda>m. FindConnectedPlayer env (ms_guid m)) (m_memberSlots ?w) \<noteq> None")
    case True
    then obtain m where m: "find (\<lambda>m. FindConnectedPlayer env (ms_guid m)) (m_memberSlots ?w) = Some m" by blast
    then have mm: "ms_guid m \<in> member_guids ?w" "FindConnectedPlayer env (ms_guid m)"
      by (auto simp: find_Some_iff member_guids_def)
    let ?r = "ChangeLeader env (ms_guid m) ?w"
    have r: "remove_member env g s = Inr ?r" unfolding mc(3) using True m by (simp add: without_fields)
    note same = ChangeLeader_same [of ?w env "ms_guid m"]
    have "deleted ?r = deleted ?w" "stored ?r = stored ?w" "m_groupType ?r = m_groupType ?w" "m_dbStoreId ?r = m_dbStoreId ?w"
      "key_ok (member_table ?r) = key_ok (member_table ?w)"
      using same by (simp_all add: same_members_def)
    moreover have "m_leaderGuid ?r = ms_guid m" using mm by (simp add: ChangeLeader_leader)
    ultimately show ?thesis
      using r mc(1) w ok(3) live(2,3) mm(1) ChangeLeader_rows [of ?w env "ms_guid m"] same_members_facts(1-3) [OF same]
      by (simp add: without_fields)
  next
    case False
    then have r: "remove_member env g s = Inr ?w" unfolding mc(3) by (auto simp: without_fields Let_def)
    have "mgr = [] \<or> m_leaderGuid s \<in> member_guids s - {g}"
    proof (cases "m_leaderGuid s = g")
      case True
      with False have none: "\<forall>m\<in>set (m_memberSlots ?w). \<not> FindConnectedPlayer env (ms_guid m)" by (simp add: find_None_iff)
      have "set mgr \<subseteq> member_guids ?w" using w(1) by (simp add: roster_ok_def without_fields)
      then have "\<forall>h\<in>set mgr. \<not> FindConnectedPlayer env h" using none by (auto simp: member_guids_def)
      then have "set mgr = {}" using link mgr(1) by (auto simp: linked_ok_def)
      then show ?thesis by simp
    qed (use ok(4) in auto)
    then show ?thesis using r mc(1) w ok(3) live(2,3) by (simp add: without_fields)
  qed
qed

lemma RemoveMember_inv:
  assumes inv: "group_inv s" "\<not> deleted s" and g: "g \<in> member_guids s" and link: "linked_ok env s"
  shows "\<exists>b s'. RemoveMember env g method s = Inr (b, s') \<and> group_inv s' \<and>
    (\<not> (isLFGGroup s \<and> method = GROUP_REMOVEMETHOD_KICK) \<longrightarrow> deleted s' \<or> member_guids s' = member_guids s - {g})"
proof -
  let ?s = "call (OnGroupRemoveMember g method) s"
  have ok: "group_inv ?s" "\<not> deleted ?s" "g \<in> member_guids ?s" "linked_ok env ?s" "key_ok (member_table ?s)" "live_ok ?s"
    using inv g link group_inv_call [of "OnGroupRemoveMember g method" s]
    by (simp_all add: member_guids_def linked_ok_def group_inv_def)
  obtain s' where s': "remove_member env g ?s = Inr s'" "seats_ok s'" "roster_ok s'" "rows_ok s'" "key_ok (member_table s')"
      "member_guids s' = member_guids ?s - {g}" "\<not> deleted s'" "m_groupType s' = m_groupType ?s"
      "m_memberMgr s' = [] \<or> m_leaderGuid s' \<in> member_guids s'"
    using remove_member_ok [OF ok(6,5,2,3,4)] by blast
  have live: "group_inv s'" if "m_memberMgr s' \<noteq> []"
    using s' that by (simp add: group_inv_def live_ok_def)
  have guids: "member_guids s' = member_guids s - {g}" using s'(6) by (simp add: member_guids_def)
  define r where "r = (if isLFGGroup s' \<and> GetMembersCount s' = 1 \<and>
        (GetDungeonMapId env = 0 \<or> \<not> FindConnectedPlayer env (m_leaderGuid s') \<or>
         IsAlive env (m_leaderGuid s') \<and> GetMapId env (m_leaderGuid s') \<noteq> GetDungeonMapId env)
      then Inr (False, Disband env s')
      else if length (m_memberMgr s') < (if isLFGGroup s' \<or> isBGGroup s' then 1 else 2) then Inr (True, Disband env s')
      else Inr (True, s') :: group_error + bool \<times> group_state)"
  have leave: "\<exists>b t. r = Inr (b, t) \<and> group_inv t \<and> (deleted t \<or> member_guids t = member_guids s - {g})"
  proof (cases "length (m_memberMgr s') < (if isLFGGroup s' \<or> isBGGroup s' then 1 else 2)")
    case True
    then have "r = Inr (False, Disband env s') \<or> r = Inr (True, Disband env s')" by (simp add: r_def)
    then show ?thesis using Disband_inv [OF s'(5)] by blast
  next
    case False
    then have "m_memberMgr s' \<noteq> []" by (auto split: if_splits)
    moreover have "r = Inr (False, Disband env s') \<or> r = Inr (True, s')" using False by (simp add: r_def)
    ultimately show ?thesis using Disband_inv [OF s'(5)] live guids by blast
  qed
  show ?thesis
  proof (cases "isLFGGroup s \<and> method = GROUP_REMOVEMETHOD_KICK")
    case True
    then show ?thesis using ok(1) by (simp add: RemoveMember_def Let_def isLFGGroup_def)
  next
    case False
    have "RemoveMember env g method s = r \<or> RemoveMember env g method s = Inr (False, Disband env ?s)"
      unfolding RemoveMember_def Let_def call_fields if_not_P [OF False] s'(1) andThen_simps r_def by argo
    then show ?thesis using leave Disband_inv [OF ok(5)] by blast
  qed
qed

section \<open>The other operations\<close>

lemma unique_slots [simp]:
  "map ms_guid (m_memberSlots (RemoveUniqueGroupMemberFlag f s)) = map ms_guid (m_memberSlots s)"
  "map ms_group (m_memberSlots (RemoveUniqueGroupMemberFlag f s)) = map ms_group (m_memberSlots s)"
  by (simp_all add: RemoveUniqueGroupMemberFlag_def comp_def if_distrib cong: if_cong)

lemma RemoveUnique_same: "same_members s (RemoveUniqueGroupMemberFlag f s)"
  unfolding same_members_def unique_slots by (simp add: RemoveUniqueGroupMemberFlag_def)

lemma same_members_trans: "same_members s t \<Longrightarrow> same_members t u \<Longrightarrow> same_members s u"
  by (simp add: same_members_def)

lemma key_ok_FLAG: "key_ok (UPD_GROUP_MEMBER_FLAG fl c t) = key_ok t"
  by (simp add: key_ok_def UPD_GROUP_MEMBER_FLAG_def comp_def if_distrib cong: if_cong)

lemma toggle_same:
  "same_members s (s\<lparr>m_memberSlots := update_slot g (ToggleGroupMemberFlag f b) (m_memberSlots s),
     member_table := UPD_GROUP_MEMBER_FLAG fl c (member_table s)\<rparr>)"
  by (simp add: same_members_def key_ok_FLAG member_view_FLAG)

lemmas unique_toggle_same = same_members_trans [OF RemoveUnique_same toggle_same]

lemma same_members_refl: "same_members s s"
  by (simp add: same_members_def)

lemma SetGroupMemberFlag_same: "same_members s (SetGroupMemberFlag g b f s)"
  unfolding SetGroupMemberFlag_def Let_def
  by (simp add: same_members_refl toggle_same unique_toggle_same del: insert_iff)

lemma flag_fields [simp]:
  "m_leaderGuid (SetGroupMemberFlag g b f s) = m_leaderGuid s" "groups_table (SetGroupMemberFlag g b f s) = groups_table s"
  "m_leaderGuid (RemoveUniqueGroupMemberFlag f s) = m_leaderGuid s" "groups_table (RemoveUniqueGroupMemberFlag f s) = groups_table s"
  by (simp_all add: SetGroupMemberFlag_def RemoveUniqueGroupMemberFlag_def Let_def)

lemma SetGroupMemberFlag_inv: "group_inv (SetGroupMemberFlag g b f s) = group_inv s"
  by (rule live_ok_same [OF SetGroupMemberFlag_same]) simp_all

lemma RemoveUnique_inv: "group_inv (RemoveUniqueGroupMemberFlag f s) = group_inv s"
  by (rule live_ok_same [OF RemoveUnique_same]) simp_all

lemma small_ops_inv:
  "group_inv (SetLfgRoles g r s) = group_inv s" "group_inv (SetTargetIcon i t s) = group_inv s"
  "group_inv (RemoveInvite g s) = group_inv s" "group_inv (RemoveAllInvites s) = group_inv s"
  "group_inv (StartLeaderOfflineTimer s) = group_inv s" "group_inv (StopLeaderOfflineTimer s) = group_inv s"
  by (rule live_ok_same; simp add: same_members_def SetLfgRoles_def SetTargetIcon_def RemoveInvite_def RemoveAllInvites_def
      StartLeaderOfflineTimer_def StopLeaderOfflineTimer_def Let_def)+

lemma Group_Update_inv: "group_inv s \<Longrightarrow> \<not> deleted s \<Longrightarrow> group_inv (Group_Update env diff s)"
proof -
  assume inv: "group_inv s" "\<not> deleted s"
  let ?s = "s\<lparr>m_leaderOfflineTimer := m_leaderOfflineTimer s - diff\<rparr>"
  have s: "group_inv ?s" "\<not> deleted ?s"
    using inv live_ok_same [of s ?s] by (simp_all add: same_members_def stored_def isBGGroup_def isBFGroup_def)
  then have "group_inv (SelectNewPartyOrRaidLeader env ?s)"
    by (auto simp: SelectNewPartyOrRaidLeader_def Let_def ChangeLeader_inv split: option.split)
  moreover have "group_inv (t\<lparr>m_isLeaderOffline := False\<rparr>) = group_inv t" for t :: group_state
    by (rule live_ok_same) (simp_all add: same_members_def stored_def isBGGroup_def isBFGroup_def)
  ultimately show ?thesis using inv s by (simp add: Group_Update_def Let_def)
qed

lemma type_bits: "(t OR 12) AND 2 = t AND (2 :: u8)" "(t OR 2) AND 2 = (2 :: u8)"
  by (simp_all add: bit.conj_disj_distrib2)

lemma ConvertToLFG_inv:
  assumes "group_inv s" "\<not> deleted s"
  shows "group_inv (ConvertToLFG s)"
proof -
  let ?t = "ConvertToLFG s"
  have f: "m_memberSlots ?t = m_memberSlots s" "m_memberMgr ?t = m_memberMgr s" "m_leaderGuid ?t = m_leaderGuid s"
    "m_subGroupsCounts ?t = m_subGroupsCounts s" "m_dbStoreId ?t = m_dbStoreId s" "member_table ?t = member_table s"
    "stored ?t = stored s" "deleted ?t = deleted s" "isRaidGroup ?t = isRaidGroup s"
    by (simp_all add: ConvertToLFG_def Let_def isRaidGroup_def type_bits)
  have "rows_ok s \<Longrightarrow> rows_ok ?t"
    unfolding rows_ok_def f by (auto simp: ConvertToLFG_def Let_def head_ok_ops)
  moreover have "roster_ok ?t = roster_ok s" "member_guids ?t = member_guids s" "IsCreated ?t = IsCreated s" "seats_ok ?t = seats_ok s"
    by (simp_all add: roster_ok_def member_guids_def IsCreated_def seats_ok_def seats_def f)
  ultimately show ?thesis using assms by (simp add: group_inv_def live_ok_def f)
qed

text \<open>A party that becomes a raid sits in the first subgroup.\<close>

lemma ConvertToRaid_inv:
  assumes "group_inv s" "\<not> deleted s"
  shows "\<exists>s'. ConvertToRaid s = Inr s' \<and> group_inv s' \<and> \<not> deleted s'"
proof -
  have ok: "seats_ok s" "roster_ok s" "IsCreated s \<longrightarrow> m_leaderGuid s \<in> member_guids s \<and> rows_ok s" "key_ok (member_table s)"
    using assms by (simp_all add: group_inv_def live_ok_def)
  have seats: "(\<forall>m\<in>set (m_memberSlots s). unat (ms_group m) < MAX_RAID_SUBGROUPS) \<and> (\<forall>g. count (seats s) g \<le> MAX_GROUP_SIZE)"
  proof (cases "isRaidGroup s")
    case True
    then show ?thesis using ok(1) by (auto simp: seats_ok_def exact_def seats_def)
  next
    case False
    then have "set_mset (seats s) \<subseteq> {0}" "size (seats s) \<le> MAX_GROUP_SIZE" using ok(1) by (simp_all add: seats_ok_def)
    then show ?thesis
      by (auto simp: eight seats_def intro: le_trans [OF count_le_size])
  qed
  then obtain c where c: "count_slots (m_memberSlots s) (replicate MAX_RAID_SUBGROUPS 0) = Inr c" "exact (seats s) c"
    using exact_count_slots [OF exact_zero, of "m_memberSlots s"] by (auto simp: seats_def)
  let ?r = "s\<lparr>m_groupType := m_groupType s OR GROUPTYPE_RAID, m_subGroupsCounts := Some c\<rparr>"
  define t where "t = (if stored s then ?r\<lparr>groups_table := UPD_GROUP_TYPE (m_groupType ?r) (m_dbStoreId s) (groups_table s)\<rparr> else ?r)"
  have conv: "ConvertToRaid s = Inr t" using c(1) by (simp add: ConvertToRaid_def initRaidSubGroupsCounter_def t_def)
  have f: "m_memberSlots t = m_memberSlots s" "m_memberMgr t = m_memberMgr s" "m_leaderGuid t = m_leaderGuid s"
    "m_subGroupsCounts t = Some c" "m_dbStoreId t = m_dbStoreId s" "member_table t = member_table s"
    "stored t = stored s" "deleted t = deleted s" "isRaidGroup t"
    by (simp_all add: isRaidGroup_def type_bits t_def)
  have "rows_ok s \<Longrightarrow> rows_ok t"
    unfolding rows_ok_def f by (auto simp: head_ok_ops t_def)
  moreover have "roster_ok t = roster_ok s" "member_guids t = member_guids s" "IsCreated t = IsCreated s" "seats t = seats s"
    by (simp_all add: roster_ok_def member_guids_def IsCreated_def seats_def f)
  moreover from this(4) have "seats_ok t" using c(2) seats f(4,9) by (simp add: seats_ok_def)
  ultimately have "group_inv t" using ok assms(2) f(3,6,8) by (simp add: group_inv_def live_ok_def)
  then show ?thesis using conv f(8) assms(2) by blast
qed

lemma ChangeMembersGroup_inv:
  assumes inv: "group_inv s" "\<not> deleted s" and n: "unat n < MAX_RAID_SUBGROUPS" "HasFreeSlotSubGroup n s"
  shows "\<exists>s'. ChangeMembersGroup g n s = Inr s' \<and> group_inv s' \<and> \<not> deleted s'"
proof (cases "\<not> isRaidGroup s \<or> getMemberSlot g s = None \<or> GetMemberGroup g s = n")
  case True
  then show ?thesis using inv by (auto simp: ChangeMembersGroup_def Let_def)
next
  case False
  then obtain slot where raid: "isRaidGroup s" and slot: "getMemberSlot g s = Some slot" "ms_group slot \<noteq> n"
    by (auto simp: GetMemberGroup_def)
  have g: "g \<in> member_guids s" using slot(1) getMemberSlot_None [of g s] by simp
  then have ok: "seats_ok s" "roster_ok s" "m_leaderGuid s \<in> member_guids s" "rows_ok s" "key_ok (member_table s)"
    using inv by (auto simp: group_inv_def live_ok_def IsCreated_def member_guids_def)
  obtain c where c: "m_subGroupsCounts s = Some c" "exact (seats s) c" and five: "\<forall>h. count (seats s) h \<le> MAX_GROUP_SIZE"
    using ok(1) raid by (auto simp: seats_ok_def)
  obtain c1 where c1: "bump (\<lambda>x. x + 1) n c = Inr c1" "exact (add_mset n (seats s)) c1" using exact_inc [OF c(2) n(1)] by blast
  have "ms_group slot \<in># seats s" using getMemberSlot_Some [OF slot(1)] by (simp add: seats_def)
  then obtain c2 where c2: "bump (\<lambda>x. x - 1) (ms_group slot) c1 = Inr c2" "exact (add_mset n (seats s) - {#ms_group slot#}) c2"
    using exact_dec [OF c1(2), of "ms_group slot"] by auto
  let ?r = "s\<lparr>m_memberSlots := update_slot g (\<lambda>m. m\<lparr>ms_group := n\<rparr>) (m_memberSlots s), m_subGroupsCounts := Some c2\<rparr>"
  define t where "t = (if stored s then ?r\<lparr>member_table := UPD_GROUP_MEMBER_SUBGROUP n (GetCounter g) (member_table s)\<rparr> else ?r)"
  have conv: "ChangeMembersGroup g n s = Inr t"
    using raid slot c(1) c1(1) c2(1)
    by (simp add: ChangeMembersGroup_def Let_def GetMemberGroup_def SubGroupCounterIncrease_def SubGroupCounterDecrease_def update_counts_def t_def)
  have f: "m_memberSlots t = update_slot g (\<lambda>m. m\<lparr>ms_group := n\<rparr>) (m_memberSlots s)" "m_memberMgr t = m_memberMgr s"
    "m_leaderGuid t = m_leaderGuid s" "m_subGroupsCounts t = Some c2" "m_dbStoreId t = m_dbStoreId s" "stored t = stored s"
    "deleted t = deleted s" "isRaidGroup t" "groups_table t = groups_table s" "m_groupType t = m_groupType s"
    "member_table t = (if stored s then UPD_GROUP_MEMBER_SUBGROUP n (GetCounter g) (member_table s) else member_table s)"
    using raid by (simp_all add: isRaidGroup_def t_def)
  have guids: "map ms_guid (m_memberSlots t) = map ms_guid (m_memberSlots s)" unfolding f(1) by simp
  then have mem: "member_guids t = member_guids s" unfolding member_guids_def by (metis set_map)
  have pl: "(\<forall>m\<in>set (m_memberSlots u). player_guid (ms_guid m)) = (\<forall>h\<in>member_guids u. player_guid h)" for u :: group_state
    by (simp add: member_guids_def)
  have roster: "roster_ok t" using ok(2) unfolding roster_ok_def pl mem guids f(2) .
  have d: "distinct (map ms_guid (m_memberSlots s))" "\<forall>m\<in>set (m_memberSlots s). player_guid (ms_guid m)"
    using ok(2) by (simp_all add: roster_ok_def)
  have pg: "player_guid g" using d(2) g by (auto simp: member_guids_def)
  have M: "seats t = add_mset n (seats s) - {#ms_group slot#}"
    unfolding seats_def f(1) using mset_update_slot [OF slot(1) [unfolded getMemberSlot_def], of "\<lambda>m. m\<lparr>ms_group := n\<rparr>"] slot(2) by simp
  have "c ! unat n = of_nat (count (seats s) n)" using c(2) n(1) by (simp add: exact_def)
  moreover have "count (seats s) n \<le> 5" using five by (simp add: MAX_GROUP_SIZE_def)
  ultimately have "count (seats s) n < MAX_GROUP_SIZE"
    using n(2) c(1) by (simp add: HasFreeSlotSubGroup_def MAX_GROUP_SIZE_def word_less_nat_alt)
  then have "\<forall>h. count (seats t) h \<le> MAX_GROUP_SIZE"
    unfolding M using five by (auto intro: le_trans [OF diff_le_self])
  then have seats: "seats_ok t" using c2(2) f(4,8) unfolding seats_ok_def M by simp
  have rows: "rows_ok t"
    using ok(4) unfolding rows_ok_def f by (simp add: member_view_SUBGROUP slot_view_subgroup [OF d pg])
  have "key_ok (member_table t)" using ok(5) unfolding f by (simp add: key_ok_ops)
  then have "group_inv t"
    using seats roster rows ok(3) mem f(3,7) inv(2) by (simp add: group_inv_def live_ok_def)
  then show ?thesis using conv f(7) inv(2) by blast
qed

text \<open>A player who joins a stored group is in no group of the table; a new group has an unused id.\<close>

definition newcomer :: "ObjectGuid \<Rightarrow> group_state \<Rightarrow> bool" where
  "newcomer p s \<longleftrightarrow> player_guid p \<and> p \<notin> member_guids s \<and> (stored s \<longrightarrow> GetCounter p \<notin> mr_memberGuid ` set (member_table s))"

definition fresh_store :: "u32 \<Rightarrow> group_state \<Rightarrow> bool" where
  "fresh_store i s \<longleftrightarrow> i \<notin> gr_guid ` set (groups_table s) \<and> member_view i (member_table s) = {}"

lemma head_ok_INS: "gr_guid row \<notin> gr_guid ` set t \<Longrightarrow> head_ok (gr_guid row) (gr_leaderGuid row) (gr_groupType row) (INS_GROUP row t)"
proof -
  assume n: "gr_guid row \<notin> gr_guid ` set t"
  then have "INS_GROUP row t = t @ [row]" unfolding INS_GROUP_def by (metis image_eqI)
  moreover have "filter (\<lambda>r. gr_guid r = gr_guid row) t = []" using n by (metis (mono_tags, lifting) filter_False image_eqI)
  ultimately show ?thesis by (simp add: head_ok_def)
qed

text \<open>The state of a new group when its leader is added.\<close>

definition founded :: "group_env \<Rightarrow> ObjectGuid \<Rightarrow> u32 \<Rightarrow> ObjectGuid \<Rightarrow> u8 \<Rightarrow> u8 list option \<Rightarrow> u8 \<Rightarrow> group_state \<Rightarrow> group_state" where
  "founded env guid i leader type counts loot s =
    (let s = s\<lparr>m_guid := guid, m_leaderGuid := leader, m_leaderName := GetName env leader, m_groupType := type, m_subGroupsCounts := counts,
               m_lootMethod := loot, m_lootThreshold := 2, m_looterGuid := leader, m_masterLooterGuid := 0\<rparr>
     in if stored s then s\<lparr>m_dbStoreId := i, groups_table := INS_GROUP \<lparr>gr_guid = i, gr_leaderGuid = GetCounter leader,
          gr_lootMethod = loot, gr_looterGuid = GetCounter leader, gr_lootThreshold = 2, gr_icons = m_targetIcons s, gr_groupType = type,
          gr_masterLooterGuid = GetCounter 0\<rparr> (groups_table s)\<rparr> else s)"

lemma founded_fields:
  "m_memberSlots (founded env guid i l t c lo s) = m_memberSlots s" "m_memberMgr (founded env guid i l t c lo s) = m_memberMgr s"
  "m_leaderGuid (founded env guid i l t c lo s) = l" "m_groupType (founded env guid i l t c lo s) = t"
  "m_subGroupsCounts (founded env guid i l t c lo s) = c" "stored (founded env guid i l t c lo s) = stored s"
  "member_table (founded env guid i l t c lo s) = member_table s" "deleted (founded env guid i l t c lo s) = deleted s"
  "stored s \<Longrightarrow> m_dbStoreId (founded env guid i l t c lo s) = i"
  by (simp_all add: founded_def Let_def)

lemma Create_founded:
  assumes "seats_ok s" "\<not> IsCreated s"
  shows "\<exists>t c lo. Create env guid i leader s = (if stored s
      then andThen (AddMember env leader (founded env guid i leader t c lo s)) (\<lambda>(ok, s). if ok then Inr (True, s) else Inl AssertFailed)
      else AddMember env leader (founded env guid i leader t c lo s)) \<and> seats_ok (founded env guid i leader t c lo s)"
proof -
  define t where "t = (if isBGGroup s \<or> isBFGroup s then GROUPTYPE_BGRAID else m_groupType s)"
  define c where "c = (if t AND GROUPTYPE_RAID \<noteq> 0 then Some (replicate MAX_RAID_SUBGROUPS 0) else m_subGroupsCounts s)"
  define l where "l = (if t AND GROUPTYPE_LFG \<noteq> 0 then m_lootMethod s else 3)"
  have slots: "m_memberSlots s = []" using assms(2) by (simp add: IsCreated_def)
  have empty: "seats (founded env guid i leader t c' l s) = {#}" for c' by (simp add: seats_def founded_fields slots)
  have none: "m_subGroupsCounts s = None" if "t AND GROUPTYPE_RAID = 0"
  proof -
    have "t = m_groupType s" using that by (auto simp: t_def split: if_splits)
    then show ?thesis using that assms(1) by (simp add: seats_ok_def isRaidGroup_def)
  qed
  have "seats_ok (founded env guid i leader t c l s)"
    using exact_zero none by (simp add: seats_ok_def isRaidGroup_def founded_fields c_def empty)
  moreover have "Create env guid i leader s = (if stored s
      then andThen (AddMember env leader (founded env guid i leader t c l s)) (\<lambda>(ok, s). if ok then Inr (True, s) else Inl AssertFailed)
      else AddMember env leader (founded env guid i leader t c l s))"
  proof -
    let ?s1 = "s\<lparr>m_guid := guid, m_leaderGuid := leader, m_leaderName := GetName env leader\<rparr>"
    let ?s2 = "if isBGGroup ?s1 \<or> isBFGroup ?s1 then ?s1\<lparr>m_groupType := GROUPTYPE_BGRAID\<rparr> else ?s1"
    have s2: "?s2 = ?s1\<lparr>m_groupType := t\<rparr>" by (simp add: t_def isBGGroup_def isBFGroup_def)
    have s3: "(if isRaidGroup (?s1\<lparr>m_groupType := t\<rparr>) then initRaidSubGroupsCounter (?s1\<lparr>m_groupType := t\<rparr>) else Inr (?s1\<lparr>m_groupType := t\<rparr>))
        = Inr (?s1\<lparr>m_groupType := t, m_subGroupsCounts := c\<rparr>)"
      by (simp add: isRaidGroup_def initRaidSubGroupsCounter_def slots c_def)
    have s4: "(if isLFGGroup u then u else u\<lparr>m_lootMethod := 3\<rparr>) = u\<lparr>m_lootMethod := l\<rparr>"
      if "u = ?s1\<lparr>m_groupType := t, m_subGroupsCounts := c\<rparr>" for u
      using that by (simp add: isLFGGroup_def l_def)
    show ?thesis
      unfolding Create_def Let_def s2 s3 andThen_simps s4 [OF refl]
      by (simp add: founded_def)
  qed
  ultimately show ?thesis by blast
qed

lemma Create_inv:
  assumes inv: "group_inv s" "\<not> deleted s" "\<not> IsCreated s" and leader: "newcomer leader s" and store: "stored s \<Longrightarrow> fresh_store i s"
  shows "\<exists>s'. Create env guid i leader s = Inr (True, s') \<and> group_inv s' \<and> \<not> deleted s' \<and> IsCreated s' \<and> stored s' = stored s \<and>
    member_guids s' = {leader} \<and> GetMembersCount s' = 1 \<and>
    mr_memberGuid ` set (member_table s') \<subseteq> insert (GetCounter leader) (mr_memberGuid ` set (member_table s))"
proof -
  have ok: "seats_ok s" "roster_ok s" "key_ok (member_table s)" using inv by (simp_all add: group_inv_def live_ok_def)
  have slots: "m_memberSlots s = []" using inv(3) by (simp add: IsCreated_def)
  obtain t c lo where cr: "Create env guid i leader s = (if stored s
      then andThen (AddMember env leader (founded env guid i leader t c lo s)) (\<lambda>(ok, s). if ok then Inr (True, s) else Inl AssertFailed)
      else AddMember env leader (founded env guid i leader t c lo s))" "seats_ok (founded env guid i leader t c lo s)"
    using Create_founded [OF ok(1) inv(3)] by blast
  let ?f = "founded env guid i leader t c lo s"
  have g: "member_guids ?f = {}" "GetMembersCount ?f = 0" by (simp_all add: member_guids_def founded_fields slots GetMembersCount_def)
  then have free: "\<not> IsFull ?f" by (simp add: IsFull_def MAX_RAID_SIZE_def MAX_GROUP_SIZE_def)
  have roster: "roster_ok ?f" using ok(2) by (simp add: roster_ok_def member_guids_def founded_fields slots)
  have "head_ok i (GetCounter leader) t (groups_table ?f)" if "stored s"
    using that store head_ok_INS [of "\<lparr>gr_guid = i, gr_leaderGuid = GetCounter leader, gr_lootMethod = lo, gr_looterGuid = GetCounter leader,
      gr_lootThreshold = 2, gr_icons = m_targetIcons s, gr_groupType = t, gr_masterLooterGuid = GetCounter 0\<rparr>" "groups_table s"]
    by (simp add: founded_def Let_def fresh_store_def)
  then have rows: "rows_ok ?f"
    using store by (simp add: rows_ok_def founded_fields fresh_store_def slots slot_view_def)
  have pre: "player_guid leader" "leader \<notin> member_guids ?f" "key_ok (member_table ?f)" "\<not> deleted ?f"
      "m_leaderGuid ?f \<in> insert leader (member_guids ?f)" "stored ?f \<Longrightarrow> GetCounter leader \<notin> mr_memberGuid ` set (member_table ?f)"
    using leader ok(3) inv(2) g(1) by (auto simp: founded_fields newcomer_def)
  obtain s' where s': "AddMember env leader ?f = Inr (True, s')" "group_inv s'" "\<not> deleted s'" "IsCreated s'" "stored s' = stored ?f"
      "member_guids s' = insert leader (member_guids ?f)" "GetMembersCount s' = Suc (GetMembersCount ?f)"
      "mr_memberGuid ` set (member_table s') \<subseteq> insert (GetCounter leader) (mr_memberGuid ` set (member_table ?f))"
    using AddMember_ok [OF cr(2) free roster rows, of leader env] pre by blast
  then show ?thesis using cr(1) g by (auto simp: founded_fields)
qed

lemma accept_inv:
  assumes inv: "group_inv s" "\<not> deleted s" and p: "newcomer p s"
    and new: "\<not> IsCreated s \<Longrightarrow> newcomer (m_leaderGuid s) s \<and> fresh_store i s"
  shows "\<exists>s'. HandleGroupAcceptOpcode env guid i p s = Inr s' \<and> group_inv s'"
proof -
  let ?s = "RemoveInvite p s" and ?l = "m_leaderGuid s"
  have f: "m_leaderGuid ?s = ?l" "IsCreated ?s = IsCreated s" "IsFull ?s = IsFull s"
    by (simp_all add: RemoveInvite_def IsCreated_def IsFull_def isRaidGroup_def GetMembersCount_def)
  consider (same) "p = ?l \<or> IsFull s" | (alone) "\<not> IsCreated s" "\<not> FindPlayer env ?l" "p \<noteq> ?l" "\<not> IsFull s"
    | (first) "\<not> IsCreated s" "FindPlayer env ?l" "p \<noteq> ?l" "\<not> IsFull s" | (more) "IsCreated s" "p \<noteq> ?l" "\<not> IsFull s" by blast
  then show ?thesis
  proof cases
    case same
    then show ?thesis using inv small_ops_inv(3) by (auto simp: HandleGroupAcceptOpcode_def Let_def IsLeader_def f)
  next
    case alone
    then show ?thesis
      using inv small_ops_inv(3,4) by (simp add: HandleGroupAcceptOpcode_def Let_def IsLeader_def f)
  next
    case first
    let ?t = "RemoveInvite ?l ?s"
    have "group_inv ?t" using inv small_ops_inv(3) by blast
    then have t: "group_inv ?t" "\<not> deleted ?t" "\<not> IsCreated ?t" "newcomer ?l ?t" "stored ?t \<Longrightarrow> fresh_store i ?t"
      using inv(2) new [OF first(1)] first(1)
      by (simp_all add: RemoveInvite_def IsCreated_def newcomer_def fresh_store_def member_guids_def)
    obtain u where u: "Create env guid i ?l ?t = Inr (True, u)" "group_inv u" "\<not> deleted u" "IsCreated u" "stored u = stored ?t"
        "member_guids u = {?l}" "GetMembersCount u = 1"
        "mr_memberGuid ` set (member_table u) \<subseteq> insert (GetCounter ?l) (mr_memberGuid ` set (member_table ?t))"
      using Create_inv [OF t] by blast
    have pl: "player_guid p" "player_guid ?l" using p new first(1) by (simp_all add: newcomer_def)
    then have "GetCounter p \<noteq> GetCounter ?l" using first(3) player_guid_inj by blast
    then have np: "newcomer p u" using p u(5,6,8) pl(1) first(3) by (auto simp: newcomer_def RemoveInvite_def)
    have "\<not> IsFull u" using u(7) by (simp add: IsFull_def MAX_RAID_SIZE_def MAX_GROUP_SIZE_def)
    then obtain v where "AddMember env p u = Inr (True, v)" "group_inv v"
      using AddMember_ok [of u p env] np u(2-4) by (auto simp: group_inv_def live_ok_def newcomer_def)
    then show ?thesis using first u(1) by (simp add: HandleGroupAcceptOpcode_def Let_def IsLeader_def f)
  next
    case more
    have "group_inv ?s" using inv small_ops_inv(3) by simp
    then obtain v where "AddMember env p ?s = Inr (True, v)" "group_inv v"
      using AddMember_ok [of ?s p env] p more inv(2) f(2,3)
      by (auto simp: group_inv_def live_ok_def newcomer_def RemoveInvite_def member_guids_def)
    then show ?thesis using more by (simp add: HandleGroupAcceptOpcode_def Let_def IsLeader_def f)
  qed
qed

end
