(* ===== verification/Group_Life.thy ===== *)
theory Group_Life
  imports Group_Invariant
begin

text \<open>
  The states a group reaches under the requests of clients, the dungeon finder, battlegrounds, logins and time, and
  what holds in all of them: its bounds, that requests return, and that the rows give the group back.
\<close>

section \<open>Reachable groups\<close>

text \<open>What can happen to a group: requests of clients, the dungeon finder and the battlegrounds that form
  groups, the passing of time, players who log in and out.\<close>

datatype group_request = Invite bool bool bool ObjectGuid ObjectGuid | Accept ObjectGuid u32 ObjectGuid | Decline ObjectGuid
  | UninviteGuid bool bool ObjectGuid ObjectGuid | Uninvite bool bool ObjectGuid string | SetLeader bool ObjectGuid ObjectGuid
  | Leave bool bool ObjectGuid | LootMethod ObjectGuid u32 ObjectGuid u32 | RaidTarget "ObjectGuid \<Rightarrow> bool" ObjectGuid u8 ObjectGuid
  | RaidConvert bool ObjectGuid | ChangeSubGroup ObjectGuid ObjectGuid u8 | AssistantLeader ObjectGuid ObjectGuid bool
  | PartyAssignment ObjectGuid GroupMemberAssignment bool ObjectGuid | Form ObjectGuid u32 ObjectGuid | Add ObjectGuid
  | LfgConvert | LfgRoles ObjectGuid u8 | Tick int | Login ObjectGuid | Logout ObjectGuid

fun perform :: "group_env \<Rightarrow> group_request \<Rightarrow> group_state \<Rightarrow> group_error + group_state option" where
  "perform env (Invite inGroup invited grouped a b) s = Inr (snd (HandleGroupInviteOpcode env inGroup invited grouped a b s (Some s)))"
| "perform env (Accept guid i p) s = map_sum id Some (HandleGroupAcceptOpcode env guid i p s)"
| "perform env (Decline p) s = Inr (HandleGroupDeclineOpcode env p s)"
| "perform env (UninviteGuid lfg bg a b) s = map_sum id snd (HandleGroupUninviteGuidOpcode env lfg bg a b s)"
| "perform env (Uninvite lfg bg a n) s = map_sum id snd (HandleGroupUninviteOpcode env lfg bg a n s)"
| "perform env (SetLeader same a b) s = Inr (Some (HandleGroupSetLeaderOpcode env same a b s))"
| "perform env (Leave inGroup bg a) s = map_sum id Some (HandleGroupDisbandOpcode env inGroup bg a s)"
| "perform env (LootMethod a m b t) s = Inr (Some (HandleLootMethodOpcode a m b t s))"
| "perform env (RaidTarget hostile a x g) s = Inr (Some (HandleRaidTargetUpdateOpcode env hostile a x g s))"
| "perform env (RaidConvert bg a) s = map_sum id Some (HandleGroupRaidConvertOpcode bg a s)"
| "perform env (ChangeSubGroup a g n) s = map_sum id Some (HandleGroupChangeSubGroupOpcode a g n s)"
| "perform env (AssistantLeader a g b) s = Inr (Some (HandleGroupAssistantLeaderOpcode a g b s))"
| "perform env (PartyAssignment a r b g) s = Inr (Some (HandlePartyAssignmentOpcode a r b g s))"
| "perform env (Form guid i p) s = map_sum id (\<lambda>(b, s). Some s) (Create env guid i p s)"
| "perform env (Add p) s = map_sum id (\<lambda>(b, s). Some s) (AddMember env p s)"
| "perform env LfgConvert s = Inr (Some (ConvertToLFG s))"
| "perform env (LfgRoles g r) s = Inr (Some (SetLfgRoles g r s))"
| "perform env (Tick diff) s = Inr (Some (Group_Update env diff s))"
| "perform env (Login g) s = Inr (Some (player_login g s))"
| "perform env (Logout g) s = Inr (Some (player_logout g s))"

text \<open>What the callers see to: who is added is in no group, the id of a new group is unused, a member who is
  removed is one, a player logs in once; the players with a reference are connected.\<close>

fun admissible :: "group_env \<Rightarrow> group_request \<Rightarrow> group_state \<Rightarrow> bool" where
  "admissible env (Accept guid i p) s \<longleftrightarrow> newcomer p s \<and> (\<not> IsCreated s \<longrightarrow> newcomer (m_leaderGuid s) s \<and> fresh_store i s)"
| "admissible env (UninviteGuid lfg bg a b) s \<longleftrightarrow> linked_ok env s"
| "admissible env (Uninvite lfg bg a n) s \<longleftrightarrow> linked_ok env s"
| "admissible env (Leave inGroup bg a) s \<longleftrightarrow> linked_ok env s \<and> inGroup = (a \<in> member_guids s)"
| "admissible env (Form guid i p) s \<longleftrightarrow> \<not> IsCreated s \<and> newcomer p s \<and> (stored s \<longrightarrow> fresh_store i s)"
| "admissible env (Add p) s \<longleftrightarrow> IsCreated s \<and> \<not> IsFull s \<and> newcomer p s"
| "admissible env (Login g) s \<longleftrightarrow> g \<in> member_guids s \<and> g \<notin> set (m_memberMgr s)"
| "admissible env r s \<longleftrightarrow> True"

text \<open>Other groups write their own rows of the tables.\<close>

inductive group_step :: "group_state \<Rightarrow> group_state \<Rightarrow> bool" where
  request: "\<not> deleted s \<Longrightarrow> admissible env r s \<Longrightarrow> perform env r s = Inr (Some s') \<Longrightarrow> group_step s s'"
| others: "\<not> deleted s \<Longrightarrow> key_ok mt \<Longrightarrow> filter (\<lambda>r. gr_guid r = m_dbStoreId s) gt = filter (\<lambda>r. gr_guid r = m_dbStoreId s) (groups_table s) \<Longrightarrow>
    filter (\<lambda>r. mr_guid r = m_dbStoreId s) mt = filter (\<lambda>r. mr_guid r = m_dbStoreId s) (member_table s) \<Longrightarrow>
    group_step s (s\<lparr>groups_table := gt, member_table := mt\<rparr>)"

definition group_init :: "group_state \<Rightarrow> bool" where
  "group_init s \<longleftrightarrow> key_ok (member_table s) \<and> \<not> deleted s \<and> m_memberSlots s = [] \<and> m_memberMgr s = [] \<and>
     m_groupType s = GROUPTYPE_NORMAL \<and> m_subGroupsCounts s = None"

definition safely :: "group_error + group_state option \<Rightarrow> bool" where
  "safely r \<longleftrightarrow> (\<exists>t. r = Inr t \<and> (\<forall>s. t = Some s \<longrightarrow> group_inv s))"

lemma safely_simps [simp]:
  "safely (Inr (Some s)) = group_inv s" "safely (Inr None)" "\<not> safely (Inl e)"
  by (simp_all add: safely_def)

lemma fields_inv:
  "group_inv (s\<lparr>m_lootMethod := a, m_masterLooterGuid := b, m_lootThreshold := c\<rparr>) = group_inv s"
  "group_inv (s\<lparr>m_invitees := d\<rparr>) = group_inv s"
  by (rule live_ok_same; simp add: same_members_def)+

lemma Disband_group_inv: "group_inv s \<Longrightarrow> group_inv (Disband env s)"
  using Disband_inv by (simp add: group_inv_def)

lemma Uninvite_inv: "group_inv s \<Longrightarrow> safely (Inr (UninviteFromGroup env p s))"
  by (simp add: UninviteFromGroup_def Let_def small_ops_inv Disband_group_inv)

lemma AddInvite_inv: "group_inv s \<Longrightarrow> group_inv (snd (AddInvite invited grouped p s))"
  by (simp add: AddInvite_def group_inv_call fields_inv)

lemma link_inv:
  assumes "group_inv s" "\<not> deleted s" "distinct mgr" "set mgr \<subseteq> member_guids s"
  shows "group_inv (s\<lparr>m_memberMgr := mgr\<rparr>)"
proof -
  have "seats_ok (s\<lparr>m_memberMgr := mgr\<rparr>) = seats_ok s" by (rule seats_ok_cong) (simp_all add: seats_def)
  then show ?thesis
    using assms by (simp add: group_inv_def live_ok_def roster_ok_def rows_ok_def member_guids_def IsCreated_def)
qed

lemma RemoveMember_safely:
  assumes "group_inv s" "\<not> deleted s" "g \<in> member_guids s" "linked_ok env s"
  shows "safely (map_sum id (\<lambda>x. Some (snd x)) (RemoveMember env g meth s))"
  using RemoveMember_inv [OF assms, of meth] by force

lemma IsMember_guids: "IsMember g s \<longleftrightarrow> g \<in> member_guids s"
  by (simp add: IsMember_def getMemberSlot_None)

lemma GetMemberGUID_member: "GetMemberGUID n s \<noteq> 0 \<Longrightarrow> GetMemberGUID n s \<in> member_guids s"
  by (cases "find (\<lambda>m. ms_name m = n) (m_memberSlots s)")
    (simp_all add: GetMemberGUID_def member_guids_def, metis find_Some_iff image_eqI nth_mem)

lemma map_sum_fuse: "map_sum id f (map_sum id g r) = map_sum id (\<lambda>x. f (g x)) r"
  by (cases r) simp_all

lemma perform_invite: "group_inv s \<Longrightarrow> safely (perform env (Invite inGroup invited grouped a b) s)"
  using AddInvite_inv [of s invited grouped b]
  by (auto simp: HandleGroupInviteOpcode_def split: prod.split bool.split)

lemma perform_uninvite:
  assumes "group_inv s" "\<not> deleted s" "linked_ok env s"
  shows "safely (perform env (UninviteGuid lfg bg a b) s)" "safely (perform env (Uninvite lfg bg a n) s)"
  using RemoveMember_safely [OF assms(1,2) _ assms(3), where meth = GROUP_REMOVEMETHOD_KICK] assms Uninvite_inv [OF assms(1), of env]
    GetMemberGUID_member [of n s]
  by (simp_all add: HandleGroupUninviteGuidOpcode_def HandleGroupUninviteOpcode_def Let_def IsMember_guids IsEmpty_def
      map_sum_fuse case_prod_unfold)

lemma perform_leave:
  assumes "group_inv s" "\<not> deleted s" "linked_ok env s" "inGroup = (a \<in> member_guids s)"
  shows "safely (perform env (Leave inGroup bg a) s)"
  using RemoveMember_safely [OF assms(1,2) _ assms(3), of a] assms Disband_group_inv
  by (simp add: HandleGroupDisbandOpcode_def map_sum_fuse)

lemma perform_inv:
  assumes inv: "group_inv s" "\<not> deleted s" and r: "admissible env r s"
  shows "safely (perform env r s)"
proof (cases r)
  case (Accept guid i p)
  then show ?thesis using accept_inv [OF inv, of p i env guid] r by force
next
  case (Form guid i p)
  then show ?thesis using Create_inv [OF inv, of p i env guid] r by force
next
  case (Add p)
  then have "\<exists>s'. AddMember env p s = Inr (True, s') \<and> group_inv s'"
    using AddMember_ok [of s p env] inv r by (auto simp: group_inv_def live_ok_def newcomer_def)
  then show ?thesis using Add by auto
next
  case (RaidConvert bg a)
  then show ?thesis using ConvertToRaid_inv [OF inv] inv by (auto simp: HandleGroupRaidConvertOpcode_def)
next
  case (ChangeSubGroup a g n)
  then show ?thesis using ChangeMembersGroup_inv [OF inv, of n g] inv by (auto simp: HandleGroupChangeSubGroupOpcode_def)
next
  case (Login g)
  then have "group_inv (s\<lparr>m_memberMgr := g # m_memberMgr s\<rparr>)"
    using link_inv [OF inv, of "g # m_memberMgr s"] r inv by (simp add: group_inv_def live_ok_def roster_ok_def)
  then show ?thesis using Login by (simp add: player_login_def Let_def small_ops_inv)
next
  case (Logout g)
  let ?s = "if m_leaderGuid s = g then StartLeaderOfflineTimer s else s"
  have f: "group_inv ?s" "\<not> deleted ?s" "member_guids ?s = member_guids s" "m_memberMgr ?s = m_memberMgr s"
    using inv by (simp_all add: small_ops_inv) (simp_all add: StartLeaderOfflineTimer_def member_guids_def)
  have "distinct (remove1 g (m_memberMgr ?s))" "set (remove1 g (m_memberMgr ?s)) \<subseteq> member_guids ?s"
    using inv set_remove1_subset [of g "m_memberMgr s"] unfolding f by (auto simp: group_inv_def live_ok_def roster_ok_def)
  then show ?thesis using link_inv [OF f(1,2)] Logout by (simp only: perform.simps player_logout_def Let_def safely_simps)
next
  case (PartyAssignment a as b g)
  then show ?thesis
    using inv by (simp add: HandlePartyAssignmentOpcode_def SetGroupMemberFlag_inv RemoveUnique_inv split: GroupMemberAssignment.split)
next
  case (SetLeader same a b)
  then show ?thesis using inv ChangeLeader_inv [OF inv] by (simp add: HandleGroupSetLeaderOpcode_def)
next
  case (UninviteGuid lfg bg a b)
  then show ?thesis using perform_uninvite(1) [OF inv] r by simp
next
  case (Uninvite lfg bg a n)
  then show ?thesis using perform_uninvite(2) [OF inv] r by simp
next
  case (Leave inGroup bg a)
  then show ?thesis using perform_leave [OF inv] r by simp
next
  case (Invite inGroup invited grouped a b)
  then show ?thesis using perform_invite [OF inv(1)] by blast
qed (use inv in \<open>simp_all add: HandleGroupDeclineOpcode_def Uninvite_inv HandleLootMethodOpcode_def fields_inv
    HandleRaidTargetUpdateOpcode_def small_ops_inv HandleGroupAssistantLeaderOpcode_def SetGroupMemberFlag_inv ConvertToLFG_inv Group_Update_inv\<close>)

lemma group_init_inv: "group_init s \<Longrightarrow> group_inv s"
  by (simp add: group_init_def group_inv_def live_ok_def seats_ok_def seats_def roster_ok_def IsCreated_def isRaidGroup_def)

lemma others_inv:
  assumes "group_inv s" "\<not> deleted s" "key_ok mt"
    and "filter (\<lambda>r. gr_guid r = m_dbStoreId s) gt = filter (\<lambda>r. gr_guid r = m_dbStoreId s) (groups_table s)"
    and "filter (\<lambda>r. mr_guid r = m_dbStoreId s) mt = filter (\<lambda>r. mr_guid r = m_dbStoreId s) (member_table s)"
  shows "group_inv (s\<lparr>groups_table := gt, member_table := mt\<rparr>)"
proof -
  let ?t = "s\<lparr>groups_table := gt, member_table := mt\<rparr>"
  have "seats_ok ?t = seats_ok s" by (rule seats_ok_cong) (simp_all add: seats_def)
  moreover have "rows_ok ?t = rows_ok s" using assms(4,5) by (simp add: rows_ok_def member_view_def head_ok_def)
  ultimately show ?thesis
    using assms(1-3) by (simp add: group_inv_def live_ok_def roster_ok_def member_guids_def IsCreated_def)
qed

interpretation groups: invariant_system group_init group_step group_inv
proof
  show "group_init s \<Longrightarrow> group_inv s" for s by (rule group_init_inv)
  show "group_inv t" if "group_inv s" "group_step s t" for s t
    using that(2)
  proof cases
    case (request env r)
    then show ?thesis using perform_inv [OF that(1)] by fastforce
  next
    case (others mt gt)
    then show ?thesis using others_inv [OF that(1)] by blast
  qed
qed

section \<open>Properties of reachable groups\<close>

lemma raid_size:
  assumes "exact M c" "\<forall>g. count M g \<le> MAX_GROUP_SIZE"
  shows "size M \<le> MAX_RAID_SIZE"
proof -
  have sub: "set_mset M \<subseteq> of_nat ` {..<8}"
  proof
    fix g assume "g \<in># M"
    then have "unat g < 8" using assms(1) by (simp add: exact_def eight)
    then show "g \<in> of_nat ` {..<8}" by (intro image_eqI [of _ _ "unat g"]) simp_all
  qed
  have "size M = sum (count M) (set_mset M)" by (simp add: size_multiset_overloaded_eq)
  also have "\<dots> \<le> card (set_mset M) * 5" using sum_bounded_above [of "set_mset M" "count M" 5] assms(2) by (simp add: MAX_GROUP_SIZE_def)
  also have "\<dots> \<le> card {..<8::nat} * 5"
    using card_mono [OF _ sub] card_image_le [of "{..<8::nat}" "of_nat :: nat \<Rightarrow> u8"] by (intro mult_le_mono1) (meson finite_imageI finite_lessThan le_trans)
  finally show ?thesis by (simp add: MAX_RAID_SIZE_def)
qed

lemma count_mset_map: "count (mset (map f xs)) y = length (filter (\<lambda>x. f x = y) xs)"
  by (induction xs) simp_all

lemma seats_bounds:
  assumes "seats_ok s"
  shows "if isRaidGroup s
    then GetMembersCount s \<le> MAX_RAID_SIZE \<and> (\<forall>m\<in>set (m_memberSlots s). unat (ms_group m) < MAX_RAID_SUBGROUPS) \<and>
      (\<exists>c. m_subGroupsCounts s = Some c \<and> length c = MAX_RAID_SUBGROUPS \<and>
        (\<forall>i < MAX_RAID_SUBGROUPS. unat (c ! i) = length (filter (\<lambda>m. ms_group m = of_nat i) (m_memberSlots s)) \<and> unat (c ! i) \<le> MAX_GROUP_SIZE))
    else GetMembersCount s \<le> MAX_GROUP_SIZE \<and> m_subGroupsCounts s = None \<and> (\<forall>m\<in>set (m_memberSlots s). ms_group m = 0)"
proof (cases "isRaidGroup s")
  case True
  then obtain c where c: "m_subGroupsCounts s = Some c" "exact (seats s) c" and five: "\<forall>g. count (seats s) g \<le> MAX_GROUP_SIZE"
    using assms by (auto simp: seats_ok_def)
  have "unat (c ! i) = count (seats s) (of_nat i)" if "i < MAX_RAID_SUBGROUPS" for i
  proof -
    have u: "unat (of_nat i :: u8) = i" using that by (simp add: eight)
    have "\<forall>g. unat g < 8 \<longrightarrow> c ! unat g = of_nat (count (seats s) g)" using c(2) by (simp add: exact_def eight)
    from this [rule_format, of "of_nat i"] have "c ! i = of_nat (count (seats s) (of_nat i))" using that u by (simp add: eight)
    moreover have "count (seats s) (of_nat i) < 256" using five le_less_trans [of "count (seats s) (of_nat i)" 5 256] by (simp add: MAX_GROUP_SIZE_def)
    ultimately show ?thesis using that by (simp add: eight)
  qed
  then have "unat (c ! i) = length (filter (\<lambda>m. ms_group m = of_nat i) (m_memberSlots s)) \<and> unat (c ! i) \<le> MAX_GROUP_SIZE"
      if "i < MAX_RAID_SUBGROUPS" for i
    using that five by (metis seats_def count_mset_map)
  moreover have "GetMembersCount s \<le> MAX_RAID_SIZE" using raid_size [OF c(2) five] by (simp add: GetMembersCount_def seats_def)
  moreover have "\<forall>m\<in>set (m_memberSlots s). unat (ms_group m) < MAX_RAID_SUBGROUPS" "length c = MAX_RAID_SUBGROUPS"
    using c(2) by (simp_all add: exact_def seats_def)
  ultimately show ?thesis using True c(1) by (simp only: if_True) blast
next
  case False
  then show ?thesis using assms by (auto simp: seats_ok_def seats_def GetMembersCount_def)
qed

text \<open>A run used to instantiate the properties: an invitation is accepted, which creates the group, it becomes a raid
  and its second member moves to another subgroup.\<close>

definition sample_env :: group_env where
  "sample_env = \<lparr>FindConnectedPlayer = \<lambda>_. True, FindPlayer = \<lambda>_. True, GetName = \<lambda>_. ''Ana'', GetCharacterNameByGuid = \<lambda>_. Some ''Ana'',
     GetDungeonMapId = 0, IsAlive = \<lambda>_. True, GetMapId = \<lambda>_. 0\<rparr>"

definition sample_start :: group_state where
  "sample_start = (Group.extend new_Group (group_state.fields [] [] [] False))\<lparr>m_leaderGuid := 1\<rparr>"

primrec performs :: "group_env \<Rightarrow> group_request list \<Rightarrow> group_state \<Rightarrow> group_state option" where
  "performs env [] s = Some s"
| "performs env (r # rs) s = (if \<not> deleted s \<and> admissible env r s
     then case perform env r s of Inr (Some t) \<Rightarrow> performs env rs t | _ \<Rightarrow> None else None)"

lemma performs_steps: "performs env rs s = Some t \<Longrightarrow> group_step\<^sup>*\<^sup>* s t"
proof (induction rs arbitrary: s)
  case (Cons r rs)
  then obtain u where "\<not> deleted s" "admissible env r s" "perform env r s = Inr (Some u)" "performs env rs u = Some t"
    by (auto split: if_splits sum.splits option.splits)
  then show ?case using Cons.IH group_step.request by (meson converse_rtranclp_into_rtranclp)
qed simp

definition sample_raid :: group_state where
  "sample_raid = (case performs sample_env [Accept 0x1F50000000000001 1 2, RaidConvert False 1, ChangeSubGroup 1 2 3] sample_start of
     Some s \<Rightarrow> s | None \<Rightarrow> sample_start)"

lemma sample_raid_run:
  "performs sample_env [Accept 0x1F50000000000001 1 2, RaidConvert False 1, ChangeSubGroup 1 2 3] sample_start = Some sample_raid"
  "group_init sample_start" "\<not> deleted sample_raid"
  by code_simp+





section \<open>Reloading\<close>

lemma find_filter_single: "filter P xs = [x] \<Longrightarrow> find P xs = Some x"
  by (induction xs) (auto split: if_splits)

lemma load_members_ok:
  assumes "\<forall>r\<in>set rs. GetCharacterNameByGuid env (Create_counter HighGuid_Player (mr_memberGuid r)) \<noteq> None"
    and "\<forall>c. m_subGroupsCounts s = Some c \<longrightarrow> exact (seats s) c \<and> (\<forall>r\<in>set rs. unat (mr_subgroup r) < MAX_RAID_SUBGROUPS)"
  shows "\<exists>t. load_members env rs s = Inr t \<and>
    map (\<lambda>m. (ms_guid m, ms_group m)) (m_memberSlots t) =
      map (\<lambda>m. (ms_guid m, ms_group m)) (m_memberSlots s) @ map (\<lambda>r. (Create_counter HighGuid_Player (mr_memberGuid r), mr_subgroup r)) rs \<and>
    (\<forall>c. m_subGroupsCounts t = Some c \<longrightarrow> exact (seats t) c) \<and> (m_subGroupsCounts t = None \<longleftrightarrow> m_subGroupsCounts s = None) \<and>
    m_leaderGuid t = m_leaderGuid s \<and> m_groupType t = m_groupType s \<and> m_dbStoreId t = m_dbStoreId s"
  using assms
proof (induction rs arbitrary: s)
  case (Cons r rs)
  let ?g = "Create_counter HighGuid_Player (mr_memberGuid r)"
  obtain n where n: "GetCharacterNameByGuid env ?g = Some n" using Cons.prems(1) by auto
  let ?m = "\<lparr>ms_guid = ?g, ms_name = n, ms_group = mr_subgroup r, ms_flags = mr_memberFlags r, ms_roles = mr_roles r\<rparr>"
  let ?s = "s\<lparr>m_memberSlots := m_memberSlots s @ [?m]\<rparr>"
  have seats: "seats ?s = add_mset (mr_subgroup r) (seats s)" by (simp add: seats_def)
  have "\<exists>c'. LoadMemberFromDB env r s = Inr (?s\<lparr>m_subGroupsCounts := c'\<rparr>) \<and> (c' = None \<longleftrightarrow> m_subGroupsCounts s = None) \<and>
    (\<forall>c. c' = Some c \<longrightarrow> exact (seats ?s) c)"
  proof (cases "m_subGroupsCounts s")
    case None
    then show ?thesis by (intro exI [of _ None]) (simp add: LoadMemberFromDB_def n SubGroupCounterIncrease_def update_counts_None)
  next
    case (Some c)
    then obtain c' where "bump (\<lambda>n. n + 1) (mr_subgroup r) c = Inr c'" "exact (seats ?s) c'"
      using exact_inc [of "seats s" c "mr_subgroup r"] Cons.prems(2) unfolding seats by auto
    then show ?thesis using Some
      by (intro exI [of _ "Some c'"]) (simp add: LoadMemberFromDB_def n SubGroupCounterIncrease_def update_counts_def)
  qed
  then obtain c' where c': "LoadMemberFromDB env r s = Inr (?s\<lparr>m_subGroupsCounts := c'\<rparr>)" "c' = None \<longleftrightarrow> m_subGroupsCounts s = None"
    "\<forall>c. c' = Some c \<longrightarrow> exact (seats ?s) c" by (elim exE conjE) (rule that)
  define u where "u = ?s\<lparr>m_subGroupsCounts := c'\<rparr>"
  have u: "map (\<lambda>m. (ms_guid m, ms_group m)) (m_memberSlots u) = map (\<lambda>m. (ms_guid m, ms_group m)) (m_memberSlots s) @ [(?g, mr_subgroup r)]"
    "m_subGroupsCounts u = c'" "seats u = seats ?s" "m_leaderGuid u = m_leaderGuid s" "m_groupType u = m_groupType s"
    "m_dbStoreId u = m_dbStoreId s"
    by (simp_all add: u_def seats_def)
  have "\<forall>c. m_subGroupsCounts u = Some c \<longrightarrow> exact (seats u) c \<and> (\<forall>r\<in>set rs. unat (mr_subgroup r) < MAX_RAID_SUBGROUPS)"
    using c'(2,3) Cons.prems(2) unfolding u by (metis list.set_intros(2) not_None_eq)
  from Cons.IH [OF _ this] obtain t where "load_members env rs u = Inr t \<and>
    map (\<lambda>m. (ms_guid m, ms_group m)) (m_memberSlots t) =
      map (\<lambda>m. (ms_guid m, ms_group m)) (m_memberSlots u) @ map (\<lambda>r. (Create_counter HighGuid_Player (mr_memberGuid r), mr_subgroup r)) rs \<and>
    (\<forall>c. m_subGroupsCounts t = Some c \<longrightarrow> exact (seats t) c) \<and> (m_subGroupsCounts t = None \<longleftrightarrow> m_subGroupsCounts u = None) \<and>
    m_leaderGuid t = m_leaderGuid u \<and> m_groupType t = m_groupType u \<and> m_dbStoreId t = m_dbStoreId u"
    using Cons.prems(1) by auto
  then show ?case using c'(1,2) unfolding u by (intro exI [of _ t]) (simp add: u_def)
qed simp

lemma exact_unique: "exact M c \<Longrightarrow> exact M d \<Longrightarrow> c = d"
proof (rule nth_equalityI)
  assume e: "exact M c" "exact M d"
  show "length c = length d" using e by (simp add: exact_def)
  fix i assume "i < length c"
  then have i: "i < 8" "unat (of_nat i :: u8) = i" using e by (simp_all add: exact_def eight)
  have n: "x ! i = of_nat (count M (of_nat i))" if "exact M x" for x
  proof -
    have "\<forall>g. unat g < 8 \<longrightarrow> x ! unat g = of_nat (count M g)" using that by (simp add: exact_def eight)
    from this [rule_format, of "of_nat i"] i show ?thesis by simp
  qed
  show "c ! i = d ! i" using n [OF e(1)] n [OF e(2)] by simp
qed

text \<open>The rows of a stored group are its members, each once.\<close>

lemma rows_are_members:
  assumes "live_ok s" "IsCreated s" "stored s" "key_ok (member_table s)"
  defines "rows \<equiv> filter (\<lambda>r. mr_guid r = m_dbStoreId s) (member_table s)"
  shows "mset (map (\<lambda>r. (Create_counter HighGuid_Player (mr_memberGuid r), mr_subgroup r)) rows) =
    mset (map (\<lambda>m. (ms_guid m, ms_group m)) (m_memberSlots s))"
proof -
  let ?v = "\<lambda>r. (mr_memberGuid r, mr_subgroup r)" and ?w = "\<lambda>m. (GetCounter (ms_guid m), ms_group m)"
  let ?p = "\<lambda>(c, g). (Create_counter HighGuid_Player c, g)"
  have d: "distinct (map ms_guid (m_memberSlots s))" and pl: "\<forall>m\<in>set (m_memberSlots s). player_guid (ms_guid m)"
    using assms(1) by (simp_all add: live_ok_def roster_ok_def)
  have "distinct (map mr_memberGuid rows)" using assms(4) by (simp add: rows_def key_ok_def distinct_map_filter)
  then have dv: "distinct (map ?v rows)" by (auto simp: distinct_map inj_on_def)
  have "inj_on ms_guid (set (m_memberSlots s))" "distinct (m_memberSlots s)" using d by (simp_all add: distinct_map)
  then have dw: "distinct (map ?w (m_memberSlots s))"
    using pl player_guid_inj by (simp add: distinct_map inj_on_def)
  have "set (map ?v rows) = set (map ?w (m_memberSlots s))"
    using assms(1-3) by (simp add: live_ok_def rows_ok_def member_view_def slot_view_def rows_def)
  then have "mset (map ?v rows) = mset (map ?w (m_memberSlots s))" using set_eq_iff_mset_eq_distinct [OF dv dw] by blast
  then have "image_mset ?p (mset (map ?v rows)) = image_mset ?p (mset (map ?w (m_memberSlots s)))" by simp
  moreover have "map ?p (map ?w (m_memberSlots s)) = map (\<lambda>m. (ms_guid m, ms_group m)) (m_memberSlots s)"
    using pl by (simp add: player_guid_def)
  ultimately show ?thesis by (metis (no_types, lifting) mset_map map_map comp_def case_prod_conv map_eq_conv)
qed

lemma load_head:
  assumes "live_ok s" "IsCreated s" "stored s" "GetCharacterNameByGuid env (m_leaderGuid s) \<noteq> None"
  defines "s0 \<equiv> Group.extend new_Group (group_state.fields (groups_table s) (member_table s) [] False)"
  shows "\<exists>row u. find (\<lambda>r. gr_guid r = m_dbStoreId s) (groups_table s) = Some row \<and> LoadGroupFromDB env guid row s0 = Inr u \<and>
    m_memberSlots u = [] \<and> m_leaderGuid u = m_leaderGuid s \<and> m_groupType u = m_groupType s \<and> m_dbStoreId u = m_dbStoreId s \<and>
    m_subGroupsCounts u = (if isRaidGroup s then Some (replicate MAX_RAID_SUBGROUPS 0) else None)"
proof -
  obtain row where row: "filter (\<lambda>r. gr_guid r = m_dbStoreId s) (groups_table s) = [row]"
    "gr_leaderGuid row = GetCounter (m_leaderGuid s)" "gr_groupType row = m_groupType s"
    using assms(1-3) by (auto simp: live_ok_def rows_ok_def head_ok_def)
  have "row \<in> set (filter (\<lambda>r. gr_guid r = m_dbStoreId s) (groups_table s))" using row(1) by simp
  then have i: "gr_guid row = m_dbStoreId s" by simp
  have "player_guid (m_leaderGuid s)" using assms(1,2) by (auto simp: live_ok_def roster_ok_def member_guids_def)
  then have l: "Create_counter HighGuid_Player (gr_leaderGuid row) = m_leaderGuid s" by (simp add: player_guid_def row(2))
  obtain n where n: "GetCharacterNameByGuid env (m_leaderGuid s) = Some n" using assms(4) by blast
  have f: "m_memberSlots s0 = []" "m_subGroupsCounts s0 = None" by (simp_all add: s0_def new_Group_def Group.defs group_state.defs)
  have "\<exists>u. LoadGroupFromDB env guid row s0 = Inr u \<and>
    m_memberSlots u = [] \<and> m_leaderGuid u = m_leaderGuid s \<and> m_groupType u = m_groupType s \<and> m_dbStoreId u = m_dbStoreId s \<and>
    m_subGroupsCounts u = (if isRaidGroup s then Some (replicate MAX_RAID_SUBGROUPS 0) else None)"
    unfolding LoadGroupFromDB_def Let_def l n option.case
    by (simp add: isRaidGroup_def initRaidSubGroupsCounter_def f row(3) i)
  then show ?thesis using find_filter_single [OF row(1)] by blast
qed

lemma reload_live:
  assumes inv: "group_inv s" "\<not> deleted s" "IsCreated s" "stored s"
    and names: "\<forall>m\<in>set (m_memberSlots s). GetCharacterNameByGuid env (ms_guid m) \<noteq> None"
  shows "\<exists>t. load_group env guid (m_dbStoreId s) (groups_table s) (member_table s) = Inr (Some t) \<and>
    m_leaderGuid t = m_leaderGuid s \<and> m_groupType t = m_groupType s \<and> m_dbStoreId t = m_dbStoreId s \<and>
    mset (map (\<lambda>m. (ms_guid m, ms_group m)) (m_memberSlots t)) = mset (map (\<lambda>m. (ms_guid m, ms_group m)) (m_memberSlots s)) \<and>
    m_subGroupsCounts t = m_subGroupsCounts s"
proof -
  let ?rows = "filter (\<lambda>r. mr_guid r = m_dbStoreId s) (member_table s)"
  let ?pair = "\<lambda>m. (ms_guid m, ms_group m)" and ?rpair = "\<lambda>r. (Create_counter HighGuid_Player (mr_memberGuid r), mr_subgroup r)"
  have live: "live_ok s" "key_ok (member_table s)" using inv by (simp_all add: group_inv_def)
  have rows: "mset (map ?rpair ?rows) = mset (map ?pair (m_memberSlots s))" by (rule rows_are_members [OF live(1) inv(3,4) live(2)])
  have set_eq: "?rpair ` set ?rows = ?pair ` set (m_memberSlots s)" using arg_cong [OF rows, of set_mset] by simp
  have "GetCharacterNameByGuid env (m_leaderGuid s) \<noteq> None"
    using names live(1) inv(3) by (auto simp: live_ok_def member_guids_def)
  from load_head [OF live(1) inv(3,4) this, of guid] obtain row u where
    row: "find (\<lambda>r. gr_guid r = m_dbStoreId s) (groups_table s) = Some row"
    and u: "LoadGroupFromDB env guid row (Group.extend new_Group (group_state.fields (groups_table s) (member_table s) [] False)) = Inr u"
      "m_memberSlots u = []" "m_leaderGuid u = m_leaderGuid s" "m_groupType u = m_groupType s" "m_dbStoreId u = m_dbStoreId s"
      "m_subGroupsCounts u = (if isRaidGroup s then Some (replicate MAX_RAID_SUBGROUPS 0) else None)" by blast
  have n: "\<forall>r\<in>set ?rows. GetCharacterNameByGuid env (Create_counter HighGuid_Player (mr_memberGuid r)) \<noteq> None"
  proof
    fix r assume "r \<in> set ?rows"
    then have "?rpair r \<in> ?pair ` set (m_memberSlots s)" using set_eq by blast
    then show "GetCharacterNameByGuid env (Create_counter HighGuid_Player (mr_memberGuid r)) \<noteq> None" using names by auto
  qed
  have "unat (mr_subgroup r) < MAX_RAID_SUBGROUPS" if "isRaidGroup s" "r \<in> set ?rows" for r
  proof -
    have "?rpair r \<in> ?pair ` set (m_memberSlots s)" using set_eq that(2) by blast
    then show ?thesis using seats_bounds [of s] live(1) that(1) by (auto simp: live_ok_def)
  qed
  then have c: "\<forall>c. m_subGroupsCounts u = Some c \<longrightarrow> exact (seats u) c \<and> (\<forall>r\<in>set ?rows. unat (mr_subgroup r) < MAX_RAID_SUBGROUPS)"
    using u(2,6) exact_zero by (auto simp: seats_def split: if_splits)
  obtain t where t: "load_members env ?rows u = Inr t" "map ?pair (m_memberSlots t) = map ?rpair ?rows"
    "\<forall>c. m_subGroupsCounts t = Some c \<longrightarrow> exact (seats t) c" "m_subGroupsCounts t = None \<longleftrightarrow> m_subGroupsCounts u = None"
    "m_leaderGuid t = m_leaderGuid u" "m_groupType t = m_groupType u" "m_dbStoreId t = m_dbStoreId u"
    using load_members_ok [OF n c] u(2) by auto
  have members: "mset (map ?pair (m_memberSlots t)) = mset (map ?pair (m_memberSlots s))" using rows t(2) by (simp only:)
  have "seats t = seats s"
    using arg_cong [OF members, of "image_mset snd"] by (simp add: seats_def multiset.map_comp comp_def)
  then have "m_subGroupsCounts t = m_subGroupsCounts s"
    using live(1) t(3,4) u(6) exact_unique by (cases "isRaidGroup s") (fastforce simp: live_ok_def seats_ok_def)+
  then show ?thesis
    using row u t(1,5-7) members by (simp add: load_group_def)
qed



text \<open>The role of main tank is not unique behind a restart. A raid names one member main tank, then
  another: in memory the first loses the flag, but only the row of the second is written, so the group loaded from
  the rows has two main tanks.\<close>

theorem two_main_tanks:
  "case performs sample_env [PartyAssignment 1 GROUP_ASSIGN_MAINTANK True 1, PartyAssignment 1 GROUP_ASSIGN_MAINTANK True 2] sample_raid of
     None \<Rightarrow> False
   | Some s \<Rightarrow> map ms_guid (filter (\<lambda>m. ms_flags m AND MEMBER_FLAG_MAINTANK \<noteq> 0) (m_memberSlots s)) = [2] \<and>
       (case load_group sample_env 7 1 (groups_table s) (member_table s) of
          Inr (Some t) \<Rightarrow> map ms_guid (filter (\<lambda>m. ms_flags m AND MEMBER_FLAG_MAINTANK \<noteq> 0) (m_memberSlots t)) = [1, 2]
        | _ \<Rightarrow> False)"
  by code_simp

end
