(* ===== verification/Group_Mgr.thy ===== *)
theory Group_Mgr
  imports Group_Life
begin

text \<open>
  The manager of the groups, \<open>Groups/GroupMgr.cpp\<close>: the pool of ids under which groups are stored in the database, a
  vector of pointers indexed by the id and the next id to give, and the groups by guid. A group is named
  by the counter of its guid.
\<close>

section \<open>The pool of storage ids\<close>

record GroupMgr =
  GroupDbStore :: "u32 option list"
  NextGroupDbStoreId :: u32
  NextGroupId :: u32
  GroupStore :: "u32 set"

definition new_GroupMgr :: GroupMgr where
  "new_GroupMgr = \<lparr>GroupDbStore = [], NextGroupDbStoreId = 1, NextGroupId = 1, GroupStore = {}\<rparr>"

text \<open>The search for the next id that is behind the vector or whose place is empty.\<close>

lemma u32_suc: "i < 0xFFFFFFFF \<Longrightarrow> unat (i + 1) = Suc (unat i)" for i :: u32
  by (simp add: word_less_nat_alt unat_word_ariths)

function search_free :: "u32 option list \<Rightarrow> u32 \<Rightarrow> u32 option" where
  "search_free store i =
    (if i < 0xFFFFFFFF then
       if unat i < length store \<and> store ! unat i = None \<or> unat i \<ge> length store then Some i else search_free store (i + 1)
     else None)"
  by auto
termination
  by (relation "measure (\<lambda>(store, i). 0xFFFFFFFF - unat i)") (auto simp: u32_suc word_less_nat_alt)

declare search_free.simps [simp del]

text \<open>The second component is whether the server is told to stop because the ids are exhausted.\<close>

definition GenerateNewGroupDbStoreId :: "GroupMgr \<Rightarrow> u32 \<times> bool \<times> GroupMgr" where
  "GenerateNewGroupDbStoreId m =
    (let newStorageId = NextGroupDbStoreId m;
         m = m\<lparr>NextGroupDbStoreId := NextGroupDbStoreId m + 1\<rparr>;
         m = (case search_free (GroupDbStore m) (NextGroupDbStoreId m) of
                None \<Rightarrow> m | Some i \<Rightarrow> m\<lparr>NextGroupDbStoreId := i\<rparr>)
     in (newStorageId, newStorageId = NextGroupDbStoreId m, m))"

definition resize :: "nat \<Rightarrow> 'a option list \<Rightarrow> 'a option list" where
  "resize n xs = take n xs @ replicate (n - length xs) None"

definition set_store :: "u32 \<Rightarrow> u32 option \<Rightarrow> GroupMgr \<Rightarrow> group_error + GroupMgr" where
  "set_store i g m = (if unat i < length (GroupDbStore m) then Inr (m\<lparr>GroupDbStore := (GroupDbStore m)[unat i := g]\<rparr>) else Inl OutOfBounds)"

definition RegisterGroupDbStoreId :: "u32 \<Rightarrow> u32 \<Rightarrow> GroupMgr \<Rightarrow> group_error + GroupMgr" where
  "RegisterGroupDbStoreId storageId grp m =
    set_store storageId (Some grp)
      (if unat storageId \<ge> length (GroupDbStore m) then m\<lparr>GroupDbStore := resize (unat (storageId + 1)) (GroupDbStore m)\<rparr> else m)"

definition FreeGroupDbStoreId :: "u32 \<Rightarrow> GroupMgr \<Rightarrow> group_error + GroupMgr" where
  "FreeGroupDbStoreId storageId m =
    set_store storageId None (if storageId < NextGroupDbStoreId m then m\<lparr>NextGroupDbStoreId := storageId\<rparr> else m)"

definition GetGroupByDbStoreId :: "u32 \<Rightarrow> GroupMgr \<Rightarrow> u32 option" where
  "GetGroupByDbStoreId storageId m = (if unat storageId < length (GroupDbStore m) then GroupDbStore m ! unat storageId else None)"

definition GenerateGroupId :: "GroupMgr \<Rightarrow> u32 \<times> bool \<times> GroupMgr" where
  "GenerateGroupId m = (NextGroupId m, NextGroupId m \<ge> 0xFFFFFFFE, m\<lparr>NextGroupId := NextGroupId m + 1\<rparr>)"

definition AddGroup :: "u32 \<Rightarrow> GroupMgr \<Rightarrow> GroupMgr" where
  "AddGroup grp m = m\<lparr>GroupStore := insert grp (GroupStore m)\<rparr>"

definition RemoveGroup :: "u32 \<Rightarrow> GroupMgr \<Rightarrow> GroupMgr" where
  "RemoveGroup grp m = m\<lparr>GroupStore := GroupStore m - {grp}\<rparr>"

text \<open>The manager's part of \<open>Group::Create\<close>, followed by \<open>AddGroup\<close>, and of \<open>Group::Disband\<close>.\<close>

definition create_group :: "GroupMgr \<Rightarrow> group_error + u32 \<times> u32 \<times> GroupMgr" where
  "create_group m =
    (let (grp, _, m) = GenerateGroupId m; (i, _, m) = GenerateNewGroupDbStoreId m
     in map_sum id (\<lambda>m. (grp, i, AddGroup grp m)) (RegisterGroupDbStoreId i grp m))"

definition disband_group :: "u32 \<Rightarrow> u32 \<Rightarrow> GroupMgr \<Rightarrow> group_error + GroupMgr" where
  "disband_group grp i m = map_sum id (RemoveGroup grp) (FreeGroupDbStoreId i m)"

text \<open>The first loop of \<open>LoadGroups\<close>, over the ids of the table in ascending order.\<close>

primrec load_ids :: "u32 list \<Rightarrow> GroupMgr \<Rightarrow> group_error + GroupMgr" where
  "load_ids [] m = Inr m"
| "load_ids (storageId # ids) m =
    (let (grp, _, m) = GenerateGroupId m
     in andThen (RegisterGroupDbStoreId storageId grp (AddGroup grp m)) (\<lambda>m.
        load_ids ids (if storageId = NextGroupDbStoreId m then m\<lparr>NextGroupDbStoreId := NextGroupDbStoreId m + 1\<rparr> else m)))"

section \<open>The pool as a set\<close>

text \<open>What the vector stands for: the ids in use and the groups that hold them.\<close>

definition holds :: "GroupMgr \<Rightarrow> u32 \<Rightarrow> u32 option" where
  "holds m = (\<lambda>i. GetGroupByDbStoreId i m)"

text \<open>The next id is free and every smaller one but 0, which no group has, is in use.\<close>

definition pool_ok :: "GroupMgr \<Rightarrow> bool" where
  "pool_ok m \<longleftrightarrow> NextGroupDbStoreId m > 0 \<and> holds m 0 = None \<and> holds m (NextGroupDbStoreId m) = None \<and>
     (\<forall>i. 0 < i \<and> i < NextGroupDbStoreId m \<longrightarrow> holds m i \<noteq> None) \<and> length (GroupDbStore m) < 0xFFFFFFFF"

lemma search_free_spec:
  "i < 0xFFFFFFFF \<Longrightarrow> length store < 0xFFFFFFFF \<Longrightarrow>
    \<exists>j. search_free store i = Some j \<and> i \<le> j \<and> (unat j < length store \<longrightarrow> store ! unat j = None) \<and>
      (\<forall>k. i \<le> k \<and> k < j \<longrightarrow> unat k < length store \<and> store ! unat k \<noteq> None)"
proof (induction store i rule: search_free.induct)
  case (1 store i)
  show ?case
  proof (cases "unat i < length store \<and> store ! unat i = None \<or> unat i \<ge> length store")
    case True
    then show ?thesis using "1.prems" search_free.simps [of store i] by auto
  next
    case False
    have u: "unat (i + 1) = Suc (unat i)" by (rule u32_suc [OF "1.prems"(1)])
    then have "i + 1 < 0xFFFFFFFF" using False "1.prems"(2) by (simp add: word_less_nat_alt)
    from "1.IH" [OF "1.prems"(1) False this "1.prems"(2)] obtain j where
      j: "search_free store (i + 1) = Some j" "i + 1 \<le> j" "unat j < length store \<longrightarrow> store ! unat j = None"
        "\<forall>k. i + 1 \<le> k \<and> k < j \<longrightarrow> unat k < length store \<and> store ! unat k \<noteq> None" by blast
    have s: "search_free store i = search_free store (i + 1)" using False "1.prems"(1) search_free.simps [of store i] by auto
    have le: "i \<le> k \<longleftrightarrow> k = i \<or> i + 1 \<le> k" for k by (auto simp: word_le_nat_alt u word_unat_eq_iff)
    then have "\<forall>k. i \<le> k \<and> k < j \<longrightarrow> unat k < length store \<and> store ! unat k \<noteq> None" using j(4) False by auto
    then show ?thesis using s j le by (intro exI [of _ j]) simp
  qed
qed

lemma resize_nth: "i < n \<Longrightarrow> length xs \<le> n \<Longrightarrow> resize n xs ! i = (if i < length xs then xs ! i else None)"
  by (simp add: resize_def nth_append)

lemma length_resize [simp]: "length (resize n xs) = n"
  by (simp add: resize_def)

text \<open>Registering an id makes the group its holder and changes no other id.\<close>

lemma Register_spec:
  assumes "i < 0xFFFFFFFF"
  shows "\<exists>m'. RegisterGroupDbStoreId i g m = Inr m' \<and> holds m' = (holds m)(i \<mapsto> g) \<and> NextGroupDbStoreId m' = NextGroupDbStoreId m \<and>
    length (GroupDbStore m') = max (length (GroupDbStore m)) (Suc (unat i)) \<and> NextGroupId m' = NextGroupId m \<and> GroupStore m' = GroupStore m"
proof -
  define s where "s = (if unat i \<ge> length (GroupDbStore m) then resize (unat (i + 1)) (GroupDbStore m) else GroupDbStore m)"
  have len: "length s = max (length (GroupDbStore m)) (Suc (unat i))" by (auto simp: s_def u32_suc [OF assms])
  have nth: "s ! k = (if k < length (GroupDbStore m) then GroupDbStore m ! k else None)" if "k < length s" for k
    using that len by (auto simp: s_def u32_suc [OF assms] resize_nth)
  have "RegisterGroupDbStoreId i g m = Inr (m\<lparr>GroupDbStore := s[unat i := Some g]\<rparr>)"
    using len by (auto simp: RegisterGroupDbStoreId_def set_store_def s_def)
  moreover have "holds (m\<lparr>GroupDbStore := s[unat i := Some g]\<rparr>) = (holds m)(i \<mapsto> g)"
  proof
    fix j
    have "unat j = unat i \<longleftrightarrow> j = i" by (simp add: word_unat_eq_iff)
    then show "holds (m\<lparr>GroupDbStore := s[unat i := Some g]\<rparr>) j = ((holds m)(i \<mapsto> g)) j"
      using nth [of "unat j"] len by (auto simp: holds_def GetGroupByDbStoreId_def nth_list_update)
  qed
  ultimately show ?thesis using len by (intro exI [of _ "m\<lparr>GroupDbStore := s[unat i := Some g]\<rparr>"]) simp
qed

lemma Free_spec:
  assumes "holds m i \<noteq> None"
  shows "\<exists>m'. FreeGroupDbStoreId i m = Inr m' \<and> holds m' = (holds m)(i := None) \<and> NextGroupDbStoreId m' = min i (NextGroupDbStoreId m) \<and>
    length (GroupDbStore m') = length (GroupDbStore m) \<and> NextGroupId m' = NextGroupId m \<and> GroupStore m' = GroupStore m"
proof -
  have i: "unat i < length (GroupDbStore m)" using assms by (auto simp: holds_def GetGroupByDbStoreId_def split: if_splits)
  define n where "n = min i (NextGroupDbStoreId m)"
  have "FreeGroupDbStoreId i m = Inr (m\<lparr>NextGroupDbStoreId := n, GroupDbStore := (GroupDbStore m)[unat i := None]\<rparr>)"
    using i by (auto simp: FreeGroupDbStoreId_def set_store_def n_def min_def)
  moreover have "holds (m\<lparr>NextGroupDbStoreId := n, GroupDbStore := (GroupDbStore m)[unat i := None]\<rparr>) = (holds m)(i := None)"
  proof
    fix j
    have "unat j = unat i \<longleftrightarrow> j = i" by (simp add: word_unat_eq_iff)
    then show "holds (m\<lparr>NextGroupDbStoreId := n, GroupDbStore := (GroupDbStore m)[unat i := None]\<rparr>) j = ((holds m)(i := None)) j"
      using i by (auto simp: holds_def GetGroupByDbStoreId_def nth_list_update)
  qed
  ultimately show ?thesis by (intro exI [of _ "m\<lparr>NextGroupDbStoreId := n, GroupDbStore := (GroupDbStore m)[unat i := None]\<rparr>"]) (simp add: n_def)
qed

lemma holds_cong: "GroupDbStore m' = GroupDbStore m \<Longrightarrow> holds m' = holds m"
  unfolding holds_def GetGroupByDbStoreId_def by (simp only:)

lemma holds_length: "holds m i \<noteq> None \<Longrightarrow> unat i < length (GroupDbStore m)"
  by (auto simp: holds_def GetGroupByDbStoreId_def split: if_splits)

text \<open>The next id is at most the size of the vector, so there is room for it.\<close>

lemma next_small:
  assumes "pool_ok m"
  shows "unat (NextGroupDbStoreId m) \<le> max 1 (length (GroupDbStore m))" "NextGroupDbStoreId m < 0xFFFFFFFF"
proof -
  let ?n = "NextGroupDbStoreId m"
  show le: "unat ?n \<le> max 1 (length (GroupDbStore m))"
  proof (cases "unat ?n \<le> 1")
    case False
    then have "?n \<noteq> 0" by auto
    then have u: "unat (?n - 1) = unat ?n - 1" by (rule unat_minus_one)
    then have "0 < ?n - 1" "?n - 1 < ?n" using False by (simp_all add: word_less_nat_alt)
    then have "holds m (?n - 1) \<noteq> None" using assms by (simp add: pool_ok_def)
    then show ?thesis using holds_length [of m "?n - 1"] u by simp
  qed simp
  then show "?n < 0xFFFFFFFF" using assms by (auto simp: pool_ok_def word_less_nat_alt)
qed

lemma Generate_spec:
  assumes "pool_ok m"
  shows "\<exists>n. GenerateNewGroupDbStoreId m = (NextGroupDbStoreId m, False, m\<lparr>NextGroupDbStoreId := n\<rparr>) \<and>
    NextGroupDbStoreId m < n \<and> holds m n = None \<and> (\<forall>i. NextGroupDbStoreId m < i \<and> i < n \<longrightarrow> holds m i \<noteq> None)"
proof -
  let ?n = "NextGroupDbStoreId m" and ?s = "GroupDbStore m"
  have u: "unat (?n + 1) = Suc (unat ?n)" by (rule u32_suc [OF next_small(2) [OF assms]])
  have l: "length ?s < 0xFFFFFFFF" using assms by (simp add: pool_ok_def)
  show ?thesis
  proof (cases "?n + 1 < 0xFFFFFFFF")
    case True
    then obtain j where j: "search_free ?s (?n + 1) = Some j" "?n + 1 \<le> j" "unat j < length ?s \<longrightarrow> ?s ! unat j = None"
      "\<forall>k. ?n + 1 \<le> k \<and> k < j \<longrightarrow> unat k < length ?s \<and> ?s ! unat k \<noteq> None"
      using search_free_spec [OF True l] by blast
    have lt: "?n < j" using j(2) u by (simp add: word_less_nat_alt word_le_nat_alt)
    have "GenerateNewGroupDbStoreId m = (?n, False, m\<lparr>NextGroupDbStoreId := j\<rparr>)"
      using j(1) lt by (auto simp: GenerateNewGroupDbStoreId_def Let_def)
    moreover have "holds m j = None" using j(3) by (simp add: holds_def GetGroupByDbStoreId_def)
    moreover have "holds m i \<noteq> None" if "?n < i" "i < j" for i
    proof -
      have "?n + 1 \<le> i" using that(1) u by (simp add: word_less_nat_alt word_le_nat_alt)
      then show ?thesis using j(4) that(2) by (simp add: holds_def GetGroupByDbStoreId_def)
    qed
    ultimately show ?thesis using lt by blast
  next
    case False
    then have "search_free ?s (?n + 1) = None" by (subst search_free.simps) simp
    then have g: "GenerateNewGroupDbStoreId m = (?n, False, m\<lparr>NextGroupDbStoreId := ?n + 1\<rparr>)"
      using u by (auto simp: GenerateNewGroupDbStoreId_def Let_def word_unat_eq_iff)
    have "unat (?n + 1) \<ge> 0xFFFFFFFF" using False by (simp add: word_less_nat_alt)
    then have "holds m (?n + 1) = None" using holds_length [of m "?n + 1"] l by (cases "holds m (?n + 1)") auto
    then show ?thesis using g u by (intro exI [of _ "?n + 1"]) (auto simp: word_less_nat_alt)
  qed
qed

lemma create_group_spec:
  assumes "pool_ok m"
  shows "\<exists>m'. create_group m = Inr (NextGroupId m, NextGroupDbStoreId m, m') \<and>
    holds m' = (holds m)(NextGroupDbStoreId m \<mapsto> NextGroupId m) \<and> (length (GroupDbStore m) < 0xFFFFFFFE \<longrightarrow> pool_ok m')"
proof -
  define a where "a = m\<lparr>NextGroupId := NextGroupId m + 1\<rparr>"
  have a: "GroupDbStore a = GroupDbStore m" "NextGroupDbStoreId a = NextGroupDbStoreId m" by (simp_all add: a_def)
  have pa: "pool_ok a" using assms holds_cong [OF a(1)] by (simp add: pool_ok_def a)
  obtain n where n: "GenerateNewGroupDbStoreId a = (NextGroupDbStoreId m, False, a\<lparr>NextGroupDbStoreId := n\<rparr>)"
    "NextGroupDbStoreId m < n" "holds m n = None" "\<forall>i. NextGroupDbStoreId m < i \<and> i < n \<longrightarrow> holds m i \<noteq> None"
    using Generate_spec [OF pa] unfolding a holds_cong [OF a(1)] by blast
  obtain r where r: "RegisterGroupDbStoreId (NextGroupDbStoreId m) (NextGroupId m) (a\<lparr>NextGroupDbStoreId := n\<rparr>) = Inr r"
    "holds r = (holds (a\<lparr>NextGroupDbStoreId := n\<rparr>))(NextGroupDbStoreId m \<mapsto> NextGroupId m)" "NextGroupDbStoreId r = n"
    "length (GroupDbStore r) = max (length (GroupDbStore m)) (Suc (unat (NextGroupDbStoreId m)))"
    using Register_spec [OF next_small(2) [OF assms], of "NextGroupId m" "a\<lparr>NextGroupDbStoreId := n\<rparr>"] a by auto
  have h: "holds (a\<lparr>NextGroupDbStoreId := n\<rparr>) = holds m" "holds (AddGroup (NextGroupId m) r) = holds r"
    by (rule holds_cong; simp add: a AddGroup_def)+
  have "create_group m = Inr (NextGroupId m, NextGroupDbStoreId m, AddGroup (NextGroupId m) r)"
    using n(1) r(1) by (simp add: create_group_def GenerateGroupId_def flip: a_def)
  moreover have "pool_ok (AddGroup (NextGroupId m) r)" if "length (GroupDbStore m) < 0xFFFFFFFE"
  proof -
    have "length (GroupDbStore r) < 0xFFFFFFFF" using r(4) that next_small(1) [OF assms] by auto
    moreover have "holds m i \<noteq> None" if "0 < i" "i < n" "i \<noteq> NextGroupDbStoreId m" for i
      using that n(4) assms by (cases "i < NextGroupDbStoreId m") (auto simp: pool_ok_def)
    moreover have "NextGroupDbStoreId (AddGroup (NextGroupId m) r) = n" "GroupDbStore (AddGroup (NextGroupId m) r) = GroupDbStore r"
      using r(3) by (simp_all add: AddGroup_def)
    ultimately show ?thesis
      using n(2,3) assms unfolding pool_ok_def h r(2) by (auto simp: word_neq_0_conv)
  qed
  ultimately show ?thesis using h r(2) by (intro exI [of _ "AddGroup (NextGroupId m) r"]) simp
qed

lemma disband_group_spec:
  assumes "pool_ok m" "holds m i = Some g"
  shows "\<exists>m'. disband_group g i m = Inr m' \<and> holds m' = (holds m)(i := None) \<and> pool_ok m'"
proof -
  obtain r where r: "FreeGroupDbStoreId i m = Inr r" "holds r = (holds m)(i := None)" "NextGroupDbStoreId r = min i (NextGroupDbStoreId m)"
    "length (GroupDbStore r) = length (GroupDbStore m)"
    using Free_spec [of m i] assms(2) by auto
  have h: "holds (RemoveGroup g r) = holds r" by (rule holds_cong) (simp add: RemoveGroup_def)
  have "0 < i" using assms by (auto simp: pool_ok_def word_neq_0_conv [symmetric])
  then have "pool_ok (RemoveGroup g r)"
    using assms(1) r(3,4) unfolding pool_ok_def h r(2) by (auto simp: RemoveGroup_def min_def)
  then show ?thesis using r(1,2) h by (simp add: disband_group_def)
qed

text \<open>Loading the ids of the table, in ascending order.\<close>

lemma load_id_step:
  assumes "pool_ok m" "i < 0xFFFFFFFE" "\<forall>k\<in>dom (holds m). k < i" "0 < i"
  shows "\<exists>r. RegisterGroupDbStoreId i g (AddGroup g (m\<lparr>NextGroupId := x\<rparr>)) = Inr r \<and>
    pool_ok (if i = NextGroupDbStoreId r then r\<lparr>NextGroupDbStoreId := NextGroupDbStoreId r + 1\<rparr> else r) \<and>
    dom (holds r) = insert i (dom (holds m))"
proof -
  let ?m = "AddGroup g (m\<lparr>NextGroupId := x\<rparr>)"
  have i: "i < 0xFFFFFFFF" using assms(2) by (simp add: word_less_nat_alt)
  have h: "holds ?m = holds m" by (rule holds_cong) (simp add: AddGroup_def)
  have f: "NextGroupDbStoreId ?m = NextGroupDbStoreId m" "GroupDbStore ?m = GroupDbStore m" by (simp_all add: AddGroup_def)
  obtain r where r: "RegisterGroupDbStoreId i g ?m = Inr r" "holds r = (holds m)(i \<mapsto> g)" "NextGroupDbStoreId r = NextGroupDbStoreId m"
    "length (GroupDbStore r) = max (length (GroupDbStore m)) (Suc (unat i))"
    using Register_spec [OF i, of g ?m] h f by auto
  have len: "length (GroupDbStore r) < 0xFFFFFFFF" using r(4) assms(1,2) by (simp add: pool_ok_def word_less_nat_alt)
  have below: "holds m k \<noteq> None \<Longrightarrow> k < i" for k using assms(3) by auto
  have "NextGroupDbStoreId m \<le> i"
  proof (rule ccontr)
    assume "\<not> NextGroupDbStoreId m \<le> i"
    then have "holds m i \<noteq> None" using assms(1,4) by (simp add: pool_ok_def)
    then show False using below [of i] by simp
  qed
  then consider "i = NextGroupDbStoreId m" | "NextGroupDbStoreId m < i" by (auto simp: le_less)
  then have "pool_ok (if i = NextGroupDbStoreId r then r\<lparr>NextGroupDbStoreId := NextGroupDbStoreId r + 1\<rparr> else r)"
  proof cases
    case 1
    let ?r = "r\<lparr>NextGroupDbStoreId := NextGroupDbStoreId r + 1\<rparr>"
    have hr: "holds ?r = (holds m)(i \<mapsto> g)" using r(2) holds_cong [of ?r r] by simp
    have u: "unat (i + 1) = Suc (unat i)" by (rule u32_suc [OF i])
    have lt: "i < i + 1" "0 < i + 1" by (simp_all add: word_less_nat_alt u)
    have "holds m (i + 1) = None" using below [of "i + 1"] lt(1) by (cases "holds m (i + 1)") auto
    moreover have "k = i \<or> k < i" if "k < i + 1" for k using that by (auto simp: word_less_nat_alt u word_unat_eq_iff less_Suc_eq)
    ultimately have "pool_ok ?r"
      using assms(1,4) len lt unfolding pool_ok_def hr by (auto simp: r(3) 1 [symmetric])
    then show ?thesis using 1 r(3) by simp
  next
    case 2
    then have "pool_ok r" using assms(1,4) len unfolding pool_ok_def r(2,3) by auto
    then show ?thesis using 2 r(3) by auto
  qed
  then show ?thesis using r(1,2) by auto
qed

lemma load_ids_ok:
  "pool_ok m \<Longrightarrow> sorted_wrt (<) ids \<Longrightarrow> \<forall>i\<in>set ids. 0 < i \<and> i < 0xFFFFFFFE \<and> (\<forall>k\<in>dom (holds m). k < i) \<Longrightarrow>
    \<exists>m'. load_ids ids m = Inr m' \<and> pool_ok m' \<and> dom (holds m') = dom (holds m) \<union> set ids"
proof (induction ids arbitrary: m)
  case (Cons i ids)
  let ?nx = "\<lambda>r. if i = NextGroupDbStoreId r then r\<lparr>NextGroupDbStoreId := NextGroupDbStoreId r + 1\<rparr> else r"
  obtain r where r: "RegisterGroupDbStoreId i (NextGroupId m) (AddGroup (NextGroupId m) (m\<lparr>NextGroupId := NextGroupId m + 1\<rparr>)) = Inr r"
    "pool_ok (?nx r)" "dom (holds r) = insert i (dom (holds m))"
    using load_id_step [OF Cons.prems(1), of i "NextGroupId m" "NextGroupId m + 1"] Cons.prems(3) by auto
  have h: "holds (?nx r) = holds r" by (rule holds_cong) simp
  have "\<forall>j\<in>set ids. 0 < j \<and> j < 0xFFFFFFFE \<and> (\<forall>k\<in>dom (holds (?nx r)). k < j)"
    unfolding h r(3) using Cons.prems(2,3) by auto
  from Cons.IH [OF r(2) _ this] Cons.prems(2) r(1,3) show ?case
    unfolding h by (auto simp: GenerateGroupId_def)
qed simp

lemma new_pool_ok: "pool_ok new_GroupMgr"
  by (auto simp: pool_ok_def new_GroupMgr_def holds_def GetGroupByDbStoreId_def word_less_nat_alt)

lemma holds_new: "dom (holds new_GroupMgr) = {}"
  by (simp add: new_GroupMgr_def holds_def GetGroupByDbStoreId_def dom_def)

text \<open>The manager after a start of the server, and groups that are created and disbanded.\<close>

inductive pool_init :: "GroupMgr \<Rightarrow> bool" where
  load: "sorted_wrt (<) ids \<Longrightarrow> \<forall>i\<in>set ids. 0 < i \<and> i < 0xFFFFFFFE \<Longrightarrow> load_ids ids new_GroupMgr = Inr m \<Longrightarrow> pool_init m"

inductive pool_step :: "GroupMgr \<Rightarrow> GroupMgr \<Rightarrow> bool" where
  create: "length (GroupDbStore m) < 0xFFFFFFFE \<Longrightarrow> create_group m = Inr (g, i, m') \<Longrightarrow> pool_step m m'"
| disband: "GetGroupByDbStoreId i m = Some g \<Longrightarrow> disband_group g i m = Inr m' \<Longrightarrow> pool_step m m'"

interpretation group_pool: invariant_system pool_init pool_step pool_ok
proof
  show "pool_ok m" if "pool_init m" for m
    using that load_ids_ok [OF new_pool_ok] by (cases rule: pool_init.cases) (fastforce simp: holds_new)
  show "pool_ok m'" if "pool_ok m" "pool_step m m'" for m m'
    using that(2)
  proof cases
    case (create g i)
    then show ?thesis using create_group_spec [OF that(1)] by auto
  next
    case (disband i g)
    then show ?thesis using disband_group_spec [OF that(1), of i g] by (auto simp: holds_def)
  qed
qed




end
