(* ===== verification/Net_Socket.thy ===== *)
theory Net_Socket
  imports Prelude
begin

text \<open>
  The base of all connections: the read and write buffers of \<open>common/Utilities/MessageBuffer.h\<close>, the states and the
  write queue of \<open>server/shared/Networking/Socket.h\<close>. The positions of a buffer are 64-bit, and reading or writing outside
  its storage is an error. What the operating system does with a write is an argument of each attempt.
\<close>

section \<open>Message buffers\<close>

datatype net_error = OutOfStorage

abbreviation (input) size_t :: "int \<Rightarrow> int" where "size_t n \<equiv> n mod 18446744073709551616"

record MessageBuffer =
  mb_wpos :: int
  mb_rpos :: int
  mb_storage :: bytes

definition new_MessageBuffer :: "nat \<Rightarrow> MessageBuffer" where
  "new_MessageBuffer initialSize = \<lparr>mb_wpos = 0, mb_rpos = 0, mb_storage = replicate initialSize 0\<rparr>"

definition Reset :: "MessageBuffer \<Rightarrow> MessageBuffer" where
  "Reset b = b\<lparr>mb_wpos := 0, mb_rpos := 0\<rparr>"

definition Resize :: "nat \<Rightarrow> MessageBuffer \<Rightarrow> MessageBuffer" where
  "Resize n b = b\<lparr>mb_storage := take n (mb_storage b) @ replicate (n - length (mb_storage b)) 0\<rparr>"

definition ReadCompleted :: "int \<Rightarrow> MessageBuffer \<Rightarrow> MessageBuffer" where
  "ReadCompleted n b = b\<lparr>mb_rpos := size_t (mb_rpos b + n)\<rparr>"

definition WriteCompleted :: "int \<Rightarrow> MessageBuffer \<Rightarrow> MessageBuffer" where
  "WriteCompleted n b = b\<lparr>mb_wpos := size_t (mb_wpos b + n)\<rparr>"

definition GetActiveSize :: "MessageBuffer \<Rightarrow> int" where
  "GetActiveSize b = size_t (mb_wpos b - mb_rpos b)"

definition GetRemainingSpace :: "MessageBuffer \<Rightarrow> int" where
  "GetRemainingSpace b = size_t (int (length (mb_storage b)) - mb_wpos b)"

text \<open>The bytes at an offset from the read pointer.\<close>

definition peek :: "nat \<Rightarrow> nat \<Rightarrow> MessageBuffer \<Rightarrow> net_error + bytes" where
  "peek k n b = (if nat (mb_rpos b) + k + n \<le> length (mb_storage b) then Inr (take n (drop (nat (mb_rpos b) + k) (mb_storage b)))
     else Inl OutOfStorage)"

text \<open>Copying into the storage at a position.\<close>

definition poke :: "int \<Rightarrow> bytes \<Rightarrow> MessageBuffer \<Rightarrow> net_error + MessageBuffer" where
  "poke i data b = (if i + int (length data) \<le> int (length (mb_storage b))
     then Inr (b\<lparr>mb_storage := take (nat i) (mb_storage b) @ data @ drop (nat i + length data) (mb_storage b)\<rparr>) else Inl OutOfStorage)"

definition Normalize :: "MessageBuffer \<Rightarrow> net_error + MessageBuffer" where
  "Normalize b =
    (if mb_rpos b \<noteq> 0 then
       case (if mb_rpos b \<noteq> mb_wpos b
             then case peek 0 (nat (GetActiveSize b)) b of Inl e \<Rightarrow> Inl e | Inr data \<Rightarrow> poke 0 data b else Inr b) of
         Inl e \<Rightarrow> Inl e
       | Inr b \<Rightarrow> Inr (b\<lparr>mb_wpos := size_t (mb_wpos b - mb_rpos b), mb_rpos := 0\<rparr>)
     else Inr b)"

definition EnsureFreeSpace :: "MessageBuffer \<Rightarrow> MessageBuffer" where
  "EnsureFreeSpace b = (if GetRemainingSpace b = 0 then Resize (length (mb_storage b) * 3 div 2) b else b)"

definition Write :: "bytes \<Rightarrow> MessageBuffer \<Rightarrow> net_error + MessageBuffer" where
  "Write data b = (if data = [] then Inr b else map_sum id (WriteCompleted (int (length data))) (poke (mb_wpos b) data b))"

subsection \<open>The data in a buffer\<close>

definition active_data :: "MessageBuffer \<Rightarrow> bytes" where
  "active_data b = take (nat (mb_wpos b - mb_rpos b)) (drop (nat (mb_rpos b)) (mb_storage b))"

definition mb_ok :: "MessageBuffer \<Rightarrow> bool" where
  "mb_ok b \<longleftrightarrow> 0 \<le> mb_rpos b \<and> mb_rpos b \<le> mb_wpos b \<and> mb_wpos b \<le> int (length (mb_storage b)) \<and> int (length (mb_storage b)) < 9223372036854775808"

lemma size_t_small: "0 \<le> n \<Longrightarrow> n < 9223372036854775808 \<Longrightarrow> size_t n = n"
  by simp

lemma active_size: "mb_ok b \<Longrightarrow> GetActiveSize b = mb_wpos b - mb_rpos b \<and> int (length (active_data b)) = mb_wpos b - mb_rpos b"
  by (auto simp: GetActiveSize_def mb_ok_def active_data_def min_def)

lemma remaining: "mb_ok b \<Longrightarrow> GetRemainingSpace b = int (length (mb_storage b)) - mb_wpos b"
  by (simp add: GetRemainingSpace_def mb_ok_def)

lemma new_ok: "int n < 9223372036854775808 \<Longrightarrow> mb_ok (new_MessageBuffer n) \<and> active_data (new_MessageBuffer n) = []"
  by (simp add: mb_ok_def new_MessageBuffer_def active_data_def)

lemma ReadCompleted_ok:
  assumes "mb_ok b" "0 \<le> n" "n \<le> GetActiveSize b"
  shows "mb_ok (ReadCompleted n b)" "active_data (ReadCompleted n b) = drop (nat n) (active_data b)"
proof -
  have n: "n \<le> mb_wpos b - mb_rpos b" using assms active_size by simp
  then have r: "mb_rpos (ReadCompleted n b) = mb_rpos b + n" using assms(1,2) by (simp add: ReadCompleted_def mb_ok_def)
  then show "mb_ok (ReadCompleted n b)" using assms(1,2) n by (simp add: mb_ok_def) (simp add: ReadCompleted_def)
  have "nat (mb_rpos b + n) = nat n + nat (mb_rpos b)" "nat (mb_wpos b - (mb_rpos b + n)) = nat (mb_wpos b - mb_rpos b) - nat n"
    using assms(1,2) n by (simp_all add: mb_ok_def nat_add_distrib nat_diff_distrib)
  then show "active_data (ReadCompleted n b) = drop (nat n) (active_data b)"
    unfolding active_data_def r by (simp add: drop_take) (simp add: ReadCompleted_def)
qed

lemma mb_nat:
  assumes "mb_ok b"
  obtains r w where "mb_rpos b = int r" "mb_wpos b = int w" "r \<le> w" "w \<le> length (mb_storage b)"
  using assms that [of "nat (mb_rpos b)" "nat (mb_wpos b)"] by (auto simp: mb_ok_def)

lemma peek_active:
  assumes "mb_ok b" "int k + int n \<le> GetActiveSize b"
  shows "peek k n b = Inr (take n (drop k (active_data b)))"
proof -
  obtain r w where rw: "mb_rpos b = int r" "mb_wpos b = int w" "r \<le> w" "w \<le> length (mb_storage b)" by (rule mb_nat [OF assms(1)])
  have kn: "k + n \<le> w - r" using assms(2) active_size [OF assms(1)] rw by linarith
  have "active_data b = take (w - r) (drop r (mb_storage b))" using rw by (simp add: active_data_def nat_diff_distrib)
  moreover have "take n (drop k (take (w - r) (drop r xs))) = take n (drop (r + k) xs)" for xs :: bytes
    using kn by (simp add: drop_take take_take min_def add.commute)
  moreover have "r + k + n \<le> length (mb_storage b)" using kn rw by linarith
  ultimately show ?thesis using rw by (simp add: peek_def)
qed

lemma Write_ok:
  assumes "mb_ok b" "int (length data) \<le> GetRemainingSpace b"
  shows "\<exists>b'. Write data b = Inr b' \<and> mb_ok b' \<and> active_data b' = active_data b @ data \<and> mb_rpos b' = mb_rpos b \<and>
    length (mb_storage b') = length (mb_storage b)"
proof (cases "data = []")
  case False
  have fit: "mb_wpos b + int (length data) \<le> int (length (mb_storage b))" using assms remaining by simp
  let ?s = "take (nat (mb_wpos b)) (mb_storage b) @ data @ drop (nat (mb_wpos b) + length data) (mb_storage b)"
  let ?b = "b\<lparr>mb_storage := ?s, mb_wpos := mb_wpos b + int (length data)\<rparr>"
  have w: "0 \<le> mb_wpos b" "mb_wpos b \<le> int (length (mb_storage b))" "0 \<le> mb_rpos b" "mb_rpos b \<le> mb_wpos b"
    using assms(1) by (simp_all add: mb_ok_def)
  have len: "length ?s = length (mb_storage b)" using fit w by auto
  have "Write data b = Inr ?b"
    using False fit w assms(1) by (simp add: Write_def poke_def WriteCompleted_def mb_ok_def)
  moreover have "mb_ok ?b" using assms(1) fit len by (simp add: mb_ok_def)
  moreover have "active_data ?b = active_data b @ data"
  proof -
    have a: "nat (mb_wpos b + int (length data) - mb_rpos b) = nat (mb_wpos b - mb_rpos b) + length data" using w by simp
    have d: "drop (nat (mb_rpos b)) ?s = drop (nat (mb_rpos b)) (take (nat (mb_wpos b)) (mb_storage b)) @ data @ drop (nat (mb_wpos b) + length data) (mb_storage b)"
      using w by (simp add: min_def nat_le_eq_zle)
    have l: "length (drop (nat (mb_rpos b)) (take (nat (mb_wpos b)) (mb_storage b))) = nat (mb_wpos b - mb_rpos b)"
      using w by (auto simp: nat_diff_distrib)
    show ?thesis
      using l w unfolding active_data_def by (simp add: a d drop_take nat_diff_distrib)
  qed
  ultimately show ?thesis using len by (intro exI [of _ ?b]) simp
qed (use assms in \<open>simp add: Write_def\<close>)

lemma Normalize_ok:
  assumes "mb_ok b"
  shows "\<exists>b'. Normalize b = Inr b' \<and> mb_ok b' \<and> active_data b' = active_data b \<and> mb_rpos b' = 0 \<and> length (mb_storage b') = length (mb_storage b)"
proof -
  obtain r w where rw: "mb_rpos b = int r" "mb_wpos b = int w" "r \<le> w" "w \<le> length (mb_storage b)" by (rule mb_nat [OF assms])
  have big: "int (length (mb_storage b)) < 9223372036854775808" using assms by (simp add: mb_ok_def)
  have a: "active_data b = take (w - r) (drop r (mb_storage b))" using rw by (simp add: active_data_def nat_diff_distrib)
  have st: "size_t (int w - int r) = int (w - r)" using rw big by simp
  consider "r = 0" | "0 < r" "r = w" | "0 < r" "r \<noteq> w" by blast
  then show ?thesis
  proof cases
    case 1
    then show ?thesis using assms rw by (simp add: Normalize_def)
  next
    case 2
    then have "Normalize b = Inr (b\<lparr>mb_wpos := 0, mb_rpos := 0\<rparr>)" using rw by (simp add: Normalize_def)
    then show ?thesis using 2 rw big a by (auto simp: mb_ok_def active_data_def)
  next
    case 3
    have g: "GetActiveSize b = int (w - r)" using st rw by (simp add: GetActiveSize_def)
    have p: "peek 0 (nat (GetActiveSize b)) b = Inr (active_data b)"
      using peek_active [OF assms, of 0 "w - r"] g a by simp
    have l: "length (active_data b) = w - r" using a rw by simp
    let ?s = "active_data b @ drop (w - r) (mb_storage b)"
    have len: "length ?s = length (mb_storage b)" using l rw by simp
    have "poke 0 (active_data b) b = Inr (b\<lparr>mb_storage := ?s\<rparr>)" using l rw by (simp add: poke_def)
    then have "Normalize b = Inr (b\<lparr>mb_storage := ?s, mb_wpos := int (w - r), mb_rpos := 0\<rparr>)"
      using 3 p st rw by (simp add: Normalize_def)
    moreover have "active_data (b\<lparr>mb_storage := ?s, mb_wpos := int (w - r), mb_rpos := 0\<rparr>) = active_data b"
      unfolding active_data_def [of "b\<lparr>mb_storage := ?s, mb_wpos := int (w - r), mb_rpos := 0\<rparr>"] using l by simp
    ultimately show ?thesis using len rw big by (simp add: mb_ok_def)
  qed
qed

lemma EnsureFreeSpace_ok:
  assumes "mb_ok b" "2 \<le> length (mb_storage b)" "int (length (mb_storage b)) < 4611686018427387904"
  shows "mb_ok (EnsureFreeSpace b)" "active_data (EnsureFreeSpace b) = active_data b" "0 < GetRemainingSpace (EnsureFreeSpace b)"
    "mb_rpos (EnsureFreeSpace b) = mb_rpos b" "length (mb_storage b) \<le> length (mb_storage (EnsureFreeSpace b))"
proof -
  obtain r w where rw: "mb_rpos b = int r" "mb_wpos b = int w" "r \<le> w" "w \<le> length (mb_storage b)" by (rule mb_nat [OF assms(1)])
  let ?n = "length (mb_storage b) * 3 div 2"
  have n: "length (mb_storage b) < ?n" using assms(2) by linarith
  have s: "mb_storage (Resize ?n b) = mb_storage b @ replicate (?n - length (mb_storage b)) 0" using n by (simp add: Resize_def)
  have ok: "mb_ok (Resize ?n b)" using assms(1,3) s n by (simp add: mb_ok_def) (simp add: Resize_def)
  have act: "active_data (Resize ?n b) = active_data b"
    unfolding active_data_def s using rw by (simp add: Resize_def nat_diff_distrib)
  have "0 < GetRemainingSpace (Resize ?n b)" using remaining [OF ok] s n rw by (simp add: Resize_def)
  moreover have "0 \<le> GetRemainingSpace b" using remaining [OF assms(1)] rw by simp
  ultimately show "mb_ok (EnsureFreeSpace b)" "active_data (EnsureFreeSpace b) = active_data b" "0 < GetRemainingSpace (EnsureFreeSpace b)"
    "mb_rpos (EnsureFreeSpace b) = mb_rpos b" "length (mb_storage b) \<le> length (mb_storage (EnsureFreeSpace b))"
    using ok act assms(1) n s by (auto simp: EnsureFreeSpace_def Resize_def)
qed

section \<open>Sockets\<close>

abbreviation (input) OpenState_Open :: u8 where "OpenState_Open \<equiv> 0"
abbreviation (input) OpenState_Closing :: u8 where "OpenState_Closing \<equiv> 1"
abbreviation (input) OpenState_Closed :: u8 where "OpenState_Closed \<equiv> 2"

text \<open>\<open>sock_wire\<close> is what was handed to the operating system, \<open>sock_shutdown\<close> whether the sending side of the connection was
  shut down and \<open>OnClose\<close> called.\<close>

record Socket =
  sock_openState :: u8
  sock_readBuffer :: MessageBuffer
  sock_writeQueue :: "MessageBuffer list"
  sock_isWritingAsync :: bool
  sock_wire :: bytes
  sock_shutdown :: bool

definition new_Socket :: Socket where
  "new_Socket = \<lparr>sock_openState = OpenState_Open, sock_readBuffer = new_MessageBuffer 4096, sock_writeQueue = [], sock_isWritingAsync = False,
     sock_wire = [], sock_shutdown = False\<rparr>"

definition IsOpen where "IsOpen s = (sock_openState s = OpenState_Open)"

text \<open>\<open>fetch_or\<close> gives the state before.\<close>

definition CloseSocket :: "'a Socket_scheme \<Rightarrow> 'a Socket_scheme" where
  "CloseSocket s =
    (let old = sock_openState s; s = s\<lparr>sock_openState := old OR OpenState_Closed\<rparr>
     in if old AND OpenState_Closed = 0 then s else s\<lparr>sock_shutdown := True\<rparr>)"

definition DelayedCloseSocket :: "'a Socket_scheme \<Rightarrow> 'a Socket_scheme" where
  "DelayedCloseSocket s =
    (let old = sock_openState s; s = s\<lparr>sock_openState := old OR OpenState_Closing\<rparr>
     in if old \<noteq> 0 then s else if sock_writeQueue s = [] then CloseSocket s else s)"

definition QueuePacket :: "MessageBuffer \<Rightarrow> 'a Socket_scheme \<Rightarrow> 'a Socket_scheme" where
  "QueuePacket buffer s = s\<lparr>sock_writeQueue := sock_writeQueue s @ [buffer]\<rparr>"

definition AsyncProcessQueue :: "'a Socket_scheme \<Rightarrow> bool \<times> 'a Socket_scheme" where
  "AsyncProcessQueue s = (False, s\<lparr>sock_isWritingAsync := True\<rparr>)"

text \<open>The result of \<open>write_some\<close>: the number of bytes taken, never more than were given, or an error.\<close>

datatype write_result = Sent nat | WouldBlock | WriteFailed

definition pop_message :: "'a Socket_scheme \<Rightarrow> 'a Socket_scheme" where
  "pop_message s =
    (let s = s\<lparr>sock_writeQueue := tl (sock_writeQueue s)\<rparr>
     in if sock_openState s = OpenState_Closing \<and> sock_writeQueue s = [] then CloseSocket s else s)"

definition HandleQueue :: "write_result \<Rightarrow> 'a Socket_scheme \<Rightarrow> net_error + bool \<times> 'a Socket_scheme" where
  "HandleQueue r s =
    (case sock_writeQueue s of [] \<Rightarrow> Inr (False, s)
     | queuedMessage # rest \<Rightarrow>
         (case r of
            WouldBlock \<Rightarrow> Inr (AsyncProcessQueue s)
          | WriteFailed \<Rightarrow> Inr (False, pop_message s)
          | Sent n \<Rightarrow>
              let bytesSent = min n (nat (GetActiveSize queuedMessage)) in
              (case peek 0 bytesSent queuedMessage of Inl e \<Rightarrow> Inl e
               | Inr data \<Rightarrow>
                   let s = s\<lparr>sock_wire := sock_wire s @ data\<rparr>
                   in if bytesSent = 0 then Inr (False, pop_message s)
                      else if int bytesSent < GetActiveSize queuedMessage
                      then Inr (AsyncProcessQueue (s\<lparr>sock_writeQueue := ReadCompleted (int bytesSent) queuedMessage # rest\<rparr>))
                      else let s = pop_message s in Inr (sock_writeQueue s \<noteq> [], s))))"

text \<open>The loop of \<open>Update\<close>; the results of its writes are numbered.\<close>

lemma pop_message_queue [simp]: "sock_writeQueue (pop_message s) = tl (sock_writeQueue s)"
  by (simp add: pop_message_def CloseSocket_def Let_def)

lemma HandleQueue_shrinks: "HandleQueue r s = Inr (True, s') \<Longrightarrow> length (sock_writeQueue s') < length (sock_writeQueue s)"
  by (auto simp: HandleQueue_def AsyncProcessQueue_def Let_def split: list.splits write_result.splits sum.splits if_splits)

function queue_loop :: "(nat \<Rightarrow> write_result) \<Rightarrow> nat \<Rightarrow> 'a Socket_scheme \<Rightarrow> net_error + 'a Socket_scheme" where
  "queue_loop os k s = (case HandleQueue (os k) s of Inl e \<Rightarrow> Inl e
     | Inr (again, t) \<Rightarrow> if again then queue_loop os (Suc k) t else Inr t)"
  by auto
termination
  by (relation "measure (\<lambda>(os, k, s). length (sock_writeQueue s))") (auto dest: HandleQueue_shrinks)

declare queue_loop.simps [simp del]

definition Update :: "(nat \<Rightarrow> write_result) \<Rightarrow> 'a Socket_scheme \<Rightarrow> net_error + bool \<times> 'a Socket_scheme" where
  "Update os s =
    (if sock_openState s = OpenState_Closed then Inr (False, s)
     else if sock_isWritingAsync s \<or> sock_writeQueue s = [] \<and> sock_openState s = OpenState_Open then Inr (True, s)
     else map_sum id (\<lambda>s. (True, s)) (queue_loop os 0 s))"

definition WriteHandlerWrapper :: "write_result \<Rightarrow> 'a Socket_scheme \<Rightarrow> net_error + 'a Socket_scheme" where
  "WriteHandlerWrapper r s = map_sum id snd (HandleQueue r (s\<lparr>sock_isWritingAsync := False\<rparr>))"

text \<open>\<open>AsyncRead\<close> and the arrival of data or of an error; the result is whether the read handler runs.\<close>

definition PrepareRead :: "'a Socket_scheme \<Rightarrow> net_error + 'a Socket_scheme" where
  "PrepareRead s = map_sum id (\<lambda>b. s\<lparr>sock_readBuffer := EnsureFreeSpace b\<rparr>) (Normalize (sock_readBuffer s))"

definition ReadHandlerInternal :: "bytes option \<Rightarrow> 'a Socket_scheme \<Rightarrow> net_error + bool \<times> 'a Socket_scheme" where
  "ReadHandlerInternal arrived s =
    (case arrived of None \<Rightarrow> Inr (False, CloseSocket s)
     | Some data \<Rightarrow> map_sum id (\<lambda>b. let s = s\<lparr>sock_readBuffer := b\<rparr> in (IsOpen s, s)) (Write data (sock_readBuffer s)))"

section \<open>What reaches the wire\<close>

definition queue_ok :: "'a Socket_scheme \<Rightarrow> bool" where
  "queue_ok s \<longleftrightarrow> (\<forall>b\<in>set (sock_writeQueue s). mb_ok b \<and> active_data b \<noteq> [])"

definition unsent :: "'a Socket_scheme \<Rightarrow> bytes" where
  "unsent s = concat (map active_data (sock_writeQueue s))"

definition works :: "write_result \<Rightarrow> bool" where
  "works r \<longleftrightarrow> (case r of Sent n \<Rightarrow> n > 0 | WouldBlock \<Rightarrow> True | WriteFailed \<Rightarrow> False)"

lemma pop_message_wire [simp]: "sock_wire (pop_message s) = sock_wire s"
  by (simp add: pop_message_def CloseSocket_def Let_def)

text \<open>An attempt that does not fail moves bytes from the head of the queue to the wire.\<close>

lemma HandleQueue_works:
  assumes "queue_ok s" "works r"
  shows "\<exists>again t. HandleQueue r s = Inr (again, t) \<and> queue_ok t \<and> sock_wire t @ unsent t = sock_wire s @ unsent s"
proof (cases "sock_writeQueue s")
  case Nil
  then have "HandleQueue r s = Inr (False, s)" by (simp add: HandleQueue_def)
  then show ?thesis using assms by blast
next
  case (Cons m rest)
  have m: "mb_ok m" "active_data m \<noteq> []" using assms(1) Cons by (simp_all add: queue_ok_def)
  have len: "nat (GetActiveSize m) = length (active_data m)" using active_size [OF m(1)] by linarith
  show ?thesis
  proof (cases r)
    case (Sent n)
    let ?k = "min n (length (active_data m))"
    have k: "0 < ?k" using Sent assms(2) m(2) by (simp add: works_def)
    have "int ?k \<le> GetActiveSize m" using active_size [OF m(1)] by auto
    then have p: "peek 0 ?k m = Inr (take ?k (active_data m))" using peek_active [OF m(1), of 0 ?k] by simp
    show ?thesis
    proof (cases "?k < length (active_data m)")
      case True
      have rc: "mb_ok (ReadCompleted (int ?k) m)" "active_data (ReadCompleted (int ?k) m) = drop ?k (active_data m)"
        using ReadCompleted_ok [OF m(1), of "int ?k"] True len by auto
      let ?t = "s\<lparr>sock_wire := sock_wire s @ take ?k (active_data m), sock_writeQueue := ReadCompleted (int ?k) m # rest, sock_isWritingAsync := True\<rparr>"
      have "HandleQueue r s = Inr (False, ?t)"
        using k True p len Cons Sent by (auto simp: HandleQueue_def Let_def AsyncProcessQueue_def)
      moreover have "queue_ok ?t" using assms(1) Cons rc True by (auto simp: queue_ok_def)
      moreover have "sock_wire ?t @ unsent ?t = sock_wire s @ unsent s"
        using rc(2) Cons by (simp add: unsent_def)
      ultimately show ?thesis by blast
    next
      case False
      let ?t = "pop_message (s\<lparr>sock_wire := sock_wire s @ active_data m\<rparr>)"
      have "HandleQueue r s = Inr (sock_writeQueue ?t \<noteq> [], ?t)"
        using k False p len Cons Sent by (auto simp: HandleQueue_def Let_def min_def split: if_splits)
      moreover have "queue_ok ?t" "sock_wire ?t @ unsent ?t = sock_wire s @ unsent s"
        using assms(1) Cons by (simp_all add: queue_ok_def unsent_def)
      ultimately show ?thesis by blast
    qed
  next
    case WouldBlock
    then have "HandleQueue r s = Inr (False, s\<lparr>sock_isWritingAsync := True\<rparr>)" using Cons by (simp add: HandleQueue_def AsyncProcessQueue_def)
    then show ?thesis using assms(1) by (auto simp: queue_ok_def unsent_def)
  next
    case WriteFailed
    then show ?thesis using assms(2) by (simp add: works_def)
  qed
qed

lemma queue_loop_works:
  "queue_ok s \<Longrightarrow> (\<And>j. works (os j)) \<Longrightarrow>
    \<exists>t. queue_loop os k s = Inr t \<and> queue_ok t \<and> sock_wire t @ unsent t = sock_wire s @ unsent s"
proof (induction os k s rule: queue_loop.induct)
  case (1 os k s)
  obtain again t where t: "HandleQueue (os k) s = Inr (again, t)" "queue_ok t" "sock_wire t @ unsent t = sock_wire s @ unsent s"
    using HandleQueue_works "1.prems" by blast
  show ?case
  proof (cases again)
    case True
    then obtain u where "queue_loop os (Suc k) t = Inr u" "queue_ok u" "sock_wire u @ unsent u = sock_wire t @ unsent t"
      using "1.IH" [OF t(1) refl _ t(2) "1.prems"(2)] by auto
    then show ?thesis using t True by (subst queue_loop.simps) simp
  next
    case False
    then show ?thesis using t by (subst queue_loop.simps) simp
  qed
qed

text \<open>Packets are queued and written while the connection works; the second component is all data queued so far.\<close>

inductive socket_step :: "Socket \<times> bytes \<Rightarrow> Socket \<times> bytes \<Rightarrow> bool" where
  queue: "mb_ok b \<Longrightarrow> active_data b \<noteq> [] \<Longrightarrow> socket_step (s, q) (QueuePacket b s, q @ active_data b)"
| update: "(\<forall>k. works (os k)) \<Longrightarrow> Update os s = Inr (r, t) \<Longrightarrow> socket_step (s, q) (t, q)"
| writable: "works r \<Longrightarrow> WriteHandlerWrapper r s = Inr t \<Longrightarrow> socket_step (s, q) (t, q)"
| close: "socket_step (s, q) (CloseSocket s, q)"
| delayed: "socket_step (s, q) (DelayedCloseSocket s, q)"

definition socket_init :: "Socket \<times> bytes \<Rightarrow> bool" where
  "socket_init x \<longleftrightarrow> x = (new_Socket, [])"

definition stream_inv :: "Socket \<times> bytes \<Rightarrow> bool" where
  "stream_inv x \<longleftrightarrow> queue_ok (fst x) \<and> sock_wire (fst x) @ unsent (fst x) = snd x"

lemma close_fields:
  "queue_ok (CloseSocket s) = queue_ok s" "sock_wire (CloseSocket s) = sock_wire s" "unsent (CloseSocket s) = unsent s"
  "queue_ok (DelayedCloseSocket s) = queue_ok s" "sock_wire (DelayedCloseSocket s) = sock_wire s" "unsent (DelayedCloseSocket s) = unsent s"
  by (simp_all add: queue_ok_def unsent_def CloseSocket_def DelayedCloseSocket_def Let_def)

lemma Update_works:
  assumes "queue_ok s" "\<forall>k. works (os k)"
  shows "\<exists>r t. Update os s = Inr (r, t) \<and> queue_ok t \<and> sock_wire t @ unsent t = sock_wire s @ unsent s"
  using queue_loop_works [OF assms(1), of os 0] assms by (auto simp: Update_def)

lemma Writable_works:
  assumes "queue_ok s" "works r"
  shows "\<exists>t. WriteHandlerWrapper r s = Inr t \<and> queue_ok t \<and> sock_wire t @ unsent t = sock_wire s @ unsent s"
  using HandleQueue_works [of "s\<lparr>sock_isWritingAsync := False\<rparr>" r] assms by (auto simp: WriteHandlerWrapper_def queue_ok_def unsent_def)

interpretation sockets: invariant_system socket_init socket_step stream_inv
proof
  show "stream_inv x" if "socket_init x" for x
    using that by (simp add: socket_init_def stream_inv_def new_Socket_def queue_ok_def unsent_def)
  show "stream_inv y" if "stream_inv x" "socket_step x y" for x y
    using that(2,1)
  proof cases
    case (update os s r t q)
    then show ?thesis using Update_works [of s os] that(1) by (auto simp: stream_inv_def)
  next
    case (writable r s t q)
    then show ?thesis using Writable_works [of s r] that(1) by (auto simp: stream_inv_def)
  next
    case (queue b s q)
    then show ?thesis using that(1) by (auto simp: stream_inv_def QueuePacket_def queue_ok_def unsent_def)
  qed (use that(1) in \<open>auto simp: stream_inv_def close_fields\<close>)
qed

text \<open>Claim C20: a connection delivers what was queued, in order. While the operating system accepts writes, in any portions
  and with any interruptions, what has been written followed by what is still queued is the concatenation of all packets
  queued; no byte is lost, repeated or reordered, and no write reads outside its buffer.\<close>

theorem socket_stream:
  assumes "socket_step\<^sup>*\<^sup>* (new_Socket, []) (s, q)"
  shows "sock_wire s @ concat (map active_data (sock_writeQueue s)) = q \<and> (\<forall>os. (\<forall>k. works (os k)) \<longrightarrow> (\<exists>r t. Update os s = Inr (r, t)))"
proof -
  have "stream_inv (s, q)" using sockets.invar_reachable [OF _ assms] by (simp add: socket_init_def)
  then have "queue_ok s" "sock_wire s @ unsent s = q" by (simp_all add: stream_inv_def)
  moreover from this(1) have "\<exists>r t. Update os s = Inr (r, t)" if "\<forall>k. works (os k)" for os using Update_works that by blast
  ultimately show ?thesis by (simp add: unsent_def)
qed

definition sample_message :: MessageBuffer where
  "sample_message = \<lparr>mb_wpos = 3, mb_rpos = 0, mb_storage = [7, 8, 9]\<rparr>"

theorem socket_stream_witness:
  "sock_wire (QueuePacket sample_message new_Socket) @ concat (map active_data (sock_writeQueue (QueuePacket sample_message new_Socket))) = [7, 8, 9]"
proof -
  have a: "active_data sample_message = [7, 8, 9]" "mb_ok sample_message"
    by (simp_all add: sample_message_def active_data_def mb_ok_def numeral_eq_Suc)
  have "socket_step (new_Socket, []) (QueuePacket sample_message new_Socket, [] @ active_data sample_message)"
    by (rule socket_step.queue) (simp_all add: a)
  then show ?thesis using socket_stream [OF r_into_rtranclp] a(1) by simp
qed


section \<open>Reading\<close>

text \<open>A read buffer whose unread data is given, with room for a block.\<close>

definition holding :: "bytes \<Rightarrow> MessageBuffer \<Rightarrow> bool" where
  "holding data b \<longleftrightarrow> mb_ok b \<and> active_data b = data \<and> 4096 \<le> length (mb_storage b) \<and> int (length (mb_storage b)) < 4611686018427387904"

lemma holding_size: "holding d b \<Longrightarrow> GetActiveSize b = int (length d)"
  using active_size [of b] by (simp add: holding_def)

lemma holding_peek: "holding d b \<Longrightarrow> k + n \<le> length d \<Longrightarrow> peek k n b = Inr (take n (drop k d))"
  using peek_active [of b k n] holding_size [of d b] by (simp add: holding_def)

lemma holding_ReadCompleted: "holding d b \<Longrightarrow> n \<le> length d \<Longrightarrow> holding (drop n d) (ReadCompleted (int n) b)"
  using ReadCompleted_ok [of b "int n"] holding_size [of d b] by (simp add: holding_def) (simp add: ReadCompleted_def)

lemma PrepareRead_empty:
  assumes "holding [] (sock_readBuffer s)"
  shows "\<exists>b. PrepareRead s = Inr (s\<lparr>sock_readBuffer := b\<rparr>) \<and> holding [] b \<and> 4096 \<le> GetRemainingSpace b"
proof -
  obtain b where b: "Normalize (sock_readBuffer s) = Inr b" "mb_ok b" "active_data b = []" "mb_rpos b = 0"
      "length (mb_storage b) = length (mb_storage (sock_readBuffer s))"
    using Normalize_ok [of "sock_readBuffer s"] assms by (auto simp: holding_def)
  then have "mb_wpos b = 0" using active_size [OF b(2)] by simp
  then have r: "GetRemainingSpace b = int (length (mb_storage b))" using remaining [OF b(2)] by simp
  then have "EnsureFreeSpace b = b" using assms b(5) by (auto simp: EnsureFreeSpace_def holding_def)
  then show ?thesis using b r assms by (auto simp: PrepareRead_def holding_def)
qed

text \<open>A block that arrives.\<close>

lemma block_arrives:
  assumes "holding [] (sock_readBuffer s)" "IsOpen s" "length d \<le> 4096"
  shows "\<exists>b u. PrepareRead s = Inr u \<and> 4096 \<le> GetRemainingSpace (sock_readBuffer u) \<and>
    ReadHandlerInternal (Some d) u = Inr (True, s\<lparr>sock_readBuffer := b\<rparr>) \<and> holding d b"
proof -
  obtain b0 where b0: "PrepareRead s = Inr (s\<lparr>sock_readBuffer := b0\<rparr>)" "holding [] b0" "4096 \<le> GetRemainingSpace b0" using PrepareRead_empty [OF assms(1)] by blast
  obtain b where b: "Write d b0 = Inr b" "holding d b" using Write_ok [of b0 d] b0(2,3) assms(3) by (auto simp: holding_def)
  then have "ReadHandlerInternal (Some d) (s\<lparr>sock_readBuffer := b0\<rparr>) = Inr (True, s\<lparr>sock_readBuffer := b\<rparr>)"
    using assms(2) by (simp add: ReadHandlerInternal_def Let_def IsOpen_def)
  then show ?thesis using b0(1,3) b(2) by fastforce
qed

end
