(* ===== verification/Srp6.thy ===== *)
theory Srp6
  imports Text_Util
begin

text \<open>
  Proof of the password, \<open>common/Cryptography/Authentication/SRP6\<close>, over \<open>BigNumber\<close>, and the one-time tokens of
  \<open>common/Cryptography/TOTP.cpp\<close>. The functions of OpenSSL are the fields of a record; \<open>openssl_ok\<close> states what their
  documentation says of them. A big number is an integer.
\<close>

section \<open>OpenSSL\<close>

record openssl =
  BN_lebin2bn :: "bytes \<Rightarrow> int"
  BN_bn2lebinpad :: "int \<Rightarrow> nat \<Rightarrow> bytes option"
  BN_add :: "int \<Rightarrow> int \<Rightarrow> int"
  BN_mul :: "int \<Rightarrow> int \<Rightarrow> int"
  BN_mod :: "int \<Rightarrow> int \<Rightarrow> int"
  BN_mod_exp :: "int \<Rightarrow> int \<Rightarrow> int \<Rightarrow> int"
  EVP_sha1 :: "bytes \<Rightarrow> bytes"
  HMAC_sha1 :: "bytes \<Rightarrow> bytes \<Rightarrow> bytes"

primrec le_int :: "bytes \<Rightarrow> int" where
  "le_int [] = 0"
| "le_int (b # bs) = uint b + 256 * le_int bs"

primrec int_le :: "nat \<Rightarrow> int \<Rightarrow> bytes" where
  "int_le 0 n = []"
| "int_le (Suc k) n = of_int (n mod 256) # int_le k (n div 256)"

lemma length_int_le [simp]: "length (int_le k n) = k"
  by (induction k arbitrary: n) simp_all

lemma le_int_nonneg [simp]: "0 \<le> le_int bs"
  by (induction bs) simp_all

lemma le_int_int_le: "0 \<le> n \<Longrightarrow> n < 256 ^ k \<Longrightarrow> le_int (int_le k n) = n"
proof (induction k arbitrary: n)
  case (Suc k)
  have "n div 256 < 256 ^ k" using Suc.prems by (simp add: div_less_iff_less_mult mult.commute)
  moreover have "uint (of_int (n mod 256) :: u8) = n mod 256" by (simp add: uint_word_of_int)
  ultimately show ?case using Suc by simp
qed simp

text \<open>The conversions, the arithmetic on numbers that are not negative, and the lengths of digests. \<open>BN_bn2lebinpad\<close> fails
  when the number does not fit.\<close>

definition openssl_ok :: "openssl \<Rightarrow> bool" where
  "openssl_ok L \<longleftrightarrow> (\<forall>bs. BN_lebin2bn L bs = le_int bs) \<and>
     (\<forall>n k. 0 \<le> n \<longrightarrow> BN_bn2lebinpad L n k = (if n < 256 ^ k then Some (int_le k n) else None)) \<and>
     (\<forall>a b. BN_add L a b = a + b) \<and> (\<forall>a b. BN_mul L a b = a * b) \<and> (\<forall>a m. 0 \<le> a \<and> 0 < m \<longrightarrow> BN_mod L a m = a mod m) \<and>
     (\<forall>a e m. 0 \<le> a \<and> 0 \<le> e \<and> 1 < m \<longrightarrow> BN_mod_exp L a e m = a ^ nat e mod m) \<and>
     (\<forall>m. length (EVP_sha1 L m) = 20) \<and> (\<forall>k m. length (HMAC_sha1 L k m) = 20)"

section \<open>Big numbers\<close>

definition BigNumber :: "openssl \<Rightarrow> bytes \<Rightarrow> int" where
  "BigNumber L v = BN_lebin2bn L v"

definition ModExp :: "openssl \<Rightarrow> int \<Rightarrow> int \<Rightarrow> int \<Rightarrow> int" where
  "ModExp L a e m = BN_mod_exp L a e m"

text \<open>\<open>ToByteArray\<close>; \<open>None\<close> is the failed assertion of \<open>GetBytes\<close>.\<close>

definition ToByteArray :: "openssl \<Rightarrow> nat \<Rightarrow> int \<Rightarrow> bytes option" where
  "ToByteArray L sz n = BN_bn2lebinpad L n sz"

section \<open>SRP6\<close>

definition EPHEMERAL_KEY_LENGTH :: nat where "EPHEMERAL_KEY_LENGTH = 32"
definition DIGEST_LENGTH :: nat where "DIGEST_LENGTH = 20"
definition SESSION_KEY_LENGTH :: nat where "SESSION_KEY_LENGTH = 40"

definition SRP6_g :: bytes where "SRP6_g = [7]"

definition SRP6_N :: bytes where
  "SRP6_N = (case HexStrToByteArray ''894B645E89E1535BBDAD5B8B290650530801B18EBFBF5E8FAB3C82872A3E9BB7'' 32 True of None \<Rightarrow> replicate 32 0 | Some v \<Rightarrow> v)"

definition text_bytes :: "string \<Rightarrow> bytes" where
  "text_bytes s = map byte_of_char s"

text \<open>The hash of the account: \<open>H(s || H(u || ':' || p))\<close>.\<close>

definition CalculateVerifier :: "openssl \<Rightarrow> string \<Rightarrow> string \<Rightarrow> bytes \<Rightarrow> bytes option" where
  "CalculateVerifier L username password salt =
    ToByteArray L 32 (ModExp L (BigNumber L SRP6_g)
      (BigNumber L (EVP_sha1 L (salt @ EVP_sha1 L (text_bytes username @ text_bytes '':'' @ text_bytes password)))) (BigNumber L SRP6_N))"

text \<open>The salt is random.\<close>

definition MakeRegistrationData :: "openssl \<Rightarrow> bytes \<Rightarrow> string \<Rightarrow> string \<Rightarrow> (bytes \<times> bytes) option" where
  "MakeRegistrationData L salt username password = map_option (\<lambda>v. (salt, v)) (CalculateVerifier L username password salt)"

definition CheckLogin :: "openssl \<Rightarrow> string \<Rightarrow> string \<Rightarrow> bytes \<Rightarrow> bytes \<Rightarrow> bool option" where
  "CheckLogin L username password salt verifier = map_option (\<lambda>v. verifier = v) (CalculateVerifier L username password salt)"

text \<open>The loop that finds the first byte that is not zero.\<close>

function first_nonzero :: "bytes \<Rightarrow> nat \<Rightarrow> nat" where
  "first_nonzero S p = (if p < EPHEMERAL_KEY_LENGTH \<and> S ! p = 0 then first_nonzero S (Suc p) else p)"
  by auto
termination
  by (relation "measure (\<lambda>(S, p). EPHEMERAL_KEY_LENGTH - p)") auto

declare first_nonzero.simps [simp del]

definition SHA1Interleave :: "openssl \<Rightarrow> bytes \<Rightarrow> bytes" where
  "SHA1Interleave L S =
    (let buf0 = map (\<lambda>i. S ! (2 * i + 0)) [0..<EPHEMERAL_KEY_LENGTH div 2];
         buf1 = map (\<lambda>i. S ! (2 * i + 1)) [0..<EPHEMERAL_KEY_LENGTH div 2];
         p = first_nonzero S 0;
         p = (if odd p then p + 1 else p);
         p = p div 2;
         hash0 = EVP_sha1 L (drop p buf0);
         hash1 = EVP_sha1 L (drop p buf1)
     in concat (map (\<lambda>i. [hash0 ! i, hash1 ! i]) [0..<DIGEST_LENGTH]))"

record SRP6 =
  srp_I :: bytes
  srp_b :: int
  srp_v :: int
  srp_s :: bytes
  srp_B :: bytes
  srp_used :: bool

definition SRP6_B :: "openssl \<Rightarrow> int \<Rightarrow> int \<Rightarrow> bytes option" where
  "SRP6_B L b v =
    ToByteArray L EPHEMERAL_KEY_LENGTH
      (BN_mod L (BN_add L (ModExp L (BigNumber L SRP6_g) b (BigNumber L SRP6_N)) (BN_mul L v 3)) (BigNumber L SRP6_N))"

text \<open>The random bytes are an argument.\<close>

definition new_SRP6 :: "openssl \<Rightarrow> bytes \<Rightarrow> string \<Rightarrow> bytes \<Rightarrow> bytes \<Rightarrow> SRP6 option" where
  "new_SRP6 L random username salt verifier =
    (let b = BigNumber L random; v = BigNumber L verifier
     in map_option (\<lambda>B. \<lparr>srp_I = EVP_sha1 L (text_bytes username), srp_b = b, srp_v = v, srp_s = salt, srp_B = B, srp_used = False\<rparr>)
          (SRP6_B L b v))"

text \<open>\<open>NgHash\<close> and the message both sides compute.\<close>

definition proof_message :: "openssl \<Rightarrow> bytes \<Rightarrow> bytes \<Rightarrow> bytes \<Rightarrow> bytes \<Rightarrow> bytes \<Rightarrow> bytes" where
  "proof_message L I s A B K =
    (let NgHash = map2 (XOR) (EVP_sha1 L SRP6_N) (EVP_sha1 L SRP6_g)
     in EVP_sha1 L (NgHash @ I @ s @ A @ B @ K))"

text \<open>\<open>None\<close> is a failed assertion: the object was used before, or a number does not fit.\<close>

definition VerifyChallengeResponse :: "openssl \<Rightarrow> bytes \<Rightarrow> bytes \<Rightarrow> SRP6 \<Rightarrow> (bytes option \<times> SRP6) option" where
  "VerifyChallengeResponse L A clientM srp =
    (if srp_used srp then None
     else let srp = srp\<lparr>srp_used := True\<rparr>; A' = BigNumber L A; N = BigNumber L SRP6_N
       in if BN_mod L A' N = 0 then Some (None, srp)
          else let u = BigNumber L (EVP_sha1 L (A @ srp_B srp))
            in case ToByteArray L 32 (ModExp L (BN_mul L A' (ModExp L (srp_v srp) u N)) (srp_b srp) N) of
                 None \<Rightarrow> None
               | Some S \<Rightarrow>
                   let K = SHA1Interleave L S; ourM = proof_message L (srp_I srp) (srp_s srp) A (srp_B srp) K
                   in Some (if ourM = clientM then Some K else None, srp))"

definition GetSessionVerifier :: "openssl \<Rightarrow> bytes \<Rightarrow> bytes \<Rightarrow> bytes \<Rightarrow> bytes" where
  "GetSessionVerifier L A clientM K = EVP_sha1 L (A @ clientM @ K)"

section \<open>One-time tokens\<close>

definition TOTP_INTERVAL :: int where "TOTP_INTERVAL = 30"

text \<open>A division of C++ rounds towards zero; the eight bytes are those of the 64-bit time, the highest first.\<close>

definition totp_challenge :: "int \<Rightarrow> bytes" where
  "totp_challenge timestamp =
    (let t = (if timestamp \<ge> 0 then timestamp div TOTP_INTERVAL else - (- timestamp div TOTP_INTERVAL))
     in map (\<lambda>i. of_int (t div 2 ^ (8 * (7 - i)))) [0..<8])"

definition GenerateToken :: "openssl \<Rightarrow> bytes \<Rightarrow> int \<Rightarrow> u32" where
  "GenerateToken L secret timestamp =
    (let digest = HMAC_sha1 L secret (totp_challenge timestamp);
         offset = unat (digest ! 19 AND 0xF);
         truncated = push_bit 24 (ucast (digest ! offset)) OR push_bit 16 (ucast (digest ! (offset + 1))) OR
           push_bit 8 (ucast (digest ! (offset + 2))) OR ucast (digest ! (offset + 3));
         truncated = truncated AND 0x7FFFFFFF
     in truncated mod 1000000)"

definition ValidateToken :: "openssl \<Rightarrow> bytes \<Rightarrow> int \<Rightarrow> u32 \<Rightarrow> bool" where
  "ValidateToken L secret now token \<longleftrightarrow>
    token = GenerateToken L secret (now - TOTP_INTERVAL) \<or> token = GenerateToken L secret now \<or>
    token = GenerateToken L secret (now + TOTP_INTERVAL)"

section \<open>The client's side\<close>

text \<open>What the protocol has a client compute from its secret exponent, the name, the password and the server's salt and \<open>B\<close>:
  \<open>A = g ^ a\<close>, \<open>S = (B - 3 * g ^ x) ^ (a + u * x)\<close>, the key and the proof.\<close>

definition client_answer :: "openssl \<Rightarrow> nat \<Rightarrow> string \<Rightarrow> string \<Rightarrow> bytes \<Rightarrow> bytes \<Rightarrow> bytes \<times> bytes \<times> bytes" where
  "client_answer L a username password s B =
    (let N = le_int SRP6_N; A = int_le 32 (7 ^ a mod N); u = nat (le_int (EVP_sha1 L (A @ B)));
         x = nat (le_int (EVP_sha1 L (s @ EVP_sha1 L (text_bytes username @ text_bytes '':'' @ text_bytes password))));
         K = SHA1Interleave L (int_le 32 ((le_int B - 3 * 7 ^ x) ^ (a + u * x) mod N))
     in (A, proof_message L (EVP_sha1 L (text_bytes username)) s A B K, K))"

section \<open>Agreement\<close>

lemma N_value: "le_int SRP6_N = 0x894B645E89E1535BBDAD5B8B290650530801B18EBFBF5E8FAB3C82872A3E9BB7"
  by code_simp

lemma g_value: "le_int SRP6_g = 7"
  by (simp add: SRP6_g_def)

text \<open>Both sides raise \<open>g\<close> to the same power.\<close>

lemma srp_agree:
  fixes N :: int
  shows "((7 ^ a mod N) * ((7 ^ x mod N) ^ u mod N)) ^ b mod N = (((7 ^ b mod N + (7 ^ x mod N) * 3) mod N) - 3 * 7 ^ x) ^ (a + u * x) mod N"
proof -
  have "((7 ^ a mod N) * ((7 ^ x mod N) ^ u mod N)) ^ b mod N = (7 ^ a * (7 ^ x) ^ u) ^ b mod N"
    by (metis (no_types, lifting) mod_mult_eq power_mod mod_mod_trivial)
  also have "(7 ^ a * (7 ^ x) ^ u) ^ b = (7 ^ b :: int) ^ (a + u * x)"
    by (simp add: power_mult_distrib power_add power_mult [symmetric] mult.commute mult.left_commute)
  also have "(7 ^ b) ^ (a + u * x) mod N = (((7 ^ b mod N + (7 ^ x mod N) * 3) mod N) - 3 * 7 ^ x) ^ (a + u * x) mod N"
  proof -
    have "(((7 ^ b mod N + (7 ^ x mod N) * 3) mod N) - 3 * 7 ^ x) mod N = 7 ^ b mod N"
    proof -
      have "(((7 ^ b mod N + (7 ^ x mod N) * 3) mod N) - 3 * 7 ^ x) mod N = (7 ^ b mod N + (7 ^ x mod N) * 3 - 3 * 7 ^ x) mod N"
        by (rule mod_diff_left_eq)
      also have "7 ^ b mod N + (7 ^ x mod N) * 3 - 3 * 7 ^ x = 7 ^ b mod N + N * (- 3 * (7 ^ x div N))"
        using minus_mult_div_eq_mod [of "7 ^ x" N] by (simp add: algebra_simps flip: minus_mult_div_eq_mod [of "7 ^ x" N])
      also have "(7 ^ b mod N + N * (- 3 * (7 ^ x div N))) mod N = 7 ^ b mod N" by (simp only: mod_mult_self2 mod_mod_trivial)
      finally show ?thesis .
    qed
    then show ?thesis by (metis power_mod)
  qed
  finally show ?thesis .
qed

lemma power7_not_zero: "(7 ^ a :: int) mod le_int SRP6_N \<noteq> 0"
proof
  assume "(7 ^ a :: int) mod le_int SRP6_N = 0"
  then have "le_int SRP6_N dvd 7 ^ a" by (simp add: mod_eq_0_iff_dvd)
  moreover have "coprime (7 :: int) (le_int SRP6_N)" unfolding N_value by code_simp
  then have "coprime (7 ^ a) (le_int SRP6_N)" by simp
  ultimately have "is_unit (le_int SRP6_N)" by (meson coprime_common_divisor dvd_refl)
  then show False unfolding N_value by simp
qed

lemma N_bounds: "1 < le_int SRP6_N" "le_int SRP6_N < 256 ^ 32"
  unfolding N_value by simp_all

text \<open>The verifier of a password, and the server's public number.\<close>

definition pass_exponent :: "openssl \<Rightarrow> string \<Rightarrow> string \<Rightarrow> bytes \<Rightarrow> nat" where
  "pass_exponent L username password salt =
    nat (le_int (EVP_sha1 L (salt @ EVP_sha1 L (text_bytes username @ text_bytes '':'' @ text_bytes password))))"

lemma mod_N: "0 \<le> n mod le_int SRP6_N" "n mod le_int SRP6_N < 256 ^ 32"
  using N_bounds le_less_trans [OF pos_mod_bound [of "le_int SRP6_N" n, THEN less_imp_le] N_bounds(2)] by simp_all

lemma CalculateVerifier_value:
  assumes "openssl_ok L"
  shows "CalculateVerifier L user pw salt = Some (int_le 32 (7 ^ pass_exponent L user pw salt mod le_int SRP6_N))"
  using assms mod_N N_bounds(1) by (simp add: openssl_ok_def CalculateVerifier_def ToByteArray_def ModExp_def BigNumber_def g_value pass_exponent_def)

lemma new_SRP6_value:
  assumes "openssl_ok L" "CalculateVerifier L user pw salt = Some v"
  defines "N \<equiv> le_int SRP6_N" and "x \<equiv> pass_exponent L user pw salt"
  shows "new_SRP6 L random user salt v = Some \<lparr>srp_I = EVP_sha1 L (text_bytes user), srp_b = le_int random, srp_v = 7 ^ x mod N, srp_s = salt,
    srp_B = int_le 32 ((7 ^ nat (le_int random) mod N + (7 ^ x mod N) * 3) mod N), srp_used = False\<rparr>"
proof -
  have v: "le_int v = 7 ^ x mod N"
    using assms(2) unfolding CalculateVerifier_value [OF assms(1)] N_def x_def by (auto intro: le_int_int_le [OF mod_N])
  have "0 \<le> 7 ^ nat (le_int random) mod N + (7 ^ x mod N) * 3" using mod_N by (simp add: N_def)
  then show ?thesis
    using assms(1) mod_N N_bounds(1) v
    by (simp add: openssl_ok_def new_SRP6_def SRP6_B_def ToByteArray_def ModExp_def BigNumber_def g_value N_def EPHEMERAL_KEY_LENGTH_def Let_def)
qed

text \<open>The server of an account with this password accepts the answer, and never a multiple of \<open>N\<close>.\<close>

lemma srp6_accepts:
  assumes "openssl_ok L" "CalculateVerifier L user pw salt = Some v" "new_SRP6 L random user salt v = Some srp"
  shows "case client_answer L a user pw salt (srp_B srp) of (A, M, K) \<Rightarrow> VerifyChallengeResponse L A M srp = Some (Some K, srp\<lparr>srp_used := True\<rparr>)"
    "\<forall>A M. le_int A mod le_int SRP6_N = 0 \<longrightarrow> VerifyChallengeResponse L A M srp = Some (None, srp\<lparr>srp_used := True\<rparr>)"
proof -
  let ?N = "le_int SRP6_N" and ?x = "pass_exponent L user pw salt" and ?b = "nat (le_int random)"
  define B where "B = int_le 32 ((7 ^ ?b mod ?N + (7 ^ ?x mod ?N) * 3) mod ?N)"
  have Bv: "le_int B = (7 ^ ?b mod ?N + (7 ^ ?x mod ?N) * 3) mod ?N" unfolding B_def by (rule le_int_int_le [OF mod_N])
  have f: "srp_used srp = False" "srp_v srp = 7 ^ ?x mod ?N" "srp_b srp = le_int random" "srp_B srp = B" "srp_I srp = EVP_sha1 L (text_bytes user)"
      "srp_s srp = salt"
    using assms(3) new_SRP6_value [OF assms(1,2)] by (auto simp: B_def)
  obtain A M K where c: "client_answer L a user pw salt B = (A, M, K)" by (cases "client_answer L a user pw salt B") auto
  let ?u = "nat (le_int (EVP_sha1 L (A @ B)))"
  have A: "le_int A = 7 ^ a mod ?N" using c le_int_int_le [OF mod_N, of "7 ^ a"] by (auto simp: client_answer_def Let_def)
  have K: "K = SHA1Interleave L (int_le 32 ((le_int B - 3 * 7 ^ ?x) ^ (a + ?u * ?x) mod ?N))"
    and M: "M = proof_message L (srp_I srp) (srp_s srp) A B K"
    using c by (auto simp: client_answer_def Let_def pass_exponent_def f)
  have S: "(7 ^ a mod ?N * ((7 ^ ?x mod ?N) ^ ?u mod ?N)) ^ ?b mod ?N = (le_int B - 3 * 7 ^ ?x) ^ (a + ?u * ?x) mod ?N"
    unfolding Bv by (rule srp_agree)
  have pos: "0 \<le> 7 ^ a mod ?N * ((7 ^ ?x mod ?N) ^ ?u mod ?N)" using mod_N by simp
  have lib: "BigNumber L bs = le_int bs" "0 \<le> k \<Longrightarrow> BN_mod L k ?N = k mod ?N"
      "0 \<le> k \<Longrightarrow> 0 \<le> e \<Longrightarrow> ModExp L k e ?N = k ^ nat e mod ?N" "ToByteArray L 32 (k mod ?N) = Some (int_le 32 (k mod ?N))"
      "BN_mul L k e = k * e" for bs k e
    using assms(1) N_bounds(1) mod_N by (simp_all add: openssl_ok_def BigNumber_def ModExp_def ToByteArray_def)
  have "VerifyChallengeResponse L A M srp = Some (Some K, srp\<lparr>srp_used := True\<rparr>)"
    using power7_not_zero [of a] pos unfolding VerifyChallengeResponse_def Let_def M
    by (simp add: f lib A S K mod_N)
  then show "case client_answer L a user pw salt (srp_B srp) of (A, M, K) \<Rightarrow> VerifyChallengeResponse L A M srp = Some (Some K, srp\<lparr>srp_used := True\<rparr>)"
    by (simp add: f(4) c)
  have "VerifyChallengeResponse L A' M' srp = Some (None, srp\<lparr>srp_used := True\<rparr>)" if "le_int A' mod ?N = 0" for A' M'
    using that by (simp add: VerifyChallengeResponse_def f lib)
  then show "\<forall>A M. le_int A mod ?N = 0 \<longrightarrow> VerifyChallengeResponse L A M srp = Some (None, srp\<lparr>srp_used := True\<rparr>)" by blast
qed

text \<open>Claim C19: whoever knows the password is let in. For every account name, password, salt and random numbers of both sides,
  registration yields a verifier that \<open>CheckLogin\<close> accepts, the server's side can be set up, and the answer of a client that
  follows the protocol with this password is accepted, both sides holding the same session key. No assertion about the
  size of a number fails. A public number of the client that is a multiple of \<open>N\<close>, for which the key would not depend on the
  password, is always refused.\<close>

theorem srp6_complete:
  assumes "openssl_ok L"
  shows "\<exists>v srp. MakeRegistrationData L salt user pw = Some (salt, v) \<and> CheckLogin L user pw salt v = Some True \<and>
    new_SRP6 L random user salt v = Some srp \<and>
    (case client_answer L a user pw salt (srp_B srp) of (A, M, K) \<Rightarrow>
       VerifyChallengeResponse L A M srp = Some (Some K, srp\<lparr>srp_used := True\<rparr>)) \<and>
    (\<forall>A M. le_int A mod le_int SRP6_N = 0 \<longrightarrow> VerifyChallengeResponse L A M srp = Some (None, srp\<lparr>srp_used := True\<rparr>))"
proof -
  obtain v where v: "CalculateVerifier L user pw salt = Some v" using CalculateVerifier_value [OF assms] by blast
  obtain srp where n: "new_SRP6 L random user salt v = Some srp" using new_SRP6_value [OF assms v] by blast
  have "MakeRegistrationData L salt user pw = Some (salt, v)" "CheckLogin L user pw salt v = Some True"
    using v by (simp_all add: MakeRegistrationData_def CheckLogin_def)
  then show ?thesis using n srp6_accepts(1) [OF assms v n, of a] srp6_accepts(2) [OF assms v n] by (intro exI [of _ v] exI [of _ srp] conjI)
qed

text \<open>A concrete library to instantiate the hypothesis: arithmetic as documented, digests of zeros.\<close>

definition sample_openssl :: openssl where
  "sample_openssl = \<lparr>BN_lebin2bn = le_int, BN_bn2lebinpad = \<lambda>n k. if n < 256 ^ k then Some (int_le k n) else None, BN_add = (+), BN_mul = (*),
     BN_mod = (mod), BN_mod_exp = \<lambda>a e m. a ^ nat e mod m, EVP_sha1 = \<lambda>_. replicate 20 0, HMAC_sha1 = \<lambda>_ _. replicate 20 0\<rparr>"

lemma sample_openssl_ok: "openssl_ok sample_openssl"
  by (simp add: openssl_ok_def sample_openssl_def)

theorem srp6_complete_witness:
  "\<exists>v srp. MakeRegistrationData sample_openssl [1] ''JAINA'' ''SECRET'' = Some ([1], v) \<and> CheckLogin sample_openssl ''JAINA'' ''SECRET'' [1] v = Some True"
  using srp6_complete [OF sample_openssl_ok, of "[1]" "''JAINA''" "''SECRET''" "[5]" 3] by blast

text \<open>A token is accepted when the clock that made it differs by at most half a minute from the server's; tokens
  have at most six digits.\<close>

theorem token_window:
  assumes "0 \<le> t" "30 \<le> now" "\<bar>t - now\<bar> \<le> 30"
  shows "ValidateToken L secret now (GenerateToken L secret t) \<and> GenerateToken L secret t < 1000000"
proof -
  have "t div 30 = (now - 30) div 30 \<or> t div 30 = now div 30 \<or> t div 30 = (now + 30) div 30" using assms by linarith
  then have "totp_challenge t \<in> {totp_challenge (now - 30), totp_challenge now, totp_challenge (now + 30)}"
    using assms by (auto simp: totp_challenge_def TOTP_INTERVAL_def)
  then have "ValidateToken L secret now (GenerateToken L secret t)"
    by (auto simp: ValidateToken_def GenerateToken_def TOTP_INTERVAL_def)
  then show ?thesis by (simp add: GenerateToken_def Let_def word_mod_less_divisor)
qed

theorem token_window_witness: "ValidateToken sample_openssl [1] 100 (GenerateToken sample_openssl [1] 71)"
  using token_window [of 71 100 sample_openssl "[1]"] by simp

end
