(* ===== verification/World_Socket.thy ===== *)
theory World_Socket
  imports Net_Socket Srp6 Byte_Buffer
begin

text \<open>
  The connections of clients to the world, \<open>game/Server/WorldSocket.cpp\<close>: the encryption of headers, the assembly of packets
  from what the socket delivers, the check of the session key, pings, and the framing of what is sent. The key stream
  of RC4, the table of opcodes, the configuration, the rows of the login database, times and random bytes are arguments.
  Locks, logging, Warden and the list of addons are left out.
\<close>

section \<open>Encryption of headers\<close>

text \<open>RC4 adds a stream of bytes that depends on the key; the state is the key and the position in the stream.\<close>

record ARC4 =
  arc_key :: bytes
  arc_pos :: nat

definition ARC4_Init :: "bytes \<Rightarrow> ARC4" where
  "ARC4_Init seed = \<lparr>arc_key = seed, arc_pos = 0\<rparr>"

definition UpdateData :: "(bytes \<Rightarrow> nat \<Rightarrow> u8) \<Rightarrow> bytes \<Rightarrow> ARC4 \<Rightarrow> bytes \<times> ARC4" where
  "UpdateData rc4 data c = (map2 (XOR) data (map (rc4 (arc_key c)) [arc_pos c..<arc_pos c + length data]), c\<lparr>arc_pos := arc_pos c + length data\<rparr>)"

record WorldPacketCrypt =
  wc_clientDecrypt :: ARC4
  wc_serverEncrypt :: ARC4
  wc_initialized :: bool

definition new_WorldPacketCrypt :: WorldPacketCrypt where
  "new_WorldPacketCrypt = \<lparr>wc_clientDecrypt = ARC4_Init [], wc_serverEncrypt = ARC4_Init [], wc_initialized = False\<rparr>"

definition ServerEncryptionKey :: bytes where
  "ServerEncryptionKey = [0xCC, 0x98, 0xAE, 0x04, 0xE8, 0x97, 0xEA, 0xCA, 0x12, 0xDD, 0xC0, 0x93, 0x42, 0x91, 0x53, 0x57]"

definition ServerDecryptionKey :: bytes where
  "ServerDecryptionKey = [0xC2, 0xB3, 0x72, 0x3C, 0xC6, 0xAE, 0xD9, 0xB5, 0x34, 0x3C, 0x53, 0xEE, 0x2F, 0x43, 0x67, 0xCE]"

text \<open>The bytes of the buffer that is thrown away are not initialized; they do not matter.\<close>

definition WorldPacketCrypt_Init :: "openssl \<Rightarrow> (bytes \<Rightarrow> nat \<Rightarrow> u8) \<Rightarrow> bytes \<Rightarrow> WorldPacketCrypt" where
  "WorldPacketCrypt_Init L rc4 K =
    (let syncBuf = replicate 1024 0
     in \<lparr>wc_clientDecrypt = snd (UpdateData rc4 syncBuf (ARC4_Init (HMAC_sha1 L ServerDecryptionKey K))),
         wc_serverEncrypt = snd (UpdateData rc4 syncBuf (ARC4_Init (HMAC_sha1 L ServerEncryptionKey K))), wc_initialized = True\<rparr>)"

section \<open>State\<close>

abbreviation (input) CMSG_PING :: u32 where "CMSG_PING \<equiv> 0x1DC"
abbreviation (input) SMSG_PONG :: u16 where "SMSG_PONG \<equiv> 0x1DD"
abbreviation (input) SMSG_AUTH_CHALLENGE :: u16 where "SMSG_AUTH_CHALLENGE \<equiv> 0x1EC"
abbreviation (input) CMSG_AUTH_SESSION :: u32 where "CMSG_AUTH_SESSION \<equiv> 0x1ED"
abbreviation (input) SMSG_AUTH_RESPONSE :: u16 where "SMSG_AUTH_RESPONSE \<equiv> 0x1EE"
abbreviation (input) CMSG_KEEP_ALIVE :: u32 where "CMSG_KEEP_ALIVE \<equiv> 0x407"
abbreviation (input) NUM_OPCODE_HANDLERS :: u32 where "NUM_OPCODE_HANDLERS \<equiv> 0x51F"

abbreviation (input) AUTH_FAILED :: u8 where "AUTH_FAILED \<equiv> 13"
abbreviation (input) AUTH_REJECT :: u8 where "AUTH_REJECT \<equiv> 14"
abbreviation (input) AUTH_UNAVAILABLE :: u8 where "AUTH_UNAVAILABLE \<equiv> 16"
abbreviation (input) AUTH_UNKNOWN_ACCOUNT :: u8 where "AUTH_UNKNOWN_ACCOUNT \<equiv> 21"
abbreviation (input) AUTH_BANNED :: u8 where "AUTH_BANNED \<equiv> 28"
abbreviation (input) REALM_LIST_REALM_NOT_FOUND :: u8 where "REALM_LIST_REALM_NOT_FOUND \<equiv> 39"

text \<open>The part of a session that the connection touches.\<close>

record world_session =
  se_id :: u32
  se_name :: string
  se_security :: u8
  se_expansion :: u8
  se_muteTime :: int
  se_locale :: u8
  se_recvQueue :: "(u32 \<times> bytes) list"
  se_latency :: u32
  se_timeOutResets :: "bool list"

text \<open>The packet \<open>CMSG_AUTH_SESSION\<close>.\<close>

record auth_message =
  am_Build :: u32
  am_LoginServerID :: u32
  am_Account :: string
  am_LoginServerType :: u32
  am_LocalChallenge :: bytes
  am_RegionID :: u32
  am_BattlegroupID :: u32
  am_RealmID :: u32
  am_DosResponse :: u64
  am_Digest :: bytes
  am_AddonInfo :: bytes

record account_row =
  ar_id :: u32
  ar_session_key :: bytes
  ar_last_ip :: string
  ar_locked :: bool
  ar_lock_country :: string
  ar_expansion :: u8
  ar_mutetime :: int
  ar_locale :: u8
  ar_os :: string
  ar_SecurityLevel :: u8
  ar_banned :: bool

datatype world_query = Q_ACCOUNT_INFO auth_message | Q_PERMISSIONS

datatype world_effect = UPD_LAST_ATTEMPT_IP string string | UPD_LAST_IP string string | UPD_MUTE_TIME_LOGIN int u32
  | OnFailedAccountLogin u32 | OnAccountLogin u32 | AddSession u32

text \<open>A packet to send: its opcode, its bytes, and whether its header is encrypted.\<close>

type_synonym encryptable_packet = "u16 \<times> bytes \<times> bool"

record WorldSocket = Socket +
  ws_serverChallenge :: bytes
  ws_authCrypt :: WorldPacketCrypt
  ws_LastPingTime :: "int option"
  ws_OverSpeedPings :: u32
  ws_session :: "world_session option"
  ws_authed :: bool
  ws_headerBuffer :: MessageBuffer
  ws_packetBuffer :: MessageBuffer
  ws_bufferQueue :: "encryptable_packet list"
  ws_sendBufferSize :: nat
  ws_queries :: "world_query list"
  ws_ipCountry :: string
  ws_effects :: "world_effect list"

definition new_WorldSocket :: WorldSocket where
  "new_WorldSocket = Socket.extend new_Socket (WorldSocket.fields (replicate 4 0) new_WorldPacketCrypt None 0 None False
     (Resize 6 (new_MessageBuffer 4096)) (new_MessageBuffer 4096) [] 4096 [] [] [])"

definition SetSendBufferSize :: "nat \<Rightarrow> WorldSocket \<Rightarrow> WorldSocket" where
  "SetSendBufferSize sendBufferSize s = s\<lparr>ws_sendBufferSize := sendBufferSize\<rparr>"

record world_env =
  we_lib :: openssl
  we_rc4 :: "bytes \<Rightarrow> nat \<Rightarrow> u8"
  we_opcodeTable :: "u32 \<Rightarrow> bool"
  we_utf8_valid :: "string \<Rightarrow> bool"
  we_IsClosed :: bool
  we_realmId :: u32
  we_wardenActive :: bool
  we_AllowLoggingIP :: bool
  we_RemoteIp :: string
  we_LocationOfIp :: "string option"
  we_GameTime :: int
  we_PlayerSecurityLimit :: u8
  we_expansion :: u32
  we_maxOverspeedPings :: u32
  we_skipOverspeedCheck :: bool
  we_now :: int
  we_ACCOUNT_INFO_BY_NAME :: "string \<Rightarrow> account_row option"

text \<open>A failed assertion, an access outside a buffer or through a null pointer.\<close>

datatype world_error = BadAccess net_error | Assertion | NullPointer

definition bindW :: "world_error + 'a \<Rightarrow> ('a \<Rightarrow> world_error + 'b) \<Rightarrow> world_error + 'b" where
  "bindW r f = (case r of Inl e \<Rightarrow> Inl e | Inr x \<Rightarrow> f x)"

lemma bindW_simps [simp]: "bindW (Inl e) f = Inl e" "bindW (Inr x) f = f x"
  by (simp_all add: bindW_def)

lemma bindW_Inr: "bindW r f = Inr y \<longleftrightarrow> (\<exists>x. r = Inr x \<and> f x = Inr y)"
  by (cases r) simp_all

definition mem :: "net_error + 'a \<Rightarrow> world_error + 'a" where
  "mem r = map_sum BadAccess id r"

lemma mem_simps [simp]: "mem (Inr x) = Inr x" "mem (Inl e) = Inl (BadAccess e)"
  by (simp_all add: mem_def)

section \<open>Sending\<close>

definition SendPacket :: "u16 \<Rightarrow> bytes \<Rightarrow> WorldSocket \<Rightarrow> WorldSocket" where
  "SendPacket opcode data s =
    (if \<not> IsOpen s then s else s\<lparr>ws_bufferQueue := ws_bufferQueue s @ [(opcode, data, wc_initialized (ws_authCrypt s))]\<rparr>)"

definition SendAuthResponseError :: "u8 \<Rightarrow> WorldSocket \<Rightarrow> WorldSocket" where
  "SendAuthResponseError code s = SendPacket SMSG_AUTH_RESPONSE [code] s"

text \<open>The random bytes of the two challenges are arguments.\<close>

definition SendAuthSession :: "bytes \<Rightarrow> bytes \<Rightarrow> WorldSocket \<Rightarrow> WorldSocket" where
  "SendAuthSession serverChallenge dosChallenge s =
    SendPacket SMSG_AUTH_CHALLENGE (le_bytes 4 (1 :: u32) @ serverChallenge @ dosChallenge) (s\<lparr>ws_serverChallenge := serverChallenge\<rparr>)"

definition isLargePacket :: "u32 \<Rightarrow> bool" where
  "isLargePacket sz \<longleftrightarrow> sz > 0x7FFF"

definition ServerPktHeader :: "u32 \<Rightarrow> u16 \<Rightarrow> bytes" where
  "ServerPktHeader sz cmd =
    (if isLargePacket sz then [0x80 OR ucast (0xFF AND drop_bit 16 sz)] else []) @
    [ucast (0xFF AND drop_bit 8 sz), ucast (0xFF AND sz), ucast (0xFF AND cmd), ucast (0xFF AND drop_bit 8 cmd)]"

text \<open>The header of a queued packet.\<close>

definition packet_header :: "(bytes \<Rightarrow> nat \<Rightarrow> u8) \<Rightarrow> encryptable_packet \<Rightarrow> WorldPacketCrypt \<Rightarrow> world_error + bytes \<times> WorldPacketCrypt" where
  "packet_header rc4 p c =
    (case p of (opcode, data, enc) \<Rightarrow>
       let header = ServerPktHeader (of_nat (length data) + 2) opcode
       in if enc then if \<not> wc_initialized c then Inl Assertion
                      else case UpdateData rc4 header (wc_serverEncrypt c) of (h, e) \<Rightarrow> Inr (h, c\<lparr>wc_serverEncrypt := e\<rparr>)
          else Inr (header, c))"

text \<open>The loop that moves the queued packets into buffers. The buffer it fills is empty after it was queued.\<close>

fun fill_buffers :: "(bytes \<Rightarrow> nat \<Rightarrow> u8) \<Rightarrow> encryptable_packet list \<Rightarrow> MessageBuffer \<Rightarrow> WorldSocket \<Rightarrow> world_error + MessageBuffer \<times> WorldSocket" where
  "fill_buffers rc4 [] buffer s = Inr (buffer, s)"
| "fill_buffers rc4 (p # ps) buffer s =
    bindW (packet_header rc4 p (ws_authCrypt s)) (\<lambda>(header, c).
      let s = s\<lparr>ws_authCrypt := c\<rparr>; data = fst (snd p); n = int (length data + length header);
          (buffer, s) = (if GetRemainingSpace buffer < n then (new_MessageBuffer (ws_sendBufferSize s), QueuePacket buffer s) else (buffer, s))
      in if GetRemainingSpace buffer \<ge> n
         then bindW (mem (Write header buffer)) (\<lambda>buffer. bindW (mem (Write data buffer)) (\<lambda>buffer. fill_buffers rc4 ps buffer s))
         else bindW (mem (Write header (new_MessageBuffer (nat n)))) (\<lambda>packetBuffer. bindW (mem (Write data packetBuffer)) (\<lambda>packetBuffer.
                fill_buffers rc4 ps buffer (QueuePacket packetBuffer s))))"

definition move_queued :: "(bytes \<Rightarrow> nat \<Rightarrow> u8) \<Rightarrow> WorldSocket \<Rightarrow> world_error + WorldSocket" where
  "move_queued rc4 s =
    (if ws_bufferQueue s = [] then Inr s
     else bindW (fill_buffers rc4 (ws_bufferQueue s) (new_MessageBuffer (ws_sendBufferSize s)) (s\<lparr>ws_bufferQueue := []\<rparr>)) (\<lambda>(buffer, s).
       Inr (if GetActiveSize buffer > 0 then QueuePacket buffer s else s)))"

section \<open>Receiving\<close>

text \<open>A second call runs \<open>OnClose\<close>, which forgets the session.\<close>

definition ws_CloseSocket :: "WorldSocket \<Rightarrow> WorldSocket" where
  "ws_CloseSocket s = (if sock_openState s AND OpenState_Closed = 0 then CloseSocket s else (CloseSocket s)\<lparr>ws_session := None\<rparr>)"

definition IsValidSize :: "u16 \<Rightarrow> bool" where
  "IsValidSize sz \<longleftrightarrow> 4 \<le> sz \<and> sz < 10240"

definition IsValidOpcode :: "u32 \<Rightarrow> bool" where
  "IsValidOpcode cmd \<longleftrightarrow> cmd < NUM_OPCODE_HANDLERS"

definition DecryptRecv :: "(bytes \<Rightarrow> nat \<Rightarrow> u8) \<Rightarrow> bytes \<Rightarrow> WorldPacketCrypt \<Rightarrow> bytes \<times> WorldPacketCrypt" where
  "DecryptRecv rc4 data c = (case UpdateData rc4 data (wc_clientDecrypt c) of (d, e) \<Rightarrow> (d, c\<lparr>wc_clientDecrypt := e\<rparr>))"

text \<open>The size is the big-endian number of the header; both fields are written back in the order of the host.\<close>

definition ReadHeaderHandler :: "(bytes \<Rightarrow> nat \<Rightarrow> u8) \<Rightarrow> WorldSocket \<Rightarrow> world_error + bool \<times> WorldSocket" where
  "ReadHeaderHandler rc4 s =
    (if GetActiveSize (ws_headerBuffer s) \<noteq> 6 then Inl Assertion
     else bindW (mem (peek 0 6 (ws_headerBuffer s))) (\<lambda>raw.
       let (h, c) = (if wc_initialized (ws_authCrypt s) then DecryptRecv rc4 raw (ws_authCrypt s) else (raw, ws_authCrypt s));
           sz = (le_word (rev (take 2 h)) :: u16); cmd = (le_word (drop 2 h) :: u32);
           s = s\<lparr>ws_authCrypt := c\<rparr>;
           valid = (IsValidSize sz \<and> IsValidOpcode cmd);
           sz = (if valid then sz - 4 else sz)
       in bindW (mem (poke (mb_rpos (ws_headerBuffer s)) (le_bytes 2 sz @ le_bytes 4 cmd) (ws_headerBuffer s))) (\<lambda>hb.
          let s = s\<lparr>ws_headerBuffer := hb\<rparr>
          in Inr (if valid then (True, s\<lparr>ws_packetBuffer := Resize (unat sz) (ws_packetBuffer s)\<rparr>) else (False, s)))))"

definition bindB :: "buffer_exn + 'a \<Rightarrow> ('a \<Rightarrow> buffer_exn + 'b) \<Rightarrow> buffer_exn + 'b" where
  "bindB r f = (case r of Inl e \<Rightarrow> Inl e | Inr x \<Rightarrow> f x)"

lemma bindB_simps [simp]: "bindB (Inl e) f = Inl e" "bindB (Inr x) f = f x"
  by (simp_all add: bindB_def)

definition read_auth_message :: "(string \<Rightarrow> bool) \<Rightarrow> ByteBuffer \<Rightarrow> buffer_exn + auth_message" where
  "read_auth_message utf8_valid p =
    bindB (read_u32 p) (\<lambda>(build, p). bindB (read_u32 p) (\<lambda>(server, p). bindB (read_string utf8_valid p) (\<lambda>(account, p).
    bindB (read_u32 p) (\<lambda>(stype, p). bindB (read_bytes 4 p) (\<lambda>(challenge, p). bindB (read_u32 p) (\<lambda>(region, p).
    bindB (read_u32 p) (\<lambda>(bgroup, p). bindB (read_u32 p) (\<lambda>(realm, p). bindB (read_u64 p) (\<lambda>(dos, p).
    bindB (read_bytes 20 p) (\<lambda>(digest, p).
      if bb_size p - rpos p = 0 then Inl ByteBufferException
      else bindB (read_bytes (bb_size p - rpos p) p) (\<lambda>(addons, p).
        Inr \<lparr>am_Build = build, am_LoginServerID = server, am_Account = account, am_LoginServerType = stype, am_LocalChallenge = challenge,
             am_RegionID = region, am_BattlegroupID = bgroup, am_RealmID = realm, am_DosResponse = dos, am_Digest = digest,
             am_AddonInfo = addons\<rparr>)))))))))))"

definition QueueQuery :: "world_query \<Rightarrow> WorldSocket \<Rightarrow> WorldSocket" where
  "QueueQuery q s = s\<lparr>ws_queries := ws_queries s @ [q]\<rparr>"

definition HandleAuthSession :: "world_env \<Rightarrow> ByteBuffer \<Rightarrow> WorldSocket \<Rightarrow> buffer_exn + WorldSocket" where
  "HandleAuthSession env p s = bindB (read_auth_message (we_utf8_valid env) p) (\<lambda>m. Inr (QueueQuery (Q_ACCOUNT_INFO m) s))"

text \<open>Times of the clock are in nanoseconds.\<close>

definition HandlePing :: "world_env \<Rightarrow> ByteBuffer \<Rightarrow> WorldSocket \<Rightarrow> buffer_exn + bool \<times> WorldSocket" where
  "HandlePing env p s =
    bindB (read_u32 p) (\<lambda>(ping, p). bindB (read_u32 p) (\<lambda>(latency, p).
      let (kick, s) =
        (case ws_LastPingTime s of
           None \<Rightarrow> (False, s\<lparr>ws_LastPingTime := Some (we_now env)\<rparr>)
         | Some lastPing \<Rightarrow>
             let s = s\<lparr>ws_LastPingTime := Some (we_now env)\<rparr>
             in if we_now env - lastPing < 27000000000
                then let s = s\<lparr>ws_OverSpeedPings := ws_OverSpeedPings s + 1\<rparr>
                  in (we_maxOverspeedPings env \<noteq> 0 \<and> ws_OverSpeedPings s > we_maxOverspeedPings env \<and> ws_session s \<noteq> None \<and> \<not> we_skipOverspeedCheck env, s)
                else (False, s\<lparr>ws_OverSpeedPings := 0\<rparr>))
      in Inr (if kick then (False, s)
              else case ws_session s of None \<Rightarrow> (False, s)
                | Some se \<Rightarrow> (True, SendPacket SMSG_PONG (le_bytes 4 ping) (s\<lparr>ws_session := Some (se\<lparr>se_latency := latency\<rparr>)\<rparr>)))))"

datatype ReadDataHandlerResult = RD_Ok | RD_Error | RD_WaitingForQuery

definition ResetTimeOutTime :: "bool \<Rightarrow> world_session \<Rightarrow> world_session" where
  "ResetTimeOutTime onlyActive se = se\<lparr>se_timeOutResets := se_timeOutResets se @ [onlyActive]\<rparr>"

text \<open>What is done with a complete packet.\<close>

definition dispatch :: "world_env \<Rightarrow> u32 \<Rightarrow> bytes \<Rightarrow> WorldSocket \<Rightarrow> ReadDataHandlerResult \<times> WorldSocket" where
  "dispatch env opcode data s =
    (let packet = \<lparr>rpos = 0, wpos = 0, storage = data\<rparr>
     in if opcode = CMSG_PING
        then case HandlePing env packet s of Inl _ \<Rightarrow> (RD_Error, s) | Inr (ok, s) \<Rightarrow> (if ok then RD_Ok else RD_Error, s)
        else if opcode = CMSG_AUTH_SESSION
        then if ws_authed s then (RD_Error, s)
             else case HandleAuthSession env packet s of Inl _ \<Rightarrow> (RD_Error, s) | Inr s \<Rightarrow> (RD_WaitingForQuery, s)
        else case ws_session s of
               None \<Rightarrow> (RD_Error, s)
             | Some se \<Rightarrow>
                 if opcode = CMSG_KEEP_ALIVE then (RD_Ok, s\<lparr>ws_session := Some (ResetTimeOutTime True se)\<rparr>)
                 else if \<not> we_opcodeTable env opcode then (RD_Error, s)
                 else (RD_Ok, s\<lparr>ws_session := Some ((ResetTimeOutTime False se)\<lparr>se_recvQueue := se_recvQueue se @ [(opcode, data)]\<rparr>)\<rparr>))"

text \<open>The packet takes the storage of the buffer, which is left empty.\<close>

definition ReadDataHandler :: "world_env \<Rightarrow> WorldSocket \<Rightarrow> world_error + ReadDataHandlerResult \<times> WorldSocket" where
  "ReadDataHandler env s =
    bindW (mem (peek 2 4 (ws_headerBuffer s))) (\<lambda>cmd.
      Inr (dispatch env (le_word cmd) (mb_storage (ws_packetBuffer s)) (s\<lparr>ws_packetBuffer := new_MessageBuffer 0\<rparr>)))"

datatype turn = Broke | Turned | Stopped

text \<open>As much as fits from the read buffer into another one.\<close>

definition take_into :: "MessageBuffer \<Rightarrow> MessageBuffer \<Rightarrow> world_error + MessageBuffer \<times> MessageBuffer" where
  "take_into src dst =
    (let n = min (GetActiveSize src) (GetRemainingSpace dst)
     in bindW (mem (peek 0 (nat n) src)) (\<lambda>data. bindW (mem (Write data dst)) (\<lambda>dst. Inr (ReadCompleted n src, dst))))"

definition read_payload :: "world_env \<Rightarrow> WorldSocket \<Rightarrow> world_error + turn \<times> WorldSocket" where
  "read_payload env s =
    bindW (if GetRemainingSpace (ws_packetBuffer s) > 0
           then bindW (take_into (sock_readBuffer s) (ws_packetBuffer s)) (\<lambda>(src, dst).
             let s = s\<lparr>sock_readBuffer := src, ws_packetBuffer := dst\<rparr>
             in if GetRemainingSpace dst > 0 then if GetActiveSize src \<noteq> 0 then Inl Assertion else Inr (False, s) else Inr (True, s))
           else Inr (True, s)) (\<lambda>(full, s).
      if \<not> full then Inr (Broke, s)
      else bindW (ReadDataHandler env s) (\<lambda>(result, s).
        let s = s\<lparr>ws_headerBuffer := Reset (ws_headerBuffer s)\<rparr>
        in Inr (if result = RD_Ok then (Turned, s) else if result = RD_WaitingForQuery then (Stopped, s) else (Stopped, ws_CloseSocket s))))"

text \<open>One turn of the loop.\<close>

definition read_turn :: "world_env \<Rightarrow> WorldSocket \<Rightarrow> world_error + turn \<times> WorldSocket" where
  "read_turn env s =
    (if GetActiveSize (sock_readBuffer s) = 0 then Inr (Broke, s)
     else if GetRemainingSpace (ws_headerBuffer s) > 0
     then bindW (take_into (sock_readBuffer s) (ws_headerBuffer s)) (\<lambda>(src, dst).
       let s = s\<lparr>sock_readBuffer := src, ws_headerBuffer := dst\<rparr>
       in if GetRemainingSpace dst > 0 then if GetActiveSize src \<noteq> 0 then Inl Assertion else Inr (Broke, s)
          else bindW (ReadHeaderHandler (we_rc4 env) s) (\<lambda>(ok, s).
            if \<not> ok then Inr (Stopped, ws_CloseSocket s) else read_payload env s))
     else read_payload env s)"

partial_function (option) ReadHandler :: "world_env \<Rightarrow> WorldSocket \<Rightarrow> (world_error + bool \<times> WorldSocket) option" where
  "ReadHandler env s =
    (case read_turn env s of
       Inl e \<Rightarrow> Some (Inl e)
     | Inr (out, t) \<Rightarrow> (case out of Broke \<Rightarrow> Some (Inr (True, t)) | Stopped \<Rightarrow> Some (Inr (False, t)) | Turned \<Rightarrow> ReadHandler env t))"

text \<open>Data that arrives on the connection.\<close>

definition ws_receive :: "world_env \<Rightarrow> bytes \<Rightarrow> WorldSocket \<Rightarrow> (world_error + WorldSocket) option" where
  "ws_receive env data s =
    (if \<not> IsOpen s then Some (Inr s)
     else case bindW (mem (PrepareRead s)) (\<lambda>s. mem (ReadHandlerInternal (Some data) s)) of
            Inl e \<Rightarrow> Some (Inl e)
          | Inr (run, s) \<Rightarrow> if run then map_option (map_sum id snd) (ReadHandler env s) else Some (Inr s))"

section \<open>The check of the session key\<close>

definition ToFourCC :: "string \<Rightarrow> u32" where
  "ToFourCC text = foldl (\<lambda>v c. push_bit 8 v OR ucast (byte_of_char c)) 0 text"

definition Platform_IsValid :: "string \<Rightarrow> bool" where
  "Platform_IsValid platform \<longleftrightarrow> length platform \<le> 4 \<and> ToFourCC platform \<in> {ToFourCC ''Win'', ToFourCC ''OSX''}"

definition add_effect :: "world_effect \<Rightarrow> WorldSocket \<Rightarrow> WorldSocket" where
  "add_effect e s = s\<lparr>ws_effects := ws_effects s @ [e]\<rparr>"

definition session_digest :: "openssl \<Rightarrow> string \<Rightarrow> bytes \<Rightarrow> bytes \<Rightarrow> bytes \<Rightarrow> bytes" where
  "session_digest L account localChallenge serverChallenge K =
    EVP_sha1 L (text_bytes account @ [0, 0, 0, 0] @ localChallenge @ serverChallenge @ K)"

definition refuse :: "u8 \<Rightarrow> WorldSocket \<Rightarrow> WorldSocket" where
  "refuse code s = DelayedCloseSocket (SendAuthResponseError code s)"

text \<open>The tests before the mute time, in their order: the answer and whether the scripts hear of it.\<close>

definition session_refused :: "world_env \<Rightarrow> auth_message \<Rightarrow> account_row \<Rightarrow> WorldSocket \<Rightarrow> (u8 \<times> bool) option \<times> WorldSocket" where
  "session_refused env m row s =
    (if we_IsClosed env then (Some (AUTH_REJECT, False), s)
     else if am_RealmID m \<noteq> we_realmId env then (Some (REALM_LIST_REALM_NOT_FOUND, False), s)
     else if we_wardenActive env \<and> \<not> Platform_IsValid (ar_os row) then (Some (AUTH_REJECT, False), s)
     else if session_digest (we_lib env) (am_Account m) (am_LocalChallenge m) (ws_serverChallenge s) (ar_session_key row) \<noteq> am_Digest m
     then (Some (AUTH_FAILED, False), s)
     else let s = (case we_LocationOfIp env of None \<Rightarrow> s | Some c \<Rightarrow> s\<lparr>ws_ipCountry := c\<rparr>)
       in if ar_locked row
          then (if ar_last_ip row \<noteq> we_RemoteIp env then Some (AUTH_FAILED, True) else None, s)
          else (if ar_lock_country row \<noteq> [] \<and> ar_lock_country row \<noteq> ''00'' \<and> ws_ipCountry s \<noteq> [] \<and> ar_lock_country row \<noteq> ws_ipCountry s
                then Some (AUTH_FAILED, True) else None, s))"

definition refuse_account :: "account_row \<Rightarrow> u8 \<times> bool \<Rightarrow> WorldSocket \<Rightarrow> WorldSocket" where
  "refuse_account row e s =
    (let s = SendAuthResponseError (fst e) s; s = (if snd e then add_effect (OnFailedAccountLogin (ar_id row)) s else s)
     in DelayedCloseSocket s)"

definition account_expansion :: "world_env \<Rightarrow> account_row \<Rightarrow> u8" where
  "account_expansion env row = (if (ucast (ar_expansion row) :: u32) > we_expansion env then ucast (we_expansion env) else ar_expansion row)"

definition account_locale :: "account_row \<Rightarrow> u8" where
  "account_locale row = (if ar_locale row \<ge> 9 then 0 else ar_locale row)"

text \<open>The new session; its permissions are queried and reading goes on.\<close>

definition open_session :: "world_env \<Rightarrow> auth_message \<Rightarrow> account_row \<Rightarrow> int \<Rightarrow> WorldSocket \<Rightarrow> world_error + WorldSocket" where
  "open_session env m row mutetime s =
    (let s = (if we_AllowLoggingIP env then add_effect (UPD_LAST_IP (we_RemoteIp env) (am_Account m)) s else s);
         s = add_effect (OnAccountLogin (ar_id row)) s;
         se = \<lparr>se_id = ar_id row, se_name = am_Account m, se_security = ar_SecurityLevel row, se_expansion = account_expansion env row,
               se_muteTime = mutetime, se_locale = account_locale row, se_recvQueue = [], se_latency = 0, se_timeOutResets = []\<rparr>;
         s = QueueQuery Q_PERMISSIONS (s\<lparr>ws_authed := True, ws_session := Some se\<rparr>)
     in if IsOpen s then mem (PrepareRead s) else Inr s)"

definition HandleAuthSessionCallback :: "world_env \<Rightarrow> auth_message \<Rightarrow> account_row option \<Rightarrow> WorldSocket \<Rightarrow> world_error + WorldSocket" where
  "HandleAuthSessionCallback env m result s =
    (case result of
       None \<Rightarrow> Inr (refuse AUTH_UNKNOWN_ACCOUNT s)
     | Some row \<Rightarrow>
         if length (ar_session_key row) \<noteq> SESSION_KEY_LENGTH then Inl Assertion
         else let s = (if we_AllowLoggingIP env then add_effect (UPD_LAST_ATTEMPT_IP (we_RemoteIp env) (am_Account m)) s else s);
                  s = s\<lparr>ws_authCrypt := WorldPacketCrypt_Init (we_lib env) (we_rc4 env) (ar_session_key row)\<rparr>
           in (case session_refused env m row s of
                 (Some e, s) \<Rightarrow> Inr (refuse_account row e s)
               | (None, s) \<Rightarrow>
                   let (mutetime, s) = (if ar_mutetime row < 0
                          then let t = we_GameTime env + \<bar>ar_mutetime row\<bar> in (t, add_effect (UPD_MUTE_TIME_LOGIN t (ar_id row)) s)
                          else (ar_mutetime row, s))
                   in if ar_banned row then Inr (refuse_account row (AUTH_BANNED, True) s)
                      else if we_PlayerSecurityLimit env > 0 \<and> ar_SecurityLevel row < we_PlayerSecurityLimit env
                      then Inr (refuse_account row (AUTH_UNAVAILABLE, True) s)
                      else open_session env m row mutetime s))"

text \<open>The permissions are loaded into the session, which is then added to the world.\<close>

definition LoadSessionPermissionsCallback :: "WorldSocket \<Rightarrow> world_error + WorldSocket" where
  "LoadSessionPermissionsCallback s = (case ws_session s of None \<Rightarrow> Inl NullPointer | Some se \<Rightarrow> Inr (add_effect (AddSession (se_id se)) s))"

definition ws_callback :: "world_env \<Rightarrow> world_query \<Rightarrow> WorldSocket \<Rightarrow> world_error + WorldSocket" where
  "ws_callback env q s =
    (case q of Q_ACCOUNT_INFO m \<Rightarrow> HandleAuthSessionCallback env m (we_ACCOUNT_INFO_BY_NAME env (am_Account m)) s
     | Q_PERMISSIONS \<Rightarrow> LoadSessionPermissionsCallback s)"

definition ws_Update :: "world_env \<Rightarrow> (nat \<Rightarrow> write_result) \<Rightarrow> WorldSocket \<Rightarrow> world_error + bool \<times> WorldSocket" where
  "ws_Update env os s =
    bindW (move_queued (we_rc4 env) s) (\<lambda>s. bindW (mem (Update os s)) (\<lambda>(alive, s).
      if \<not> alive then Inr (False, s)
      else map_sum id (\<lambda>s. (True, s))
        (foldl (\<lambda>r q. bindW r (ws_callback env q)) (Inr (s\<lparr>ws_queries := []\<rparr>)) (ws_queries s))))"
end
