(* ===== verification/World_Stream.thy ===== *)
theory World_Stream
  imports World_Socket
begin

text \<open>
  What passes over a connection to the world, in both directions: the packets a client sends reach its session however
  the network cuts the stream, and what the server writes on the wire can be cut into the packets that were sent.
\<close>

section \<open>What a client sends arrives\<close>

text \<open>A buffer that is being filled from its start.\<close>

definition filled :: "nat \<Rightarrow> bytes \<Rightarrow> MessageBuffer \<Rightarrow> bool" where
  "filled n d b \<longleftrightarrow> mb_rpos b = 0 \<and> mb_wpos b = int (length d) \<and> length (mb_storage b) = n \<and> length d \<le> n \<and> n < 65536 \<and>
     take (length d) (mb_storage b) = d"

lemma filled_ok:
  assumes "filled n d b"
  shows "mb_ok b" "active_data b = d" "GetRemainingSpace b = int (n - length d)" "GetActiveSize b = int (length d)"
proof -
  show ok: "mb_ok b" using assms by (simp add: filled_def mb_ok_def)
  show a: "active_data b = d" using assms by (simp add: filled_def active_data_def)
  show "GetRemainingSpace b = int (n - length d)" using remaining [OF ok] assms by (simp add: filled_def of_nat_diff)
  show "GetActiveSize b = int (length d)" using active_size [OF ok] a by simp
qed

lemma filled_Write:
  assumes "filled n d b" "length d + length e \<le> n"
  shows "\<exists>b'. Write e b = Inr b' \<and> filled n (d @ e) b'"
proof -
  have "int (length e) \<le> GetRemainingSpace b" using filled_ok(3) [OF assms(1)] assms(2) by simp
  then obtain b' where b': "Write e b = Inr b'" "mb_ok b'" "active_data b' = d @ e" "mb_rpos b' = 0" "length (mb_storage b') = n"
    using Write_ok [of b e] filled_ok(1,2) [OF assms(1)] assms(1) by (auto simp: filled_def)
  have "mb_wpos b' = int (length (d @ e))" using active_size [OF b'(2)] b'(3,4) by simp
  then have "take (length (d @ e)) (mb_storage b') = d @ e" using b'(3,4) by (simp add: active_data_def nat_int_add)
  then have "filled n (d @ e) b'" using b' assms \<open>mb_wpos b' = _\<close> by (simp add: filled_def)
  then show ?thesis using b'(1) by blast
qed

lemma filled_Reset: "filled n d b \<Longrightarrow> filled n [] (Reset b)"
  by (simp add: filled_def Reset_def)

lemma filled_Resize: "mb_rpos b = 0 \<Longrightarrow> mb_wpos b = 0 \<Longrightarrow> n < 65536 \<Longrightarrow> filled n [] (Resize n b)"
  by (simp add: filled_def Resize_def)

lemma filled_full: "filled n d b \<Longrightarrow> length d = n \<Longrightarrow> mb_storage b = d"
  by (auto simp: filled_def)

lemma take_into_filled:
  assumes src: "holding x src" and dst: "filled n d dst"
  defines "k \<equiv> min (length x) (n - length d)"
  shows "\<exists>src' dst'. take_into src dst = Inr (src', dst') \<and> holding (drop k x) src' \<and> filled n (d @ take k x) dst'"
proof -
  have k: "min (GetActiveSize src) (GetRemainingSpace dst) = int k" "k \<le> length x"
    using holding_size [OF src] filled_ok(3) [OF dst] by (simp_all add: k_def)
  have p: "peek 0 k src = Inr (take k x)" using holding_peek [OF src, of 0 k] k(2) by simp
  have "length d + length (take k x) \<le> n" using dst by (auto simp: k_def filled_def min_def)
  then obtain dst' where d: "Write (take k x) dst = Inr dst'" "filled n (d @ take k x) dst'" using filled_Write [OF dst] by blast
  then show ?thesis using p k(1) holding_ReadCompleted [OF src k(2)] by (simp add: take_into_def)
qed

text \<open>The client's side: its cipher runs over the same stream as the server's.\<close>

definition client_header :: "u32 \<times> bytes \<Rightarrow> bytes" where
  "client_header p = rev (le_bytes 2 (of_nat (length (snd p) + 4) :: u16)) @ le_bytes 4 (fst p)"

definition client_crypt :: "(bytes \<Rightarrow> nat \<Rightarrow> u8) \<Rightarrow> bytes \<Rightarrow> WorldPacketCrypt \<Rightarrow> bytes \<times> WorldPacketCrypt" where
  "client_crypt rc4 d c = (if wc_initialized c then DecryptRecv rc4 d c else (d, c))"

fun client_stream :: "(bytes \<Rightarrow> nat \<Rightarrow> u8) \<Rightarrow> WorldPacketCrypt \<Rightarrow> (u32 \<times> bytes) list \<Rightarrow> bytes" where
  "client_stream rc4 c [] = []"
| "client_stream rc4 c (p # ps) =
    fst (client_crypt rc4 (client_header p) c) @ snd p @ client_stream rc4 (snd (client_crypt rc4 (client_header p) c)) ps"

lemma length_UpdateData [simp]: "length (fst (UpdateData rc4 d c)) = length d"
  by (simp add: UpdateData_def)

lemma map2_xor_twice: "length a = length b \<Longrightarrow> map2 (XOR) (map2 (XOR) a b) b = (a :: bytes)"
  by (induction a b rule: list_induct2) (simp_all add: xor.assoc)

lemma UpdateData_twice: "UpdateData rc4 (fst (UpdateData rc4 d c)) c = (d, snd (UpdateData rc4 d c))"
proof -
  let ?k = "map (rc4 (arc_key c)) [arc_pos c..<arc_pos c + length d]"
  have "map2 (XOR) (map2 (XOR) d ?k) ?k = d" by (rule map2_xor_twice) simp
  then show ?thesis by (simp add: UpdateData_def)
qed

lemma client_crypt_twice: "client_crypt rc4 (fst (client_crypt rc4 d c)) c = (d, snd (client_crypt rc4 d c))"
  using UpdateData_twice [of rc4 d "wc_clientDecrypt c"] by (simp add: client_crypt_def DecryptRecv_def case_prod_beta)

lemma length_client_crypt [simp]: "length (fst (client_crypt rc4 d c)) = length d"
  by (simp add: client_crypt_def DecryptRecv_def case_prod_beta)

lemma length_client_header [simp]: "length (client_header p) = 6"
  by (simp add: client_header_def)

definition sendable :: "world_env \<Rightarrow> u32 \<times> bytes \<Rightarrow> bool" where
  "sendable env p \<longleftrightarrow> length (snd p) < 10236 \<and> IsValidOpcode (fst p) \<and> fst p \<noteq> CMSG_PING \<and> fst p \<noteq> CMSG_AUTH_SESSION \<and> fst p \<noteq> CMSG_KEEP_ALIVE \<and>
     we_opcodeTable env (fst p)"

lemma header_fields:
  fixes p :: "u32 \<times> bytes"
  assumes "length (snd p) < 10236"
  shows "le_word (rev (take 2 (client_header p))) = (of_nat (length (snd p) + 4) :: u16)" "le_word (drop 2 (client_header p)) = fst p"
    "IsValidSize (of_nat (length (snd p) + 4))" "unat (of_nat (length (snd p) + 4) - 4 :: u16) = length (snd p)"
proof -
  show "le_word (rev (take 2 (client_header p))) = (of_nat (length (snd p) + 4) :: u16)" by (simp add: client_header_def le_word_le_bytes)
  show "le_word (drop 2 (client_header p)) = fst p" by (simp add: client_header_def le_word_le_bytes)
  have u: "unat (of_nat (length (snd p) + 4) :: u16) = length (snd p) + 4"
    using assms by (simp only: unsigned_of_nat) (simp add: take_bit_nat_eq_self)
  then show "IsValidSize (of_nat (length (snd p) + 4))" using assms by (simp add: IsValidSize_def word_le_nat_alt word_less_nat_alt)
  have "of_nat (length (snd p) + 4) - 4 = (of_nat (length (snd p)) :: u16)" by simp
  then show "unat (of_nat (length (snd p) + 4) - 4 :: u16) = length (snd p)"
    using assms by (simp only: unsigned_of_nat) (simp add: take_bit_nat_eq_self)
qed

lemma poke_filled:
  assumes "filled n d b" "length e = n" "length d = n"
  shows "\<exists>b'. poke 0 e b = Inr b' \<and> filled n e b'"
  using assms by (auto simp: poke_def filled_def)

lemma ReadHeaderHandler_valid:
  assumes "GetActiveSize (ws_headerBuffer s) = 6" "peek 0 6 (ws_headerBuffer s) = Inr raw" "client_crypt rc4 raw (ws_authCrypt s) = (h, c)"
    and "le_word (rev (take 2 h)) = (sz :: u16)" "le_word (drop 2 h) = (cmd :: u32)" "IsValidSize sz" "IsValidOpcode cmd" "mb_rpos (ws_headerBuffer s) = 0"
    and "poke 0 (le_bytes 2 (sz - 4) @ le_bytes 4 cmd) (ws_headerBuffer s) = Inr hb"
  shows "ReadHeaderHandler rc4 s = Inr (True, s\<lparr>ws_authCrypt := c, ws_headerBuffer := hb, ws_packetBuffer := Resize (unat (sz - 4)) (ws_packetBuffer s)\<rparr>)"
  using assms unfolding ReadHeaderHandler_def client_crypt_def [symmetric] by (simp add: Let_def)

lemma header_read:
  assumes h: "filled 6 (fst (client_crypt (we_rc4 env) (client_header p) (ws_authCrypt s))) (ws_headerBuffer s)"
    and len: "length (snd p) < 10236" "IsValidOpcode (fst p)" and pb: "mb_rpos (ws_packetBuffer s) = 0" "mb_wpos (ws_packetBuffer s) = 0"
  shows "\<exists>hb pb. ReadHeaderHandler (we_rc4 env) s = Inr (True, s\<lparr>ws_authCrypt := snd (client_crypt (we_rc4 env) (client_header p) (ws_authCrypt s)),
      ws_headerBuffer := hb, ws_packetBuffer := pb\<rparr>) \<and> filled 6 (le_bytes 2 (of_nat (length (snd p)) :: u16) @ le_bytes 4 (fst p)) hb \<and>
    filled (length (snd p)) [] pb"
proof -
  let ?raw = "fst (client_crypt (we_rc4 env) (client_header p) (ws_authCrypt s))" and ?c = "snd (client_crypt (we_rc4 env) (client_header p) (ws_authCrypt s))"
  note f = header_fields [OF len(1)]
  have act: "GetActiveSize (ws_headerBuffer s) = 6" using filled_ok(4) [OF h] by simp
  have pk: "peek 0 6 (ws_headerBuffer s) = Inr ?raw" using peek_active [OF filled_ok(1) [OF h], of 0 6] filled_ok(2) [OF h] act by simp
  have minus: "of_nat (length (snd p) + 4) - 4 = (of_nat (length (snd p)) :: u16)" by simp
  have r0: "mb_rpos (ws_headerBuffer s) = 0" using h by (simp add: filled_def)
  obtain hb where hb: "poke 0 (le_bytes 2 (of_nat (length (snd p) + 4) - 4 :: u16) @ le_bytes 4 (fst p)) (ws_headerBuffer s) = Inr hb"
      "filled 6 (le_bytes 2 (of_nat (length (snd p)) :: u16) @ le_bytes 4 (fst p)) hb"
    unfolding minus using poke_filled [OF h, of "le_bytes 2 (of_nat (length (snd p)) :: u16) @ le_bytes 4 (fst p)"] by auto
  have "filled (length (snd p)) [] (Resize (length (snd p)) (ws_packetBuffer s))" using filled_Resize [OF pb] len(1) by simp
  then show ?thesis
    using ReadHeaderHandler_valid [OF act pk client_crypt_twice f(1,2,3) len(2) r0 hb(1)] hb(2) unfolding f(4)
    by (intro exI [of _ hb] exI [of _ "Resize (length (snd p)) (ws_packetBuffer s)"] conjI)
qed

text \<open>A connection in the middle of a stream: the bytes still to come and the packets they will complete. Either the header of a
  packet is awaited, or the rest \<open>x\<close> of the payload of one.\<close>

definition header_phase :: "world_env \<Rightarrow> bytes \<Rightarrow> (u32 \<times> bytes) list \<Rightarrow> WorldSocket \<Rightarrow> bool" where
  "header_phase env todo pkts s \<longleftrightarrow> (\<exists>h. filled 6 h (ws_headerBuffer s) \<and> length h < 6 \<and> mb_rpos (ws_packetBuffer s) = 0 \<and> mb_wpos (ws_packetBuffer s) = 0 \<and>
     h @ todo = client_stream (we_rc4 env) (ws_authCrypt s) pkts)"

definition payload_phase :: "u32 \<Rightarrow> bytes \<Rightarrow> bytes \<Rightarrow> WorldSocket \<Rightarrow> bool" where
  "payload_phase cmd d x s \<longleftrightarrow> filled 6 (le_bytes 2 (of_nat (length (d @ x)) :: u16) @ le_bytes 4 cmd) (ws_headerBuffer s) \<and>
     filled (length (d @ x)) d (ws_packetBuffer s)"

definition midway :: "world_env \<Rightarrow> bytes \<Rightarrow> (u32 \<times> bytes) list \<Rightarrow> WorldSocket \<Rightarrow> bool" where
  "midway env todo pkts s \<longleftrightarrow> header_phase env todo pkts s \<or> (\<exists>cmd d x rest. pkts = (cmd, d @ x) # rest \<and> x \<noteq> [] \<and>
     todo = x @ client_stream (we_rc4 env) (ws_authCrypt s) rest \<and> payload_phase cmd d x s)"

definition queued :: "WorldSocket \<Rightarrow> (u32 \<times> bytes) list" where
  "queued s = (case ws_session s of None \<Rightarrow> [] | Some se \<Rightarrow> se_recvQueue se)"

text \<open>What a turn gives: the data it leaves, at most \<open>n\<close> bytes, and the packets still to come.\<close>

definition progress :: "world_env \<Rightarrow> bytes \<Rightarrow> (u32 \<times> bytes) list \<Rightarrow> nat \<Rightarrow> WorldSocket \<Rightarrow> turn \<Rightarrow> WorldSocket \<Rightarrow> bool" where
  "progress env later pkts n s out t \<longleftrightarrow> (\<exists>d' pkts'. sock_openState t = sock_openState s \<and> ws_session t \<noteq> None \<and> holding d' (sock_readBuffer t) \<and>
     length d' \<le> n \<and> queued t @ pkts' = queued s @ pkts \<and> list_all (sendable env) pkts' \<and> midway env (d' @ later) pkts' t \<and>
     (out = Broke \<and> d' = [] \<or> out = Turned))"

lemma ReadDataHandler_sendable:
  assumes "payload_phase cmd (d @ x) [] s" "sendable env (cmd, d @ x)" "ws_session s \<noteq> None"
  shows "\<exists>t. ReadDataHandler env s = Inr (RD_Ok, t) \<and> sock_openState t = sock_openState s \<and> sock_readBuffer t = sock_readBuffer s \<and>
    ws_session t \<noteq> None \<and> queued t = queued s @ [(cmd, d @ x)] \<and> ws_authCrypt t = ws_authCrypt s \<and> ws_headerBuffer t = ws_headerBuffer s \<and>
    ws_packetBuffer t = new_MessageBuffer 0"
proof -
  obtain se where se: "ws_session s = Some se" using assms(3) by blast
  have h: "filled 6 (le_bytes 2 (of_nat (length (d @ x)) :: u16) @ le_bytes 4 cmd) (ws_headerBuffer s)" and p: "filled (length (d @ x)) (d @ x) (ws_packetBuffer s)"
    using assms(1) by (simp_all add: payload_phase_def)
  have "peek 2 4 (ws_headerBuffer s) = Inr (le_bytes 4 cmd)" using peek_active [OF filled_ok(1) [OF h], of 2 4] filled_ok(2,4) [OF h] by simp
  moreover have "mb_storage (ws_packetBuffer s) = d @ x" using filled_full [OF p] by simp
  ultimately show ?thesis
    using assms(2) se by (simp add: ReadDataHandler_def le_word_le_bytes dispatch_def sendable_def queued_def ResetTimeOutTime_def)
qed

lemma payload_turn:
  assumes s: "payload_phase cmd d x s" and r: "holding r (sock_readBuffer s)" "r @ later = x @ client_stream (we_rc4 env) (ws_authCrypt s) rest"
    and ok: "list_all (sendable env) ((cmd, d @ x) # rest)" "ws_session s \<noteq> None"
  shows "\<exists>out t. read_payload env s = Inr (out, t) \<and> progress env later ((cmd, d @ x) # rest) (length r - length x) s out t"
proof -
  let ?n = "length (d @ x)" and ?k = "min (length r) (length x)"
  have p: "filled ?n d (ws_packetBuffer s)" using s by (simp add: payload_phase_def)
  have n: "?n - length d = length x" by simp
  obtain src dst where t: "take_into (sock_readBuffer s) (ws_packetBuffer s) = Inr (src, dst)" "holding (drop ?k r) src" "filled ?n (d @ take ?k r) dst"
    using take_into_filled [OF r(1) p] by (simp only: n) blast
  define u where "u = (if x = [] then s else s\<lparr>sock_readBuffer := src, ws_packetBuffer := dst\<rparr>)"
  have rem: "GetRemainingSpace (ws_packetBuffer s) = int (length x)" using filled_ok(3) [OF p] by simp
  have rem2: "GetRemainingSpace dst = int (length x - ?k)" using filled_ok(3) [OF t(3)] by simp
  show ?thesis
  proof (cases "length r < length x")
    case True
    then obtain x' where x': "x = r @ x'" "x' \<noteq> []" "later = x' @ client_stream (we_rc4 env) (ws_authCrypt s) rest"
      using r(2) by (auto simp: append_eq_append_conv2)
    have "read_payload env s = Inr (Broke, s\<lparr>sock_readBuffer := src, ws_packetBuffer := dst\<rparr>)"
      using True t(1) rem rem2 holding_size [OF t(2)] order.strict_trans1 [OF _ True, of 0] by (simp add: read_payload_def Let_def)
    moreover have "payload_phase cmd (d @ r) x' (s\<lparr>sock_readBuffer := src, ws_packetBuffer := dst\<rparr>)"
      using s t(3) x'(1) by (simp add: payload_phase_def)
    ultimately show ?thesis
      using True t(2) x' ok unfolding progress_def midway_def queued_def by (fastforce simp: min_def)
  next
    case False
    then obtain r' where r': "r = x @ r'" "r' @ later = client_stream (we_rc4 env) (ws_authCrypt s) rest"
      using r(2) by (auto simp: append_eq_append_conv2)
    have k: "?k = length x" using r'(1) by simp
    have u: "payload_phase cmd (d @ x) [] u" "holding r' (sock_readBuffer u)" "ws_session u = ws_session s" "sock_openState u = sock_openState s"
        "ws_authCrypt u = ws_authCrypt s" "ws_headerBuffer u = ws_headerBuffer s"
      using s r(1) t(2,3) r'(1) k by (auto simp: u_def payload_phase_def)
    obtain v where v: "ReadDataHandler env u = Inr (RD_Ok, v)" "sock_openState v = sock_openState u" "sock_readBuffer v = sock_readBuffer u"
        "ws_session v \<noteq> None" "queued v = queued u @ [(cmd, d @ x)]" "ws_authCrypt v = ws_authCrypt u" "ws_headerBuffer v = ws_headerBuffer u"
        "ws_packetBuffer v = new_MessageBuffer 0"
      using ReadDataHandler_sendable [OF u(1), of env] ok u(3) by auto
    define w where "w = v\<lparr>ws_headerBuffer := Reset (ws_headerBuffer v)\<rparr>"
    have "read_payload env s = Inr (Turned, w)"
      using v(1) t(1) rem rem2 k by (cases "x = []") (simp_all add: read_payload_def Let_def u_def w_def)
    moreover have "header_phase env (r' @ later) rest w"
      using filled_Reset [of 6 _ "ws_headerBuffer u"] u(1) r'(2) v(6-8) u(5) unfolding header_phase_def
      by (intro exI [of _ "[]"]) (auto simp: w_def payload_phase_def new_MessageBuffer_def)
    moreover have "queued w = queued s @ [(cmd, d @ x)]" using v(5) u(3) by (simp add: queued_def w_def)
    ultimately show ?thesis
      using ok u v(2-4) r'(1) unfolding progress_def midway_def by (intro exI [of _ Turned] exI [of _ w] conjI exI [of _ r'] exI [of _ rest]) (simp_all add: w_def)
  qed
qed

lemma stream_short:
  assumes "h @ todo = client_stream rc4 c pkts" "pkts = [] \<or> length h + length todo < 6"
  shows "pkts = [] \<and> h = [] \<and> todo = []"
proof (cases pkts)
  case (Cons p ps)
  then have "6 \<le> length (h @ todo)" using assms(1) by simp
  then show ?thesis using assms(2) Cons by simp
qed (use assms in auto)

text \<open>A turn of the loop.\<close>

lemma header_turn:
  assumes s: "header_phase env (r @ later) pkts s" and r: "holding r (sock_readBuffer s)" "r \<noteq> []"
    and ok: "list_all (sendable env) pkts" "ws_session s \<noteq> None"
  shows "\<exists>out t. read_turn env s = Inr (out, t) \<and> progress env later pkts (length r - 1) s out t"
proof -
  obtain h where h: "filled 6 h (ws_headerBuffer s)" "length h < 6" "mb_rpos (ws_packetBuffer s) = 0" "mb_wpos (ws_packetBuffer s) = 0"
      "h @ r @ later = client_stream (we_rc4 env) (ws_authCrypt s) pkts"
    using s by (auto simp: header_phase_def)
  let ?k = "min (length r) (6 - length h)"
  obtain src dst where t: "take_into (sock_readBuffer s) (ws_headerBuffer s) = Inr (src, dst)" "holding (drop ?k r) src" "filled 6 (h @ take ?k r) dst"
    using take_into_filled [OF r(1) h(1)] by blast
  let ?u = "s\<lparr>sock_readBuffer := src, ws_headerBuffer := dst\<rparr>"
  have act: "GetActiveSize (sock_readBuffer s) \<noteq> 0" "GetRemainingSpace (ws_headerBuffer s) > 0" "GetActiveSize src = int (length r - ?k)"
      "GetRemainingSpace dst = int (6 - length (h @ take ?k r))"
    using holding_size [OF r(1)] r(2) filled_ok(3) [OF h(1)] h(2) holding_size [OF t(2)] filled_ok(3) [OF t(3)] by simp_all
  show ?thesis
  proof (cases "length h + length r < 6")
    case True
    then have "read_turn env s = Inr (Broke, ?u)" using act t(1) by (simp add: read_turn_def Let_def)
    moreover have "header_phase env later pkts ?u"
      using t(3) True h unfolding header_phase_def by (intro exI [of _ "h @ r"]) simp
    ultimately show ?thesis using t(2) True ok unfolding progress_def midway_def queued_def by fastforce
  next
    case False
    then have k: "?k = 6 - length h" by simp
    obtain p ps where p: "pkts = p # ps" using stream_short [OF h(5)] r(2) by (cases pkts) auto
    define raw where "raw = fst (client_crypt (we_rc4 env) (client_header p) (ws_authCrypt s))"
    define c where "c = snd (client_crypt (we_rc4 env) (client_header p) (ws_authCrypt s))"
    have st: "h @ r @ later = raw @ snd p @ client_stream (we_rc4 env) c ps" using h(5) p by (simp add: raw_def c_def)
    have raw: "length raw = 6" by (simp add: raw_def)
    have "take 6 (h @ r @ later) = h @ take ?k r" using False h(2) k by simp
    then have hd: "h @ take ?k r = raw" using st raw by simp
    have tl: "drop ?k r @ later = snd p @ client_stream (we_rc4 env) c ps"
    proof -
      have "drop 6 (h @ r @ later) = drop ?k r @ later" using False h(2) k by simp
      then show ?thesis using st raw by simp
    qed
    have f: "filled 6 (fst (client_crypt (we_rc4 env) (client_header p) (ws_authCrypt ?u))) (ws_headerBuffer ?u)" using t(3) hd by (simp add: raw_def)
    obtain hb pb where v: "ReadHeaderHandler (we_rc4 env) ?u = Inr (True, ?u\<lparr>ws_authCrypt := c, ws_headerBuffer := hb, ws_packetBuffer := pb\<rparr>)"
        "filled 6 (le_bytes 2 (of_nat (length (snd p)) :: u16) @ le_bytes 4 (fst p)) hb" "filled (length (snd p)) [] pb"
      using header_read [OF f] ok(1) p h(3,4) by (auto simp: c_def sendable_def)
    define v where "v = ?u\<lparr>ws_authCrypt := c, ws_headerBuffer := hb, ws_packetBuffer := pb\<rparr>"
    have vf: "payload_phase (fst p) [] (snd p) v" "holding (drop ?k r) (sock_readBuffer v)" "ws_authCrypt v = c" "ws_session v = ws_session s"
        "sock_openState v = sock_openState s"
      using v(2,3) t(2) by (simp_all add: v_def payload_phase_def)
    obtain out w where w: "read_payload env v = Inr (out, w)" "progress env later ((fst p, [] @ snd p) # ps) (length (drop ?k r) - length (snd p)) v out w"
      using payload_turn [OF vf(1,2), of later env ps] tl ok p vf(3,4) by auto
    have "read_turn env s = Inr (out, w)"
      using act t(1) v(1) w(1) hd raw by (simp add: read_turn_def Let_def v_def)
    moreover have "progress env later pkts (length r - 1) s out w"
      using w(2) vf(4,5) p k h(2) unfolding progress_def by (fastforce simp: queued_def)
    ultimately show ?thesis by blast
  qed
qed

lemma midway_turn:
  assumes "midway env (r @ later) pkts s" "holding r (sock_readBuffer s)" "r \<noteq> []" "list_all (sendable env) pkts" "ws_session s \<noteq> None"
  shows "\<exists>out t. read_turn env s = Inr (out, t) \<and> progress env later pkts (length r - 1) s out t"
proof (cases "header_phase env (r @ later) pkts s")
  case True
  then show ?thesis using header_turn assms by blast
next
  case False
  then obtain cmd d x rest where x: "pkts = (cmd, d @ x) # rest" "r @ later = x @ client_stream (we_rc4 env) (ws_authCrypt s) rest" "payload_phase cmd d x s" "x \<noteq> []"
    using assms(1) by (auto simp: midway_def)
  have "GetRemainingSpace (ws_headerBuffer s) = 0" "GetActiveSize (sock_readBuffer s) \<noteq> 0"
    using filled_ok(3) [of 6 _ "ws_headerBuffer s"] x(3) holding_size [OF assms(2)] assms(3) by (auto simp: payload_phase_def)
  then have "read_turn env s = read_payload env s" by (simp add: read_turn_def)
  moreover have "length r - length x \<le> length r - 1" using x(4) by (cases x) auto
  ultimately show ?thesis using payload_turn [OF x(3) assms(2) x(2)] assms(4,5) x(1) unfolding progress_def by fastforce
qed

text \<open>The loop returns when all that has arrived is consumed.\<close>

lemma ReadHandler_midway:
  assumes "midway env (r @ later) pkts s" "holding r (sock_readBuffer s)" "list_all (sendable env) pkts" "ws_session s \<noteq> None"
  shows "\<exists>t pkts'. ReadHandler env s = Some (Inr (True, t)) \<and> sock_openState t = sock_openState s \<and> ws_session t \<noteq> None \<and> holding [] (sock_readBuffer t) \<and>
    midway env later pkts' t \<and> queued t @ pkts' = queued s @ pkts \<and> list_all (sendable env) pkts'"
  using assms
proof (induction "length r" arbitrary: r pkts s rule: less_induct)
  case less
  show ?case
  proof (cases "r = []")
    case True
    then have "read_turn env s = Inr (Broke, s)" using holding_size [OF less.prems(2)] by (simp add: read_turn_def)
    then have "ReadHandler env s = Some (Inr (True, s))" by (simp add: ReadHandler.simps)
    then show ?thesis using less.prems True by auto
  next
    case False
    obtain out t where t: "read_turn env s = Inr (out, t)" "progress env later pkts (length r - 1) s out t"
      using midway_turn [OF less.prems(1,2) False less.prems(3,4)] by blast
    then obtain d' pkts' where p: "sock_openState t = sock_openState s" "ws_session t \<noteq> None" "holding d' (sock_readBuffer t)" "length d' \<le> length r - 1"
        "queued t @ pkts' = queued s @ pkts" "list_all (sendable env) pkts'" "midway env (d' @ later) pkts' t" "out = Broke \<and> d' = [] \<or> out = Turned"
      unfolding progress_def by blast
    have lt: "length d' < length r" using p(4) False by (cases r) auto
    show ?thesis
    proof (cases "out = Turned")
      case True
      then have "ReadHandler env s = ReadHandler env t" using t(1) by (subst ReadHandler.simps) simp
      then show ?thesis using less.hyps [OF lt p(7,3,6,2)] p(1,5) by auto
    next
      case False
      then have "ReadHandler env s = Some (Inr (True, t))" using t(1) p(8) by (subst ReadHandler.simps) auto
      then show ?thesis using p False by auto
    qed
  qed
qed

lemma receive_midway:
  assumes "midway env (d @ later) pkts s" "holding [] (sock_readBuffer s)" "length d \<le> 4096" "list_all (sendable env) pkts" "ws_session s \<noteq> None" "IsOpen s"
  shows "\<exists>t pkts'. ws_receive env d s = Some (Inr t) \<and> IsOpen t \<and> ws_session t \<noteq> None \<and> holding [] (sock_readBuffer t) \<and>
    midway env later pkts' t \<and> queued t @ pkts' = queued s @ pkts \<and> list_all (sendable env) pkts'"
proof -
  obtain b u where b: "PrepareRead s = Inr u" "ReadHandlerInternal (Some d) u = Inr (True, s\<lparr>sock_readBuffer := b\<rparr>)" "holding d b"
    using block_arrives [OF assms(2,6,3)] by blast
  let ?s = "s\<lparr>sock_readBuffer := b\<rparr>"
  have "midway env (d @ later) pkts ?s" using assms(1) by (simp add: midway_def header_phase_def payload_phase_def)
  then obtain t pkts' where t: "ReadHandler env ?s = Some (Inr (True, t))" "sock_openState t = sock_openState ?s" "ws_session t \<noteq> None"
      "holding [] (sock_readBuffer t)" "midway env later pkts' t" "queued t @ pkts' = queued ?s @ pkts" "list_all (sendable env) pkts'"
    using ReadHandler_midway [of env d later pkts ?s] b(3) assms(4,5) by auto
  have "ws_receive env d s = Some (Inr t)" using assms(6) b(1,2) t(1) by (simp add: ws_receive_def)
  moreover have "IsOpen t" "queued ?s = queued s" using t(2) assms(6) by (simp_all add: IsOpen_def queued_def)
  ultimately show ?thesis using t(3-7) by auto
qed

text \<open>Blocks that arrive one after the other.\<close>

fun receive_all :: "world_env \<Rightarrow> bytes list \<Rightarrow> WorldSocket \<Rightarrow> (world_error + WorldSocket) option" where
  "receive_all env [] s = Some (Inr s)"
| "receive_all env (d # ds) s = (case ws_receive env d s of Some (Inr t) \<Rightarrow> receive_all env ds t | r \<Rightarrow> r)"

lemma receive_all_midway:
  assumes "midway env (concat ds @ later) pkts s" "holding [] (sock_readBuffer s)" "\<forall>d\<in>set ds. length d \<le> 4096" "list_all (sendable env) pkts"
    "ws_session s \<noteq> None" "IsOpen s"
  shows "\<exists>t pkts'. receive_all env ds s = Some (Inr t) \<and> IsOpen t \<and> ws_session t \<noteq> None \<and> holding [] (sock_readBuffer t) \<and>
    midway env later pkts' t \<and> queued t @ pkts' = queued s @ pkts"
  using assms
proof (induction ds arbitrary: s pkts)
  case Nil
  then show ?case by auto
next
  case (Cons d ds)
  then obtain t pkts' where t: "ws_receive env d s = Some (Inr t)" "IsOpen t" "ws_session t \<noteq> None" "holding [] (sock_readBuffer t)"
      "midway env (concat ds @ later) pkts' t" "queued t @ pkts' = queued s @ pkts" "list_all (sendable env) pkts'"
    using receive_midway [of env d "concat ds @ later" pkts s] by auto
  then show ?case using Cons.IH [OF t(5,4) _ t(7,3,2)] Cons.prems(3) by auto
qed

text \<open>A connection that has read everything it received.\<close>

definition between_packets :: "WorldSocket \<Rightarrow> bool" where
  "between_packets s \<longleftrightarrow> IsOpen s \<and> holding [] (sock_readBuffer s) \<and> filled 6 [] (ws_headerBuffer s) \<and> mb_rpos (ws_packetBuffer s) = 0 \<and> mb_wpos (ws_packetBuffer s) = 0"

lemma midway_end: "midway env [] pkts s \<Longrightarrow> pkts = [] \<and> filled 6 [] (ws_headerBuffer s) \<and> mb_rpos (ws_packetBuffer s) = 0 \<and> mb_wpos (ws_packetBuffer s) = 0"
  using stream_short [of _ "[]" "we_rc4 env" "ws_authCrypt s" pkts] by (auto simp: midway_def header_phase_def)

lemma packets_arrive:
  assumes "between_packets s" "ws_session s = Some se" "\<forall>p\<in>set pkts. sendable env p" "\<forall>d\<in>set blocks. length d \<le> 4096"
    and "concat blocks = client_stream (we_rc4 env) (ws_authCrypt s) pkts"
  shows "\<exists>t se'. receive_all env blocks s = Some (Inr t) \<and> between_packets t \<and> ws_session t = Some se' \<and> se_recvQueue se' = se_recvQueue se @ pkts"
proof -
  have "midway env (concat blocks @ []) pkts s"
    using assms(1,5) unfolding midway_def header_phase_def between_packets_def by (intro disjI1 exI [of _ "[]"]) simp
  moreover have "list_all (sendable env) pkts" using assms(3) by (simp add: list_all_iff)
  ultimately obtain t pkts' where t: "receive_all env blocks s = Some (Inr t)" "IsOpen t" "ws_session t \<noteq> None" "holding [] (sock_readBuffer t)"
      "midway env [] pkts' t" "queued t @ pkts' = queued s @ pkts"
    using receive_all_midway [of env blocks "[]" pkts s] assms(1,2,4) by (auto simp: between_packets_def)
  then show ?thesis using midway_end [OF t(5)] assms(2) by (auto simp: between_packets_def queued_def)
qed


text \<open>A realm with one account, whose session key is forty bytes of one.\<close>

definition sample_account :: account_row where
  "sample_account = \<lparr>ar_id = 1, ar_session_key = replicate 40 1, ar_last_ip = [], ar_locked = False, ar_lock_country = [], ar_expansion = 2, ar_mutetime = 0,
     ar_locale = 0, ar_os = ''Win'', ar_SecurityLevel = 0, ar_banned = False\<rparr>"

definition sample_world :: world_env where
  "sample_world = \<lparr>we_lib = sample_openssl, we_rc4 = (\<lambda>K i. of_nat i), we_opcodeTable = (\<lambda>_. True), we_utf8_valid = (\<lambda>_. True), we_IsClosed = False, we_realmId = 1,
     we_wardenActive = False, we_AllowLoggingIP = True, we_RemoteIp = ''10.0.0.1'', we_LocationOfIp = None, we_GameTime = 0, we_PlayerSecurityLimit = 0,
     we_expansion = 2, we_maxOverspeedPings = 2, we_skipOverspeedCheck = False, we_now = 0,
     we_ACCOUNT_INFO_BY_NAME = (\<lambda>name. if name = ''JAINA'' then Some sample_account else None)\<rparr>"

definition sample_session :: world_session where
  "sample_session = \<lparr>se_id = 1, se_name = ''JAINA'', se_security = 0, se_expansion = 2, se_muteTime = 0, se_locale = 0, se_recvQueue = [], se_latency = 0,
     se_timeOutResets = []\<rparr>"

lemma new_between_packets: "between_packets new_WorldSocket"
proof -
  have h: "holding [] (new_MessageBuffer 4096)" using new_ok [of 4096] by (simp add: holding_def) (simp add: new_MessageBuffer_def)
  have f: "filled 6 [] (Resize 6 (new_MessageBuffer 4096))" using filled_Resize [of "new_MessageBuffer 4096" 6] by (simp add: new_MessageBuffer_def)
  show ?thesis
    using h f by (simp add: between_packets_def new_WorldSocket_def WorldSocket.defs Socket.defs new_Socket_def IsOpen_def) (simp add: new_MessageBuffer_def)
qed


section \<open>What the server sends can be read\<close>

text \<open>The frames of queued packets, and how a client reads one back: the first byte tells the length of the header.\<close>

fun server_stream :: "(bytes \<Rightarrow> nat \<Rightarrow> u8) \<Rightarrow> WorldPacketCrypt \<Rightarrow> encryptable_packet list \<Rightarrow> bytes" where
  "server_stream rc4 c [] = []"
| "server_stream rc4 c (p # ps) = (case packet_header rc4 p c of Inl _ \<Rightarrow> [] | Inr (h, c') \<Rightarrow> h @ fst (snd p) @ server_stream rc4 c' ps)"

definition client_decrypt :: "(bytes \<Rightarrow> nat \<Rightarrow> u8) \<Rightarrow> bool \<Rightarrow> bytes \<Rightarrow> ARC4 \<Rightarrow> bytes \<times> ARC4" where
  "client_decrypt rc4 enc d c = (if enc then UpdateData rc4 d c else (d, c))"

definition header_values :: "bytes \<Rightarrow> nat \<times> u16" where
  "header_values h = (if length h = 5 then (unat (h ! 0) mod 128 * 65536 + unat (h ! 1) * 256 + unat (h ! 2), le_word (drop 3 h))
     else (unat (h ! 0) * 256 + unat (h ! 1), le_word (drop 2 h)))"

fun client_read :: "(bytes \<Rightarrow> nat \<Rightarrow> u8) \<Rightarrow> ARC4 \<Rightarrow> bool list \<Rightarrow> bytes \<Rightarrow> (u16 \<times> bytes) list" where
  "client_read rc4 c [] bs = []"
| "client_read rc4 c (enc # encs) bs =
    (let n = (if unat (hd (fst (client_decrypt rc4 enc (take 1 bs) c))) \<ge> 128 then 5 else 4);
         (h, c) = client_decrypt rc4 enc (take n bs) c; (sz, cmd) = header_values h
     in (cmd, take (sz - 2) (drop n bs)) # client_read rc4 c encs (drop (n + sz - 2) bs))"

lemma or_high:
  assumes "(w :: u8) < 0x80"
  shows "unat (0x80 OR w) = 128 + unat w"
proof -
  have "list_all (\<lambda>n. unat (0x80 OR (of_nat n :: u8)) = 128 + n) [0..<128]" by code_simp
  moreover have "unat w < 128" using assms by (simp add: word_less_nat_alt)
  ultimately show ?thesis by (auto simp: list_all_iff dest: bspec [where x = "unat w"])
qed

lemma byte_of: "unat (ucast (0xFF AND (w :: 'a::len word)) :: u8) = unat w mod 256"
proof -
  have e: "0xFF AND w = take_bit 8 w" by (simp only: take_bit_eq_mask mask_numeral and.commute) (simp add: mask_eq_exp_minus_1)
  have "unat (ucast (take_bit 8 w) :: u8) = take_bit 8 (unat w)" by (simp only: unsigned_ucast_eq unsigned_take_bit_eq) simp
  then show ?thesis unfolding e by (simp add: take_bit_eq_mod)
qed

lemma ucast_byte: "ucast (0xFF AND (w :: 'a::len word)) = (ucast w :: u8)"
proof -
  have "unat (ucast w :: u8) = unat w mod 256" by (simp only: unsigned_ucast_eq) (simp add: take_bit_eq_mod)
  then show ?thesis by (simp only: word_unat_eq_iff byte_of)
qed

text \<open>The header carries the size of the payload with the opcode, and the opcode.\<close>

lemma le_word_2: "le_word [ucast (0xFF AND cmd), ucast (0xFF AND drop_bit 8 cmd)] = (cmd :: u16)"
proof -
  have "[ucast (0xFF AND cmd), ucast (0xFF AND drop_bit 8 cmd)] = le_bytes 2 cmd"
    by (simp add: numeral_2_eq_2 le_bytes_Suc ucast_byte)
  then show ?thesis by (simp add: le_word_le_bytes)
qed

lemma header_back:
  fixes cmd :: u16
  assumes "2 \<le> n" "n < 8388608"
  defines "h \<equiv> ServerPktHeader (of_nat n) cmd"
  shows "length h = (if n > 32767 then 5 else 4)" "(unat (hd h) \<ge> 128) = (n > 32767)" "header_values h = (n, cmd)"
proof -
  let ?w = "of_nat n :: u32"
  have u: "unat ?w = n" using assms(2) by (simp only: unsigned_of_nat) (simp add: take_bit_nat_eq_self)
  have large: "isLargePacket ?w = (n > 32767)" using u by (simp add: isLargePacket_def word_less_nat_alt)
  have d: "unat (drop_bit 16 ?w) = n div 65536" "unat (drop_bit 8 ?w) = n div 256" by ((simp only: unat_drop_bit_eq u), simp add: drop_bit_eq_div)+
  have b: "unat (ucast (0xFF AND drop_bit 8 ?w) :: u8) = n div 256 mod 256" "unat (ucast (0xFF AND ?w) :: u8) = n mod 256"
    by (simp_all only: byte_of d u)
  have top: "unat (ucast (0xFF AND drop_bit 16 ?w) :: u8) = n div 65536" "n div 65536 < 128"
    using assms(2) by (simp_all only: byte_of d) (simp_all add: div_less_iff_less_mult)
  have hi: "unat (0x80 OR ucast (0xFF AND drop_bit 16 ?w) :: u8) = 128 + n div 65536"
    using or_high [of "ucast (0xFF AND drop_bit 16 ?w)"] top by (simp add: word_less_nat_alt)
  have low: "n div 256 mod 256 * 256 + n mod 256 = n mod 65536" using mod_mult2_eq [of n 256 256] by simp
  show "length h = (if n > 32767 then 5 else 4)" by (simp add: h_def ServerPktHeader_def large)
  show "(unat (hd h) \<ge> 128) = (n > 32767)"
  proof (cases "n > 32767")
    case True
    then have "hd h = 0x80 OR ucast (0xFF AND drop_bit 16 ?w)" by (simp add: h_def ServerPktHeader_def large)
    then show ?thesis using True hi by (simp only:) simp
  next
    case False
    then have "hd h = ucast (0xFF AND drop_bit 8 ?w)" by (simp add: h_def ServerPktHeader_def large)
    moreover have "n div 256 < 128" using False by (simp add: div_less_iff_less_mult)
    ultimately show ?thesis using False b(1) by (simp only:) simp
  qed
  show "header_values h = (n, cmd)"
  proof (cases "n > 32767")
    case True
    then have h: "h = [0x80 OR ucast (0xFF AND drop_bit 16 ?w), ucast (0xFF AND drop_bit 8 ?w), ucast (0xFF AND ?w), ucast (0xFF AND cmd), ucast (0xFF AND drop_bit 8 cmd)]"
      by (simp add: h_def ServerPktHeader_def large)
    have "n div 65536 * 65536 + n div 256 mod 256 * 256 + n mod 256 = n" using low div_mult_mod_eq [of n 65536] by linarith
    moreover have "header_values h = ((128 + n div 65536) mod 128 * 65536 + n div 256 mod 256 * 256 + n mod 256, cmd)"
      unfolding h header_values_def using le_word_2 [of cmd] by (simp only: hi b nth_Cons_0 nth_Cons_Suc One_nat_def numeral_2_eq_2) simp
    ultimately show ?thesis using top(2) by simp
  next
    case False
    then have h: "h = [ucast (0xFF AND drop_bit 8 ?w), ucast (0xFF AND ?w), ucast (0xFF AND cmd), ucast (0xFF AND drop_bit 8 cmd)]"
      by (simp add: h_def ServerPktHeader_def large)
    have "n div 256 mod 256 * 256 + n mod 256 = n" using False low by simp
    moreover have "header_values h = (n div 256 mod 256 * 256 + n mod 256, cmd)"
      unfolding h header_values_def using le_word_2 [of cmd] by (simp only: b nth_Cons_0 nth_Cons_Suc One_nat_def) simp
    ultimately show ?thesis by simp
  qed
qed

text \<open>A packet that can be sent: it fits into a header, and is encrypted only when the key is there.\<close>

definition framable :: "WorldPacketCrypt \<Rightarrow> encryptable_packet \<Rightarrow> bool" where
  "framable c p \<longleftrightarrow> length (fst (snd p)) + 2 < 8388608 \<and> (snd (snd p) \<longrightarrow> wc_initialized c)"

lemma packet_header_ok:
  assumes "framable c p"
  shows "\<exists>h c'. packet_header rc4 p c = Inr (h, c') \<and> wc_initialized c' = wc_initialized c \<and> length h \<in> {4, 5} \<and>
    h = fst (client_decrypt rc4 (snd (snd p)) (ServerPktHeader (of_nat (length (fst (snd p)) + 2)) (fst p)) (wc_serverEncrypt c)) \<and>
    wc_serverEncrypt c' = snd (client_decrypt rc4 (snd (snd p)) (ServerPktHeader (of_nat (length (fst (snd p)) + 2)) (fst p)) (wc_serverEncrypt c))"
proof -
  obtain opcode data enc where p: "p = (opcode, data, enc)" by (cases p)
  have e: "of_nat (length data) + 2 = (of_nat (length data + 2) :: u32)" by simp
  have "length (ServerPktHeader (of_nat (length data + 2)) opcode) \<in> {4, 5}"
    using header_back(1) [of "length data + 2" opcode] assms p by (simp add: framable_def)
  then have "length (fst (client_decrypt rc4 enc (ServerPktHeader (of_nat (length data + 2)) opcode) (wc_serverEncrypt c))) \<in> {4, 5}"
    by (simp add: client_decrypt_def)
  then show ?thesis
    using assms unfolding packet_header_def p framable_def by (auto simp: e client_decrypt_def Let_def case_prod_beta simp del: of_nat_add)
qed

lemma client_decrypt_twice: "client_decrypt rc4 enc (fst (client_decrypt rc4 enc d c)) c = (d, snd (client_decrypt rc4 enc d c))"
  using UpdateData_twice [of rc4 d c] by (simp add: client_decrypt_def)

lemma client_decrypt_hd: "d \<noteq> [] \<Longrightarrow> hd (fst (client_decrypt rc4 enc (take 1 d) c)) = hd (fst (client_decrypt rc4 enc d c))"
  by (cases d) (simp_all add: client_decrypt_def UpdateData_def upt_conv_Cons del: upt_Suc)

lemma client_read_stream:
  assumes "\<forall>p\<in>set pkts. framable c p"
  shows "client_read rc4 (wc_serverEncrypt c) (map (\<lambda>p. snd (snd p)) pkts) (server_stream rc4 c pkts) = map (\<lambda>p. (fst p, fst (snd p))) pkts"
  using assms
proof (induction pkts arbitrary: c)
  case Nil
  then show ?case by simp
next
  case (Cons p ps)
  let ?d = "fst (snd p)" and ?enc = "snd (snd p)"
  let ?plain = "ServerPktHeader (of_nat (length ?d + 2)) (fst p)"
  have len: "2 \<le> length ?d + 2" "length ?d + 2 < 8388608" using Cons.prems by (simp_all add: framable_def)
  note hb = header_back [OF len, of "fst p"]
  obtain h c' where h: "packet_header rc4 p c = Inr (h, c')" "wc_initialized c' = wc_initialized c" "length h \<in> {4, 5}"
      "h = fst (client_decrypt rc4 ?enc ?plain (wc_serverEncrypt c))" "wc_serverEncrypt c' = snd (client_decrypt rc4 ?enc ?plain (wc_serverEncrypt c))"
    using packet_header_ok [of c p rc4] Cons.prems unfolding list.set ball_simps by blast
  have h3: "h \<noteq> []" using h(3) by auto
  have lh: "length h = length ?plain" unfolding h(4) by (simp add: client_decrypt_def)
  let ?bs = "h @ ?d @ server_stream rc4 c' ps"
  have dec: "client_decrypt rc4 ?enc h (wc_serverEncrypt c) = (?plain, wc_serverEncrypt c')" unfolding h(4,5) by (rule client_decrypt_twice)
  have "hd (fst (client_decrypt rc4 ?enc (take 1 ?bs) (wc_serverEncrypt c))) = hd ?plain"
    using client_decrypt_hd [OF h3, of rc4 ?enc "wc_serverEncrypt c"] dec h3 by (cases h) simp_all
  then have n: "(if unat (hd (fst (client_decrypt rc4 ?enc (take 1 ?bs) (wc_serverEncrypt c)))) \<ge> 128 then 5 else 4) = length h"
    using hb(1,2) lh by simp
  have IH: "client_read rc4 (wc_serverEncrypt c') (map (\<lambda>p. snd (snd p)) ps) (server_stream rc4 c' ps) = map (\<lambda>p. (fst p, fst (snd p))) ps"
    by (rule Cons.IH) (use Cons.prems h(2) in \<open>simp add: framable_def\<close>)
  have "client_read rc4 (wc_serverEncrypt c) (?enc # map (\<lambda>p. snd (snd p)) ps) ?bs =
      (fst p, take (length ?d + 2 - 2) (drop (length h) ?bs)) # client_read rc4 (wc_serverEncrypt c') (map (\<lambda>p. snd (snd p)) ps) (drop (length h + (length ?d + 2) - 2) ?bs)"
  proof -
    have "take (length h) ?bs = h" by simp
    then show ?thesis by (simp only: client_read.simps Let_def n dec prod.case hb(3))
  qed
  then show ?case using IH by (simp add: h(1))
qed

text \<open>Moving the queued packets into the socket's queue.\<close>

lemma new_filling: "n < 4611686018427387904 \<Longrightarrow> mb_ok (new_MessageBuffer n) \<and> active_data (new_MessageBuffer n) = [] \<and> length (mb_storage (new_MessageBuffer n)) = n"
  using new_ok [of n] by (simp add: new_MessageBuffer_def)

lemma write_two:
  assumes "mb_ok b" "int (length h + length d) \<le> GetRemainingSpace b"
  shows "\<exists>b1 b2. Write h b = Inr b1 \<and> Write d b1 = Inr b2 \<and> mb_ok b2 \<and> active_data b2 = active_data b @ h @ d \<and> length (mb_storage b2) = length (mb_storage b)"
proof -
  obtain b1 where b1: "Write h b = Inr b1" "mb_ok b1" "active_data b1 = active_data b @ h" "mb_rpos b1 = mb_rpos b" "length (mb_storage b1) = length (mb_storage b)"
    using Write_ok [of b h] assms by auto
  have "mb_wpos b1 = mb_wpos b + int (length h)" using active_size [OF b1(2)] active_size [OF assms(1)] b1(3,4) by simp
  then have "int (length d) \<le> GetRemainingSpace b1" using remaining [OF b1(2)] remaining [OF assms(1)] b1(5) assms(2) by simp
  then show ?thesis using Write_ok [of b1 d] b1 by auto
qed

lemma fill_buffers_stream:
  assumes "\<forall>p\<in>set pkts. framable (ws_authCrypt s) p" "mb_ok buffer" "ws_sendBufferSize s < 4611686018427387904"
  shows "\<exists>b t. fill_buffers rc4 pkts buffer s = Inr (b, t) \<and> mb_ok b \<and>
    unsent t @ active_data b = unsent s @ active_data buffer @ server_stream rc4 (ws_authCrypt s) pkts \<and>
    sock_wire t = sock_wire s \<and> sock_openState t = sock_openState s \<and> ws_bufferQueue t = ws_bufferQueue s"
  using assms
proof (induction pkts arbitrary: buffer s)
  case Nil
  then show ?case by simp
next
  case (Cons p ps)
  let ?d = "fst (snd p)"
  have fp: "framable (ws_authCrypt s) p" using Cons.prems(1) by simp
  obtain h c where h: "packet_header rc4 p (ws_authCrypt s) = Inr (h, c)" "wc_initialized c = wc_initialized (ws_authCrypt s)" "length h \<in> {4, 5}"
    using packet_header_ok [OF fp] by blast
  define n where "n = length ?d + length h"
  define b0 where "b0 = (if GetRemainingSpace buffer < int n then new_MessageBuffer (ws_sendBufferSize s) else buffer)"
  define s0 where "s0 = (if GetRemainingSpace buffer < int n then QueuePacket buffer (s\<lparr>ws_authCrypt := c\<rparr>) else s\<lparr>ws_authCrypt := c\<rparr>)"
  have b0: "mb_ok b0" "unsent s0 @ active_data b0 = unsent s @ active_data buffer"
    using new_filling [OF Cons.prems(3)] Cons.prems(2) by (auto simp: b0_def s0_def unsent_def QueuePacket_def)
  have s0: "ws_authCrypt s0 = c" "ws_sendBufferSize s0 = ws_sendBufferSize s" "sock_wire s0 = sock_wire s" "sock_openState s0 = sock_openState s"
      "ws_bufferQueue s0 = ws_bufferQueue s"
    by (simp_all add: s0_def QueuePacket_def)
  have ps: "\<forall>p\<in>set ps. framable c p" using Cons.prems(1) h(2) by (simp add: framable_def)
  have n: "int n < 4611686018427387904" "n < 4611686018427387904" using fp h(3) by (auto simp: n_def framable_def)
  show ?case
  proof (cases "GetRemainingSpace b0 \<ge> int n")
    case True
    obtain b1 b2 where b: "Write h b0 = Inr b1" "Write ?d b1 = Inr b2" "mb_ok b2" "active_data b2 = active_data b0 @ h @ ?d"
      using write_two [OF b0(1), of h ?d] True by (auto simp: n_def)
    have "fill_buffers rc4 (p # ps) buffer s = fill_buffers rc4 ps b2 s0"
      using True b(1,2) by (cases "GetRemainingSpace buffer < int n") (simp_all add: h(1) Let_def b0_def s0_def n_def)
    moreover obtain b t where t: "fill_buffers rc4 ps b2 s0 = Inr (b, t)" "mb_ok b" "unsent t @ active_data b = unsent s0 @ active_data b2 @ server_stream rc4 c ps"
        "sock_wire t = sock_wire s0" "sock_openState t = sock_openState s0" "ws_bufferQueue t = ws_bufferQueue s0"
      using Cons.IH [of s0 b2] ps b(3) s0(1,2) Cons.prems(3) by auto
    moreover have "unsent s0 @ active_data b2 = unsent s @ active_data buffer @ h @ ?d" using b(4) b0(2) by (metis append.assoc)
    ultimately have "fill_buffers rc4 (p # ps) buffer s = Inr (b, t)" "unsent t @ active_data b = unsent s @ active_data buffer @ server_stream rc4 (ws_authCrypt s) (p # ps)"
      using h(1) t(3) by simp_all
    then show ?thesis using t(2,4-6) s0 by auto
  next
    case False
    note nf = new_filling [OF n(2)]
    have "int (length h + length ?d) \<le> GetRemainingSpace (new_MessageBuffer n)"
      using remaining [of "new_MessageBuffer n"] nf by (simp add: n_def new_MessageBuffer_def)
    then obtain b1 b2 where b: "Write h (new_MessageBuffer n) = Inr b1" "Write ?d b1 = Inr b2" "mb_ok b2" "active_data b2 = h @ ?d"
      using write_two [of "new_MessageBuffer n" h ?d] nf by auto
    have full: "GetRemainingSpace buffer < int n" using False by (auto simp: b0_def split: if_splits)
    then have a0: "active_data b0 = []" using new_filling [OF Cons.prems(3)] by (simp add: b0_def)
    let ?s = "QueuePacket b2 s0"
    have nm: "nat (int (length ?d) + int (length h)) = length ?d + length h" by simp
    have "fill_buffers rc4 (p # ps) buffer s = fill_buffers rc4 ps b0 ?s"
      using False full b(1,2) nm by (simp add: h(1) Let_def b0_def s0_def n_def)
    moreover obtain b t where t: "fill_buffers rc4 ps b0 ?s = Inr (b, t)" "mb_ok b" "unsent t @ active_data b = unsent ?s @ active_data b0 @ server_stream rc4 c ps"
        "sock_wire t = sock_wire ?s" "sock_openState t = sock_openState ?s" "ws_bufferQueue t = ws_bufferQueue ?s"
      using Cons.IH [of ?s b0] ps b0(1) s0(1,2) Cons.prems(3) by (auto simp: QueuePacket_def)
    moreover have "unsent ?s = unsent s0 @ h @ ?d" using b(4) by (simp add: unsent_def QueuePacket_def)
    ultimately show ?thesis using b0(2) a0 s0 h(1) by (simp add: QueuePacket_def)
  qed
qed

lemma move_queued_stream:
  assumes "\<forall>p\<in>set (ws_bufferQueue s). framable (ws_authCrypt s) p" "ws_sendBufferSize s < 4611686018427387904"
  shows "\<exists>t. move_queued rc4 s = Inr t \<and> ws_bufferQueue t = [] \<and> unsent t = unsent s @ server_stream rc4 (ws_authCrypt s) (ws_bufferQueue s) \<and>
    sock_wire t = sock_wire s \<and> sock_openState t = sock_openState s"
proof (cases "ws_bufferQueue s = []")
  case True
  then show ?thesis by (simp add: move_queued_def)
next
  case False
  let ?s = "s\<lparr>ws_bufferQueue := []\<rparr>"
  obtain b t where t: "fill_buffers rc4 (ws_bufferQueue s) (new_MessageBuffer (ws_sendBufferSize s)) ?s = Inr (b, t)" "mb_ok b"
      "unsent t @ active_data b = unsent ?s @ server_stream rc4 (ws_authCrypt ?s) (ws_bufferQueue s)"
      "sock_wire t = sock_wire ?s" "sock_openState t = sock_openState ?s" "ws_bufferQueue t = ws_bufferQueue ?s"
    using fill_buffers_stream [of "ws_bufferQueue s" ?s "new_MessageBuffer (ws_sendBufferSize s)" rc4] assms new_filling [OF assms(2)] by auto
  have "unsent ?s = unsent s" by (simp add: unsent_def)
  moreover have "GetActiveSize b > 0 \<longleftrightarrow> active_data b \<noteq> []" using active_size [OF t(2)] by (cases "active_data b") auto
  ultimately show ?thesis
    using False t by (auto simp: move_queued_def QueuePacket_def unsent_def)
qed

text \<open>Claim C8: what the server sends can be read. The packets queued on a connection, small and large, become a stream of bytes for the
  socket, whatever buffers they are gathered in, and a client that runs the same cipher over the headers reads back exactly
  these packets in their order. Payloads below eight megabytes fit the header.\<close>

theorem server_packets_readable:
  assumes "\<forall>p\<in>set (ws_bufferQueue s). framable (ws_authCrypt s) p" "ws_sendBufferSize s < 4611686018427387904"
  shows "\<exists>t bs. move_queued rc4 s = Inr t \<and> ws_bufferQueue t = [] \<and> unsent t = unsent s @ bs \<and>
    client_read rc4 (wc_serverEncrypt (ws_authCrypt s)) (map (\<lambda>p. snd (snd p)) (ws_bufferQueue s)) bs = map (\<lambda>p. (fst p, fst (snd p))) (ws_bufferQueue s)"
  using move_queued_stream [OF assms] client_read_stream [OF assms(1)] by blast

theorem server_packets_readable_witness:
  "\<exists>t bs. move_queued (\<lambda>K i. of_nat i) (new_WorldSocket\<lparr>ws_bufferQueue := [(SMSG_PONG, [1, 2, 3, 4], False), (SMSG_PONG, [5], False)]\<rparr>) = Inr t \<and> unsent t = bs \<and>
     client_read (\<lambda>K i. of_nat i) (ARC4_Init []) [False, False] bs = [(SMSG_PONG, [1, 2, 3, 4]), (SMSG_PONG, [5])]"
proof -
  let ?s = "new_WorldSocket\<lparr>ws_bufferQueue := [(SMSG_PONG, [1, 2, 3, 4], False), (SMSG_PONG, [5], False)]\<rparr>"
  have f: "ws_sendBufferSize ?s = 4096" "unsent ?s = []" "wc_serverEncrypt (ws_authCrypt ?s) = ARC4_Init []"
      "ws_bufferQueue ?s = [(SMSG_PONG, [1, 2, 3, 4], False), (SMSG_PONG, [5], False)]"
    by (simp_all add: new_WorldSocket_def WorldSocket.defs Socket.defs new_Socket_def unsent_def new_WorldPacketCrypt_def)
  have "\<forall>p\<in>set (ws_bufferQueue ?s). framable (ws_authCrypt ?s) p" by (simp add: framable_def)
  then show ?thesis using server_packets_readable [of ?s "\<lambda>K i. of_nat i"] unfolding f by auto
qed
end
