(* ===== verification/World_Session.thy ===== *)
theory World_Session
  imports World_Stream
begin

text \<open>
  Who gets a session in the world: every session of a connection belongs to a client that proved to know the session key
  of its account, whatever the connection received and in whatever order it was served.
\<close>

section \<open>Only the holder of the session key has a session\<close>

text \<open>The messages whose rows were loaded.\<close>

type_synonym world_history = "(auth_message \<times> account_row) list"

definition authentic :: "openssl \<Rightarrow> string \<Rightarrow> u32 \<Rightarrow> bytes \<Rightarrow> auth_message \<Rightarrow> account_row \<Rightarrow> world_session \<Rightarrow> bool" where
  "authentic L ip realm challenge m row se \<longleftrightarrow> session_digest L (am_Account m) (am_LocalChallenge m) challenge (ar_session_key row) = am_Digest m \<and>
     am_RealmID m = realm \<and> \<not> ar_banned row \<and> (ar_locked row \<longrightarrow> ar_last_ip row = ip) \<and>
     se_id se = ar_id row \<and> se_name se = am_Account m \<and> se_security se = ar_SecurityLevel row"

inductive ws_step :: "openssl \<Rightarrow> string \<Rightarrow> u32 \<Rightarrow> WorldSocket \<times> world_history \<Rightarrow> WorldSocket \<times> world_history \<Rightarrow> bool"
  for L ip realm where
  arrive: "PrepareRead s = Inr u \<Longrightarrow> ReadHandlerInternal (Some data) u = Inr (run, t) \<Longrightarrow> ws_step L ip realm (s, h) (t, h)"
| turn: "read_turn env s = Inr (out, t) \<Longrightarrow> ws_step L ip realm (s, h) (t, h)"
| callback: "we_lib env = L \<Longrightarrow> we_RemoteIp env = ip \<Longrightarrow> we_realmId env = realm \<Longrightarrow> ws_queries s = q # qs \<Longrightarrow>
    ws_callback env q (s\<lparr>ws_queries := qs\<rparr>) = Inr t \<Longrightarrow>
    ws_step L ip realm (s, h) (t, h @ (case q of Q_ACCOUNT_INFO m \<Rightarrow>
      (case we_ACCOUNT_INFO_BY_NAME env (am_Account m) of None \<Rightarrow> [] | Some row \<Rightarrow> [(m, row)]) | Q_PERMISSIONS \<Rightarrow> []))"
| send: "ws_step L ip realm (s, h) (SendPacket opcode data s, h)"
| flush: "move_queued rc4 s = Inr t \<Longrightarrow> ws_step L ip realm (s, h) (t, h)"
| wrote: "Update os s = Inr (alive, t) \<Longrightarrow> ws_step L ip realm (s, h) (t, h)"
| close: "ws_step L ip realm (s, h) (ws_CloseSocket s, h)"

definition ws_init :: "bytes \<Rightarrow> WorldSocket \<times> world_history \<Rightarrow> bool" where
  "ws_init challenge x \<longleftrightarrow> (\<exists>dos. x = (SendAuthSession challenge dos new_WorldSocket, []))"

fun ws_inv :: "openssl \<Rightarrow> string \<Rightarrow> u32 \<Rightarrow> bytes \<Rightarrow> WorldSocket \<times> world_history \<Rightarrow> bool" where
  "ws_inv L ip realm challenge (s, h) \<longleftrightarrow> ws_serverChallenge s = challenge \<and>
     (\<forall>se. ws_session s = Some se \<longrightarrow> (\<exists>m row. (m, row) \<in> set h \<and> authentic L ip realm challenge m row se))"

text \<open>The steps that open no session: the session stays who it is, or is forgotten.\<close>

definition same_session :: "WorldSocket \<Rightarrow> WorldSocket \<Rightarrow> bool" where
  "same_session s t \<longleftrightarrow> ws_serverChallenge t = ws_serverChallenge s \<and> (\<forall>se'. ws_session t = Some se' \<longrightarrow>
     (\<exists>se. ws_session s = Some se \<and> se_id se' = se_id se \<and> se_name se' = se_name se \<and> se_security se' = se_security se))"

lemma same_session_inv: "ws_inv L ip realm c (s, h) \<Longrightarrow> same_session s t \<Longrightarrow> set h \<subseteq> set h' \<Longrightarrow> ws_inv L ip realm c (t, h')"
  by (fastforce simp: same_session_def authentic_def)

lemma same_session_trans: "same_session s t \<Longrightarrow> same_session t u \<Longrightarrow> same_session s u"
  by (fastforce simp: same_session_def)

lemma same_sessionI: "ws_serverChallenge t = ws_serverChallenge s \<Longrightarrow> ws_session t = ws_session s \<or> ws_session t = None \<Longrightarrow> same_session s t"
  by (auto simp: same_session_def)

lemma SendPacket_same: "same_session s (SendPacket opcode data s)"
  by (rule same_sessionI) (simp_all add: SendPacket_def)

lemma CloseSocket_same: "same_session s (ws_CloseSocket s)" "same_session s (CloseSocket s)" "same_session s (DelayedCloseSocket s)"
  by (simp_all add: same_session_def ws_CloseSocket_def CloseSocket_def DelayedCloseSocket_def Let_def)

lemma HandlePing_same:
  assumes "HandlePing env p s = Inr (ok, t)"
  shows "same_session s t"
  using assms
  by (auto simp: HandlePing_def bindB_def Let_def same_session_def SendPacket_def split: sum.splits option.splits if_splits)

lemma HandleAuthSession_same: "HandleAuthSession env p s = Inr t \<Longrightarrow> same_session s t"
  by (auto simp: HandleAuthSession_def bindB_def QueueQuery_def same_session_def split: sum.splits)

lemma dispatch_same: "same_session s (snd (dispatch env opcode data s))"
proof -
  consider "opcode = CMSG_PING" | "opcode = CMSG_AUTH_SESSION" | "opcode \<noteq> CMSG_PING" "opcode \<noteq> CMSG_AUTH_SESSION" by blast
  then show ?thesis
  proof cases
    case 1
    then show ?thesis
      by (cases "HandlePing env \<lparr>rpos = 0, wpos = 0, storage = data\<rparr> s") (auto simp: dispatch_def same_sessionI dest: HandlePing_same)
  next
    case 2
    then show ?thesis
      by (cases "HandleAuthSession env \<lparr>rpos = 0, wpos = 0, storage = data\<rparr> s") (auto simp: dispatch_def same_sessionI dest: HandleAuthSession_same)
  next
    case 3
    then show ?thesis by (auto simp: dispatch_def same_session_def ResetTimeOutTime_def split: option.splits)
  qed
qed

lemma take_into_same: "same_session (s\<lparr>sock_readBuffer := a, ws_packetBuffer := b, ws_headerBuffer := c, ws_authCrypt := d\<rparr>) t \<Longrightarrow> same_session s t"
  by (simp add: same_session_def)

lemma ReadDataHandler_same: "ReadDataHandler env s = Inr (result, t) \<Longrightarrow> same_session s t"
  using dispatch_same [of "s\<lparr>ws_packetBuffer := new_MessageBuffer 0\<rparr>" env]
  by (auto simp: ReadDataHandler_def bindW_Inr same_session_def) (metis snd_conv)+

lemma read_payload_same:
  assumes "read_payload env s = Inr (out, t)"
  shows "same_session s t"
proof -
  let ?fill = "if GetRemainingSpace (ws_packetBuffer s) > 0
     then bindW (take_into (sock_readBuffer s) (ws_packetBuffer s)) (\<lambda>(src, dst).
       let s = s\<lparr>sock_readBuffer := src, ws_packetBuffer := dst\<rparr>
       in if GetRemainingSpace dst > 0 then if GetActiveSize src \<noteq> 0 then Inl Assertion else Inr (False, s) else Inr (True, s))
     else Inr (True, s)"
  obtain full u where u: "?fill = Inr (full, u)"
      "(if \<not> full then Inr (Broke, u)
        else bindW (ReadDataHandler env u) (\<lambda>(result, s).
          let s = s\<lparr>ws_headerBuffer := Reset (ws_headerBuffer s)\<rparr>
          in Inr (if result = RD_Ok then (Turned, s) else if result = RD_WaitingForQuery then (Stopped, s) else (Stopped, ws_CloseSocket s)))) = Inr (out, t)"
    using assms unfolding read_payload_def bindW_Inr by auto
  have su: "same_session s u" using u(1) by (auto simp: bindW_Inr Let_def same_session_def split: if_splits)
  show ?thesis
  proof (cases full)
    case False
    then show ?thesis using u(2) su by simp
  next
    case True
    then obtain result v where v: "ReadDataHandler env u = Inr (result, v)"
        "t = v\<lparr>ws_headerBuffer := Reset (ws_headerBuffer v)\<rparr> \<or> t = ws_CloseSocket (v\<lparr>ws_headerBuffer := Reset (ws_headerBuffer v)\<rparr>)"
      using u(2) by (auto simp: bindW_Inr Let_def split: if_splits)
    have "same_session v (v\<lparr>ws_headerBuffer := Reset (ws_headerBuffer v)\<rparr>)" by (simp add: same_session_def)
    then have "same_session v t" using v(2) CloseSocket_same(1) same_session_trans by blast
    then show ?thesis using su ReadDataHandler_same [OF v(1)] same_session_trans by blast
  qed
qed

lemma ReadHeaderHandler_same:
  assumes "ReadHeaderHandler rc4 s = Inr (ok, t)"
  shows "same_session s t"
proof -
  have "GetActiveSize (ws_headerBuffer s) = 6" using assms by (simp add: ReadHeaderHandler_def split: if_split_asm)
  then obtain raw where raw: "(let (h, c) = (if wc_initialized (ws_authCrypt s) then DecryptRecv rc4 raw (ws_authCrypt s) else (raw, ws_authCrypt s));
           sz = (le_word (rev (take 2 h)) :: u16); cmd = (le_word (drop 2 h) :: u32);
           s = s\<lparr>ws_authCrypt := c\<rparr>;
           valid = (IsValidSize sz \<and> IsValidOpcode cmd);
           sz = (if valid then sz - 4 else sz)
       in bindW (mem (poke (mb_rpos (ws_headerBuffer s)) (le_bytes 2 sz @ le_bytes 4 cmd) (ws_headerBuffer s))) (\<lambda>hb.
          let s = s\<lparr>ws_headerBuffer := hb\<rparr>
          in Inr (if valid then (True, s\<lparr>ws_packetBuffer := Resize (unat sz) (ws_packetBuffer s)\<rparr>) else (False, s)))) = Inr (ok, t)"
    using assms unfolding ReadHeaderHandler_def by (auto simp only: bindW_Inr if_False simp_thms)
  obtain h c where hc: "(if wc_initialized (ws_authCrypt s) then DecryptRecv rc4 raw (ws_authCrypt s) else (raw, ws_authCrypt s)) = (h, c)"
    by (rule prod.exhaust)
  obtain hb pb where "t = s\<lparr>ws_authCrypt := c, ws_headerBuffer := hb\<rparr> \<or> t = s\<lparr>ws_authCrypt := c, ws_headerBuffer := hb, ws_packetBuffer := pb\<rparr>"
    using raw unfolding hc Let_def prod.case bindW_Inr
    by (cases "IsValidSize (le_word (rev (take 2 h)) :: u16) \<and> IsValidOpcode (le_word (drop 2 h) :: u32)") auto
  then show ?thesis by (auto simp: same_session_def)
qed

lemma read_turn_same:
  assumes "read_turn env s = Inr (out, t)"
  shows "same_session s t"
proof -
  consider "t = s" | "read_payload env s = Inr (out, t)"
    | src dst where "(let s = s\<lparr>sock_readBuffer := src, ws_headerBuffer := dst\<rparr>
       in if GetRemainingSpace dst > 0 then if GetActiveSize src \<noteq> 0 then Inl Assertion else Inr (Broke, s)
          else bindW (ReadHeaderHandler (we_rc4 env) s) (\<lambda>(ok, s).
            if \<not> ok then Inr (Stopped, ws_CloseSocket s) else read_payload env s)) = Inr (out, t)"
    using assms unfolding read_turn_def by (auto simp: bindW_Inr simp del: Let_def split: if_splits)
  then show ?thesis
  proof cases
    case 1
    then show ?thesis by (simp add: same_session_def)
  next
    case 2
    then show ?thesis by (rule read_payload_same)
  next
    case 3
    let ?s = "s\<lparr>sock_readBuffer := src, ws_headerBuffer := dst\<rparr>"
    have s: "same_session s ?s" by (simp add: same_session_def)
    consider "t = ?s" | ok v where "ReadHeaderHandler (we_rc4 env) ?s = Inr (ok, v)" "t = ws_CloseSocket v \<or> read_payload env v = Inr (out, t)"
      using 3 unfolding Let_def bindW_Inr by (auto simp: bindW_Inr split: if_splits)
    then show ?thesis
    proof cases
      case 2
      then have "same_session ?s v" "same_session v t"
        using ReadHeaderHandler_same read_payload_same CloseSocket_same(1) by blast+
      then show ?thesis using s same_session_trans by blast
    qed (use s in simp)
  qed
qed

text \<open>The base of the socket does not know of sessions.\<close>

lemma pop_message_same: "same_session s (pop_message s)"
  by (simp add: same_session_def pop_message_def CloseSocket_def Let_def)

lemma HandleQueue_same: "HandleQueue r s = Inr (again, t) \<Longrightarrow> same_session s t"
  by (auto simp: HandleQueue_def AsyncProcessQueue_def pop_message_def CloseSocket_def Let_def same_session_def
    split: list.splits write_result.splits sum.splits if_splits)

lemma queue_loop_same: "queue_loop os k s = Inr t \<Longrightarrow> same_session s t"
proof (induction os k s rule: queue_loop.induct)
  case (1 os k s)
  from "1.prems" obtain again u where u: "HandleQueue (os k) s = Inr (again, u)" "(if again then queue_loop os (Suc k) u else Inr u) = Inr t"
    by (subst (asm) queue_loop.simps) (auto split: sum.splits prod.splits)
  then have "same_session s u" by (simp add: HandleQueue_same)
  moreover have "same_session u t" using u "1.IH" [OF u(1)] by (cases again) (auto simp: same_session_def)
  ultimately show ?case by (rule same_session_trans)
qed

lemma Update_same: "Update os s = Inr (alive, t) \<Longrightarrow> same_session s t"
  by (cases "queue_loop os 0 s") (auto simp: Update_def same_session_def [of t t] queue_loop_same split: if_splits)

lemma fill_buffers_same:
  assumes "fill_buffers rc4 ps buffer s = Inr (b, t)"
  shows "same_session s t"
  using assms
proof (induction ps arbitrary: buffer s)
  case Nil
  then show ?case by (simp add: same_session_def)
next
  case (Cons p ps)
  then obtain h c b0 s0 b1 s1 where s1: "fill_buffers rc4 ps b1 s1 = Inr (b, t)" "s1 = s0 \<or> (\<exists>q. s1 = QueuePacket q s0)"
      "s0 = s\<lparr>ws_authCrypt := c\<rparr> \<or> s0 = QueuePacket buffer (s\<lparr>ws_authCrypt := c\<rparr>)"
    by (auto simp: bindW_Inr Let_def split: if_splits) blast+
  have "same_session s s0" using s1(3) by (auto simp: same_session_def QueuePacket_def)
  moreover have "same_session s0 s1" using s1(2) by (auto simp: same_session_def QueuePacket_def)
  ultimately show ?case using Cons.IH [OF s1(1)] same_session_trans by blast
qed

lemma move_queued_same: "move_queued rc4 s = Inr t \<Longrightarrow> same_session s t"
  by (auto simp: move_queued_def bindW_Inr QueuePacket_def same_session_def dest!: fill_buffers_same split: if_splits)

text \<open>The tests of the callback.\<close>

lemma session_refused_same: "session_refused env m row s = (r, t) \<Longrightarrow> same_session s t"
  by (auto simp: session_refused_def Let_def same_session_def split: if_splits option.splits)

lemma session_refused_None:
  assumes "session_refused env m row s = (None, t)"
  shows "session_digest (we_lib env) (am_Account m) (am_LocalChallenge m) (ws_serverChallenge s) (ar_session_key row) = am_Digest m"
    "am_RealmID m = we_realmId env" "ar_locked row \<longrightarrow> ar_last_ip row = we_RemoteIp env"
  using assms by (auto simp: session_refused_def Let_def split: if_splits option.splits)

lemma add_effect_same: "same_session s (add_effect e s)"
  by (simp add: same_session_def add_effect_def)

lemma refuse_same: "same_session s (refuse code s)" "same_session s (refuse_account row e s)"
proof -
  have r: "same_session s (SendAuthResponseError code s)" for code by (simp add: SendAuthResponseError_def SendPacket_same)
  show "same_session s (refuse code s)" using same_session_trans [OF r CloseSocket_same(3)] by (simp add: refuse_def)
  show "same_session s (refuse_account row e s)"
    using same_session_trans [OF r CloseSocket_same(3)] same_session_trans [OF same_session_trans [OF r add_effect_same] CloseSocket_same(3)]
    by (simp add: refuse_account_def Let_def)
qed

lemma PrepareRead_same: "mem (PrepareRead s) = Inr t \<Longrightarrow> ws_session t = ws_session s \<and> ws_serverChallenge t = ws_serverChallenge s"
  by (cases "Normalize (sock_readBuffer s)") (auto simp: PrepareRead_def mem_def)

lemma open_session_session:
  assumes "open_session env m row mutetime s = Inr t"
  shows "ws_serverChallenge t = ws_serverChallenge s \<and> (\<exists>se. ws_session t = Some se \<and> se_id se = ar_id row \<and> se_name se = am_Account m \<and>
    se_security se = ar_SecurityLevel row)"
proof -
  define u where "u = QueueQuery Q_PERMISSIONS ((add_effect (OnAccountLogin (ar_id row))
    (if we_AllowLoggingIP env then add_effect (UPD_LAST_IP (we_RemoteIp env) (am_Account m)) s else s))\<lparr>ws_authed := True,
      ws_session := Some \<lparr>se_id = ar_id row, se_name = am_Account m, se_security = ar_SecurityLevel row, se_expansion = account_expansion env row,
        se_muteTime = mutetime, se_locale = account_locale row, se_recvQueue = [], se_latency = 0, se_timeOutResets = []\<rparr>\<rparr>)"
  have u: "ws_serverChallenge u = ws_serverChallenge s" "\<exists>se. ws_session u = Some se \<and> se_id se = ar_id row \<and> se_name se = am_Account m \<and>
    se_security se = ar_SecurityLevel row"
    by (simp_all add: u_def QueueQuery_def add_effect_def)
  have "(if IsOpen u then mem (PrepareRead u) else Inr u) = Inr t" using assms unfolding open_session_def Let_def u_def by simp
  then have "ws_session t = ws_session u" "ws_serverChallenge t = ws_serverChallenge u"
    using PrepareRead_same [of u t] by (simp_all split: if_splits)
  then show ?thesis using u by simp
qed

lemma callback_session:
  assumes "HandleAuthSessionCallback env m (Some row) s = Inr t"
  shows "same_session s t \<or> ws_serverChallenge t = ws_serverChallenge s \<and>
    (\<exists>se. ws_session t = Some se \<and> authentic (we_lib env) (we_RemoteIp env) (we_realmId env) (ws_serverChallenge s) m row se)"
proof -
  define s0 where "s0 = (if we_AllowLoggingIP env then add_effect (UPD_LAST_ATTEMPT_IP (we_RemoteIp env) (am_Account m)) s else s)
    \<lparr>ws_authCrypt := WorldPacketCrypt_Init (we_lib env) (we_rc4 env) (ar_session_key row)\<rparr>"
  obtain r u where u: "session_refused env m row s0 = (r, u)" by (rule prod.exhaust)
  define mt where "mt = (if ar_mutetime row < 0 then we_GameTime env + \<bar>ar_mutetime row\<bar> else ar_mutetime row)"
  define v where "v = (if ar_mutetime row < 0 then add_effect (UPD_MUTE_TIME_LOGIN (we_GameTime env + \<bar>ar_mutetime row\<bar>) (ar_id row)) u else u)"
  have s0: "same_session s s0" "ws_serverChallenge s0 = ws_serverChallenge s" by (simp_all add: s0_def same_session_def add_effect_def)
  have su: "same_session s u" using s0(1) session_refused_same [OF u] same_session_trans by blast
  then have sv: "same_session s v" using add_effect_same same_session_trans by (auto simp: v_def)
  have "t = (case r of Some e \<Rightarrow> refuse_account row e u | None \<Rightarrow> t)" "r = None \<longrightarrow>
     ar_banned row \<and> t = refuse_account row (AUTH_BANNED, True) v \<or> t = refuse_account row (AUTH_UNAVAILABLE, True) v \<or>
     \<not> ar_banned row \<and> open_session env m row mt v = Inr t"
    using assms u unfolding HandleAuthSessionCallback_def option.case Let_def
    by (auto simp: s0_def [symmetric] v_def mt_def split: if_splits option.splits)
  then consider w e where "same_session s w" "t = refuse_account row e w" | "r = None" "\<not> ar_banned row" "open_session env m row mt v = Inr t"
    using su sv by (cases r) auto
  then show ?thesis
  proof cases
    case 1
    then show ?thesis using refuse_same(2) same_session_trans by blast
  next
    case 2
    have "ws_serverChallenge v = ws_serverChallenge s" using sv by (simp add: same_session_def)
    then show ?thesis
      using open_session_session [OF 2(3)] session_refused_None [OF u [unfolded 2(1)]] s0(2) 2(2) by (auto simp: authentic_def)
  qed
qed

lemma ws_invI:
  assumes "ws_serverChallenge t = c" "ws_session t = Some se" "authentic L ip realm c m row se" "(m, row) \<in> set h"
  shows "ws_inv L ip realm c (t, h)"
  using assms by auto

lemma ws_callback_inv:
  assumes "ws_inv L ip realm c (s, h)" "we_lib env = L" "we_RemoteIp env = ip" "we_realmId env = realm"
    and "ws_callback env q (s\<lparr>ws_queries := qs\<rparr>) = Inr t"
  shows "ws_inv L ip realm c (t, h @ (case q of Q_ACCOUNT_INFO m \<Rightarrow>
      (case we_ACCOUNT_INFO_BY_NAME env (am_Account m) of None \<Rightarrow> [] | Some row \<Rightarrow> [(m, row)]) | Q_PERMISSIONS \<Rightarrow> []))"
proof -
  let ?s = "s\<lparr>ws_queries := qs\<rparr>"
  have inv: "ws_inv L ip realm c (?s, h)" using assms(1) by simp
  show ?thesis
  proof (cases q)
    case Q_PERMISSIONS
    then have "same_session ?s t" using assms(5) add_effect_same
      by (auto simp: ws_callback_def LoadSessionPermissionsCallback_def split: option.splits)
    then show ?thesis using same_session_inv [OF inv, of t h] Q_PERMISSIONS by simp
  next
    case (Q_ACCOUNT_INFO m)
    show ?thesis
    proof (cases "we_ACCOUNT_INFO_BY_NAME env (am_Account m)")
      case None
      then have "t = refuse AUTH_UNKNOWN_ACCOUNT ?s" using assms(5) Q_ACCOUNT_INFO by (simp add: ws_callback_def HandleAuthSessionCallback_def)
      then show ?thesis using same_session_inv [OF inv refuse_same(1), of h AUTH_UNKNOWN_ACCOUNT] Q_ACCOUNT_INFO None by simp
    next
      case (Some row)
      then have r: "HandleAuthSessionCallback env m (Some row) ?s = Inr t" using assms(5) Q_ACCOUNT_INFO by (simp add: ws_callback_def)
      have c: "ws_serverChallenge ?s = c" using assms(1) by simp
      have "ws_inv L ip realm c (t, h @ [(m, row)])"
        using callback_session [OF r, unfolded c assms(2-4)]
      proof
        assume "same_session ?s t"
        then show ?thesis by (rule same_session_inv [OF inv]) auto
      next
        assume "ws_serverChallenge t = c \<and> (\<exists>se. ws_session t = Some se \<and> authentic L ip realm c m row se)"
        then show ?thesis by (elim conjE exE) (rule ws_invI, assumption+, simp)
      qed
      then show ?thesis using Q_ACCOUNT_INFO Some by simp
    qed
  qed
qed

lemma arrive_same:
  assumes "PrepareRead s = Inr u" "ReadHandlerInternal (Some data) u = Inr (run, t)"
  shows "same_session s t"
  using PrepareRead_same [of s u] assms
  by (cases "Write data (sock_readBuffer u)") (auto simp: ReadHandlerInternal_def Let_def same_session_def)

lemma ws_step_inv: "ws_step L ip realm x y \<Longrightarrow> ws_inv L ip realm c x \<Longrightarrow> ws_inv L ip realm c y"
proof (induction rule: ws_step.induct)
  case (arrive s u data run t h)
  then show ?case using same_session_inv arrive_same by blast
next
  case (turn env s out t h)
  then show ?case using same_session_inv read_turn_same by blast
next
  case (callback env s q qs t h)
  then show ?case by (intro ws_callback_inv) auto
next
  case (send s h opcode data)
  then show ?case using same_session_inv SendPacket_same by blast
next
  case (flush rc4 s t h)
  then show ?case using same_session_inv move_queued_same by blast
next
  case (wrote os s alive t h)
  then show ?case using same_session_inv Update_same by blast
next
  case (close s h)
  then show ?case using same_session_inv CloseSocket_same(1) by blast
qed

interpretation world: invariant_system "ws_init c" "ws_step L ip realm" "ws_inv L ip realm c"
proof
  show "ws_inv L ip realm c x" if "ws_init c x" for x
    using that by (auto simp: ws_init_def SendAuthSession_def SendPacket_def new_WorldSocket_def WorldSocket.defs Socket.defs new_Socket_def)
  show "ws_inv L ip realm c y" if "ws_inv L ip realm c x" "ws_step L ip realm x y" for x y
    using that ws_step_inv by blast
qed

text \<open>Claim C4: nobody enters the world without the session key. Whatever a client sends, in whatever portions, and however the
  connection interleaves arriving data, answers of the database and writes, a connection has a session only when a message was
  received whose digest is that of the account's name, both challenges and the session key in the account's row, for this
  realm, the account not banned and not locked to another address; the session is that account's, with its security level.\<close>

theorem session_needs_key:
  assumes "ws_init challenge x0" "(ws_step L ip realm)\<^sup>*\<^sup>* x0 (s, h)" "ws_session s = Some se"
  shows "\<exists>m row. (m, row) \<in> set h \<and> authentic L ip realm challenge m row se"
  using world.invar_reachable [OF assms(1,2)] assms(3) by auto

section \<open>The holder of the session key gets a session\<close>

text \<open>The bytes of a message, and that they are read as the message.\<close>

definition auth_payload :: "auth_message \<Rightarrow> bytes" where
  "auth_payload m = le_bytes 4 (am_Build m) @ le_bytes 4 (am_LoginServerID m) @ cstring_bytes (am_Account m) @ le_bytes 4 (am_LoginServerType m) @
     am_LocalChallenge m @ le_bytes 4 (am_RegionID m) @ le_bytes 4 (am_BattlegroupID m) @ le_bytes 4 (am_RealmID m) @ le_bytes 8 (am_DosResponse m) @
     am_Digest m @ am_AddonInfo m"

definition message_ok :: "(string \<Rightarrow> bool) \<Rightarrow> auth_message \<Rightarrow> bool" where
  "message_ok utf8_valid m \<longleftrightarrow> utf8_valid (am_Account m) \<and> CHR 0x00 \<notin> set (am_Account m) \<and> length (am_LocalChallenge m) = 4 \<and>
     length (am_Digest m) = 20 \<and> am_AddonInfo m \<noteq> []"

definition reading :: "bytes \<Rightarrow> bytes \<Rightarrow> ByteBuffer" where
  "reading pre post = \<lparr>rpos = length pre, wpos = 0, storage = pre @ post\<rparr>"

lemma reading_at: "storage (reading pre post) = pre @ post" "rpos (reading pre post) = length pre"
  "(reading pre (xs @ post))\<lparr>rpos := length pre + length xs\<rparr> = reading (pre @ xs) post"
  by (simp_all add: reading_def)

lemma reading_u32: "read_u32 (reading pre (le_bytes 4 w @ post)) = Inr (w, reading (pre @ le_bytes 4 w) post)"
  using u32.rd_enc [OF TrueI, of "reading pre (le_bytes 4 w @ post)" pre w post] reading_at(3) [of pre "le_bytes 4 w" post] by (simp add: reading_at(1,2))

lemma reading_u64: "read_u64 (reading pre (le_bytes 8 w @ post)) = Inr (w, reading (pre @ le_bytes 8 w) post)"
  using u64.rd_enc [OF TrueI, of "reading pre (le_bytes 8 w @ post)" pre w post] reading_at(3) [of pre "le_bytes 8 w" post] by (simp add: reading_at(1,2))

lemma reading_string:
  assumes "utf8_valid s" "CHR 0x00 \<notin> set s"
  shows "read_string utf8_valid (reading pre (cstring_bytes s @ post)) = Inr (s, reading (pre @ cstring_bytes s) post)"
  using cstring.rd_enc [of utf8_valid s "reading pre (cstring_bytes s @ post)" pre post] assms reading_at(3) [of pre "cstring_bytes s" post]
  by (simp add: reading_at(1,2))

lemma reading_bytes: "n = length xs \<Longrightarrow> read_bytes n (reading pre (xs @ post)) = Inr (xs, reading (pre @ xs) post)"
  by (simp add: read_bytes_def reading_def bb_size_def)

lemma reading_left: "bb_size (reading pre post) - rpos (reading pre post) = length post"
  by (simp add: reading_def bb_size_def)

lemma read_auth_payload:
  assumes "message_ok utf8_valid m"
  shows "read_auth_message utf8_valid \<lparr>rpos = 0, wpos = 0, storage = auth_payload m\<rparr> = Inr m"
proof -
  have r: "\<lparr>rpos = 0, wpos = 0, storage = auth_payload m\<rparr> = reading [] (auth_payload m)" by (simp add: reading_def)
  have a: "read_bytes (length xs) (reading pre xs) = Inr (xs, reading (pre @ xs) [])" for pre xs
    using reading_bytes [of "length xs" xs pre "[]"] by simp
  have st: "read_string utf8_valid (reading pre (cstring_bytes (am_Account m) @ post)) = Inr (am_Account m, reading (pre @ cstring_bytes (am_Account m)) post)"
    and c: "read_bytes 4 (reading pre (am_LocalChallenge m @ post)) = Inr (am_LocalChallenge m, reading (pre @ am_LocalChallenge m) post)"
    and d: "read_bytes 20 (reading pre (am_Digest m @ post)) = Inr (am_Digest m, reading (pre @ am_Digest m) post)" for pre post
    using assms by (simp_all add: message_ok_def reading_string reading_bytes)
  have ne: "(length (am_AddonInfo m) = 0) = False" using assms by (simp add: message_ok_def)
  show ?thesis
    unfolding read_auth_message_def r unfolding auth_payload_def
    by (simp only: reading_u32 bindB_simps prod.case st reading_u64 c d reading_left ne if_False a) simp
qed

text \<open>A packet that lies in the read buffer as a whole is handed on in one turn.\<close>

definition after_dispatch :: "ReadDataHandlerResult \<times> WorldSocket \<Rightarrow> turn \<times> WorldSocket" where
  "after_dispatch r = (case r of (result, s) \<Rightarrow>
     let s = s\<lparr>ws_headerBuffer := Reset (ws_headerBuffer s)\<rparr>
     in if result = RD_Ok then (Turned, s) else if result = RD_WaitingForQuery then (Stopped, s) else (Stopped, ws_CloseSocket s))"

lemma read_payload_full:
  assumes "GetRemainingSpace (ws_packetBuffer s) > 0" "take_into (sock_readBuffer s) (ws_packetBuffer s) = Inr (src, dst)" "GetRemainingSpace dst = 0"
    and "peek 2 4 (ws_headerBuffer s) = Inr (le_bytes 4 cmd)" "mb_storage dst = data"
  shows "read_payload env s = Inr (after_dispatch (dispatch env cmd data (s\<lparr>sock_readBuffer := src, ws_packetBuffer := new_MessageBuffer 0\<rparr>)))"
  using assms unfolding read_payload_def ReadDataHandler_def
  by (cases "dispatch env cmd data (s\<lparr>sock_readBuffer := src, ws_packetBuffer := new_MessageBuffer 0\<rparr>)")
    (simp add: Let_def le_word_le_bytes after_dispatch_def)

lemma whole_packet_turn:
  assumes s: "filled 6 [] (ws_headerBuffer s)" "mb_rpos (ws_packetBuffer s) = 0" "mb_wpos (ws_packetBuffer s) = 0"
    and r: "holding (fst (client_crypt (we_rc4 env) (client_header p) (ws_authCrypt s)) @ snd p) (sock_readBuffer s)"
    and p: "length (snd p) < 10236" "IsValidOpcode (fst p)" "snd p \<noteq> []"
  shows "\<exists>src hb. read_turn env s = Inr (after_dispatch (dispatch env (fst p) (snd p) (s\<lparr>sock_readBuffer := src, ws_headerBuffer := hb,
      ws_authCrypt := snd (client_crypt (we_rc4 env) (client_header p) (ws_authCrypt s)), ws_packetBuffer := new_MessageBuffer 0\<rparr>))) \<and>
    holding [] src \<and> filled 6 [] (Reset hb)"
proof -
  define raw where "raw = fst (client_crypt (we_rc4 env) (client_header p) (ws_authCrypt s))"
  define c where "c = snd (client_crypt (we_rc4 env) (client_header p) (ws_authCrypt s))"
  have raw: "length raw = 6" by (simp add: raw_def)
  obtain src0 dst0 where t: "take_into (sock_readBuffer s) (ws_headerBuffer s) = Inr (src0, dst0)" "holding (snd p) src0" "filled 6 raw dst0"
    using take_into_filled [OF r s(1)] raw by (auto simp: raw_def [symmetric])
  define u where "u = s\<lparr>sock_readBuffer := src0, ws_headerBuffer := dst0\<rparr>"
  have uf: "ws_authCrypt u = ws_authCrypt s" "ws_headerBuffer u = dst0" "ws_packetBuffer u = ws_packetBuffer s" by (simp_all add: u_def)
  obtain hb pb where v: "ReadHeaderHandler (we_rc4 env) u = Inr (True, u\<lparr>ws_authCrypt := c, ws_headerBuffer := hb, ws_packetBuffer := pb\<rparr>)"
      "filled 6 (le_bytes 2 (of_nat (length (snd p)) :: u16) @ le_bytes 4 (fst p)) hb" "filled (length (snd p)) [] pb"
    using header_read [of env p u] t(3) p(1,2) s(2,3) unfolding uf raw_def c_def by auto
  define v where "v = u\<lparr>ws_authCrypt := c, ws_headerBuffer := hb, ws_packetBuffer := pb\<rparr>"
  obtain src dst where w: "take_into src0 pb = Inr (src, dst)" "holding [] src" "filled (length (snd p)) (snd p) dst"
    using take_into_filled [OF t(2) v(3)] by auto
  have vf: "ws_packetBuffer v = pb" "sock_readBuffer v = src0" "ws_headerBuffer v = hb" by (simp_all add: v_def u_def)
  have pk: "peek 2 4 hb = Inr (le_bytes 4 (fst p))" using peek_active [OF filled_ok(1) [OF v(2)], of 2 4] filled_ok(2,4) [OF v(2)] by simp
  have "GetRemainingSpace pb > 0" "GetRemainingSpace dst = 0" "mb_storage dst = snd p"
    using filled_ok(3) [OF v(3)] filled_ok(3) [OF w(3)] filled_full [OF w(3)] p(3) by simp_all
  then have pay: "read_payload env v = Inr (after_dispatch (dispatch env (fst p) (snd p) (v\<lparr>sock_readBuffer := src, ws_packetBuffer := new_MessageBuffer 0\<rparr>)))"
    using read_payload_full [of v src dst "fst p" "snd p" env] w(1) pk vf by simp
  have act: "GetActiveSize (sock_readBuffer s) \<noteq> 0" "GetRemainingSpace (ws_headerBuffer s) > 0" "GetRemainingSpace dst0 = 0"
    using holding_size [OF r] raw filled_ok(3) [OF s(1)] filled_ok(3) [OF t(3)] by (simp_all add: raw_def)
  have "read_turn env s = read_payload env v" using act t(1) v(1) by (simp add: read_turn_def Let_def v_def u_def)
  moreover have "filled 6 [] (Reset hb)" using filled_Reset v(2) by blast
  moreover have "v\<lparr>sock_readBuffer := src, ws_packetBuffer := new_MessageBuffer 0\<rparr> = s\<lparr>sock_readBuffer := src, ws_headerBuffer := hb,
      ws_authCrypt := c, ws_packetBuffer := new_MessageBuffer 0\<rparr>"
    by (simp add: v_def u_def)
  ultimately show ?thesis using pay w(2) unfolding c_def by (intro exI [of _ src] exI [of _ hb]) simp
qed

text \<open>The message of a client on a connection that has sent its challenge.\<close>

definition auth_packet :: "auth_message \<Rightarrow> bytes" where
  "auth_packet m = client_header (CMSG_AUTH_SESSION, auth_payload m) @ auth_payload m"

lemma auth_payload_ne: "auth_payload m \<noteq> []"
  by (simp add: auth_payload_def cstring_bytes_def)

definition awaiting :: "bytes \<Rightarrow> WorldSocket \<Rightarrow> bool" where
  "awaiting challenge s \<longleftrightarrow> between_packets s \<and> \<not> wc_initialized (ws_authCrypt s) \<and> \<not> ws_authed s \<and> ws_queries s = [] \<and> ws_serverChallenge s = challenge"

lemma awaiting_init: "awaiting challenge (SendAuthSession challenge dos new_WorldSocket)"
  using new_between_packets
  by (simp add: awaiting_def between_packets_def SendAuthSession_def SendPacket_def IsOpen_def)
    (simp add: new_WorldSocket_def WorldSocket.defs Socket.defs new_WorldPacketCrypt_def)

lemma message_received:
  assumes s: "awaiting challenge s" and m: "message_ok (we_utf8_valid env) m" "length (auth_packet m) \<le> 4096"
  shows "\<exists>t u v. PrepareRead s = Inr u \<and> ReadHandlerInternal (Some (auth_packet m)) u = Inr (True, v) \<and> read_turn env v = Inr (Stopped, t) \<and>
    ws_queries t = [Q_ACCOUNT_INFO m] \<and> ws_serverChallenge t = challenge \<and> between_packets t"
proof -
  let ?p = "(CMSG_AUTH_SESSION, auth_payload m)"
  have b: "holding [] (sock_readBuffer s)" "IsOpen s" "filled 6 [] (ws_headerBuffer s)" "mb_rpos (ws_packetBuffer s) = 0" "mb_wpos (ws_packetBuffer s) = 0"
    and i: "\<not> wc_initialized (ws_authCrypt s)" "\<not> ws_authed s" "ws_queries s = []"
    using s by (simp_all add: awaiting_def between_packets_def)
  obtain rb u where u: "PrepareRead s = Inr u" "ReadHandlerInternal (Some (auth_packet m)) u = Inr (True, s\<lparr>sock_readBuffer := rb\<rparr>)" "holding (auth_packet m) rb"
    using block_arrives [OF b(1,2) m(2)] by blast
  let ?v = "s\<lparr>sock_readBuffer := rb\<rparr>"
  have cc: "client_crypt (we_rc4 env) d (ws_authCrypt s) = (d, ws_authCrypt s)" for d using i(1) by (simp add: client_crypt_def)
  have len: "length (snd ?p) < 10236" using m(2) by (simp add: auth_packet_def)
  have ho: "holding (fst (client_crypt (we_rc4 env) (client_header ?p) (ws_authCrypt ?v)) @ snd ?p) (sock_readBuffer ?v)"
    using u(3) by (simp add: cc auth_packet_def)
  obtain src hb where t: "read_turn env ?v = Inr (after_dispatch (dispatch env (fst ?p) (snd ?p) (?v\<lparr>sock_readBuffer := src, ws_headerBuffer := hb,
        ws_authCrypt := snd (client_crypt (we_rc4 env) (client_header ?p) (ws_authCrypt ?v)), ws_packetBuffer := new_MessageBuffer 0\<rparr>)))"
      "holding [] src" "filled 6 [] (Reset hb)"
    using whole_packet_turn [of ?v env ?p, OF _ _ _ ho len] b(3-5) auth_payload_ne by (auto simp: IsValidOpcode_def)
  let ?w = "s\<lparr>sock_readBuffer := src, ws_headerBuffer := hb, ws_packetBuffer := new_MessageBuffer 0\<rparr>"
  have w: "?v\<lparr>sock_readBuffer := src, ws_headerBuffer := hb, ws_authCrypt := snd (client_crypt (we_rc4 env) (client_header ?p) (ws_authCrypt ?v)),
      ws_packetBuffer := new_MessageBuffer 0\<rparr> = ?w" by (simp add: cc)
  have "dispatch env CMSG_AUTH_SESSION (auth_payload m) ?w = (RD_WaitingForQuery, ?w\<lparr>ws_queries := [Q_ACCOUNT_INFO m]\<rparr>)"
    using i read_auth_payload [OF m(1)] by (simp add: dispatch_def HandleAuthSession_def QueueQuery_def)
  moreover define t where "t = ?w\<lparr>ws_headerBuffer := Reset hb, ws_queries := [Q_ACCOUNT_INFO m]\<rparr>"
  ultimately have "read_turn env ?v = Inr (Stopped, t)"
    using t(1) unfolding w by (simp add: after_dispatch_def)
  moreover have "between_packets t" "ws_queries t = [Q_ACCOUNT_INFO m]" "ws_serverChallenge t = challenge"
    using t(2,3) b(2) s by (simp_all add: t_def between_packets_def IsOpen_def new_MessageBuffer_def awaiting_def)
  ultimately show ?thesis using u(1,2) by (intro exI [of _ t] exI [of _ u] exI [of _ ?v]) simp
qed

text \<open>An account that may enter.\<close>

definition row_admits :: "world_env \<Rightarrow> account_row \<Rightarrow> bool" where
  "row_admits env row \<longleftrightarrow> length (ar_session_key row) = SESSION_KEY_LENGTH \<and> \<not> we_IsClosed env \<and> (we_wardenActive env \<longrightarrow> Platform_IsValid (ar_os row)) \<and>
     \<not> ar_banned row \<and> (ar_locked row \<longrightarrow> ar_last_ip row = we_RemoteIp env) \<and> (\<not> ar_locked row \<longrightarrow> ar_lock_country row \<in> {[], ''00''}) \<and>
     we_PlayerSecurityLimit env \<le> ar_SecurityLevel row"

lemma session_admitted:
  assumes "row_admits env row" "am_RealmID m = we_realmId env"
    and "session_digest (we_lib env) (am_Account m) (am_LocalChallenge m) (ws_serverChallenge s) (ar_session_key row) = am_Digest m"
  shows "\<exists>c. session_refused env m row s = (None, s\<lparr>ws_ipCountry := c\<rparr>)"
proof (cases "we_LocationOfIp env")
  case None
  have "session_refused env m row s = (None, s)" using assms None by (auto simp: session_refused_def row_admits_def Let_def)
  moreover have "s = s\<lparr>ws_ipCountry := ws_ipCountry s\<rparr>" by simp
  ultimately show ?thesis by metis
next
  case (Some c)
  then have "session_refused env m row s = (None, s\<lparr>ws_ipCountry := c\<rparr>)" using assms by (auto simp: session_refused_def row_admits_def Let_def)
  then show ?thesis by blast
qed

lemma open_session_open:
  assumes "between_packets s"
  shows "\<exists>t. open_session env m row mt s = Inr t \<and> between_packets t \<and> ws_authCrypt t = ws_authCrypt s \<and> ws_authed t \<and> ws_bufferQueue t = ws_bufferQueue s \<and>
    ws_queries t = ws_queries s @ [Q_PERMISSIONS] \<and> (\<exists>se. ws_session t = Some se \<and> se_id se = ar_id row \<and> se_name se = am_Account m \<and> se_recvQueue se = [])"
proof -
  define u where "u = QueueQuery Q_PERMISSIONS ((add_effect (OnAccountLogin (ar_id row))
    (if we_AllowLoggingIP env then add_effect (UPD_LAST_IP (we_RemoteIp env) (am_Account m)) s else s))\<lparr>ws_authed := True,
      ws_session := Some \<lparr>se_id = ar_id row, se_name = am_Account m, se_security = ar_SecurityLevel row, se_expansion = account_expansion env row,
        se_muteTime = mt, se_locale = account_locale row, se_recvQueue = [], se_latency = 0, se_timeOutResets = []\<rparr>\<rparr>)"
  have u: "ws_authCrypt u = ws_authCrypt s" "ws_authed u" "ws_bufferQueue u = ws_bufferQueue s" "ws_queries u = ws_queries s @ [Q_PERMISSIONS]"
      "\<exists>se. ws_session u = Some se \<and> se_id se = ar_id row \<and> se_name se = am_Account m \<and> se_recvQueue se = []" "IsOpen u" "holding [] (sock_readBuffer u)"
      "filled 6 [] (ws_headerBuffer u)" "mb_rpos (ws_packetBuffer u) = 0" "mb_wpos (ws_packetBuffer u) = 0"
    using assms by (simp_all add: u_def QueueQuery_def add_effect_def between_packets_def IsOpen_def)
  obtain b where b: "PrepareRead u = Inr (u\<lparr>sock_readBuffer := b\<rparr>)" "holding [] b" using PrepareRead_empty [OF u(7)] by blast
  have "open_session env m row mt s = (if IsOpen u then mem (PrepareRead u) else Inr u)" unfolding open_session_def Let_def u_def by simp
  then have "open_session env m row mt s = Inr (u\<lparr>sock_readBuffer := b\<rparr>)" using b(1) u(6) by simp
  moreover have "between_packets (u\<lparr>sock_readBuffer := b\<rparr>)" using u(6-10) b(2) by (simp add: between_packets_def IsOpen_def)
  ultimately show ?thesis using u(1-5) by simp
qed

lemma callback_admits:
  assumes s: "between_packets s" and row: "row_admits env row" "am_RealmID m = we_realmId env"
    and dig: "session_digest (we_lib env) (am_Account m) (am_LocalChallenge m) (ws_serverChallenge s) (ar_session_key row) = am_Digest m"
  shows "\<exists>t. HandleAuthSessionCallback env m (Some row) s = Inr t \<and> between_packets t \<and>
    ws_authCrypt t = WorldPacketCrypt_Init (we_lib env) (we_rc4 env) (ar_session_key row) \<and> ws_authed t \<and> ws_queries t = ws_queries s @ [Q_PERMISSIONS] \<and>
    (\<exists>se. ws_session t = Some se \<and> se_id se = ar_id row \<and> se_name se = am_Account m \<and> se_recvQueue se = [])"
proof -
  define s0 where "s0 = (if we_AllowLoggingIP env then add_effect (UPD_LAST_ATTEMPT_IP (we_RemoteIp env) (am_Account m)) s else s)
    \<lparr>ws_authCrypt := WorldPacketCrypt_Init (we_lib env) (we_rc4 env) (ar_session_key row)\<rparr>"
  have s0: "ws_serverChallenge s0 = ws_serverChallenge s" by (simp add: s0_def add_effect_def)
  obtain c where c: "session_refused env m row s0 = (None, s0\<lparr>ws_ipCountry := c\<rparr>)"
    using session_admitted [OF row, of s0] dig unfolding s0 by blast
  define mt where "mt = (if ar_mutetime row < 0 then we_GameTime env + \<bar>ar_mutetime row\<bar> else ar_mutetime row)"
  define v where "v = (if ar_mutetime row < 0 then add_effect (UPD_MUTE_TIME_LOGIN (we_GameTime env + \<bar>ar_mutetime row\<bar>) (ar_id row)) (s0\<lparr>ws_ipCountry := c\<rparr>)
    else s0\<lparr>ws_ipCountry := c\<rparr>)"
  have "HandleAuthSessionCallback env m (Some row) s = open_session env m row mt v"
    using row(1) c unfolding HandleAuthSessionCallback_def option.case Let_def s0_def [symmetric] row_admits_def
    by (auto simp: v_def mt_def)
  moreover have v: "between_packets v" "ws_authCrypt v = WorldPacketCrypt_Init (we_lib env) (we_rc4 env) (ar_session_key row)" "ws_queries v = ws_queries s"
    using s by (simp_all add: v_def s0_def add_effect_def between_packets_def IsOpen_def)
  ultimately show ?thesis using open_session_open [OF v(1), of env m row mt] v(2,3) by auto
qed

lemma session_run:
  assumes s: "awaiting challenge s" and m: "message_ok (we_utf8_valid env) m" "length (auth_packet m) \<le> 4096" "am_RealmID m = we_realmId env"
    and row: "we_ACCOUNT_INFO_BY_NAME env (am_Account m) = Some row" "row_admits env row"
    and dig: "am_Digest m = session_digest (we_lib env) (am_Account m) (am_LocalChallenge m) challenge (ar_session_key row)"
  shows "\<exists>t u se. ws_receive env (auth_packet m) s = Some (Inr t) \<and> ws_queries t = [Q_ACCOUNT_INFO m] \<and>
    ws_callback env (Q_ACCOUNT_INFO m) (t\<lparr>ws_queries := []\<rparr>) = Inr u \<and> between_packets u \<and>
    ws_authCrypt u = WorldPacketCrypt_Init (we_lib env) (we_rc4 env) (ar_session_key row) \<and>
    ws_session u = Some se \<and> se_id se = ar_id row \<and> se_name se = am_Account m \<and> se_recvQueue se = [] \<and>
    (ws_step (we_lib env) (we_RemoteIp env) (we_realmId env))\<^sup>*\<^sup>* (s, h) (u, h @ [(m, row)])"
proof -
  define R where "R = ws_step (we_lib env) (we_RemoteIp env) (we_realmId env)"
  obtain t u0 v where t: "PrepareRead s = Inr u0" "ReadHandlerInternal (Some (auth_packet m)) u0 = Inr (True, v)" "read_turn env v = Inr (Stopped, t)"
      "ws_queries t = [Q_ACCOUNT_INFO m]" "ws_serverChallenge t = challenge" "between_packets t"
    using message_received [OF s m(1,2)] by blast
  have o: "IsOpen s" using s by (simp add: awaiting_def between_packets_def)
  have "World_Socket.ReadHandler env v = Some (Inr (False, t))" using t(3) by (simp add: World_Socket.ReadHandler.simps)
  then have recv: "ws_receive env (auth_packet m) s = Some (Inr t)" using o t(1,2) by (simp add: ws_receive_def)
  let ?t = "t\<lparr>ws_queries := []\<rparr>"
  have bt: "between_packets ?t" "ws_serverChallenge ?t = challenge" using t(5,6) by (simp_all add: between_packets_def IsOpen_def)
  obtain u where u: "HandleAuthSessionCallback env m (Some row) ?t = Inr u" "between_packets u"
      "ws_authCrypt u = WorldPacketCrypt_Init (we_lib env) (we_rc4 env) (ar_session_key row)"
      "\<exists>se. ws_session u = Some se \<and> se_id se = ar_id row \<and> se_name se = am_Account m \<and> se_recvQueue se = []"
    using callback_admits [OF bt(1) row(2) m(3)] dig bt(2) by auto
  have cb: "ws_callback env (Q_ACCOUNT_INFO m) ?t = Inr u" using u(1) row(1) by (simp add: ws_callback_def)
  have "R (s, h) (v, h)" unfolding R_def using t(1,2) by (rule ws_step.arrive)
  moreover have "R (v, h) (t, h)" unfolding R_def using t(3) by (rule ws_step.turn)
  moreover have "R (t, h) (u, h @ [(m, row)])"
    unfolding R_def using ws_step.callback [OF refl refl refl t(4) cb, of h] row(1) by simp
  ultimately have "R\<^sup>*\<^sup>* (s, h) (u, h @ [(m, row)])" by (meson r_into_rtranclp rtranclp_trans)
  then show ?thesis using recv t(4) cb u(2-4) unfolding R_def by blast
qed

text \<open>The message of its owner.\<close>

definition world_message :: auth_message where
  "world_message = \<lparr>am_Build = 12340, am_LoginServerID = 0, am_Account = ''JAINA'', am_LoginServerType = 0, am_LocalChallenge = [1, 2, 3, 4], am_RegionID = 0,
     am_BattlegroupID = 0, am_RealmID = 1, am_DosResponse = 0,
     am_Digest = session_digest sample_openssl ''JAINA'' [1, 2, 3, 4] [5, 6, 7, 8] (replicate 40 1), am_AddonInfo = [0]\<rparr>"

lemma world_message_ok:
  "message_ok (we_utf8_valid sample_world) world_message" "length (auth_packet world_message) \<le> 4096" "am_RealmID world_message = we_realmId sample_world"
  "we_ACCOUNT_INFO_BY_NAME sample_world (am_Account world_message) = Some sample_account" "row_admits sample_world sample_account"
  "am_Digest world_message = session_digest (we_lib sample_world) (am_Account world_message) (am_LocalChallenge world_message) [5, 6, 7, 8] (ar_session_key sample_account)"
proof -
  have d: "length (am_Digest world_message) = 20" using sample_openssl_ok by (simp add: world_message_def session_digest_def openssl_ok_def)
  then show "message_ok (we_utf8_valid sample_world) world_message" by (simp add: message_ok_def) (simp add: world_message_def sample_world_def)
  show "length (auth_packet world_message) \<le> 4096"
    using d by (simp add: auth_packet_def auth_payload_def client_header_def) (simp add: world_message_def cstring_bytes_def)
  show "am_Digest world_message = session_digest (we_lib sample_world) (am_Account world_message) (am_LocalChallenge world_message) [5, 6, 7, 8] (ar_session_key sample_account)"
    unfolding world_message_def sample_account_def sample_world_def by simp
qed (simp_all add: world_message_def sample_world_def sample_account_def row_admits_def SESSION_KEY_LENGTH_def)

lemma sample_entry:
  "\<exists>x0 s h se. ws_init [5, 6, 7, 8] x0 \<and> (ws_step sample_openssl ''10.0.0.1'' 1)\<^sup>*\<^sup>* x0 (s, h) \<and> between_packets s \<and> ws_session s = Some se \<and> se_name se = ''JAINA''"
proof -
  let ?s = "SendAuthSession [5, 6, 7, 8] [] new_WorldSocket"
  have e: "we_lib sample_world = sample_openssl" "we_RemoteIp sample_world = ''10.0.0.1''" "we_realmId sample_world = 1" "am_Account world_message = ''JAINA''"
    by (simp_all add: sample_world_def world_message_def)
  have "ws_init [5, 6, 7, 8] (?s, [])" unfolding ws_init_def by blast
  then show ?thesis
    using session_run [OF awaiting_init world_message_ok, of "[]" "[]"] unfolding e by blast
qed

theorem session_needs_key_witness:
  "\<exists>m row se. session_digest sample_openssl (am_Account m) (am_LocalChallenge m) [5, 6, 7, 8] (ar_session_key row) = am_Digest m \<and> se_name (se :: world_session) = ''JAINA'' \<and>
     authentic sample_openssl ''10.0.0.1'' 1 [5, 6, 7, 8] m row se"
proof -
  obtain x0 s h se where r: "ws_init [5, 6, 7, 8] x0" "(ws_step sample_openssl ''10.0.0.1'' 1)\<^sup>*\<^sup>* x0 (s, h)" "ws_session s = Some se" "se_name se = ''JAINA''"
    using sample_entry by blast
  obtain m row where "authentic sample_openssl ''10.0.0.1'' 1 [5, 6, 7, 8] m row se" using session_needs_key [OF r(1-3)] by blast
  then show ?thesis using r(4) by (auto simp: authentic_def)
qed
end
