(* ===== verification/Auth_Session.thy ===== *)
theory Auth_Session
  imports Net_Socket Srp6 Names
begin

text \<open>
  The sessions of the authentication server, \<open>authserver/Server/AuthSession.cpp\<close>: the table of handlers, the reading of
  packets, the proof of the password, reconnection and the list of realms. The state of a session extends a socket;
  queries run asynchronously and are kept until their callback. The configuration, the rows of the login database, the
  time, random bytes and OpenSSL are arguments. Timers and the log are left out.
\<close>

section \<open>Data\<close>

datatype AuthStatus = STATUS_CHALLENGE | STATUS_LOGON_PROOF | STATUS_RECONNECT_PROOF | STATUS_AUTHED
  | STATUS_WAITING_FOR_REALM_LIST | STATUS_XFER | STATUS_CLOSED

abbreviation (input) AUTH_LOGON_CHALLENGE :: u8 where "AUTH_LOGON_CHALLENGE \<equiv> 0x00"
abbreviation (input) AUTH_LOGON_PROOF :: u8 where "AUTH_LOGON_PROOF \<equiv> 0x01"
abbreviation (input) AUTH_RECONNECT_CHALLENGE :: u8 where "AUTH_RECONNECT_CHALLENGE \<equiv> 0x02"
abbreviation (input) AUTH_RECONNECT_PROOF :: u8 where "AUTH_RECONNECT_PROOF \<equiv> 0x03"
abbreviation (input) REALM_LIST :: u8 where "REALM_LIST \<equiv> 0x10"
abbreviation (input) XFER_ACCEPT :: u8 where "XFER_ACCEPT \<equiv> 0x32"
abbreviation (input) XFER_RESUME :: u8 where "XFER_RESUME \<equiv> 0x33"
abbreviation (input) XFER_CANCEL :: u8 where "XFER_CANCEL \<equiv> 0x34"

abbreviation (input) WOW_SUCCESS :: u8 where "WOW_SUCCESS \<equiv> 0x00"
abbreviation (input) WOW_FAIL_BANNED :: u8 where "WOW_FAIL_BANNED \<equiv> 0x03"
abbreviation (input) WOW_FAIL_UNKNOWN_ACCOUNT :: u8 where "WOW_FAIL_UNKNOWN_ACCOUNT \<equiv> 0x04"
abbreviation (input) WOW_FAIL_DB_BUSY :: u8 where "WOW_FAIL_DB_BUSY \<equiv> 0x08"
abbreviation (input) WOW_FAIL_VERSION_INVALID :: u8 where "WOW_FAIL_VERSION_INVALID \<equiv> 0x09"
abbreviation (input) WOW_FAIL_SUSPENDED :: u8 where "WOW_FAIL_SUSPENDED \<equiv> 0x0C"
abbreviation (input) WOW_FAIL_LOCKED_ENFORCED :: u8 where "WOW_FAIL_LOCKED_ENFORCED \<equiv> 0x10"
abbreviation (input) WOW_FAIL_UNLOCKABLE_LOCK :: u8 where "WOW_FAIL_UNLOCKABLE_LOCK \<equiv> 0x19"

abbreviation (input) POST_BC_EXP_FLAG :: u8 where "POST_BC_EXP_FLAG \<equiv> 2"
abbreviation (input) PRE_BC_EXP_FLAG :: u8 where "PRE_BC_EXP_FLAG \<equiv> 1"
abbreviation (input) NO_VALID_EXP_FLAG :: u8 where "NO_VALID_EXP_FLAG \<equiv> 0"

abbreviation (input) REALM_FLAG_OFFLINE :: u32 where "REALM_FLAG_OFFLINE \<equiv> 2"
abbreviation (input) REALM_FLAG_SPECIFYBUILD :: u32 where "REALM_FLAG_SPECIFYBUILD \<equiv> 4"

definition VersionChallenge :: bytes where
  "VersionChallenge = [0xBA, 0xA3, 0x1E, 0x99, 0xA0, 0x0B, 0x21, 0x57, 0xFC, 0x37, 0x3F, 0xB3, 0x69, 0xCD, 0xD2, 0xF1]"

text \<open>The sizes of the packed structures of the packets.\<close>

definition sizeof_AUTH_LOGON_CHALLENGE_C :: nat where "sizeof_AUTH_LOGON_CHALLENGE_C = 1 + 1 + 2 + 4 + 1 + 1 + 1 + 2 + 4 + 4 + 4 + 4 + 4 + 1"
definition sizeof_AUTH_LOGON_PROOF_C :: nat where "sizeof_AUTH_LOGON_PROOF_C = 1 + 32 + 20 + 20 + 1 + 1"
definition sizeof_AUTH_RECONNECT_PROOF_C :: nat where "sizeof_AUTH_RECONNECT_PROOF_C = 1 + 16 + 20 + 20 + 1"
definition AUTH_LOGON_CHALLENGE_INITIAL_SIZE :: nat where "AUTH_LOGON_CHALLENGE_INITIAL_SIZE = 4"
definition REALM_LIST_PACKET_SIZE :: nat where "REALM_LIST_PACKET_SIZE = 5"
definition MAX_ACCEPTED_CHALLENGE_SIZE :: nat where "MAX_ACCEPTED_CHALLENGE_SIZE = sizeof_AUTH_LOGON_CHALLENGE_C + 255"

lemmas packet_sizes = sizeof_AUTH_LOGON_CHALLENGE_C_def sizeof_AUTH_LOGON_PROOF_C_def sizeof_AUTH_RECONNECT_PROOF_C_def
  AUTH_LOGON_CHALLENGE_INITIAL_SIZE_def REALM_LIST_PACKET_SIZE_def MAX_ACCEPTED_CHALLENGE_SIZE_def

text \<open>A row of the queries for an account; the last columns belong to one of them each.\<close>

record auth_row =
  row_id :: u32
  row_username :: string
  row_locked :: bool
  row_lock_country :: string
  row_last_ip :: string
  row_failed_logins :: u32
  row_banned :: bool
  row_permanently_banned :: bool
  row_SecurityLevel :: u8
  row_totp_secret :: "bytes option"
  row_salt :: bytes
  row_verifier :: bytes
  row_session_key :: bytes

record AccountInfo =
  acc_Id :: u32
  acc_Login :: string
  acc_IsLockedToIP :: bool
  acc_LockCountry :: string
  acc_LastIP :: string
  acc_FailedLogins :: u32
  acc_IsBanned :: bool
  acc_IsPermanenetlyBanned :: bool
  acc_SecurityLevel :: u8

definition new_AccountInfo :: AccountInfo where
  "new_AccountInfo = \<lparr>acc_Id = 0, acc_Login = [], acc_IsLockedToIP = False, acc_LockCountry = [], acc_LastIP = [], acc_FailedLogins = 0,
     acc_IsBanned = False, acc_IsPermanenetlyBanned = False, acc_SecurityLevel = 0\<rparr>"

definition LoadResult :: "auth_row \<Rightarrow> AccountInfo" where
  "LoadResult r = \<lparr>acc_Id = row_id r, acc_Login = snd (Utf8ToUpperOnlyLatin (row_username r)), acc_IsLockedToIP = row_locked r,
     acc_LockCountry = row_lock_country r, acc_LastIP = row_last_ip r, acc_FailedLogins = row_failed_logins r, acc_IsBanned = row_banned r,
     acc_IsPermanenetlyBanned = row_permanently_banned r, acc_SecurityLevel = row_SecurityLevel r\<rparr>"

record build_info =
  bi_Build :: u32
  bi_MajorVersion :: u32
  bi_MinorVersion :: u32
  bi_BugfixVersion :: u32
  bi_ExecutableHashes :: "(u32 \<times> bytes) list"

text \<open>The address of a realm for the client and the bits of its population are given.\<close>

record realm =
  realm_Id :: u32
  realm_Build :: u32
  realm_Address :: string
  realm_Name :: string
  realm_Type :: u8
  realm_Flags :: u32
  realm_Timezone :: u8
  realm_AllowedSecurityLevel :: u8
  realm_PopulationLevel :: u32

datatype auth_query = Q_LOGONCHALLENGE string | Q_LOGONPROOF bytes | Q_RECONNECTCHALLENGE string | Q_REALM_CHARACTER_COUNTS u32

datatype auth_statement = UPD_LOGONPROOF bytes string u8 string int string | INS_FALP_IP_LOGGING u32 string | UPD_FAILEDLOGINS string
  | INS_ACCOUNT_AUTO_BANNED u32 u32 | INS_IP_AUTO_BANNED string u32

record AuthSession = Socket +
  as_srp6 :: "SRP6 option"
  as_sessionKey :: bytes
  as_reconnectProof :: bytes
  as_status :: AuthStatus
  as_accountInfo :: AccountInfo
  as_totpSecret :: "bytes option"
  as_locale :: u8
  as_os :: u32
  as_ipCountry :: string
  as_build :: u16
  as_expversion :: u8
  as_timezoneOffset :: u32
  as_queries :: "auth_query list"
  as_statements :: "auth_statement list"

definition new_AuthSession :: AuthSession where
  "new_AuthSession = Socket.extend new_Socket (AuthSession.fields None (replicate 40 0) (replicate 16 0) STATUS_CHALLENGE new_AccountInfo None 0 0 [] 0 0 0 [] [])"

text \<open>\<open>TotpKey\<close> is the decryption with the master key of the server, when it has one; it fails on a text that is not
  authentic.\<close>

record auth_env =
  lib :: openssl
  Builds :: "build_info list"
  RemoteIp :: string
  LocationOfIp :: "string option"
  StrictVersionCheck :: bool
  AllowLoggingIP :: bool
  WrongPassMaxCount :: u32
  WrongPassLogging :: bool
  WrongPassBanTime :: u32
  WrongPassBanType :: bool
  TotpKey :: "(bytes \<Rightarrow> bytes option) option"
  time_now :: int
  RandomBytes :: "nat \<Rightarrow> bytes"
  SEL_LOGONCHALLENGE :: "string \<Rightarrow> auth_row option"
  SEL_RECONNECTCHALLENGE :: "string \<Rightarrow> auth_row option"
  SEL_REALM_CHARACTER_COUNTS :: "u32 \<Rightarrow> (u32 \<times> u8) list"
  Realms :: "realm list"

text \<open>A read outside the buffer, a failed assertion, a value taken from an empty option.\<close>

datatype auth_error = BadAccess net_error | AssertionFailed | NoValue

definition bindE :: "auth_error + 'a \<Rightarrow> ('a \<Rightarrow> auth_error + 'b) \<Rightarrow> auth_error + 'b" where
  "bindE r f = (case r of Inl e \<Rightarrow> Inl e | Inr x \<Rightarrow> f x)"

lemma bindE_simps [simp]: "bindE (Inl e) f = Inl e" "bindE (Inr x) f = f x"
  by (simp_all add: bindE_def)

section \<open>Builds and locales\<close>

definition GetBuildInfo :: "auth_env \<Rightarrow> u32 \<Rightarrow> build_info option" where
  "GetBuildInfo env build = find (\<lambda>b. bi_Build b = build) (Builds env)"

definition MAX_PRE_BC_CLIENT_BUILD :: u32 where "MAX_PRE_BC_CLIENT_BUILD = 6141"

definition IsPreBCAcceptedClientBuild :: "auth_env \<Rightarrow> u32 \<Rightarrow> bool" where
  "IsPreBCAcceptedClientBuild env build \<longleftrightarrow> build \<le> MAX_PRE_BC_CLIENT_BUILD \<and> GetBuildInfo env build \<noteq> None"

definition IsPostBCAcceptedClientBuild :: "auth_env \<Rightarrow> u32 \<Rightarrow> bool" where
  "IsPostBCAcceptedClientBuild env build \<longleftrightarrow> build > MAX_PRE_BC_CLIENT_BUILD \<and> GetBuildInfo env build \<noteq> None"

definition IsAcceptedClientBuild :: "auth_env \<Rightarrow> u32 \<Rightarrow> bool" where
  "IsAcceptedClientBuild env build \<longleftrightarrow> GetBuildInfo env build \<noteq> None"

definition printable :: "u8 \<Rightarrow> bool" where
  "printable c \<longleftrightarrow> 0x20 \<le> c \<and> c \<le> 0x7E"

definition ToCharArray :: "u32 \<Rightarrow> bytes" where
  "ToCharArray v =
    (let chars = [ucast (drop_bit 24 v), ucast (drop_bit 16 v), ucast (drop_bit 8 v), ucast v, 0];
         zeros = takeWhile (\<lambda>c. c = 0) chars
     in if zeros = chars then chars
        else map (\<lambda>c. if c = 0 \<or> printable c then c else 0x20) (drop (length zeros) chars @ zeros))"

text \<open>A C string ends at the first zero.\<close>

definition c_str :: "bytes \<Rightarrow> string" where
  "c_str bs = map char_of_byte (takeWhile (\<lambda>c. c \<noteq> 0) bs)"

definition localeNames :: "string list" where
  "localeNames = [''enUS'', ''koKR'', ''frFR'', ''deDE'', ''zhCN'', ''zhTW'', ''esES'', ''esMX'', ''ruRU'']"

definition GetLocaleByName :: "string \<Rightarrow> u8" where
  "GetLocaleByName name = (case find (\<lambda>i. localeNames ! i = name) [0..<9] of None \<Rightarrow> 0 | Some i \<Rightarrow> of_nat i)"

text \<open>\<open>atoi\<close>: white space, a sign, digits up to the first other character; a value that does not fit wraps.\<close>

definition atoi :: "string \<Rightarrow> u32" where
  "atoi s =
    (let s = dropWhile (\<lambda>c. c \<in> {CHR '' '', CHR 0x09, CHR 0x0A, CHR 0x0B, CHR 0x0C, CHR 0x0D}) s;
         neg = (s \<noteq> [] \<and> hd s = CHR ''-'');
         s = (if s \<noteq> [] \<and> hd s \<in> {CHR ''-'', CHR ''+''} then tl s else s);
         n = foldl (\<lambda>n c. 10 * n + (of_char c - 48)) 0 (takeWhile (\<lambda>c. (48 :: nat) \<le> of_char c \<and> of_char c \<le> (57 :: nat)) s)
     in of_int (if neg then - n else n))"

section \<open>Handlers\<close>

definition message_of :: "bytes \<Rightarrow> MessageBuffer" where
  "message_of pkt = (case Write pkt (new_MessageBuffer (length pkt)) of Inl _ \<Rightarrow> new_MessageBuffer (length pkt) | Inr b \<Rightarrow> b)"

definition SendPacket :: "bytes \<Rightarrow> AuthSession \<Rightarrow> AuthSession" where
  "SendPacket pkt s = (if \<not> IsOpen s then s else if pkt \<noteq> [] then QueuePacket (message_of pkt) s else s)"

definition QueueQuery :: "auth_query \<Rightarrow> AuthSession \<Rightarrow> AuthSession" where
  "QueueQuery q s = s\<lparr>as_queries := as_queries s @ [q]\<rparr>"

definition execute :: "auth_statement \<Rightarrow> AuthSession \<Rightarrow> AuthSession" where
  "execute st s = s\<lparr>as_statements := as_statements s @ [st]\<rparr>"

text \<open>A field of the structure at the read pointer.\<close>

definition field :: "nat \<Rightarrow> nat \<Rightarrow> AuthSession \<Rightarrow> auth_error + bytes" where
  "field k n s = map_sum BadAccess id (peek k n (sock_readBuffer s))"

definition expversion_of :: "auth_env \<Rightarrow> u16 \<Rightarrow> u8" where
  "expversion_of env build = (if IsPostBCAcceptedClientBuild env (ucast build) then POST_BC_EXP_FLAG
     else if IsPreBCAcceptedClientBuild env (ucast build) then PRE_BC_EXP_FLAG else NO_VALID_EXP_FLAG)"

text \<open>The two challenges read the same structure and differ in the query they start.\<close>

definition handle_challenge :: "(string \<Rightarrow> auth_query) \<Rightarrow> auth_env \<Rightarrow> AuthSession \<Rightarrow> auth_error + bool \<times> AuthSession" where
  "handle_challenge query env s =
    (let s = s\<lparr>as_status := STATUS_CLOSED\<rparr>
     in bindE (field 0 sizeof_AUTH_LOGON_CHALLENGE_C s) (\<lambda>challenge.
        let I_len = challenge ! 33; sz = (le_word (take 2 (drop 2 challenge)) :: u16)
        in if size_t (uint sz - int (sizeof_AUTH_LOGON_CHALLENGE_C - AUTH_LOGON_CHALLENGE_INITIAL_SIZE)) \<noteq> uint I_len then Inr (False, s)
           else bindE (field sizeof_AUTH_LOGON_CHALLENGE_C (unat I_len) s) (\<lambda>login.
             let build = le_word (take 2 (drop 11 challenge));
                 s = s\<lparr>as_build := build, as_expversion := expversion_of env build, as_os := le_word (take 4 (drop 17 challenge)),
                       as_locale := GetLocaleByName (c_str (ToCharArray (le_word (take 4 (drop 21 challenge))))),
                       as_timezoneOffset := le_word (take 4 (drop 25 challenge))\<rparr>
             in Inr (True, QueueQuery (query (map char_of_byte login)) s))))"

definition HandleLogonChallenge :: "auth_env \<Rightarrow> AuthSession \<Rightarrow> auth_error + bool \<times> AuthSession" where
  "HandleLogonChallenge env s = handle_challenge Q_LOGONCHALLENGE env s"

definition HandleReconnectChallenge :: "auth_env \<Rightarrow> AuthSession \<Rightarrow> auth_error + bool \<times> AuthSession" where
  "HandleReconnectChallenge env s = handle_challenge Q_RECONNECTCHALLENGE env s"

text \<open>The checks of the account that refuse a login, with the code they answer.\<close>

definition login_refused :: "auth_env \<Rightarrow> AuthSession \<Rightarrow> u8 option \<times> AuthSession" where
  "login_refused env s =
    (let acc = as_accountInfo s;
         (r, s) = (if acc_IsLockedToIP acc
                   then (if acc_LastIP acc \<noteq> RemoteIp env then Some WOW_FAIL_LOCKED_ENFORCED else None, s)
                   else let s = (case LocationOfIp env of None \<Rightarrow> s | Some c \<Rightarrow> s\<lparr>as_ipCountry := c\<rparr>)
                     in (if acc_LockCountry acc = [] \<or> acc_LockCountry acc = ''00'' then None
                         else if as_ipCountry s \<noteq> [] \<and> as_ipCountry s \<noteq> acc_LockCountry acc then Some WOW_FAIL_UNLOCKABLE_LOCK
                         else None, s))
     in case r of Some e \<Rightarrow> (Some e, s)
        | None \<Rightarrow> if acc_IsBanned acc then (Some (if acc_IsPermanenetlyBanned acc then WOW_FAIL_BANNED else WOW_FAIL_SUSPENDED), s)
                  else (None, s))"

text \<open>The secret of the account's tokens, decrypted with the master key; \<open>None\<close> when that fails.\<close>

definition load_secret :: "auth_env \<Rightarrow> auth_row \<Rightarrow> bytes option option" where
  "load_secret env row =
    (case row_totp_secret row of None \<Rightarrow> Some None
     | Some secret \<Rightarrow> (case TotpKey env of None \<Rightarrow> Some (Some secret) | Some decrypt \<Rightarrow> map_option Some (decrypt secret)))"

definition challenge_packet :: "SRP6 \<Rightarrow> u8 \<Rightarrow> bytes" where
  "challenge_packet srp securityFlags =
    [WOW_SUCCESS] @ srp_B srp @ [1] @ SRP6_g @ [32] @ SRP6_N @ srp_s srp @ VersionChallenge @ [securityFlags] @
    (if securityFlags AND 4 \<noteq> 0 then [1] else [])"

definition start_srp6 :: "auth_env \<Rightarrow> auth_row \<Rightarrow> AuthSession \<Rightarrow> auth_error + SRP6" where
  "start_srp6 env row s =
    (if length (row_salt row) \<noteq> 32 \<or> length (row_verifier row) \<noteq> 32 then Inl AssertionFailed
     else case new_SRP6 (lib env) (RandomBytes env 32) (acc_Login (as_accountInfo s)) (row_salt row) (row_verifier row) of
            None \<Rightarrow> Inl AssertionFailed | Some srp \<Rightarrow> Inr srp)"

definition LogonChallengeCallback :: "auth_env \<Rightarrow> auth_row option \<Rightarrow> AuthSession \<Rightarrow> auth_error + AuthSession" where
  "LogonChallengeCallback env result s =
    (case result of
       None \<Rightarrow> Inr (SendPacket [AUTH_LOGON_CHALLENGE, 0x00, WOW_FAIL_UNKNOWN_ACCOUNT] s)
     | Some row \<Rightarrow>
         (case login_refused env (s\<lparr>as_accountInfo := LoadResult row\<rparr>) of
            (Some e, s) \<Rightarrow> Inr (SendPacket [AUTH_LOGON_CHALLENGE, 0x00, e] s)
          | (None, s) \<Rightarrow>
              (case load_secret env row of
                 None \<Rightarrow> Inr (SendPacket [AUTH_LOGON_CHALLENGE, 0x00, WOW_FAIL_DB_BUSY] (s\<lparr>as_totpSecret := row_totp_secret row\<rparr>))
               | Some totp \<Rightarrow>
                   bindE (start_srp6 env row s) (\<lambda>srp.
                     let s = s\<lparr>as_totpSecret := (if totp = None then as_totpSecret s else totp), as_srp6 := Some srp\<rparr>
                     in Inr (if IsAcceptedClientBuild env (ucast (as_build s))
                             then SendPacket ([AUTH_LOGON_CHALLENGE, 0x00] @ challenge_packet srp (if totp = None then 0 else 4))
                                    (s\<lparr>as_status := STATUS_LOGON_PROOF\<rparr>)
                             else SendPacket [AUTH_LOGON_CHALLENGE, 0x00, WOW_FAIL_VERSION_INVALID] s)))))"

definition VerifyVersion :: "auth_env \<Rightarrow> bytes \<Rightarrow> bytes \<Rightarrow> bool \<Rightarrow> AuthSession \<Rightarrow> bool" where
  "VerifyVersion env a versionProof isReconnect s =
    (if \<not> StrictVersionCheck env then True
     else if isReconnect then versionProof = EVP_sha1 (lib env) (a @ replicate 20 0)
     else case GetBuildInfo env (ucast (as_build s)) of
            None \<Rightarrow> False
          | Some b \<Rightarrow> (case find (\<lambda>h. fst h = as_os s) (bi_ExecutableHashes b) of
                         None \<Rightarrow> True
                       | Some h \<Rightarrow> versionProof = EVP_sha1 (lib env) (a @ snd h)))"

text \<open>What follows a wrong proof: the answer, the log, the counter of failures and the ban.\<close>

definition wrong_password :: "auth_env \<Rightarrow> AuthSession \<Rightarrow> AuthSession" where
  "wrong_password env s =
    (let s = SendPacket ([AUTH_LOGON_PROOF, WOW_FAIL_UNKNOWN_ACCOUNT] @ le_bytes 2 (0 :: u16)) s;
         acc = as_accountInfo s;
         s = (if WrongPassLogging env then execute (INS_FALP_IP_LOGGING (acc_Id acc) (RemoteIp env)) s else s)
     in if WrongPassMaxCount env > 0 then
          let s = execute (UPD_FAILEDLOGINS (acc_Login acc)) s;
              acc = acc\<lparr>acc_FailedLogins := acc_FailedLogins acc + 1\<rparr>;
              s = s\<lparr>as_accountInfo := acc\<rparr>
          in if acc_FailedLogins acc \<ge> WrongPassMaxCount env
             then execute (if WrongPassBanType env then INS_ACCOUNT_AUTO_BANNED (acc_Id acc) (WrongPassBanTime env)
                           else INS_IP_AUTO_BANNED (RemoteIp env) (WrongPassBanTime env)) s
             else s
        else s)"

text \<open>The token of a client that says it sends one, and what it leaves of the secret. Its bytes follow the structure and are not
  counted in the size of the packet.\<close>

definition check_token :: "auth_env \<Rightarrow> u8 \<Rightarrow> AuthSession \<Rightarrow> auth_error + bool \<times> AuthSession" where
  "check_token env securityFlags s =
    (let sentToken = (securityFlags AND 4 \<noteq> 0)
     in case as_totpSecret s of
          Some secret \<Rightarrow>
            if sentToken then
              bindE (field sizeof_AUTH_LOGON_PROOF_C 1 s) (\<lambda>sz.
              bindE (field (sizeof_AUTH_LOGON_PROOF_C + 1) (unat (hd sz)) s) (\<lambda>token.
                let s = s\<lparr>sock_readBuffer := ReadCompleted (1 + uint (hd sz)) (sock_readBuffer s)\<rparr>;
                    tokenSuccess = ValidateToken (lib env) secret (time_now env) (atoi (c_str token))
                in Inr (tokenSuccess, s\<lparr>as_totpSecret := Some (replicate (length secret) 0)\<rparr>)))
            else Inr (False, s)
        | None \<Rightarrow> Inr (\<not> sentToken, s))"

definition HandleLogonProof :: "auth_env \<Rightarrow> AuthSession \<Rightarrow> auth_error + bool \<times> AuthSession" where
  "HandleLogonProof env s =
    (let s = s\<lparr>as_status := STATUS_CLOSED\<rparr>
     in bindE (field 0 sizeof_AUTH_LOGON_PROOF_C s) (\<lambda>logonProof.
        let A = take 32 (drop 1 logonProof); clientM = take 20 (drop 33 logonProof); crc_hash = take 20 (drop 53 logonProof)
        in if as_expversion s = NO_VALID_EXP_FLAG then Inr (False, s)
           else case as_srp6 s of None \<Rightarrow> Inl NoValue
             | Some srp \<Rightarrow>
                 (case VerifyChallengeResponse (lib env) A clientM srp of
                    None \<Rightarrow> Inl AssertionFailed
                  | Some (None, srp) \<Rightarrow> Inr (True, wrong_password env (s\<lparr>as_srp6 := Some srp\<rparr>))
                  | Some (Some K, srp) \<Rightarrow>
                      bindE (check_token env (logonProof ! 74) (s\<lparr>as_srp6 := Some srp, as_sessionKey := K\<rparr>)) (\<lambda>(tokenSuccess, s).
                        if \<not> tokenSuccess
                        then Inr (True, SendPacket ([AUTH_LOGON_PROOF, WOW_FAIL_UNKNOWN_ACCOUNT] @ le_bytes 2 (0 :: u16)) s)
                        else if \<not> VerifyVersion env A crc_hash False s
                        then Inr (True, SendPacket [AUTH_LOGON_PROOF, WOW_FAIL_VERSION_INVALID] s)
                        else let address = (if AllowLoggingIP env then RemoteIp env else ''127.0.0.1'')
                          in Inr (True, QueueQuery (Q_LOGONPROOF (GetSessionVerifier (lib env) A clientM K))
                               (execute (UPD_LOGONPROOF K address (as_locale s) (c_str (ToCharArray (as_os s)))
                                  (sint (ucast (as_timezoneOffset s) :: u16)) (acc_Login (as_accountInfo s))) s))))))"

definition LogonProofCallback :: "bytes \<Rightarrow> AuthSession \<Rightarrow> AuthSession" where
  "LogonProofCallback M2 s =
    (let pkt = (if as_expversion s AND POST_BC_EXP_FLAG \<noteq> 0
                then [AUTH_LOGON_PROOF, 0] @ M2 @ le_bytes 4 (0x00800000 :: u32) @ le_bytes 4 (0 :: u32) @ le_bytes 2 (0 :: u16)
                else [AUTH_LOGON_PROOF, 0] @ M2 @ le_bytes 4 (0 :: u32))
     in (SendPacket pkt s)\<lparr>as_status := STATUS_AUTHED\<rparr>)"

definition ReconnectChallengeCallback :: "auth_env \<Rightarrow> auth_row option \<Rightarrow> AuthSession \<Rightarrow> auth_error + AuthSession" where
  "ReconnectChallengeCallback env result s =
    (case result of
       None \<Rightarrow> Inr (SendPacket [AUTH_RECONNECT_CHALLENGE, WOW_FAIL_UNKNOWN_ACCOUNT] s)
     | Some row \<Rightarrow>
         if length (row_session_key row) \<noteq> 40 then Inl AssertionFailed
         else let s = s\<lparr>as_accountInfo := LoadResult row, as_sessionKey := row_session_key row, as_reconnectProof := RandomBytes env 16,
                        as_status := STATUS_RECONNECT_PROOF\<rparr>
           in Inr (SendPacket ([AUTH_RECONNECT_CHALLENGE, WOW_SUCCESS] @ as_reconnectProof s @ VersionChallenge) s))"

definition HandleReconnectProof :: "auth_env \<Rightarrow> AuthSession \<Rightarrow> auth_error + bool \<times> AuthSession" where
  "HandleReconnectProof env s =
    (let s = s\<lparr>as_status := STATUS_CLOSED\<rparr>
     in bindE (field 0 sizeof_AUTH_RECONNECT_PROOF_C s) (\<lambda>reconnectProof.
        let R1 = take 16 (drop 1 reconnectProof); R2 = take 20 (drop 17 reconnectProof); R3 = take 20 (drop 37 reconnectProof)
        in if acc_Login (as_accountInfo s) = [] then Inr (False, s)
           else if EVP_sha1 (lib env) (text_bytes (acc_Login (as_accountInfo s)) @ R1 @ as_reconnectProof s @ as_sessionKey s) = R2
           then if \<not> VerifyVersion env R1 R3 True s
                then Inr (True, SendPacket [AUTH_RECONNECT_PROOF, WOW_FAIL_VERSION_INVALID] s)
                else Inr (True, (SendPacket ([AUTH_RECONNECT_PROOF, WOW_SUCCESS] @ le_bytes 2 (0 :: u16)) s)\<lparr>as_status := STATUS_AUTHED\<rparr>)
           else Inr (False, s)))"

definition HandleRealmList :: "AuthSession \<Rightarrow> bool \<times> AuthSession" where
  "HandleRealmList s =
    (True, (QueueQuery (Q_REALM_CHARACTER_COUNTS (acc_Id (as_accountInfo s))) s)\<lparr>as_status := STATUS_WAITING_FOR_REALM_LIST\<rparr>)"

text \<open>Whether a realm suits the client, and its flags.\<close>

definition okBuild :: "auth_env \<Rightarrow> u8 \<Rightarrow> u16 \<Rightarrow> realm \<Rightarrow> bool" where
  "okBuild env expversion build r \<longleftrightarrow>
    expversion AND POST_BC_EXP_FLAG \<noteq> 0 \<and> realm_Build r = ucast build \<or>
    expversion AND PRE_BC_EXP_FLAG \<noteq> 0 \<and> \<not> IsPreBCAcceptedClientBuild env (realm_Build r)"

definition realm_flag :: "auth_env \<Rightarrow> u8 \<Rightarrow> u16 \<Rightarrow> realm \<Rightarrow> u32 option" where
  "realm_flag env expversion build r =
    (let ok = okBuild env expversion build r; known = (GetBuildInfo env (realm_Build r) \<noteq> None);
         flag = realm_Flags r
     in if \<not> ok \<and> \<not> known then None
        else let flag = (if ok then flag else flag OR (REALM_FLAG_OFFLINE OR REALM_FLAG_SPECIFYBUILD))
          in Some (if known then flag else flag AND NOT REALM_FLAG_SPECIFYBUILD))"

definition c_string :: "string \<Rightarrow> bytes" where
  "c_string s = text_bytes s @ [0]"

definition version_text :: "build_info \<Rightarrow> string" where
  "version_text b = '' ('' @ show_nat (unat (bi_MajorVersion b)) @ ''.'' @ show_nat (unat (bi_MinorVersion b)) @ ''.'' @
     show_nat (unat (bi_BugfixVersion b)) @ '')''"

text \<open>The entry of a realm, \<open>None\<close> when it is skipped. The build of a flagged realm is known.\<close>

definition realm_entry :: "auth_env \<Rightarrow> (u32 \<times> u8) list \<Rightarrow> AuthSession \<Rightarrow> realm \<Rightarrow> bytes option" where
  "realm_entry env characterCounts s r =
    (let ex = as_expversion s; post = (ex AND POST_BC_EXP_FLAG \<noteq> 0); pre = (ex AND PRE_BC_EXP_FLAG \<noteq> 0)
     in case realm_flag env ex (as_build s) r of None \<Rightarrow> None
        | Some flag \<Rightarrow>
            let info = (if flag AND REALM_FLAG_SPECIFYBUILD \<noteq> 0 then GetBuildInfo env (realm_Build r) else None);
                name = realm_Name r @ (case info of Some b \<Rightarrow> if pre then version_text b else [] | None \<Rightarrow> []);
                lock = (if realm_AllowedSecurityLevel r > acc_SecurityLevel (as_accountInfo s) then 1 else 0)
            in Some ([realm_Type r] @ (if post then [lock] else []) @ [ucast flag] @ c_string name @ c_string (realm_Address r) @
                 le_bytes 4 (realm_PopulationLevel r) @
                 [case map_of (rev characterCounts) (realm_Id r) of None \<Rightarrow> 0 | Some n \<Rightarrow> n] @ [realm_Timezone r] @
                 [if post then ucast (realm_Id r) else 0] @
                 (case info of
                    Some b \<Rightarrow> if post then [ucast (bi_MajorVersion b), ucast (bi_MinorVersion b), ucast (bi_BugfixVersion b)] @ le_bytes 2 (bi_Build b) else []
                  | None \<Rightarrow> [])))"

definition realm_packet :: "auth_env \<Rightarrow> (u32 \<times> u8) list \<Rightarrow> AuthSession \<Rightarrow> bytes" where
  "realm_packet env characterCounts s =
    (let post = (as_expversion s AND POST_BC_EXP_FLAG \<noteq> 0);
         entries = List.map_filter (realm_entry env characterCounts s) (Realms env);
         pkt = concat entries @ (if post then [0x10, 0x00] else [0x00, 0x02]);
         RealmListSizeBuffer = le_bytes 4 (0 :: u32) @
           (if post then le_bytes 2 (of_nat (length entries) :: u16) else le_bytes 4 (of_nat (length entries) :: u32))
     in [REALM_LIST] @ le_bytes 2 (of_nat (length pkt + length RealmListSizeBuffer) :: u16) @ RealmListSizeBuffer @ pkt)"

definition RealmListCallback :: "auth_env \<Rightarrow> (u32 \<times> u8) list \<Rightarrow> AuthSession \<Rightarrow> AuthSession" where
  "RealmListCallback env result s = (SendPacket (realm_packet env result s) s)\<lparr>as_status := STATUS_AUTHED\<rparr>"

section \<open>The table of handlers and the reading of packets\<close>

record AuthHandler =
  h_cmd :: u8
  h_status :: AuthStatus
  h_packetSize :: nat

definition GetOpcodeArrayIndex :: "u8 \<Rightarrow> int" where
  "GetOpcodeArrayIndex c = size_t (uint (c AND 0x7) + uint (drop_bit 2 (c AND 0x10)) - uint (drop_bit 5 (c AND 0x20)))"

definition InitializeHandler :: "u8 \<Rightarrow> AuthStatus \<Rightarrow> nat \<Rightarrow> AuthHandler list \<Rightarrow> AuthHandler list" where
  "InitializeHandler cmd st sz t = t[nat (GetOpcodeArrayIndex cmd) := \<lparr>h_cmd = cmd, h_status = st, h_packetSize = sz\<rparr>]"

definition AuthHandlerTable :: "AuthHandler list" where
  "AuthHandlerTable =
    InitializeHandler XFER_CANCEL STATUS_XFER 1
    (InitializeHandler XFER_RESUME STATUS_XFER 9
    (InitializeHandler XFER_ACCEPT STATUS_XFER 1
    (InitializeHandler REALM_LIST STATUS_AUTHED REALM_LIST_PACKET_SIZE
    (InitializeHandler AUTH_RECONNECT_PROOF STATUS_RECONNECT_PROOF sizeof_AUTH_RECONNECT_PROOF_C
    (InitializeHandler AUTH_RECONNECT_CHALLENGE STATUS_CHALLENGE AUTH_LOGON_CHALLENGE_INITIAL_SIZE
    (InitializeHandler AUTH_LOGON_PROOF STATUS_LOGON_PROOF sizeof_AUTH_LOGON_PROOF_C
    (InitializeHandler AUTH_LOGON_CHALLENGE STATUS_CHALLENGE AUTH_LOGON_CHALLENGE_INITIAL_SIZE
      (replicate 8 \<lparr>h_cmd = 0, h_status = STATUS_CLOSED, h_packetSize = 0\<rparr>))))))))"

definition Handlers :: "u8 \<Rightarrow> AuthHandler option" where
  "Handlers cmd =
    (let i = GetOpcodeArrayIndex cmd
     in if i \<ge> 8 then None
        else let h = AuthHandlerTable ! nat i in if h_cmd h \<noteq> cmd then None else Some h)"

text \<open>The handlers of the transfer of patches close the connection.\<close>

definition run_handler :: "u8 \<Rightarrow> auth_env \<Rightarrow> AuthSession \<Rightarrow> auth_error + bool \<times> AuthSession" where
  "run_handler cmd env s =
    (if cmd = AUTH_LOGON_CHALLENGE then HandleLogonChallenge env s
     else if cmd = AUTH_LOGON_PROOF then HandleLogonProof env s
     else if cmd = AUTH_RECONNECT_CHALLENGE then HandleReconnectChallenge env s
     else if cmd = AUTH_RECONNECT_PROOF then HandleReconnectProof env s
     else if cmd = REALM_LIST then Inr (HandleRealmList s)
     else Inr (False, s))"

text \<open>How many packets a session can still handle without a callback.\<close>

fun rank :: "AuthStatus \<Rightarrow> nat" where
  "rank STATUS_RECONNECT_PROOF = 2"
| "rank STATUS_WAITING_FOR_REALM_LIST = 0"
| "rank STATUS_CLOSED = 0"
| "rank _ = 1"

lemma SendPacket_simps [simp]:
  "as_status (SendPacket p s) = as_status s" "as_queries (SendPacket p s) = as_queries s" "as_srp6 (SendPacket p s) = as_srp6 s"
  "as_sessionKey (SendPacket p s) = as_sessionKey s" "as_reconnectProof (SendPacket p s) = as_reconnectProof s"
  "as_accountInfo (SendPacket p s) = as_accountInfo s" "as_totpSecret (SendPacket p s) = as_totpSecret s"
  "sock_readBuffer (SendPacket p s) = sock_readBuffer s" "sock_openState (SendPacket p s) = sock_openState s"
  by (simp_all add: SendPacket_def QueuePacket_def)

lemma execute_simps [simp]:
  "as_status (execute p s) = as_status s" "as_queries (execute p s) = as_queries s" "as_srp6 (execute p s) = as_srp6 s"
  "as_sessionKey (execute p s) = as_sessionKey s" "as_reconnectProof (execute p s) = as_reconnectProof s"
  "as_accountInfo (execute p s) = as_accountInfo s" "as_totpSecret (execute p s) = as_totpSecret s"
  "sock_readBuffer (execute p s) = sock_readBuffer s" "sock_openState (execute p s) = sock_openState s"
  by (simp_all add: execute_def)

lemma QueueQuery_simps [simp]:
  "as_status (QueueQuery q s) = as_status s" "as_queries (QueueQuery q s) = as_queries s @ [q]" "as_srp6 (QueueQuery q s) = as_srp6 s"
  "as_sessionKey (QueueQuery q s) = as_sessionKey s" "as_reconnectProof (QueueQuery q s) = as_reconnectProof s"
  "as_accountInfo (QueueQuery q s) = as_accountInfo s" "as_totpSecret (QueueQuery q s) = as_totpSecret s"
  "sock_readBuffer (QueueQuery q s) = sock_readBuffer s" "sock_openState (QueueQuery q s) = sock_openState s"
  by (simp_all add: QueueQuery_def)

lemma bindE_Inr: "bindE r f = Inr y \<longleftrightarrow> (\<exists>x. r = Inr x \<and> f x = Inr y)"
  by (cases r) simp_all

text \<open>What remains of the status when a handler is done.\<close>

lemma wrong_password_status [simp]: "as_status (wrong_password env s) = as_status s"
  by (simp add: wrong_password_def Let_def)

lemma check_token_status: "check_token env f s = Inr (b, t) \<Longrightarrow> as_status t = as_status s"
  by (auto simp: check_token_def bindE_Inr Let_def split: option.splits if_splits)

lemma handler_status:
  assumes "run_handler cmd env s = Inr (True, t)"
  shows "as_status t \<in> (if cmd = REALM_LIST then {STATUS_WAITING_FOR_REALM_LIST}
     else if cmd = AUTH_RECONNECT_PROOF then {STATUS_AUTHED, STATUS_CLOSED} else {STATUS_CLOSED})"
proof -
  consider "cmd \<in> {0, 2}" | "cmd = 1" | "cmd = 3" | "cmd = 0x10" | "cmd \<notin> {0, 1, 2, 3, 0x10}" by blast
  then show ?thesis
  proof cases
    case 1
    then show ?thesis using assms
      by (auto simp: run_handler_def HandleLogonChallenge_def HandleReconnectChallenge_def handle_challenge_def bindE_Inr Let_def split: if_splits)
  next
    case 2
    then show ?thesis using assms
      by (auto simp: run_handler_def HandleLogonProof_def bindE_Inr Let_def split: if_splits option.splits prod.splits dest: check_token_status)
  next
    case 3
    then show ?thesis using assms
      by (auto simp: run_handler_def HandleReconnectProof_def bindE_Inr Let_def split: if_splits)
  qed (use assms in \<open>auto simp: run_handler_def HandleRealmList_def\<close>)
qed

datatype read_outcome = Stop | Wait | Again

text \<open>One turn of the loop of \<open>ReadHandler\<close>.\<close>

definition challenge_size :: "u8 \<Rightarrow> int \<Rightarrow> AuthSession \<Rightarrow> auth_error + int option" where
  "challenge_size cmd sz s =
    (if cmd = AUTH_LOGON_CHALLENGE \<or> cmd = AUTH_RECONNECT_CHALLENGE
     then bindE (field 2 2 s) (\<lambda>w. let sz = sz + uint (le_word w :: u16)
       in Inr (if sz > int MAX_ACCEPTED_CHALLENGE_SIZE then None else Some sz))
     else Inr (Some sz))"

definition read_packet :: "auth_env \<Rightarrow> AuthSession \<Rightarrow> auth_error + read_outcome \<times> AuthSession" where
  "read_packet env s =
    (let active = GetActiveSize (sock_readBuffer s)
     in if active = 0 then Inr (Wait, s)
        else bindE (field 0 1 s) (\<lambda>c.
          (case Handlers (hd c) of None \<Rightarrow> Inr (Stop, CloseSocket s)
           | Some itr \<Rightarrow>
               if as_status s \<noteq> h_status itr then Inr (Stop, CloseSocket s)
               else if active < int (h_packetSize itr) then Inr (Wait, s)
               else bindE (challenge_size (hd c) (int (h_packetSize itr)) s) (\<lambda>sz.
                 (case sz of None \<Rightarrow> Inr (Stop, CloseSocket s)
                  | Some sz \<Rightarrow>
                      if active < sz then Inr (Wait, s)
                      else bindE (run_handler (hd c) env s) (\<lambda>(ok, t).
                        if ok then Inr (Again, t\<lparr>sock_readBuffer := ReadCompleted sz (sock_readBuffer t)\<rparr>) else Inr (Stop, CloseSocket t)))))))"

lemma CloseSocket_session [simp]:
  "as_status (CloseSocket s) = as_status s" "as_queries (CloseSocket s) = as_queries s" "as_srp6 (CloseSocket s) = as_srp6 s"
  "as_sessionKey (CloseSocket s) = as_sessionKey s" "as_reconnectProof (CloseSocket s) = as_reconnectProof s"
  "as_accountInfo (CloseSocket s) = as_accountInfo s" "as_totpSecret (CloseSocket s) = as_totpSecret s"
  "sock_readBuffer (CloseSocket s) = sock_readBuffer s"
  by (simp_all add: CloseSocket_def Let_def)

lemma AuthHandlerTable_entries:
  "AuthHandlerTable = [\<lparr>h_cmd = 0, h_status = STATUS_CHALLENGE, h_packetSize = 4\<rparr>, \<lparr>h_cmd = 1, h_status = STATUS_LOGON_PROOF, h_packetSize = 75\<rparr>,
    \<lparr>h_cmd = 2, h_status = STATUS_CHALLENGE, h_packetSize = 4\<rparr>, \<lparr>h_cmd = 3, h_status = STATUS_RECONNECT_PROOF, h_packetSize = 58\<rparr>,
    \<lparr>h_cmd = 0x10, h_status = STATUS_AUTHED, h_packetSize = 5\<rparr>, \<lparr>h_cmd = 0x32, h_status = STATUS_XFER, h_packetSize = 1\<rparr>,
    \<lparr>h_cmd = 0x33, h_status = STATUS_XFER, h_packetSize = 9\<rparr>, \<lparr>h_cmd = 0x34, h_status = STATUS_XFER, h_packetSize = 1\<rparr>]"
  by code_simp

text \<open>The table is a perfect hash of the commands.\<close>

lemma Handlers_cases:
  assumes "Handlers c = Some h"
  shows "(c, h_status h, h_packetSize h) \<in> {(0, STATUS_CHALLENGE, 4), (1, STATUS_LOGON_PROOF, 75), (2, STATUS_CHALLENGE, 4),
    (3, STATUS_RECONNECT_PROOF, 58), (0x10, STATUS_AUTHED, 5), (0x32, STATUS_XFER, 1), (0x33, STATUS_XFER, 9), (0x34, STATUS_XFER, 1)}"
proof -
  have i: "0 \<le> GetOpcodeArrayIndex c" "GetOpcodeArrayIndex c < 8" and h: "h = AuthHandlerTable ! nat (GetOpcodeArrayIndex c)" "h_cmd h = c"
    using assms by (auto simp: Handlers_def Let_def GetOpcodeArrayIndex_def split: if_splits)
  have "nat (GetOpcodeArrayIndex c) < length AuthHandlerTable" using i by (simp add: AuthHandlerTable_entries)
  then have "h \<in> set AuthHandlerTable" using h(1) by simp
  then show ?thesis
    unfolding AuthHandlerTable_entries h(2) [symmetric] by (simp only: list.set insert_iff empty_iff) (elim disjE FalseE; simp)
qed

text \<open>A turn either leaves the session as it is or closes it, or runs the handler of a complete packet in the right status.\<close>

lemma read_packet_run:
  assumes "read_packet env s = Inr (out, t)"
  shows "out \<noteq> Again \<and> (t = s \<or> t = CloseSocket s) \<or>
    (\<exists>c itr sz ok u. field 0 1 s = Inr c \<and> Handlers (hd c) = Some itr \<and> as_status s = h_status itr \<and>
      int (h_packetSize itr) \<le> GetActiveSize (sock_readBuffer s) \<and> challenge_size (hd c) (int (h_packetSize itr)) s = Inr (Some sz) \<and>
      sz \<le> GetActiveSize (sock_readBuffer s) \<and> run_handler (hd c) env s = Inr (ok, u) \<and>
      (if ok then out = Again \<and> t = u\<lparr>sock_readBuffer := ReadCompleted sz (sock_readBuffer u)\<rparr> else out = Stop \<and> t = CloseSocket u))"
proof (cases "GetActiveSize (sock_readBuffer s) = 0")
  case True
  then show ?thesis using assms by (simp add: read_packet_def Let_def)
next
  case False
  then obtain c where c: "field 0 1 s = Inr c" using assms by (auto simp: read_packet_def bindE_Inr Let_def)
  show ?thesis
  proof (cases "Handlers (hd c)")
    case None
    then show ?thesis using assms False c by (simp add: read_packet_def Let_def)
  next
    case (Some itr)
    show ?thesis
    proof (cases "as_status s \<noteq> h_status itr \<or> GetActiveSize (sock_readBuffer s) < int (h_packetSize itr)")
      case True
      then show ?thesis using assms False c Some by (auto simp: read_packet_def Let_def split: if_splits)
    next
      case go: False
      obtain sz where sz: "challenge_size (hd c) (int (h_packetSize itr)) s = Inr sz" using assms False c Some go by (auto simp: read_packet_def Let_def bindE_Inr)
      show ?thesis
      proof (cases sz)
        case None
        then show ?thesis using assms False c Some go sz by (simp add: read_packet_def Let_def)
      next
        case n: (Some n)
        show ?thesis
        proof (cases "GetActiveSize (sock_readBuffer s) < n")
          case True
          then show ?thesis using assms False c Some go sz n by (simp add: read_packet_def Let_def)
        next
          case full: False
          obtain ok u where u: "run_handler (hd c) env s = Inr (ok, u)"
            using assms False c Some go sz n full by (auto simp: read_packet_def Let_def bindE_Inr)
          then have "if ok then out = Again \<and> t = u\<lparr>sock_readBuffer := ReadCompleted n (sock_readBuffer u)\<rparr> else out = Stop \<and> t = CloseSocket u"
            using assms False c Some go sz n full by (cases ok) (simp_all add: read_packet_def Let_def)
          then show ?thesis using c Some go sz n full u by (intro disjI2 exI [of _ c] exI [of _ itr] exI [of _ n] exI [of _ ok] exI [of _ u]) simp
        qed
      qed
    qed
  qed
qed

lemma read_packet_rank: "read_packet env s = Inr (Again, t) \<Longrightarrow> rank (as_status t) < rank (as_status s)"
proof -
  assume r: "read_packet env s = Inr (Again, t)"
  obtain c itr u where u: "Handlers (hd c) = Some itr" "as_status s = h_status itr" "run_handler (hd c) env s = Inr (True, u)" "as_status t = as_status u"
    using read_packet_run [OF r] by (auto split: if_splits)
  show ?thesis
    using Handlers_cases [OF u(1)] u(2,4) handler_status [OF u(3)] u(3) by (auto simp: run_handler_def)
qed

function ReadHandler :: "auth_env \<Rightarrow> AuthSession \<Rightarrow> auth_error + bool \<times> AuthSession" where
  "ReadHandler env s =
    (case read_packet env s of Inl e \<Rightarrow> Inl e
     | Inr (Stop, t) \<Rightarrow> Inr (False, t)
     | Inr (Wait, t) \<Rightarrow> Inr (True, t)
     | Inr (Again, t) \<Rightarrow> ReadHandler env t)"
  by auto
termination
  by (relation "measure (\<lambda>(env, s). rank (as_status s))") (auto dest: read_packet_rank)

declare ReadHandler.simps [simp del]

definition run_callback :: "auth_env \<Rightarrow> auth_query \<Rightarrow> AuthSession \<Rightarrow> auth_error + AuthSession" where
  "run_callback env q s =
    (case q of
       Q_LOGONCHALLENGE login \<Rightarrow> LogonChallengeCallback env (SEL_LOGONCHALLENGE env login) s
     | Q_LOGONPROOF M2 \<Rightarrow> Inr (LogonProofCallback M2 s)
     | Q_RECONNECTCHALLENGE login \<Rightarrow> ReconnectChallengeCallback env (SEL_RECONNECTCHALLENGE env login) s
     | Q_REALM_CHARACTER_COUNTS i \<Rightarrow> Inr (RealmListCallback env (SEL_REALM_CHARACTER_COUNTS env i) s))"

text \<open>Data that arrives on the connection and is handled.\<close>

definition receive :: "auth_env \<Rightarrow> bytes \<Rightarrow> AuthSession \<Rightarrow> auth_error + AuthSession" where
  "receive env data s =
    (if \<not> IsOpen s then Inr s
     else bindE (map_sum BadAccess id (PrepareRead s)) (\<lambda>s.
       bindE (map_sum BadAccess id (ReadHandlerInternal (Some data) s)) (\<lambda>(run, s).
         if run then map_sum id snd (ReadHandler env s) else Inr s)))"


end
