(* ===== verification/Auth_Invariant.thy ===== *)
theory Auth_Invariant
  imports Auth_Session
begin

text \<open>
  The invariant of the sessions of the authentication server over everything a client and the database can do, and what it
  says of the sessions that are authenticated.
\<close>

section \<open>Nobody is let in without a proof\<close>

text \<open>What a session has seen: the row of its account, and for each turn of the read loop the bytes from the read pointer on.\<close>

record auth_history =
  h_row :: "auth_row option"
  h_views :: "bytes list"

definition view :: "AuthSession \<Rightarrow> bytes" where
  "view s = drop (nat (mb_rpos (sock_readBuffer s))) (mb_storage (sock_readBuffer s))"

definition loaded :: "auth_env \<Rightarrow> auth_query \<Rightarrow> auth_row option \<Rightarrow> auth_row option" where
  "loaded env q r = (case q of Q_LOGONCHALLENGE login \<Rightarrow> SEL_LOGONCHALLENGE env login
     | Q_RECONNECTCHALLENGE login \<Rightarrow> SEL_RECONNECTCHALLENGE env login | _ \<Rightarrow> r)"

text \<open>Every step has its own configuration, rows, time and random bytes; the library, the address of the client and the master
  key stay.\<close>

inductive auth_step :: "openssl \<Rightarrow> string \<Rightarrow> (bytes \<Rightarrow> bytes option) option \<Rightarrow> AuthSession \<times> auth_history \<Rightarrow> AuthSession \<times> auth_history \<Rightarrow> bool"
  for L ip tk where
  arrive: "IsOpen s \<Longrightarrow> PrepareRead s = Inr u \<Longrightarrow> int (length data) \<le> GetRemainingSpace (sock_readBuffer u) \<Longrightarrow>
    ReadHandlerInternal (Some data) u = Inr (run, t) \<Longrightarrow> auth_step L ip tk (s, h) (t, h)"
| packet: "lib env = L \<Longrightarrow> RemoteIp env = ip \<Longrightarrow> TotpKey env = tk \<Longrightarrow> read_packet env s = Inr (out, t) \<Longrightarrow>
    auth_step L ip tk (s, h) (t, h\<lparr>h_views := h_views h @ [view s]\<rparr>)"
| callback: "lib env = L \<Longrightarrow> RemoteIp env = ip \<Longrightarrow> TotpKey env = tk \<Longrightarrow> as_queries s = q # qs \<Longrightarrow>
    run_callback env q (s\<lparr>as_queries := qs\<rparr>) = Inr t \<Longrightarrow> auth_step L ip tk (s, h) (t, h\<lparr>h_row := loaded env q (h_row h)\<rparr>)"
| close: "auth_step L ip tk (s, h) (CloseSocket s, h)"

definition auth_init :: "AuthSession \<times> auth_history \<Rightarrow> bool" where
  "auth_init x \<longleftrightarrow> x = (new_AuthSession, \<lparr>h_row = None, h_views = []\<rparr>)"

text \<open>The account may log in from the address; a token of the account's secret, when it has one.\<close>

definition allowed :: "string \<Rightarrow> auth_row \<Rightarrow> bool" where
  "allowed ip row \<longleftrightarrow> \<not> row_banned row \<and> (row_locked row \<longrightarrow> row_last_ip row = ip)"

definition secret_of :: "(bytes \<Rightarrow> bytes option) option \<Rightarrow> auth_row \<Rightarrow> bytes option option" where
  "secret_of tk row = (case row_totp_secret row of None \<Rightarrow> Some None
     | Some secret \<Rightarrow> (case tk of None \<Rightarrow> Some (Some secret) | Some decrypt \<Rightarrow> map_option Some (decrypt secret)))"

definition token_shown :: "openssl \<Rightarrow> (bytes \<Rightarrow> bytes option) option \<Rightarrow> auth_row \<Rightarrow> bytes \<Rightarrow> bool" where
  "token_shown L tk row v \<longleftrightarrow> (case secret_of tk row of None \<Rightarrow> False | Some None \<Rightarrow> True
     | Some (Some secret) \<Rightarrow> \<exists>now. ValidateToken L secret now (atoi (c_str (take (unat (v ! 75)) (drop 76 v)))))"

definition logged_in :: "openssl \<Rightarrow> string \<Rightarrow> (bytes \<Rightarrow> bytes option) option \<Rightarrow> AuthSession \<Rightarrow> auth_history \<Rightarrow> bool" where
  "logged_in L ip tk s h \<longleftrightarrow> (\<exists>row random srp v. h_row h = Some row \<and> v \<in> set (h_views h) \<and> allowed ip row \<and>
     new_SRP6 L random (acc_Login (LoadResult row)) (row_salt row) (row_verifier row) = Some srp \<and>
     VerifyChallengeResponse L (take 32 (drop 1 v)) (take 20 (drop 33 v)) srp = Some (Some (as_sessionKey s), srp\<lparr>srp_used := True\<rparr>) \<and>
     token_shown L tk row v)"

definition reconnected :: "openssl \<Rightarrow> AuthSession \<Rightarrow> auth_history \<Rightarrow> bool" where
  "reconnected L s h \<longleftrightarrow> (\<exists>row v. h_row h = Some row \<and> v \<in> set (h_views h) \<and> as_sessionKey s = row_session_key row \<and>
     EVP_sha1 L (text_bytes (acc_Login (LoadResult row)) @ take 16 (drop 1 v) @ as_reconnectProof s @ row_session_key row) = take 20 (drop 17 v))"

text \<open>What holds in each status.\<close>

definition challenged :: "openssl \<Rightarrow> string \<Rightarrow> (bytes \<Rightarrow> bytes option) option \<Rightarrow> AuthSession \<Rightarrow> auth_history \<Rightarrow> bool" where
  "challenged L ip tk s h \<longleftrightarrow> (\<exists>row random srp. h_row h = Some row \<and> allowed ip row \<and> secret_of tk row = Some (as_totpSecret s) \<and>
     as_srp6 s = Some srp \<and> new_SRP6 L random (acc_Login (LoadResult row)) (row_salt row) (row_verifier row) = Some srp)"

fun auth_inv :: "openssl \<Rightarrow> string \<Rightarrow> (bytes \<Rightarrow> bytes option) option \<Rightarrow> AuthSession \<times> auth_history \<Rightarrow> bool" where
  "auth_inv L ip tk (s, h) \<longleftrightarrow> (case as_status s of
     STATUS_CHALLENGE \<Rightarrow> as_queries s = [] \<and> as_totpSecret s = None
   | STATUS_LOGON_PROOF \<Rightarrow> as_queries s = [] \<and> challenged L ip tk s h
   | STATUS_RECONNECT_PROOF \<Rightarrow> as_queries s = [] \<and> (\<exists>row. h_row h = Some row \<and> as_accountInfo s = LoadResult row \<and> as_sessionKey s = row_session_key row)
   | STATUS_AUTHED \<Rightarrow> as_queries s = [] \<and> (logged_in L ip tk s h \<or> reconnected L s h)
   | STATUS_WAITING_FOR_REALM_LIST \<Rightarrow> (\<exists>i. as_queries s = [Q_REALM_CHARACTER_COUNTS i]) \<and> (logged_in L ip tk s h \<or> reconnected L s h)
   | STATUS_XFER \<Rightarrow> False
   | STATUS_CLOSED \<Rightarrow> as_queries s = [] \<or> (\<exists>l. as_queries s \<in> {[Q_LOGONCHALLENGE l], [Q_RECONNECTCHALLENGE l]} \<and> as_totpSecret s = None) \<or>
       (\<exists>M. as_queries s = [Q_LOGONPROOF M] \<and> logged_in L ip tk s h))"

lemma auth_inv_cong:
  assumes "as_status t = as_status s" "as_queries t = as_queries s" "as_totpSecret t = as_totpSecret s" "as_srp6 t = as_srp6 s"
    "as_accountInfo t = as_accountInfo s" "as_sessionKey t = as_sessionKey s" "as_reconnectProof t = as_reconnectProof s"
  shows "auth_inv L ip tk (t, h) = auth_inv L ip tk (s, h)"
  by (simp only: auth_inv.simps challenged_def logged_in_def reconnected_def assms)

lemma logged_in_more: "logged_in L ip tk s h \<Longrightarrow> logged_in L ip tk s (h\<lparr>h_views := h_views h @ vs\<rparr>)"
  "reconnected L s h \<Longrightarrow> reconnected L s (h\<lparr>h_views := h_views h @ vs\<rparr>)"
  by (auto simp: logged_in_def reconnected_def)

lemma auth_inv_more: "auth_inv L ip tk (s, h) \<Longrightarrow> auth_inv L ip tk (s, h\<lparr>h_views := h_views h @ vs\<rparr>)"
  by (auto simp: challenged_def split: AuthStatus.splits intro: logged_in_more)

text \<open>Fields of the packet at the read pointer are those of the view.\<close>

lemma field_view: "field k n s = Inr bs \<Longrightarrow> bs = take n (drop k (view s)) \<and> k + n \<le> length (view s)"
  by (auto simp: field_def peek_def view_def add.commute split: if_splits)

lemma new_auth_inv: "auth_init x \<Longrightarrow> auth_inv L ip tk x"
  by (simp add: auth_init_def new_AuthSession_def AuthSession.defs Socket.defs)

lemma arrive_inv:
  assumes "PrepareRead s = Inr u" "ReadHandlerInternal (Some data) u = Inr (run, t)"
  shows "auth_inv L ip tk (t, h) = auth_inv L ip tk (s, h)"
proof -
  obtain b b' where "u = s\<lparr>sock_readBuffer := b\<rparr>" "t = u\<lparr>sock_readBuffer := b'\<rparr>"
    using assms by (cases "Normalize (sock_readBuffer s)"; cases "Write data (sock_readBuffer u)")
      (auto simp: PrepareRead_def ReadHandlerInternal_def Let_def)
  then show ?thesis by (intro auth_inv_cong) simp_all
qed

text \<open>The challenges.\<close>

lemma challenge_inv:
  assumes "handle_challenge q env s = Inr (ok, t)" "as_queries s = []" "as_totpSecret s = None" "\<forall>l. q l \<in> {Q_LOGONCHALLENGE l, Q_RECONNECTCHALLENGE l}"
  shows "auth_inv L ip tk (t, h)"
proof -
  have "as_status t = STATUS_CLOSED \<and> as_totpSecret t = None \<and> (as_queries t = [] \<or> (\<exists>l. as_queries t = [q l]))"
    using assms(1-3) by (auto simp: handle_challenge_def bindE_Inr Let_def split: if_splits)
  then show ?thesis using assms(4) by fastforce
qed

text \<open>The proof of the password.\<close>

lemma secret_env: "load_secret env row = secret_of (TotpKey env) row"
  by (simp add: load_secret_def secret_of_def)

lemma Verify_used: "VerifyChallengeResponse L A M srp = Some (r, srp') \<Longrightarrow> srp' = srp\<lparr>srp_used := True\<rparr> \<and> \<not> srp_used srp"
  by (auto simp: VerifyChallengeResponse_def Let_def split: if_splits option.splits)

lemma check_token_shown:
  assumes "check_token env f s = Inr (True, t)" "secret_of (TotpKey env) row = Some (as_totpSecret s)"
  shows "token_shown (lib env) (TotpKey env) row (view s)"
proof (cases "as_totpSecret s")
  case None
  then show ?thesis using assms(2) by (simp add: token_shown_def)
next
  case (Some secret)
  then obtain sz token where f: "field 75 1 s = Inr sz" "field 76 (unat (hd sz)) s = Inr token"
      "ValidateToken (lib env) secret (time_now env) (atoi (c_str token))"
    using assms(1) by (auto simp: check_token_def bindE_Inr Let_def packet_sizes split: if_splits)
  have sz: "sz = take 1 (drop 75 (view s))" "75 < length (view s)" using field_view [OF f(1)] by auto
  then have "hd sz = view s ! 75" unfolding sz(1) by (simp add: hd_drop_conv_nth)
  moreover have "token = take (unat (hd sz)) (drop 76 (view s))" using field_view [OF f(2)] by simp
  ultimately show ?thesis using f(3) assms(2) Some by (auto simp: token_shown_def)
qed

lemma check_token_fields:
  assumes "check_token env f s = Inr (b, t)"
  shows "as_queries t = as_queries s" "as_sessionKey t = as_sessionKey s" "as_accountInfo t = as_accountInfo s" "as_status t = as_status s"
  using assms by (auto simp: check_token_def bindE_Inr Let_def split: option.splits if_splits)

lemma logon_proof_inv:
  assumes run: "HandleLogonProof env s = Inr (ok, t)" and inv: "as_queries s = []" "challenged (lib env) (RemoteIp env) (TotpKey env) s h"
  shows "auth_inv (lib env) (RemoteIp env) (TotpKey env) (t, h\<lparr>h_views := h_views h @ [view s]\<rparr>)"
proof -
  obtain row random srp where c: "h_row h = Some row" "allowed (RemoteIp env) row" "secret_of (TotpKey env) row = Some (as_totpSecret s)"
    "as_srp6 s = Some srp" "new_SRP6 (lib env) random (acc_Login (LoadResult row)) (row_salt row) (row_verifier row) = Some srp"
    using inv(2) by (auto simp: challenged_def)
  let ?s = "s\<lparr>as_status := STATUS_CLOSED\<rparr>"
  obtain p where p: "field 0 75 ?s = Inr p" using run by (auto simp: HandleLogonProof_def bindE_Inr Let_def packet_sizes)
  have pv: "p = take 75 (view s)" using field_view [OF p] by (simp add: view_def)
  let ?A = "take 32 (drop 1 p)" and ?M = "take 20 (drop 33 p)"
  have A: "?A = take 32 (drop 1 (view s))" "?M = take 20 (drop 33 (view s))" by (simp_all add: pv drop_take take_take min_def)
  have closed: "auth_inv L ip tk (t, h')" if "as_status t = STATUS_CLOSED" "as_queries t = []" for L ip tk h' using that by simp
  consider (none) "as_expversion s = 0" | (fail) "as_expversion s \<noteq> 0" "VerifyChallengeResponse (lib env) ?A ?M srp = None"
    | (wrong) srp' where "as_expversion s \<noteq> 0" "VerifyChallengeResponse (lib env) ?A ?M srp = Some (None, srp')"
    | (right) K srp' where "as_expversion s \<noteq> 0" "VerifyChallengeResponse (lib env) ?A ?M srp = Some (Some K, srp')"
    by (metis option.exhaust surj_pair)
  then show ?thesis
  proof cases
    case none
    then show ?thesis using run p inv(1) by (intro closed) (auto simp: HandleLogonProof_def Let_def packet_sizes)
  next
    case fail
    then show ?thesis using run p c(4) by (simp add: HandleLogonProof_def Let_def packet_sizes)
  next
    case wrong
    then have "t = wrong_password env (?s\<lparr>as_srp6 := Some srp'\<rparr>)" using run p c(4) by (simp add: HandleLogonProof_def Let_def packet_sizes)
    then show ?thesis using inv(1) by (intro closed) (simp_all add: wrong_password_def Let_def)
  next
    case right
    let ?u = "?s\<lparr>as_srp6 := Some srp', as_sessionKey := K\<rparr>"
    obtain b w where w: "check_token env (p ! 74) ?u = Inr (b, w)"
      using run p c(4) right by (auto simp: HandleLogonProof_def Let_def packet_sizes bindE_Inr)
    note wf = check_token_fields [OF w]
    have vu: "view ?u = view s" "as_totpSecret ?u = as_totpSecret s" by (simp_all add: view_def)
    show ?thesis
    proof (cases "b \<and> VerifyVersion env ?A (take 20 (drop 53 p)) False w")
      case False
      then have "as_status t = STATUS_CLOSED \<and> as_queries t = []"
        using run p c(4) right w wf inv(1) by (auto simp: HandleLogonProof_def Let_def packet_sizes split: if_splits)
      then show ?thesis by (intro closed) simp_all
    next
      case True
      have t: "as_status t = STATUS_CLOSED" "\<exists>M. as_queries t = [Q_LOGONPROOF M]" "as_sessionKey t = K"
        using run p c(4) right w wf inv(1) True by (auto simp: HandleLogonProof_def Let_def packet_sizes)
      have "token_shown (lib env) (TotpKey env) row (view s)" using check_token_shown [of env _ ?u w row] w True c(3) vu by simp
      then have "logged_in (lib env) (RemoteIp env) (TotpKey env) t (h\<lparr>h_views := h_views h @ [view s]\<rparr>)"
        using c right(2) Verify_used [OF right(2)] t(3) unfolding A logged_in_def by auto
      then show ?thesis using t(1,2) by auto
    qed
  qed
qed

lemma reconnect_proof_inv:
  assumes run: "HandleReconnectProof env s = Inr (ok, t)"
    and inv: "as_queries s = []" "h_row h = Some row" "as_accountInfo s = LoadResult row" "as_sessionKey s = row_session_key row"
  shows "auth_inv (lib env) ip tk (t, h\<lparr>h_views := h_views h @ [view s]\<rparr>)"
proof -
  let ?s = "s\<lparr>as_status := STATUS_CLOSED\<rparr>"
  obtain p where p: "field 0 58 ?s = Inr p" using run by (auto simp: HandleReconnectProof_def bindE_Inr Let_def packet_sizes)
  have pv: "p = take 58 (view s)" using field_view [OF p] by (simp add: view_def)
  have A: "take 16 (drop 1 p) = take 16 (drop 1 (view s))" "take 20 (drop 17 p) = take 20 (drop 17 (view s))"
    by (simp_all add: pv drop_take take_take min_def)
  show ?thesis
    using run p inv A by (auto simp: HandleReconnectProof_def Let_def packet_sizes reconnected_def split: if_splits)
qed

lemma login_refused_fields:
  assumes "login_refused env s = (r, t)"
  shows "as_queries t = as_queries s" "as_status t = as_status s" "as_accountInfo t = as_accountInfo s" "as_totpSecret t = as_totpSecret s"
    "as_build t = as_build s"
    "r = None \<Longrightarrow> \<not> acc_IsBanned (as_accountInfo s) \<and> (acc_IsLockedToIP (as_accountInfo s) \<longrightarrow> acc_LastIP (as_accountInfo s) = RemoteIp env)"
  using assms by (auto simp: login_refused_def Let_def split: if_splits option.splits)

lemma logon_callback_inv:
  assumes run: "LogonChallengeCallback env result s = Inr t" and inv: "as_status s = STATUS_CLOSED" "as_queries s = []" "as_totpSecret s = None"
  shows "auth_inv (lib env) (RemoteIp env) (TotpKey env) (t, h\<lparr>h_row := result\<rparr>)"
proof (cases result)
  case None
  then show ?thesis using run inv by (auto simp: LogonChallengeCallback_def)
next
  case (Some row)
  obtain r u where u: "login_refused env (s\<lparr>as_accountInfo := LoadResult row\<rparr>) = (r, u)" by force
  note f = login_refused_fields [OF u]
  show ?thesis
  proof (cases r)
    case e: (Some e)
    then show ?thesis using run inv u Some f by (auto simp: LogonChallengeCallback_def)
  next
    case None
    have ok: "allowed (RemoteIp env) row" using f(6) None by (simp add: allowed_def LoadResult_def)
    show ?thesis
    proof (cases "load_secret env row")
      case n: None
      then show ?thesis using run inv u Some f None by (auto simp: LogonChallengeCallback_def)
    next
      case totp: (Some totp)
      obtain srp where srp: "start_srp6 env row u = Inr srp" using run u Some None totp by (auto simp: LogonChallengeCallback_def bindE_Inr)
      then have "new_SRP6 (lib env) (RandomBytes env 32) (acc_Login (LoadResult row)) (row_salt row) (row_verifier row) = Some srp"
        using f(3) by (auto simp: start_srp6_def split: if_splits option.splits)
      moreover have "secret_of (TotpKey env) row = Some totp" using totp secret_env by simp
      ultimately show ?thesis
        using run u Some None totp srp f(1,2,4) inv ok
        by (cases "IsAcceptedClientBuild env (ucast (as_build u))") (auto simp: LogonChallengeCallback_def Let_def challenged_def)
    qed
  qed
qed

lemma reconnect_callback_inv:
  assumes "ReconnectChallengeCallback env result s = Inr t" "as_status s = STATUS_CLOSED" "as_queries s = []"
  shows "auth_inv L ip tk (t, h\<lparr>h_row := result\<rparr>)"
  using assms by (auto simp: ReconnectChallengeCallback_def Let_def split: option.splits if_splits)

lemma auth_kept:
  assumes "as_sessionKey t = as_sessionKey s" "as_reconnectProof t = as_reconnectProof s"
  shows "logged_in L ip tk t h = logged_in L ip tk s h" "reconnected L t h = reconnected L s h"
  by (simp_all add: logged_in_def reconnected_def assms)

lemma packet_inv:
  assumes inv: "auth_inv (lib env) (RemoteIp env) (TotpKey env) (s, h)" and run: "read_packet env s = Inr (out, t)"
  shows "auth_inv (lib env) (RemoteIp env) (TotpKey env) (t, h\<lparr>h_views := h_views h @ [view s]\<rparr>)"
proof -
  let ?h = "h\<lparr>h_views := h_views h @ [view s]\<rparr>" and ?I = "auth_inv (lib env) (RemoteIp env) (TotpKey env)"
  have same: "?I (u, ?h)" if "u = s \<or> u = CloseSocket s" for u
    using that auth_inv_more [OF inv] auth_inv_cong [of "CloseSocket s" s] by auto
  consider "t = s \<or> t = CloseSocket s" | c itr sz ok u where "Handlers (hd c) = Some itr" "as_status s = h_status itr"
      "run_handler (hd c) env s = Inr (ok, u)" "t = (if ok then u\<lparr>sock_readBuffer := ReadCompleted sz (sock_readBuffer u)\<rparr> else CloseSocket u)"
    using read_packet_run [OF run] by (auto split: if_splits)
  then show ?thesis
  proof cases
    case 1
    then show ?thesis by (rule same)
  next
    case 2
    have "?I (t, ?h) = ?I (u, ?h)" by (rule auth_inv_cong) (simp_all add: 2(4))
    moreover have "?I (u, ?h)"
      using Handlers_cases [OF 2(1)] unfolding insert_iff empty_iff
    proof (elim disjE FalseE)
      assume "(hd c, h_status itr, h_packetSize itr) = (0, STATUS_CHALLENGE, 4)"
      then show ?thesis using inv 2(2,3) by (intro challenge_inv [of Q_LOGONCHALLENGE env s ok]) (auto simp: run_handler_def HandleLogonChallenge_def)
    next
      assume "(hd c, h_status itr, h_packetSize itr) = (2, STATUS_CHALLENGE, 4)"
      then show ?thesis using inv 2(2,3) by (intro challenge_inv [of Q_RECONNECTCHALLENGE env s ok]) (auto simp: run_handler_def HandleReconnectChallenge_def)
    next
      assume "(hd c, h_status itr, h_packetSize itr) = (1, STATUS_LOGON_PROOF, 75)"
      then show ?thesis using inv 2(2,3) by (intro logon_proof_inv [of env s ok]) (auto simp: run_handler_def)
    next
      assume "(hd c, h_status itr, h_packetSize itr) = (3, STATUS_RECONNECT_PROOF, 58)"
      then show ?thesis using inv 2(2,3) reconnect_proof_inv [of env s ok u] by (auto simp: run_handler_def)
    next
      assume a: "(hd c, h_status itr, h_packetSize itr) = (0x10, STATUS_AUTHED, 5)"
      then have "u = snd (HandleRealmList s)" using 2(3) by (simp add: run_handler_def HandleRealmList_def)
      moreover have "logged_in (lib env) (RemoteIp env) (TotpKey env) s ?h \<or> reconnected (lib env) s ?h" "as_queries s = []"
        using inv a 2(2) by (auto intro: logged_in_more)
      ultimately show ?thesis using auth_kept [of u s] by (simp add: HandleRealmList_def)
    qed (use inv 2(2) in auto)
    ultimately show ?thesis by simp
  qed
qed

lemma callback_inv:
  assumes inv: "auth_inv (lib env) (RemoteIp env) (TotpKey env) (s, h)" and q: "as_queries s = q # qs"
    and run: "run_callback env q (s\<lparr>as_queries := qs\<rparr>) = Inr t"
  shows "auth_inv (lib env) (RemoteIp env) (TotpKey env) (t, h\<lparr>h_row := loaded env q (h_row h)\<rparr>)"
proof -
  let ?s = "s\<lparr>as_queries := qs\<rparr>"
  consider (logon) l where "as_status s = STATUS_CLOSED" "q = Q_LOGONCHALLENGE l" "qs = []" "as_totpSecret s = None"
    | (reconnect) l where "as_status s = STATUS_CLOSED" "q = Q_RECONNECTCHALLENGE l" "qs = []"
    | (proved) M where "q = Q_LOGONPROOF M" "qs = []" "logged_in (lib env) (RemoteIp env) (TotpKey env) s h"
    | (realms) i where "q = Q_REALM_CHARACTER_COUNTS i" "qs = []" "logged_in (lib env) (RemoteIp env) (TotpKey env) s h \<or> reconnected (lib env) s h"
    using inv q by (cases "as_status s") auto
  then show ?thesis
  proof cases
    case logon
    then show ?thesis using logon_callback_inv [of env _ ?s t h] run by (simp add: run_callback_def loaded_def)
  next
    case reconnect
    then show ?thesis using reconnect_callback_inv [of env _ ?s t _ _ _ h] run by (simp add: run_callback_def loaded_def)
  next
    case proved
    have "t = LogonProofCallback M ?s" using run proved by (simp add: run_callback_def)
    then have "as_status t = STATUS_AUTHED" "as_queries t = []" "as_sessionKey t = as_sessionKey s" "as_reconnectProof t = as_reconnectProof s"
      using proved by (simp_all add: LogonProofCallback_def Let_def)
    then show ?thesis using proved auth_kept [of t s] by (simp add: loaded_def)
  next
    case realms
    have "t = RealmListCallback env (SEL_REALM_CHARACTER_COUNTS env i) ?s" using run realms by (simp add: run_callback_def)
    then have "as_status t = STATUS_AUTHED" "as_queries t = []" "as_sessionKey t = as_sessionKey s" "as_reconnectProof t = as_reconnectProof s"
      using realms by (simp_all add: RealmListCallback_def)
    then show ?thesis using realms auth_kept [of t s] by (simp add: loaded_def)
  qed
qed

interpretation auth: invariant_system auth_init "auth_step L ip tk" "auth_inv L ip tk"
proof
  show "auth_inv L ip tk x" if "auth_init x" for x using that by (rule new_auth_inv)
  show "auth_inv L ip tk y" if "auth_inv L ip tk x" "auth_step L ip tk x y" for x y
    using that(2)
  proof cases
    case (arrive s u data run t h)
    then show ?thesis using arrive_inv [of s u data run t L ip tk h] that(1) by simp
  next
    case (packet env s out t h)
    then show ?thesis using packet_inv [of env s h out t] that(1) by simp
  next
    case (callback env s q qs t h)
    then show ?thesis using callback_inv [of env s h q qs t] that(1) by simp
  next
    case (close s h)
    then show ?thesis using auth_inv_cong [of "CloseSocket s" s L ip tk h] that(1) by simp
  qed
qed

end
