(* ===== verification/Auth_Login.thy ===== *)
theory Auth_Login
  imports Auth_Invariant
begin

text \<open>
  Logins as they happen: from the bytes on the socket through the handler table and the database to the authenticated
  session; the realms shown to old clients; tokens that arrive late.
\<close>

section \<open>Whoever knows the password is let in\<close>

text \<open>A connection between two packets: open, and nothing is left in the read buffer.\<close>

definition idle :: "AuthSession \<Rightarrow> bool" where
  "idle s \<longleftrightarrow> IsOpen s \<and> mb_ok (sock_readBuffer s) \<and> active_data (sock_readBuffer s) = [] \<and>
     4096 \<le> length (mb_storage (sock_readBuffer s)) \<and> int (length (mb_storage (sock_readBuffer s))) < 4611686018427387904"

lemma idle_holding: "idle s \<longleftrightarrow> IsOpen s \<and> holding [] (sock_readBuffer s)"
  by (simp add: idle_def holding_def)

lemma field_holding: "holding data (sock_readBuffer s) \<Longrightarrow> k + n \<le> length data \<Longrightarrow> field k n s = Inr (take n (drop k data))"
  by (simp add: field_def holding_peek)

text \<open>A complete packet that arrives at once is handled and consumed.\<close>

lemma receive_packet:
  assumes s: "idle s" and data: "data \<noteq> []" "length data \<le> 4096"
    and h: "Handlers (hd data) = Some itr" "as_status s = h_status itr" "h_packetSize itr \<le> length data"
    and sz: "\<And>b. holding data b \<Longrightarrow> challenge_size (hd data) (int (h_packetSize itr)) (s\<lparr>sock_readBuffer := b\<rparr>) = Inr (Some (int (length data)))"
    and run: "\<And>b. holding data b \<Longrightarrow> \<exists>t. run_handler (hd data) env (s\<lparr>sock_readBuffer := b\<rparr>) = Inr (True, t) \<and> sock_readBuffer t = b \<and> P t"
  shows "\<exists>t c. receive env data s = Inr (t\<lparr>sock_readBuffer := c\<rparr>) \<and> P t \<and> holding [] c"
proof -
  obtain b u where b: "PrepareRead s = Inr u" "ReadHandlerInternal (Some data) u = Inr (True, s\<lparr>sock_readBuffer := b\<rparr>)" "holding data b"
    using block_arrives [of s data] s data(2) by (auto simp: idle_holding)
  let ?s = "s\<lparr>sock_readBuffer := b\<rparr>"
  obtain t where t: "run_handler (hd data) env ?s = Inr (True, t)" "sock_readBuffer t = b" "P t" using run [OF b(3)] by blast
  note act = holding_size [OF b(3)]
  have f: "field 0 1 ?s = Inr (take 1 data)" using field_holding [of data ?s 0 1] b(3) data(1) by (cases data) auto
  have hd: "hd (take 1 data) = hd data" using data(1) by (cases data) auto
  let ?c = "ReadCompleted (int (length data)) b"
  have hc: "holding [] ?c" using holding_ReadCompleted [OF b(3), of "length data"] by simp
  have "read_packet env ?s = Inr (Again, t\<lparr>sock_readBuffer := ?c\<rparr>)"
    using act f hd h data(1) sz [OF b(3)] t by (simp add: read_packet_def Let_def)
  moreover have "read_packet env (t\<lparr>sock_readBuffer := ?c\<rparr>) = Inr (Wait, t\<lparr>sock_readBuffer := ?c\<rparr>)"
    using holding_size [OF hc] by (simp add: read_packet_def)
  ultimately have "ReadHandler env ?s = Inr (True, t\<lparr>sock_readBuffer := ?c\<rparr>)" by (simp add: ReadHandler.simps)
  moreover have "IsOpen s" using s by (simp add: idle_def)
  ultimately have "receive env data s = Inr (t\<lparr>sock_readBuffer := ?c\<rparr>)" using b(1,2) by (simp add: receive_def)
  then show ?thesis using hc t(3) by blast
qed

lemma idle_after: "idle s \<Longrightarrow> holding [] c \<Longrightarrow> sock_openState t = sock_openState s \<Longrightarrow> idle (t\<lparr>sock_readBuffer := c\<rparr>)"
  by (simp add: idle_def holding_def IsOpen_def)

text \<open>The first packet of a client.\<close>

definition challenge_bytes :: "string \<Rightarrow> u16 \<Rightarrow> bytes \<Rightarrow> bytes \<Rightarrow> bytes" where
  "challenge_bytes login build game rest = [0, 0] @ le_bytes 2 (of_nat (30 + length login) :: u16) @ game @ le_bytes 2 build @ rest @
     [of_nat (length login)] @ text_bytes login"

definition proof_bytes :: "bytes \<Rightarrow> bytes \<Rightarrow> bytes \<Rightarrow> u8 \<Rightarrow> bytes" where
  "proof_bytes A M crc n = [1] @ A @ M @ crc @ [n, 0]"

lemma Handlers_values:
  "Handlers 0 = Some \<lparr>h_cmd = 0, h_status = STATUS_CHALLENGE, h_packetSize = 4\<rparr>"
  "Handlers 1 = Some \<lparr>h_cmd = 1, h_status = STATUS_LOGON_PROOF, h_packetSize = 75\<rparr>"
  by code_simp+

lemma new_idle: "idle new_AuthSession"
proof -
  have f: "sock_readBuffer new_AuthSession = new_MessageBuffer 4096" "IsOpen new_AuthSession"
    by (simp_all add: new_AuthSession_def AuthSession.defs Socket.defs new_Socket_def IsOpen_def)
  then show ?thesis using new_ok [of 4096] by (simp add: idle_def new_MessageBuffer_def)
qed

lemma challenge_parts:
  assumes "length game = 7" "length rest = 20"
  shows "length (challenge_bytes login build game rest) = 34 + length login"
    "take 34 (challenge_bytes login build game rest) =
       [0, 0] @ le_bytes 2 (of_nat (30 + length login) :: u16) @ game @ le_bytes 2 build @ rest @ [of_nat (length login)]"
    "drop 34 (challenge_bytes login build game rest) = text_bytes login"
proof -
  let ?h = "[0, 0] @ le_bytes 2 (of_nat (30 + length login) :: u16) @ game @ le_bytes 2 build @ rest @ [of_nat (length login)]"
  have e: "challenge_bytes login build game rest = ?h @ text_bytes login" by (simp add: challenge_bytes_def)
  have l: "length ?h = 34" using assms by simp
  show "length (challenge_bytes login build game rest) = 34 + length login"
    unfolding e length_append [of ?h] l by (simp add: text_bytes_def)
  show "take 34 (challenge_bytes login build game rest) = ?h" unfolding e append_eq_conv_conj l [symmetric] by (simp only: take_append length_append diff_self_eq_0 take_0 append_Nil2 take_all order_refl)
  show "drop 34 (challenge_bytes login build game rest) = text_bytes login" unfolding e using l by (metis append_eq_conv_conj)
qed
lemma challenge_fields:
  fixes n build :: u16 and k :: u8
  assumes "length game = 7" "length rest = 20"
  defines "c \<equiv> [0, 0] @ le_bytes 2 n @ game @ le_bytes 2 build @ rest @ [k]"
  shows "take 2 (drop 2 c) = le_bytes 2 n" "take 2 (drop 11 c) = le_bytes 2 build" "c ! 33 = k"
proof -
  have "drop 11 c = le_bytes 2 build @ rest @ [k]" using assms(1) by (simp add: c_def)
  then show "take 2 (drop 11 c) = le_bytes 2 build" by simp
  have "drop 33 c = [k]" using assms(1,2) by (simp add: c_def)
  moreover have "33 < length c" using assms(1,2) by (simp add: c_def)
  ultimately show "c ! 33 = k" by (metis Cons_nth_drop_Suc list.inject)
qed (simp add: c_def)

lemma login_words:
  assumes "length (login :: string) \<le> 255"
  shows "uint (of_nat (30 + length login) :: u16) = 30 + int (length login)" "unat (of_nat (length login) :: u8) = length login"
    "uint (of_nat (length login) :: u8) = int (length login)"
proof -
  show a: "unat (of_nat (length login) :: u8) = length login" using assms by (simp only: unsigned_of_nat) (simp add: take_bit_nat_eq_self)
  show "uint (of_nat (length login) :: u8) = int (length login)" by (simp only: uint_nat a)
  have "unat (of_nat (30 + length login) :: u16) = 30 + length login" using assms by (simp only: unsigned_of_nat) (simp add: take_bit_nat_eq_self)
  then show "uint (of_nat (30 + length login) :: u16) = 30 + int (length login)" by (simp only: uint_nat of_nat_add of_nat_numeral)
qed

lemma challenge_handled:
  fixes s :: AuthSession
  assumes "length game = 7" "length rest = 20" "length login \<le> 255"
    and h: "holding (challenge_bytes login build game rest) (sock_readBuffer s)"
  shows "challenge_size 0 4 s = Inr (Some (int (length (challenge_bytes login build game rest))))"
    "\<exists>os loc tz. HandleLogonChallenge env s = Inr (True, QueueQuery (Q_LOGONCHALLENGE login)
      (s\<lparr>as_status := STATUS_CLOSED, as_build := build, as_expversion := expversion_of env build, as_os := os, as_locale := loc, as_timezoneOffset := tz\<rparr>))"
proof -
  let ?p = "challenge_bytes login build game rest"
  note parts = challenge_parts [OF assms(1,2), of login build] and w = login_words [OF assms(3)]
  define c where "c = take 34 ?p"
  have c: "take 2 (drop 2 c) = le_bytes 2 (of_nat (30 + length login) :: u16)" "take 2 (drop 11 c) = le_bytes 2 build" "c ! 33 = of_nat (length login)"
    unfolding c_def parts(2) by (rule challenge_fields [OF assms(1,2)])+
  have "take 2 (drop 2 ?p) = take 2 (drop 2 c)" by (simp add: c_def drop_take)
  then have "field 2 2 s = Inr (le_bytes 2 (of_nat (30 + length login) :: u16))" using field_holding [OF h, of 2 2] parts(1) c(1) by simp
  then show "challenge_size 0 4 s = Inr (Some (int (length ?p)))"
    using w(1) assms(3) by (simp add: challenge_size_def le_word_le_bytes packet_sizes parts(1))
  let ?s = "s\<lparr>as_status := STATUS_CLOSED\<rparr>"
  have f: "field 0 34 ?s = Inr c" "field 34 (length login) ?s = Inr (text_bytes login)"
    using field_holding [of ?p ?s 0 34] field_holding [of ?p ?s 34 "length login"] h parts(1,3) by (simp_all add: c_def text_bytes_def)
  have "map char_of_byte (text_bytes login) = login" by (simp add: text_bytes_def comp_def)
  then show "\<exists>os loc tz. HandleLogonChallenge env s = Inr (True, QueueQuery (Q_LOGONCHALLENGE login)
      (s\<lparr>as_status := STATUS_CLOSED, as_build := build, as_expversion := expversion_of env build, as_os := os, as_locale := loc, as_timezoneOffset := tz\<rparr>))"
    using f c w assms(3) by (simp add: HandleLogonChallenge_def handle_challenge_def packet_sizes le_word_le_bytes Let_def) blast
qed

lemma challenge_received:
  assumes s: "idle s" "as_status s = STATUS_CHALLENGE" and len: "length game = 7" "length rest = 20" "length login \<le> 255"
  shows "\<exists>t. receive env (challenge_bytes login build game rest) s = Inr t \<and> idle t \<and> as_status t = STATUS_CLOSED \<and>
    as_queries t = as_queries s @ [Q_LOGONCHALLENGE login] \<and> as_totpSecret t = as_totpSecret s \<and> as_build t = build \<and>
    as_expversion t = expversion_of env build"
proof -
  let ?p = "challenge_bytes login build game rest"
  define P where "P t \<longleftrightarrow> sock_openState t = sock_openState s \<and> as_status t = STATUS_CLOSED \<and> as_queries t = as_queries s @ [Q_LOGONCHALLENGE login] \<and>
    as_totpSecret t = as_totpSecret s \<and> as_build t = build \<and> as_expversion t = expversion_of env build" for t :: AuthSession
  have p: "?p \<noteq> []" "hd ?p = 0" "length ?p \<le> 4096" "4 \<le> length ?p"
    using challenge_parts(1) [OF len(1,2), of login build] len(3) by (simp_all add: challenge_bytes_def)
  have sz: "challenge_size (hd ?p) (int 4) (s\<lparr>sock_readBuffer := b\<rparr>) = Inr (Some (int (length ?p)))" if "holding ?p b" for b
    using challenge_handled(1) [OF len, of build "s\<lparr>sock_readBuffer := b\<rparr>"] that p(2) by simp
  have run: "\<exists>t. run_handler (hd ?p) env (s\<lparr>sock_readBuffer := b\<rparr>) = Inr (True, t) \<and> sock_readBuffer t = b \<and> P t" if "holding ?p b" for b
  proof -
    have hb: "holding ?p (sock_readBuffer (s\<lparr>sock_readBuffer := b\<rparr>))" using that by simp
    show ?thesis using challenge_handled(2) [OF len hb, of env] by (elim exE) (simp add: run_handler_def p(2) P_def QueueQuery_def)
  qed
  let ?itr = "\<lparr>h_cmd = 0, h_status = STATUS_CHALLENGE, h_packetSize = 4\<rparr>"
  obtain t c where t: "receive env ?p s = Inr (t\<lparr>sock_readBuffer := c\<rparr>)" "P t" "holding [] c"
    using receive_packet [OF s(1) p(1,3), of ?itr env P] p(2,4) s(2) Handlers_values(1) sz run by auto
  show ?thesis
    using t(1,2) idle_after [OF s(1) t(3), of t] unfolding P_def by (intro exI [of _ "t\<lparr>sock_readBuffer := c\<rparr>"]) simp
qed

text \<open>The row of an account of the given password that is not banned, not locked and has no secret.\<close>

definition plain_row :: "openssl \<Rightarrow> string \<Rightarrow> string \<Rightarrow> auth_row \<Rightarrow> bool" where
  "plain_row L user pw row \<longleftrightarrow> snd (Utf8ToUpperOnlyLatin (row_username row)) = user \<and> \<not> row_banned row \<and> \<not> row_locked row \<and>
     row_lock_country row = [] \<and> row_totp_secret row = None \<and> length (row_salt row) = 32 \<and> MakeRegistrationData L (row_salt row) user pw = Some (row_salt row, row_verifier row)"

lemma plain_row_srp6:
  assumes "openssl_ok L" "plain_row L user pw row"
  shows "length (row_verifier row) = 32" "CalculateVerifier L user pw (row_salt row) = Some (row_verifier row)"
proof -
  show c: "CalculateVerifier L user pw (row_salt row) = Some (row_verifier row)" using assms(2) by (auto simp: plain_row_def MakeRegistrationData_def)
  then show "length (row_verifier row) = 32" unfolding CalculateVerifier_value [OF assms(1)] by (metis length_int_le option.inject)
qed

lemma logon_callback:
  assumes ssl: "openssl_ok (lib env)" and row: "plain_row (lib env) user pw row" and s: "idle s" "as_totpSecret s = None"
    and build: "IsAcceptedClientBuild env (ucast (as_build s))"
    and srp: "new_SRP6 (lib env) (RandomBytes env 32) user (row_salt row) (row_verifier row) = Some srp"
  shows "\<exists>t. LogonChallengeCallback env (Some row) s = Inr t \<and> idle t \<and> as_status t = STATUS_LOGON_PROOF \<and> as_srp6 t = Some srp \<and>
    as_queries t = as_queries s \<and> as_totpSecret t = None \<and> as_build t = as_build s \<and> as_expversion t = as_expversion s \<and>
    acc_Login (as_accountInfo t) = user \<and> sock_writeQueue t = sock_writeQueue s @ [message_of ([AUTH_LOGON_CHALLENGE, 0] @ challenge_packet srp 0)]"
proof -
  define u where "u = snd (login_refused env (s\<lparr>as_accountInfo := LoadResult row\<rparr>))"
  have u: "login_refused env (s\<lparr>as_accountInfo := LoadResult row\<rparr>) = (None, u)"
    using row by (simp add: u_def login_refused_def plain_row_def LoadResult_def Let_def split: option.splits)
  have f: "sock_openState u = sock_openState s" "sock_readBuffer u = sock_readBuffer s" "sock_writeQueue u = sock_writeQueue s" "as_queries u = as_queries s"
      "as_totpSecret u = None" "as_build u = as_build s" "as_expversion u = as_expversion s" "as_accountInfo u = LoadResult row"
    using row s(2) by (simp_all add: u_def login_refused_def plain_row_def LoadResult_def Let_def split: option.splits)
  have "start_srp6 env row u = Inr srp"
    using plain_row_srp6(1) [OF ssl row] srp row f(8) by (simp add: start_srp6_def plain_row_def LoadResult_def)
  moreover have "load_secret env row = Some None" using row by (simp add: load_secret_def plain_row_def)
  ultimately show ?thesis
    using u f build s(1) row by (simp add: LogonChallengeCallback_def Let_def SendPacket_def QueuePacket_def IsOpen_def idle_def plain_row_def LoadResult_def)
qed

lemma proof_parts:
  fixes n :: u8
  assumes "length A = 32" "length M = 20" "length crc = 20"
  defines "p \<equiv> proof_bytes A M crc n"
  shows "length p = 75" "take 32 (drop 1 p) = A" "take 20 (drop 33 p) = M" "take 20 (drop 53 p) = crc" "p ! 74 = 0" "hd p = 1" "p \<noteq> []"
proof -
  show "length p = 75" "hd p = 1" "p \<noteq> []" "take 32 (drop 1 p) = A" using assms by (simp_all add: proof_bytes_def)
  have "drop 33 p = M @ crc @ [n, 0]" "drop 53 p = crc @ [n, 0]" "drop 74 p = [0]" using assms by (simp_all add: proof_bytes_def)
  then show "take 20 (drop 33 p) = M" "take 20 (drop 53 p) = crc" "p ! 74 = 0"
    using assms(2,3) hd_drop_conv_nth [of 74 p] by (simp_all add: \<open>length p = 75\<close>)
qed

lemma proof_handled:
  assumes len: "length A = 32" "length M = 20" "length crc = 20" and h: "holding (proof_bytes A M crc n) (sock_readBuffer s)"
    and s: "as_srp6 s = Some srp" "as_totpSecret s = None" "as_expversion s \<noteq> NO_VALID_EXP_FLAG"
    and v: "\<not> StrictVersionCheck env" "VerifyChallengeResponse (lib env) A M srp = Some (Some K, srp')"
  shows "\<exists>addr loc os tz. HandleLogonProof env s = Inr (True, QueueQuery (Q_LOGONPROOF (GetSessionVerifier (lib env) A M K))
     (execute (UPD_LOGONPROOF K addr loc os tz (acc_Login (as_accountInfo s))) (s\<lparr>as_status := STATUS_CLOSED, as_srp6 := Some srp', as_sessionKey := K\<rparr>)))"
proof -
  let ?p = "proof_bytes A M crc n"
  note parts = proof_parts [OF len, of n]
  have f: "field 0 75 (s\<lparr>as_status := STATUS_CLOSED\<rparr>) = Inr ?p"
    using field_holding [of ?p "s\<lparr>as_status := STATUS_CLOSED\<rparr>" 0 75] h parts(1) by simp
  have t: "check_token env 0 u = Inr (True, u)" if "as_totpSecret u = None" for u using that by (simp add: check_token_def)
  have ver: "VerifyVersion env A crc False u" for u using v(1) by (simp add: VerifyVersion_def)
  show ?thesis
    using s v(2) f parts(2-5)
    by (simp add: HandleLogonProof_def packet_sizes t ver Let_def) blast
qed

lemma proof_received:
  assumes s: "idle s" "as_status s = STATUS_LOGON_PROOF" and len: "length A = 32" "length M = 20" "length crc = 20"
    and srp: "as_srp6 s = Some srp" "as_totpSecret s = None" "as_expversion s \<noteq> NO_VALID_EXP_FLAG"
    and v: "\<not> StrictVersionCheck env" "VerifyChallengeResponse (lib env) A M srp = Some (Some K, srp')"
  shows "\<exists>t addr loc os tz. receive env (proof_bytes A M crc n) s = Inr t \<and> idle t \<and> as_sessionKey t = K \<and>
    as_queries t = as_queries s @ [Q_LOGONPROOF (GetSessionVerifier (lib env) A M K)] \<and>
    as_statements t = as_statements s @ [UPD_LOGONPROOF K addr loc os tz (acc_Login (as_accountInfo s))]"
proof -
  let ?p = "proof_bytes A M crc n"
  define P where "P t \<longleftrightarrow> sock_openState t = sock_openState s \<and> as_sessionKey t = K \<and>
    as_queries t = as_queries s @ [Q_LOGONPROOF (GetSessionVerifier (lib env) A M K)] \<and>
    (\<exists>addr loc os tz. as_statements t = as_statements s @ [UPD_LOGONPROOF K addr loc os tz (acc_Login (as_accountInfo s))])" for t :: AuthSession
  note p = proof_parts [OF len, of n]
  have sz: "challenge_size (hd ?p) (int 75) (s\<lparr>sock_readBuffer := b\<rparr>) = Inr (Some (int (length ?p)))" for b
    by (simp add: challenge_size_def p(1,6))
  have run: "\<exists>t. run_handler (hd ?p) env (s\<lparr>sock_readBuffer := b\<rparr>) = Inr (True, t) \<and> sock_readBuffer t = b \<and> P t" if "holding ?p b" for b
  proof -
    have hb: "holding ?p (sock_readBuffer (s\<lparr>sock_readBuffer := b\<rparr>))" using that by simp
    have "as_srp6 (s\<lparr>sock_readBuffer := b\<rparr>) = Some srp" "as_totpSecret (s\<lparr>sock_readBuffer := b\<rparr>) = None"
        "as_expversion (s\<lparr>sock_readBuffer := b\<rparr>) \<noteq> NO_VALID_EXP_FLAG"
      using srp by simp_all
    from proof_handled [OF len hb this v] show ?thesis
      by (elim exE) (auto simp: run_handler_def p(6) P_def QueueQuery_def execute_def)
  qed
  let ?itr = "\<lparr>h_cmd = 1, h_status = STATUS_LOGON_PROOF, h_packetSize = 75\<rparr>"
  obtain t c where t: "receive env ?p s = Inr (t\<lparr>sock_readBuffer := c\<rparr>)" "P t" "holding [] c"
    using receive_packet [OF s(1) p(7), of ?itr env P] p(1,6) s(2) Handlers_values(2) sz run by auto
  show ?thesis
    using t(1,2) idle_after [OF s(1) t(3), of t] unfolding P_def by (intro exI [of _ "t\<lparr>sock_readBuffer := c\<rparr>"]) simp
qed

text \<open>The client of a session: its first packet, the answer of the query, its proof for the numbers it was sent, the answer of the
  second query.\<close>

lemma expversion_accepted: "IsAcceptedClientBuild env (ucast build) \<Longrightarrow> expversion_of env build \<noteq> NO_VALID_EXP_FLAG"
  by (auto simp: IsAcceptedClientBuild_def expversion_of_def IsPostBCAcceptedClientBuild_def IsPreBCAcceptedClientBuild_def not_less)

lemma LogonProofCallback_fields:
  assumes "idle s"
  shows "as_status (LogonProofCallback M2 s) = STATUS_AUTHED" "as_sessionKey (LogonProofCallback M2 s) = as_sessionKey s"
    "as_statements (LogonProofCallback M2 s) = as_statements s" "idle (LogonProofCallback M2 s)"
  using assms by (simp_all add: LogonProofCallback_def SendPacket_def QueuePacket_def idle_def IsOpen_def Let_def)

lemma client_lengths:
  assumes "openssl_ok L" "client_answer L a user pw salt B = (A, M, K)"
  shows "length A = 32" "length M = 20"
  using assms by (auto simp: client_answer_def Let_def proof_message_def openssl_ok_def)

lemma login_run:
  assumes ssl: "openssl_ok (lib env)" and row: "plain_row (lib env) user pw row" "SEL_LOGONCHALLENGE env login = Some row"
    and build: "IsAcceptedClientBuild env (ucast build)" and v: "\<not> StrictVersionCheck env"
    and len: "length game = 7" "length rest = 20" "length crc = 20" "length login \<le> 255"
  shows "\<exists>s1 s2 srp s3 s4 addr loc os tz. receive env (challenge_bytes login build game rest) new_AuthSession = Inr s1 \<and>
    as_queries s1 = [Q_LOGONCHALLENGE login] \<and> run_callback env (Q_LOGONCHALLENGE login) (s1\<lparr>as_queries := []\<rparr>) = Inr s2 \<and> idle s2 \<and>
    sock_writeQueue s2 = sock_writeQueue s1 @ [message_of ([AUTH_LOGON_CHALLENGE, 0] @ challenge_packet srp 0)] \<and>
    (case client_answer (lib env) a user pw (row_salt row) (srp_B srp) of (A, M, K) \<Rightarrow>
       receive env (proof_bytes A M crc n) s2 = Inr s3 \<and> as_queries s3 = [Q_LOGONPROOF (GetSessionVerifier (lib env) A M K)] \<and>
       run_callback env (Q_LOGONPROOF (GetSessionVerifier (lib env) A M K)) (s3\<lparr>as_queries := []\<rparr>) = Inr s4 \<and>
       as_status s4 = STATUS_AUTHED \<and> as_sessionKey s4 = K \<and> as_statements s4 = as_statements s2 @ [UPD_LOGONPROOF K addr loc os tz user])"
proof -
  let ?L = "lib env" and ?n = new_AuthSession
  have new: "as_status ?n = STATUS_CHALLENGE" "as_queries ?n = []" "as_totpSecret ?n = None"
    by (simp_all add: new_AuthSession_def AuthSession.defs Socket.defs)
  obtain s1 where s1: "receive env (challenge_bytes login build game rest) ?n = Inr s1" "idle s1" "as_status s1 = STATUS_CLOSED"
      "as_queries s1 = [Q_LOGONCHALLENGE login]" "as_totpSecret s1 = None" "as_build s1 = build" "as_expversion s1 = expversion_of env build"
    using challenge_received [OF new_idle new(1) len(1,2,4), of env build] new(2,3) by auto
  note verifier = plain_row_srp6(2) [OF ssl row(1)]
  obtain srp where srp: "new_SRP6 ?L (RandomBytes env 32) user (row_salt row) (row_verifier row) = Some srp"
    using new_SRP6_value [OF ssl verifier] by blast
  let ?s1 = "s1\<lparr>as_queries := []\<rparr>"
  have i1: "idle ?s1" "as_totpSecret ?s1 = None" "IsAcceptedClientBuild env (ucast (as_build ?s1))"
    using s1(2,5,6) build by (simp_all add: idle_def IsOpen_def)
  obtain s2 where s2: "LogonChallengeCallback env (Some row) ?s1 = Inr s2" "idle s2" "as_status s2 = STATUS_LOGON_PROOF" "as_srp6 s2 = Some srp"
      "as_queries s2 = []" "as_totpSecret s2 = None" "as_expversion s2 = expversion_of env build" "acc_Login (as_accountInfo s2) = user"
      "sock_writeQueue s2 = sock_writeQueue s1 @ [message_of ([AUTH_LOGON_CHALLENGE, 0] @ challenge_packet srp 0)]"
    using logon_callback [OF ssl row(1) i1 srp] s1(7) by auto
  obtain A M K where c: "client_answer ?L a user pw (row_salt row) (srp_B srp) = (A, M, K)"
    by (cases "client_answer ?L a user pw (row_salt row) (srp_B srp)") auto
  have acc: "VerifyChallengeResponse ?L A M srp = Some (Some K, srp\<lparr>srp_used := True\<rparr>)" using srp6_accepts(1) [OF ssl verifier srp, of a] by (simp add: c)
  note cl = client_lengths [OF ssl c]
  have ex: "as_expversion s2 \<noteq> NO_VALID_EXP_FLAG" using s2(7) expversion_accepted [OF build] by simp
  let ?q = "Q_LOGONPROOF (GetSessionVerifier ?L A M K)"
  obtain s3 addr loc os tz where s3: "receive env (proof_bytes A M crc n) s2 = Inr s3" "idle s3" "as_sessionKey s3 = K" "as_queries s3 = [?q]"
      "as_statements s3 = as_statements s2 @ [UPD_LOGONPROOF K addr loc os tz user]"
    using proof_received [OF s2(2,3) cl len(3) s2(4,6) ex v acc, of n] s2(5,8) by auto
  let ?s4 = "LogonProofCallback (GetSessionVerifier ?L A M K) (s3\<lparr>as_queries := []\<rparr>)"
  have "idle (s3\<lparr>as_queries := []\<rparr>)" using s3(2) by (simp add: idle_def IsOpen_def)
  note s4 = LogonProofCallback_fields [OF this, of "GetSessionVerifier ?L A M K"]
  show ?thesis
    by (rule exI [of _ s1], rule exI [of _ s2], rule exI [of _ srp], rule exI [of _ s3], rule exI [of _ ?s4], rule exI [of _ addr], rule exI [of _ loc],
      rule exI [of _ os], rule exI [of _ tz])
     (simp add: s1(1,4) s2(1,2,9) row(2) c s3(1,3-5) s4(1-3) run_callback_def)
qed

text \<open>Claim C7: whoever knows the password is let in, through the whole of the server: the bytes of the two packets of a client that
  follows the protocol, read from the socket, looked up in the handler table, checked and answered, take a fresh session of a
  plain account to the authenticated status; both sides hold the same key and the server has stored it for the account.\<close>

theorem login_succeeds:
  assumes ssl: "openssl_ok (lib env)" and row: "plain_row (lib env) user pw row" "SEL_LOGONCHALLENGE env login = Some row"
    and build: "IsAcceptedClientBuild env (ucast build)" and v: "\<not> StrictVersionCheck env"
    and len: "length game = 7" "length rest = 20" "length crc = 20" "length login \<le> 255"
  shows "\<exists>s1 s2 srp s3 s4 addr loc os tz. receive env (challenge_bytes login build game rest) new_AuthSession = Inr s1 \<and>
    as_queries s1 = [Q_LOGONCHALLENGE login] \<and> run_callback env (Q_LOGONCHALLENGE login) (s1\<lparr>as_queries := []\<rparr>) = Inr s2 \<and> idle s2 \<and>
    sock_writeQueue s2 = sock_writeQueue s1 @ [message_of ([AUTH_LOGON_CHALLENGE, 0] @ challenge_packet srp 0)] \<and>
    (case client_answer (lib env) a user pw (row_salt row) (srp_B srp) of (A, M, K) \<Rightarrow>
       receive env (proof_bytes A M crc n) s2 = Inr s3 \<and> as_queries s3 = [Q_LOGONPROOF (GetSessionVerifier (lib env) A M K)] \<and>
       run_callback env (Q_LOGONPROOF (GetSessionVerifier (lib env) A M K)) (s3\<lparr>as_queries := []\<rparr>) = Inr s4 \<and>
       as_status s4 = STATUS_AUTHED \<and> as_sessionKey s4 = K \<and> as_statements s4 = as_statements s2 @ [UPD_LOGONPROOF K addr loc os tz user])"
  by (rule login_run [OF assms])

text \<open>A server with one account and one build.\<close>

definition sample_row :: auth_row where
  "sample_row = \<lparr>row_id = 1, row_username = ''JAINA'', row_locked = False, row_lock_country = [], row_last_ip = [], row_failed_logins = 0,
     row_banned = False, row_permanently_banned = False, row_SecurityLevel = 0, row_totp_secret = None, row_salt = replicate 32 7,
     row_verifier = the (CalculateVerifier sample_openssl ''JAINA'' ''SECRET'' (replicate 32 7)), row_session_key = []\<rparr>"

definition sample_env :: auth_env where
  "sample_env = \<lparr>lib = sample_openssl, Builds = [\<lparr>bi_Build = 12340, bi_MajorVersion = 3, bi_MinorVersion = 3, bi_BugfixVersion = 5, bi_ExecutableHashes = []\<rparr>],
     RemoteIp = ''10.0.0.1'', LocationOfIp = None, StrictVersionCheck = False, AllowLoggingIP = True, WrongPassMaxCount = 0, WrongPassLogging = False,
     WrongPassBanTime = 0, WrongPassBanType = False, TotpKey = None, time_now = 0, RandomBytes = \<lambda>n. replicate n 5,
     SEL_LOGONCHALLENGE = \<lambda>l. if l = ''JAINA'' then Some sample_row else None, SEL_RECONNECTCHALLENGE = \<lambda>_. None, SEL_REALM_CHARACTER_COUNTS = \<lambda>_. [],
     Realms = []\<rparr>"

lemma upper_demo: "snd (Utf8ToUpperOnlyLatin ''JAINA'') = ''JAINA''"
proof -
  have o: "octets ''JAINA'' = [74, 65, 73, 78, 65]" by code_simp
  have "Utf8toWStr ''JAINA'' = (True, [74, 65, 73, 78, 65])" using ascii_WStr [of "''JAINA''"] o by simp
  moreover have "map wcharToUpperOnlyLatin [74, 65, 73, 78, 65] = [74, 65, 73, 78, 65]" by code_simp
  moreover have "WStrToUtf8 [74, 65, 73, 78, 65] = (True, ''JAINA'')"
    by (simp add: WStrToUtf8_def is_lead_surrogate_def is_trail_surrogate_def utf8_append_def is_code_point_valid_def
        is_surrogate_def append_octets_def of_octets_def, code_simp)
  ultimately show ?thesis by (simp add: Utf8ToUpperOnlyLatin_def)
qed

lemma sample_env_ok:
  "openssl_ok (lib sample_env)" "plain_row (lib sample_env) ''JAINA'' ''SECRET'' sample_row" "SEL_LOGONCHALLENGE sample_env ''JAINA'' = Some sample_row"
  "IsAcceptedClientBuild sample_env (ucast (12340 :: u16))" "\<not> StrictVersionCheck sample_env"
proof -
  show "openssl_ok (lib sample_env)" by (simp add: sample_env_def sample_openssl_ok)
  obtain v where v: "CalculateVerifier sample_openssl ''JAINA'' ''SECRET'' (replicate 32 7) = Some v"
    unfolding CalculateVerifier_value [OF sample_openssl_ok] by blast
  from upper_demo show "plain_row (lib sample_env) ''JAINA'' ''SECRET'' sample_row"
    by (simp only: plain_row_def MakeRegistrationData_def) (simp add: sample_env_def sample_row_def v)
qed (simp_all add: sample_env_def IsAcceptedClientBuild_def GetBuildInfo_def)

theorem login_succeeds_witness:
  "\<exists>s1 s2 s3 s4 A M. receive sample_env (challenge_bytes ''JAINA'' 12340 (replicate 7 0) (replicate 20 0)) new_AuthSession = Inr s1 \<and>
     run_callback sample_env (Q_LOGONCHALLENGE ''JAINA'') (s1\<lparr>as_queries := []\<rparr>) = Inr s2 \<and>
     receive sample_env (proof_bytes A M (replicate 20 0) 0) s2 = Inr s3 \<and> as_status (s4 :: AuthSession) = STATUS_AUTHED"
proof -
  have l: "length (replicate 7 0 :: bytes) = 7" "length (replicate 20 0 :: bytes) = 20" "length ''JAINA'' \<le> 255" by simp_all
  show ?thesis using login_succeeds [OF sample_env_ok l(1,2,2,3), of 0 3]
    by (simp only: case_prod_beta) (elim exE conjE, intro exI conjI, assumption+)
qed

text \<open>What is received is a sequence of steps.\<close>

lemma ReadHandler_steps:
  "ReadHandler env s = Inr (ok, t) \<Longrightarrow> \<exists>h'. (auth_step (lib env) (RemoteIp env) (TotpKey env))\<^sup>*\<^sup>* (s, h) (t, h')"
proof (induction env s arbitrary: h rule: ReadHandler.induct)
  case (1 env s)
  obtain out u where u: "read_packet env s = Inr (out, u)" using "1.prems" by (subst (asm) ReadHandler.simps) (auto split: sum.splits)
  let ?h = "h\<lparr>h_views := h_views h @ [view s]\<rparr>"
  have st: "auth_step (lib env) (RemoteIp env) (TotpKey env) (s, h) (u, ?h)" using u by (intro auth_step.packet) simp_all
  show ?case
  proof (cases "out = Again")
    case True
    then have "ReadHandler env u = Inr (ok, t)" using "1.prems" u by (subst (asm) ReadHandler.simps) simp
    then obtain h' where "(auth_step (lib env) (RemoteIp env) (TotpKey env))\<^sup>*\<^sup>* (u, ?h) (t, h')" using "1.IH" u True by blast
    then show ?thesis using st by (meson converse_rtranclp_into_rtranclp)
  next
    case False
    then have "u = t" using "1.prems" u by (subst (asm) ReadHandler.simps) (cases out; simp)
    then show ?thesis using st by blast
  qed
qed

lemma receive_unfold:
  "IsOpen s \<Longrightarrow> PrepareRead s = Inr s' \<Longrightarrow> receive env data s = bindE (map_sum BadAccess id (ReadHandlerInternal (Some data) s')) (\<lambda>(run, u).
     if run then map_sum id snd (ReadHandler env u) else Inr u)"
  by (simp add: receive_def)

lemma map_sum_snd:
  assumes "map_sum id snd r = Inr y"
  obtains x where "r = Inr (x, y)"
  using assms by (cases r) auto

lemma receive_steps:
  assumes "idle s" "length data \<le> 4096" "receive env data s = Inr t"
  shows "\<exists>h'. (auth_step (lib env) (RemoteIp env) (TotpKey env))\<^sup>*\<^sup>* (s, h) (t, h')"
proof -
  obtain s' where o: "IsOpen s" "PrepareRead s = Inr s'" "4096 \<le> GetRemainingSpace (sock_readBuffer s')"
    using assms(1) block_arrives [of s data] assms(2) by (auto simp: idle_holding)
  define R where "R = auth_step (lib env) (RemoteIp env) (TotpKey env)"
  note r = assms(3) [unfolded receive_unfold [OF o(1,2)]]
  obtain run u where u: "ReadHandlerInternal (Some data) s' = Inr (run, u)" using r by (cases "ReadHandlerInternal (Some data) s'") auto
  have a: "R (s, h) (u, h)"
    unfolding R_def using assms(2) o(3) by (intro auth_step.arrive [OF o(1,2) _ u]) simp
  show ?thesis
  proof (cases run)
    case True
    then have "map_sum id snd (ReadHandler env u) = Inr t" using r u by simp
    then obtain ok where "ReadHandler env u = Inr (ok, t)" by (rule map_sum_snd)
    then obtain h' where "R\<^sup>*\<^sup>* (u, h) (t, h')" unfolding R_def using ReadHandler_steps by blast
    then have "R\<^sup>*\<^sup>* (s, h) (t, h')" by (rule converse_rtranclp_into_rtranclp [of R, OF a])
    then show ?thesis unfolding R_def by blast
  next
    case False
    then have "u = t" using r u by simp
    then show ?thesis using r_into_rtranclp [of R, OF a] unfolding R_def by blast
  qed
qed

text \<open>A login is a run of the steps.\<close>

lemma login_steps:
  assumes s0: "idle s0" "length c \<le> 4096" "receive env c s0 = Inr s1" "as_queries s1 = [q]"
    and s2: "run_callback env q (s1\<lparr>as_queries := []\<rparr>) = Inr s2" "idle s2"
    and s3: "length p \<le> 4096" "receive env p s2 = Inr s3" "as_queries s3 = [r]" "run_callback env r (s3\<lparr>as_queries := []\<rparr>) = Inr s4"
  shows "\<exists>h. (auth_step (lib env) (RemoteIp env) (TotpKey env))\<^sup>*\<^sup>* (s0, h0) (s4, h)"
proof -
  define R where "R = auth_step (lib env) (RemoteIp env) (TotpKey env)"
  obtain h1 where a: "R\<^sup>*\<^sup>* (s0, h0) (s1, h1)" unfolding R_def using receive_steps [OF s0(1-3)] by blast
  obtain h2 where b: "R (s1, h1) (s2, h2)" unfolding R_def using auth_step.callback [OF refl refl refl s0(4) s2(1)] by blast
  obtain h3 where c: "R\<^sup>*\<^sup>* (s2, h2) (s3, h3)" unfolding R_def using receive_steps [OF s2(2) s3(1,2)] by blast
  obtain h4 where d: "R (s3, h3) (s4, h4)" unfolding R_def using auth_step.callback [OF refl refl refl s3(3,4)] by blast
  have "R\<^sup>*\<^sup>* (s0, h0) (s3, h3)" by (rule rtranclp_trans [OF rtranclp.rtrancl_into_rtrancl [of R, OF a b] c])
  then have "R\<^sup>*\<^sup>* (s0, h0) (s4, h4)" using d by (rule rtranclp.rtrancl_into_rtrancl)
  then show ?thesis unfolding R_def by blast
qed

lemma login_reachable:
  "\<exists>s h. (auth_step (lib sample_env) (RemoteIp sample_env) (TotpKey sample_env))\<^sup>*\<^sup>* (new_AuthSession, \<lparr>h_row = None, h_views = []\<rparr>) (s, h) \<and>
     as_status s = STATUS_AUTHED"
proof -
  let ?c = "challenge_bytes ''JAINA'' 12340 (replicate 7 0) (replicate 20 0)"
  have l: "length (replicate 7 0 :: bytes) = 7" "length (replicate 20 0 :: bytes) = 20" "length ''JAINA'' \<le> 255" by simp_all
  define ans where "ans B = client_answer (lib sample_env) 3 ''JAINA'' ''SECRET'' (row_salt sample_row) B" for B
  obtain s1 s2 s3 s4 addr loc os tz and srp :: SRP6 where s1: "receive sample_env ?c new_AuthSession = Inr s1" "as_queries s1 = [Q_LOGONCHALLENGE ''JAINA'']"
    and s2: "run_callback sample_env (Q_LOGONCHALLENGE ''JAINA'') (s1\<lparr>as_queries := []\<rparr>) = Inr s2" "idle s2"
    and s3: "case ans (srp_B srp) of (A, M, K) \<Rightarrow> receive sample_env (proof_bytes A M (replicate 20 0) 0) s2 = Inr s3 \<and>
      as_queries s3 = [Q_LOGONPROOF (GetSessionVerifier (lib sample_env) A M K)] \<and>
      run_callback sample_env (Q_LOGONPROOF (GetSessionVerifier (lib sample_env) A M K)) (s3\<lparr>as_queries := []\<rparr>) = Inr s4 \<and> as_status s4 = STATUS_AUTHED \<and>
      as_sessionKey s4 = K \<and> as_statements s4 = as_statements s2 @ [UPD_LOGONPROOF K addr loc os tz ''JAINA'']"
    using login_run [OF sample_env_ok l(1,2,2,3), of 0 3] unfolding ans_def [symmetric] by (elim exE conjE) (rule that, assumption+)
  obtain A M K where c: "ans (srp_B srp) = (A, M, K)" by (cases "ans (srp_B srp)") auto
  have cl: "length ?c \<le> 4096" "length (proof_bytes A M (replicate 20 0) 0) \<le> 4096"
    using challenge_parts(1) [OF l(1,2), of "''JAINA''" 12340] proof_parts(1) [OF client_lengths [OF sample_env_ok(1) c [unfolded ans_def]] l(2), of 0]
    by simp_all
  note s3 = s3 [unfolded c prod.case]
  show ?thesis
    using login_steps [OF new_idle cl(1) s1 s2 cl(2) s3 [THEN conjunct1] s3 [THEN conjunct2, THEN conjunct1] s3 [THEN conjunct2, THEN conjunct2, THEN conjunct1]] s3
    by blast
qed

text \<open>Claim C3: nobody is authenticated without a proof. Whatever bytes a client sends, in whatever portions, and whatever the
  database answers, a session that serves the realm list has received either a proof that the server accepts for the salt and
  verifier of the account's row, which is neither banned nor locked to another address, together with a valid token when
  the account has a secret; or the digest of a reconnection over the stored session key.\<close>

theorem auth_needs_proof:
  assumes "auth_init x0" "(auth_step L ip tk)\<^sup>*\<^sup>* x0 (s, h)" "as_status s \<in> {STATUS_AUTHED, STATUS_WAITING_FOR_REALM_LIST}"
  shows "logged_in L ip tk s h \<or> reconnected L s h"
  using auth.invar_reachable [OF assms(1,2)] assms(3) by auto

theorem auth_needs_proof_witness:
  "\<exists>s h. as_status s = STATUS_AUTHED \<and> (logged_in sample_openssl ''10.0.0.1'' None s h \<or> reconnected sample_openssl s h)"
proof -
  obtain s h where "(auth_step sample_openssl ''10.0.0.1'' None)\<^sup>*\<^sup>* (new_AuthSession, \<lparr>h_row = None, h_views = []\<rparr>) (s, h)" "as_status s = STATUS_AUTHED"
    using login_reachable by (auto simp: sample_env_def)
  then show ?thesis using auth_needs_proof [of "(new_AuthSession, \<lparr>h_row = None, h_views = []\<rparr>)" sample_openssl "''10.0.0.1''" None s h] by (auto simp: auth_init_def)
qed

section \<open>Realms of old clients\<close>

text \<open>The test of a realm's build is inverted for clients from before the Burning Crusade. A realm of the very build
  such a client has is sent as offline, flagged with its version; a realm of a build the server does not know is sent without
  these flags, as if it suited the client.\<close>

theorem pre_bc_realms_inverted:
  assumes "IsPreBCAcceptedClientBuild env (ucast build)"
  shows "expversion_of env build = PRE_BC_EXP_FLAG \<and>
    (realm_Build r = ucast build \<longrightarrow> realm_flag env (expversion_of env build) build r = Some (realm_Flags r OR 6)) \<and>
    (GetBuildInfo env (realm_Build r) = None \<longrightarrow> realm_flag env (expversion_of env build) build r = Some (realm_Flags r AND NOT 4))"
proof -
  have e: "expversion_of env build = PRE_BC_EXP_FLAG"
    using assms by (auto simp: expversion_of_def IsPreBCAcceptedClientBuild_def IsPostBCAcceptedClientBuild_def)
  have "realm_flag env PRE_BC_EXP_FLAG build r = Some (realm_Flags r OR 6)" if "realm_Build r = ucast build"
    using assms that by (auto simp: realm_flag_def okBuild_def IsPreBCAcceptedClientBuild_def Let_def)
  moreover have "realm_flag env PRE_BC_EXP_FLAG build r = Some (realm_Flags r AND NOT 4)" if "GetBuildInfo env (realm_Build r) = None"
    using that by (simp add: realm_flag_def okBuild_def IsPreBCAcceptedClientBuild_def Let_def)
  ultimately show ?thesis using e by simp
qed

theorem pre_bc_realms_inverted_witness:
  "realm_flag (sample_env\<lparr>Builds := [\<lparr>bi_Build = 5875, bi_MajorVersion = 1, bi_MinorVersion = 12, bi_BugfixVersion = 1, bi_ExecutableHashes = []\<rparr>]\<rparr>) PRE_BC_EXP_FLAG 5875
     \<lparr>realm_Id = 1, realm_Build = 5875, realm_Address = [], realm_Name = [], realm_Type = 0, realm_Flags = 0, realm_Timezone = 1,
       realm_AllowedSecurityLevel = 0, realm_PopulationLevel = 0\<rparr> = Some 6"
  using pre_bc_realms_inverted [of "sample_env\<lparr>Builds := [\<lparr>bi_Build = 5875, bi_MajorVersion = 1, bi_MinorVersion = 12, bi_BugfixVersion = 1, bi_ExecutableHashes = []\<rparr>]\<rparr>" 5875
     "\<lparr>realm_Id = 1, realm_Build = 5875, realm_Address = [], realm_Name = [], realm_Type = 0, realm_Flags = 0, realm_Timezone = 1,
       realm_AllowedSecurityLevel = 0, realm_PopulationLevel = 0\<rparr>"]
  by (simp add: IsPreBCAcceptedClientBuild_def GetBuildInfo_def MAX_PRE_BC_CLIENT_BUILD_def) metis

section \<open>A token that comes late\<close>



end
