(* ===== verification/World_Login.thy ===== *)
theory World_Login
  imports World_Session Auth_Login
begin

text \<open>
  From the password to the world: the key that the authentication server stores when a client has proved its password opens
  the session of this client, and of its account, on a world server, over the account table of the login database.
\<close>

section \<open>The account table\<close>

text \<open>The statements that write and read the key. The rows are those of the join for the realm; an empty key is \<open>NULL\<close>.\<close>

definition store_key :: "auth_statement \<Rightarrow> (string \<Rightarrow> account_row option) \<Rightarrow> string \<Rightarrow> account_row option" where
  "store_key st db =
    (case st of UPD_LOGONPROOF K ip locale os timezone username \<Rightarrow>
       (\<lambda>name. if name = username then map_option (\<lambda>r. r\<lparr>ar_session_key := K, ar_last_ip := ip, ar_locale := locale, ar_os := os\<rparr>) (db name) else db name)
     | _ \<Rightarrow> db)"

definition SEL_ACCOUNT_INFO_BY_NAME :: "(string \<Rightarrow> account_row option) \<Rightarrow> string \<Rightarrow> account_row option" where
  "SEL_ACCOUNT_INFO_BY_NAME db name = (case db name of None \<Rightarrow> None | Some r \<Rightarrow> if ar_session_key r = [] then None else Some r)"

section \<open>From the password to the world\<close>

definition may_enter :: "world_env \<Rightarrow> account_row \<Rightarrow> bool" where
  "may_enter w r \<longleftrightarrow> \<not> we_IsClosed w \<and> \<not> we_wardenActive w \<and> \<not> ar_banned r \<and> \<not> ar_locked r \<and> ar_lock_country r \<in> {[], ''00''} \<and>
     we_PlayerSecurityLimit w \<le> ar_SecurityLevel r"

text \<open>What a client that holds a key answers to a challenge.\<close>

definition client_message :: "openssl \<Rightarrow> string \<Rightarrow> bytes \<Rightarrow> bytes \<Rightarrow> auth_message \<Rightarrow> auth_message" where
  "client_message L user challenge K m = m\<lparr>am_Account := user, am_Digest := session_digest L user (am_LocalChallenge m) challenge K\<rparr>"

lemma client_key_length:
  assumes "openssl_ok L" "client_answer L a user pw salt B = (A, M, K)"
  shows "length K = SESSION_KEY_LENGTH"
proof -
  have "length (SHA1Interleave L S) = 40" for S by (simp add: SHA1Interleave_def Let_def length_concat comp_def DIGEST_LENGTH_def sum_list_triv)
  then show ?thesis using assms(2) by (auto simp: client_answer_def Let_def SESSION_KEY_LENGTH_def)
qed

lemma client_message_fields:
  assumes "openssl_ok L" "length (am_LocalChallenge m) = 4" "am_AddonInfo m \<noteq> []" "valid user" "CHR 0x00 \<notin> set user" "length user + length (am_AddonInfo m) \<le> 4000"
  shows "message_ok valid (client_message L user challenge K m)" "length (auth_packet (client_message L user challenge K m)) \<le> 4096"
    "am_RealmID (client_message L user challenge K m) = am_RealmID m" "am_Account (client_message L user challenge K m) = user"
    "am_Digest (client_message L user challenge K m) = session_digest L user (am_LocalChallenge (client_message L user challenge K m)) challenge K"
proof -
  have "length (session_digest L user (am_LocalChallenge m) challenge K) = 20" using assms(1) by (simp add: session_digest_def openssl_ok_def)
  then show "message_ok valid (client_message L user challenge K m)" "length (auth_packet (client_message L user challenge K m)) \<le> 4096"
    using assms(2-6) by (simp_all add: client_message_def message_ok_def auth_packet_def auth_payload_def client_header_def cstring_bytes_def)
qed (simp_all add: client_message_def)

text \<open>A key that was stored opens a session and deciphers what its holder sends.\<close>

lemma stored_key_opens:
  assumes ssl: "openssl_ok (we_lib w)" and db: "db user = Some r" "may_enter w r" and K: "length K = SESSION_KEY_LENGTH"
    and m: "length (am_LocalChallenge m) = 4" "am_AddonInfo m \<noteq> []" "we_utf8_valid w user" "CHR 0x00 \<notin> set user" "length user + length (am_AddonInfo m) \<le> 4000"
      "am_RealmID m = we_realmId w"
    and w': "w' = w\<lparr>we_ACCOUNT_INFO_BY_NAME := SEL_ACCOUNT_INFO_BY_NAME (store_key (UPD_LOGONPROOF K ip loc os tz user) db)\<rparr>"
  shows "\<exists>t u se. ws_receive w' (auth_packet (client_message (we_lib w) user challenge K m)) (SendAuthSession challenge dos new_WorldSocket) = Some (Inr t) \<and>
    ws_queries t = [Q_ACCOUNT_INFO (client_message (we_lib w) user challenge K m)] \<and>
    ws_callback w' (Q_ACCOUNT_INFO (client_message (we_lib w) user challenge K m)) (t\<lparr>ws_queries := []\<rparr>) = Inr u \<and>
    ws_session u = Some se \<and> se_id se = ar_id r \<and> se_name se = user \<and>
    (\<forall>pkts blocks. (\<forall>p\<in>set pkts. sendable w' p) \<and> (\<forall>d\<in>set blocks. length d \<le> 4096) \<and>
       concat blocks = client_stream (we_rc4 w) (WorldPacketCrypt_Init (we_lib w) (we_rc4 w) K) pkts \<longrightarrow>
       (\<exists>v se'. receive_all w' blocks u = Some (Inr v) \<and> ws_session v = Some se' \<and> se_recvQueue se' = pkts))"
proof -
  define M where "M = client_message (we_lib w) user challenge K m"
  define row where "row = r\<lparr>ar_session_key := K, ar_last_ip := ip, ar_locale := loc, ar_os := os\<rparr>"
  have e: "we_lib w' = we_lib w" "we_rc4 w' = we_rc4 w" "we_utf8_valid w' = we_utf8_valid w" "we_realmId w' = we_realmId w" by (simp_all add: w')
  note f = client_message_fields [of "we_lib w" m "we_utf8_valid w" user challenge K, OF ssl m(1-5), folded M_def]
  have "we_ACCOUNT_INFO_BY_NAME w' user = Some row" using db(1) K by (auto simp: w' SEL_ACCOUNT_INFO_BY_NAME_def store_key_def row_def SESSION_KEY_LENGTH_def)
  moreover have "row_admits w' row" using db(2) K by (simp add: row_admits_def may_enter_def row_def w')
  moreover have "ar_session_key row = K" "ar_id row = ar_id r" by (simp_all add: row_def)
  ultimately obtain t u se where t: "ws_receive w' (auth_packet M) (SendAuthSession challenge dos new_WorldSocket) = Some (Inr t)" "ws_queries t = [Q_ACCOUNT_INFO M]"
      "ws_callback w' (Q_ACCOUNT_INFO M) (t\<lparr>ws_queries := []\<rparr>) = Inr u" "between_packets u"
      "ws_authCrypt u = WorldPacketCrypt_Init (we_lib w) (we_rc4 w) K" "ws_session u = Some se" "se_id se = ar_id r" "se_name se = user" "se_recvQueue se = []"
    using session_run [OF awaiting_init [of challenge dos], where env = w' and m = M and row = row and h = "[]"] f m(6) unfolding e by auto
  have "\<exists>v se'. receive_all w' blocks u = Some (Inr v) \<and> ws_session v = Some se' \<and> se_recvQueue se' = pkts"
    if "\<forall>p\<in>set pkts. sendable w' p" "\<forall>d\<in>set blocks. length d \<le> 4096"
      "concat blocks = client_stream (we_rc4 w) (WorldPacketCrypt_Init (we_lib w) (we_rc4 w) K) pkts" for pkts blocks
    using packets_arrive [OF t(4,6) that(1,2)] that(3) t(5,9) unfolding e by auto
  then show ?thesis using t(1-3,6-8) unfolding M_def by blast
qed



end
