(* ===== verification/Spec2Isabelle.thy ===== *)
theory Spec2Isabelle
  imports Companion Isc_Session Event_Map Rbac Task_Scheduler Lfg_Queue Group_Mgr World_Login
begin

text \<open>
  Verification of the ISC server, a World of Warcraft 3.3.5 server derived from TrinityCore. The ISC
  server adds to it a protocol of its own over addon messages, developer tools that edit the world
  from inside the game, conversations and recruitable companions. This development models these
  parts, the common code they stand on, and parts of the game server below them that keep state of their own:
  authentication, the connections to the world and sockets, permissions, schedulers, the dungeon finder and groups.

  \<^bold>\<open>How the parts interact.\<close> A client first logs in at the authentication server: the socket's buffer holds what has
  arrived, \<open>AuthSession::ReadHandler\<close> looks the packets up in its table of handlers, these start queries whose callbacks
  set up \<open>SRP6\<close>, check the proof and the token, store the session key and at last send the realms. The client then connects to
  the world, where \<open>WorldSocket\<close> assembles its packets, checks that it holds the stored key, opens its session and from then on
  deciphers the headers with this key. In the world a client sends frames as addon whispers to itself.
  \<open>WorldSession::HandleIscAddonMessage\<close> (\<open>src/server/game/Handlers/IscHandler.cpp\<close>) checks prefix and target
  (the target is brought to the normal form of a player name), feeds the frame to the session's
  \<open>Isc::Reassembler\<close> (\<open>Server/Protocol/IscProtocol.cpp\<close>), which decodes Base64 and collects frames into an
  \<open>IscPacket\<close>, a \<open>ByteBuffer\<close> with an opcode. The opcode table names the handler, which reads its arguments from
  the buffer, checks the permission, calls \<open>DevToolsMgr\<close> and answers with packets cut into frames again.
  Companions live in \<open>CompanionMgr\<close> and the AI of each creature, which call each other. Whether a session may use the
  developer tools is asked of its \<open>RBACData\<close>. The dungeon finder keeps players and groups in its stores and queues; a
  match it proposes becomes a \<open>Group\<close>, whose rows in the database are indexed by the ids of \<open>GroupMgr\<close>.

  \<^bold>\<open>Theories.\<close>

  \<^item> \<open>Prelude\<close>: machine integers, bytes and characters, little-endian layout, decimal text, and the locale
    \<open>invariant_system\<close> (initial states, steps, an invariant kept by every step), which the stateful
    components interpret.
  \<^item> \<open>Base_Encoding\<close>: \<open>common/Encoding\<close>. The generic encoder and decoder over a record of the alphabet; the
    padding loop is a \<open>partial_function\<close>. The locale \<open>char_code\<close> states what an alphabet must satisfy and
    proves the round trip once; Base64 and Base32 interpret it.
  \<^item> \<open>Byte_Buffer\<close>: \<open>server/shared/Packets/ByteBuffer\<close>. Every read and write as a function to a sum type,
    \<open>Inl\<close> being the exceptions and the failed assertions. The locale \<open>wire_format\<close> (a writer, a reader, the
    bytes) is interpreted for integers, booleans, strings and packed GUIDs; from it follow the round trip of
    any sequence of values and that no read leaves the packet.
  \<^item> \<open>Object_Guid\<close>: \<open>Entities/Object/ObjectGuid\<close>. Parts, creation, text and packed form of object ids.
  \<^item> \<open>Text_Util\<close>, \<open>Utf8\<close>, \<open>Names\<close>: \<open>common/Utilities/Util\<close> and \<open>StringConvert.h\<close>, the shipped \<open>utf8cpp\<close>, and
    the name checks of \<open>Globals/ObjectMgr.cpp\<close>. Integers and text, tokens, durations, money, hexadecimal,
    UTF-8 and UTF-16, alphabets and case (locale \<open>case_mapping\<close>), names of players, pets and charters.
  \<^item> \<open>Isc_Protocol\<close>: \<open>Server/Protocol\<close>. Opcodes, \<open>EncodeFrames\<close>, \<open>Reassembler\<close>.
  \<^item> \<open>Dev_Tools\<close>: \<open>DevTools/DevToolsMgr.cpp\<close> with the part of \<open>ObjectMgr\<close> it edits. The database, the maps, the
    temporary creature and the file system are arguments; calls into the engine are recorded in order.
  \<^item> \<open>Isc_Session\<close>: \<open>Handlers/IscHandler.cpp\<close> and \<open>Globals/ConversationDataStore.cpp\<close>. A handler returns, throws or
    aborts; the session threads the developer tools' state.
  \<^item> \<open>Companion\<close>: \<open>AI/Companion\<close>. Lists and owners as one state, engine answers as a parameter of each step.
  \<^item> \<open>Event_Map\<close>: \<open>common/Utilities/EventMap\<close>. The multimap as a sorted list, its contract the locale
    \<open>ordered_multimap\<close>.
  \<^item> \<open>Task_Scheduler\<close>: \<open>common/Utilities/TaskScheduler\<close>. Tasks are handles in a store, what a task does is a parameter that
    returns the calls it makes; the two dispatch loops are \<open>partial_function\<close>s.
  \<^item> \<open>Rbac\<close>: \<open>Accounts/RBAC.cpp\<close> and \<open>AccountMgr.cpp\<close>, the commands of \<open>cs_rbac.cpp\<close> and the rows of the login database.
    \<open>ExpandPermissions\<close> is a \<open>while\<close> loop.
  \<^item> \<open>Lfg_Roles\<close>, \<open>Lfg_Data\<close>, \<open>Lfg_Queue\<close>: \<open>DungeonFinding\<close>. The role check, the stores of players and groups, and the
    queue with its cache of combinations and the search for groups.
  \<^item> \<open>Player_Group\<close>: \<open>Groups/Group.cpp\<close> and \<open>Handlers/GroupHandler.cpp\<close>. One group with its rows in the tables \<open>groups\<close> and
    \<open>group_member\<close>; \<open>Group_Invariant\<close> proves what every operation keeps, \<open>Group_Life\<close> takes the reachable states under all
    requests. \<open>Group_Mgr\<close>: the storage ids of \<open>Groups/GroupMgr.cpp\<close>.
  \<^item> \<open>Net_Socket\<close>: \<open>common/Utilities/MessageBuffer.h\<close> and \<open>server/shared/Networking/Socket.h\<close>. Positions are 64-bit numbers that
    wrap, accesses outside the storage are errors, what the system answers to reads and writes is an argument.
  \<^item> \<open>Srp6\<close>: \<open>common/Cryptography\<close>, the server side of SRP6 and one-time tokens. OpenSSL is a record of functions; the
    hypothesis \<open>openssl_ok\<close> states its documented arithmetic and the lengths of digests.
  \<^item> \<open>Auth_Session\<close>: \<open>authserver/Server/AuthSession.cpp\<close>, a record that extends the socket's. \<open>Auth_Invariant\<close> proves what
    every byte sequence and every database answer keeps, \<open>Auth_Login\<close> follows logins from the bytes to the session.
  \<^item> \<open>World_Socket\<close>: \<open>game/Server/WorldSocket.cpp\<close>, another record that extends the socket's, with the header cipher of
    \<open>WorldPacketCrypt.cpp\<close> over an arbitrary key stream; the read loop is a \<open>partial_function\<close>. \<open>World_Stream\<close> proves what
    passes over a connection in both directions, \<open>World_Session\<close> who gets a session, and \<open>World_Login\<close> joins the two servers
    through the account table.

  \<^bold>\<open>What the theorems show.\<close> Round trips: frames, packets, values, Base64, packed GUIDs, UTF-8,
  hexadecimal, durations; combined, the change list a client reads is the one the server holds. Reloads: what the
  permissions and the groups have written to the database gives their state back.
  Invariants by rule induction over \<open>inductive\<close> step relations: the reassembler's bound, the change list's
  consistency, the companions' lists and owners, the order of scheduled events and tasks, the permissions of a
  session, the dungeon finder's states, the places of a group, the status of an authentication session. Safety: nobody is
  authenticated without a proof of the password, or of the stored session key when reconnecting; sockets neither lose
  nor reorder bytes; nobody has a session in the world without the session key; nobody without
  the permission changes the change list, no name or description leaves its SQL comment, no read leaves
  its packet, no update file overwrites another, every proposal of the dungeon finder is a playable group, no
  request writes behind a group's counters. Refinement: an addon message is at most one step of
  the developer tools; the storage ids of groups are a pool that gives out the least free id. Equivalence and
  termination: the role check finds an assignment exactly when there is one, permissions expand to the
  closure of their links even when these are cyclic, a scheduler catches up; whoever knows the password is
  authenticated, with the same key on both sides, and this key opens a session in the world, which receives every packet
  the client sends, however the network cuts the stream. Several theorems record what the code gets wrong: a reused \<open>PackedGuid\<close>, \<open>utf8truncate\<close>
  beyond the basic plane, money amounts beyond \<open>int32\<close>, names on basic Latin realms, conversations of 256 lines,
  an unknown permission that is revoked, a task that cancels everything, matches the dungeon finder
  misses, two main tanks after a restart, invitations that are given up before the group exists, sockets that are
  never shut down, tokens that arrive after their proof, and the realms shown to old clients.

  \<^bold>\<open>Bounds and termination.\<close> No model uses fuel: loops are structural or have a measure; the
  \<open>partial_function\<close>s (Base64 padding, the scheduler's dispatch, the role check, the search for groups, the reading of packets) are proved to
  return, and the \<open>while\<close> loop of the permissions to end. Integers keep their width wherever the code can wrap; message and
  change counters carry the bound below which a theorem holds as a hypothesis. Times of the event map are
  integers counted from \<open>TimePoint::min()\<close>, and sizes of containers are natural numbers.

  \<^bold>\<open>Not modelled.\<close> Floating point (positions, movement, vision), the database layer beyond the statements the
  components use, threads, logging, the insides of ciphers and hashes, generated and vendored code other than \<open>utf8cpp\<close>, and the
  gameplay systems not yet reached (spells, auras, combat, entities, maps, scripts, quests, loot). Of groups, the loot
  rounds, bindings to instances and difficulties; of the dungeon finder, the manager. The next ones in
  the plan are the dungeon finder's manager, battleground queues, the instance boss states, conditions and
  hyperlink checks.
\<close>

section \<open>Properties across components\<close>



end
